(* ===== verification/Prelude.thy ===== *)
theory Prelude
  imports Main "HOL-Library.Word" "HOL-Library.AList" "HOL-Library.Char_ord"
    "HOL-Library.List_Lexorder"
begin

unbundle bit_operations_syntax

text \<open>
  Shared vocabulary of the development: byte strings, JavaScript errors as values, the
  insertion-ordered collections of JavaScript, the 32-bit shift, and the contract every
  component with state meets (a step function that keeps an invariant, run over a list of
  events).
\<close>

section \<open>Types and errors\<close>

type_synonym bytes = "8 word list"

text \<open>SHA-256 is @noble/hashes or node:crypto, outside \<open>src/\<close>: a parameter of that type.\<close>

type_synonym hash_fn = "bytes \<Rightarrow> bytes"

text \<open>A thrown JavaScript error, named by the stable code its message starts with.\<close>

datatype js_error = RangeError string | TypeError string | Error string

type_synonym 'a js = "js_error + 'a"

definition rbind :: "'e + 'a \<Rightarrow> ('a \<Rightarrow> 'e + 'b) \<Rightarrow> 'e + 'b" where
  "rbind m f = (case m of Inl e \<Rightarrow> Inl e | Inr x \<Rightarrow> f x)"

fun rmap :: "('a \<Rightarrow> 'e + 'b) \<Rightarrow> 'a list \<Rightarrow> 'e + 'b list" where
  "rmap f [] = Inr []"
| "rmap f (x # xs) = rbind (f x) (\<lambda>y. rbind (rmap f xs) (\<lambda>ys. Inr (y # ys)))"

text \<open>A loop over a list whose body may throw.\<close>

fun rfold :: "('s \<Rightarrow> 'a \<Rightarrow> 'e + 's) \<Rightarrow> 's \<Rightarrow> 'a list \<Rightarrow> 'e + 's" where
  "rfold f s [] = Inr s"
| "rfold f s (x # xs) = rbind (f s x) (\<lambda>t. rfold f t xs)"

named_theorems wire_simps "evaluation of the wire readers and writers"
named_theorems tree_simps "lengths and indices of Merkle levels"

lemma rbind_simps [simp]:
  "rbind (Inl e) f = Inl e"
  "rbind (Inr x) f = f x"
  by (simp_all add: rbind_def)

lemma rbind_Inr_conv: "rbind m f = Inr y \<longleftrightarrow> (\<exists>x. m = Inr x \<and> f x = Inr y)"
  by (cases m) auto

lemma rbind_Inl_conv:
  "rbind m f = Inl e \<longleftrightarrow> m = Inl e \<or> (\<exists>x. m = Inr x \<and> f x = Inl e)"
  by (cases m) auto

text \<open>A computation that does not throw.\<close>

definition returns :: "'e + 'a \<Rightarrow> bool" where
  "returns m \<longleftrightarrow> (\<exists>x. m = Inr x)"

lemma returns_simps [simp]:
  "returns (Inr x)"
  "\<not> returns (Inl e)"
  "returns (if c then m else n) \<longleftrightarrow> (if c then returns m else returns n)"
  by (auto simp: returns_def)

lemma returns_rbind: "returns (rbind m f) \<longleftrightarrow> (\<exists>x. m = Inr x \<and> returns (f x))"
  by (auto simp: returns_def rbind_Inr_conv)

lemma returns_option [simp]:
  "returns (case r of None \<Rightarrow> m | Some x \<Rightarrow> f x) \<longleftrightarrow> (case r of None \<Rightarrow> returns m | Some x \<Rightarrow> returns (f x))"
  by (cases r) simp_all

lemma rmap_pure: "(\<And>x. x \<in> set xs \<Longrightarrow> f x = Inr (g x)) \<Longrightarrow> rmap f xs = Inr (map g xs)"
  by (induction xs) auto

lemma rmap_length: "rmap f xs = Inr ys \<Longrightarrow> length ys = length xs"
  by (induction xs arbitrary: ys) (auto simp: rbind_Inr_conv)

lemma rmap_nth: "rmap f xs = Inr ys \<Longrightarrow> i < length xs \<Longrightarrow> f (xs ! i) = Inr (ys ! i)"
  by (induction xs arbitrary: ys i) (auto simp: rbind_Inr_conv nth_Cons split: nat.splits)

lemma rmap_all: "rmap f xs = Inr ys \<Longrightarrow> y \<in> set ys \<Longrightarrow> \<exists>x \<in> set xs. f x = Inr y"
  by (induction xs arbitrary: ys) (auto simp: rbind_Inr_conv)

lemma rfold_inv:
  "rfold f s xs = Inr t \<Longrightarrow> I s \<Longrightarrow>
   (\<And>s x t. x \<in> set xs \<Longrightarrow> I s \<Longrightarrow> f s x = Inr t \<Longrightarrow> I t) \<Longrightarrow> I t"
proof (induction xs arbitrary: s)
  case (Cons x xs)
  then obtain u where u: "f s x = Inr u" "rfold f u xs = Inr t" by (auto simp: rbind_Inr_conv)
  from Cons.prems(2,3) u(1) have "I u" by (meson list.set_intros(1))
  from Cons.IH [OF u(2) this] Cons.prems(3) show ?case by (meson list.set_intros(2))
qed simp

lemma rfold_returns:
  "I s \<Longrightarrow> (\<And>s x. x \<in> set xs \<Longrightarrow> I s \<Longrightarrow> \<exists>t. f s x = Inr t \<and> I t) \<Longrightarrow>
   \<exists>t. rfold f s xs = Inr t \<and> I t"
proof (induction xs arbitrary: s)
  case (Cons x xs)
  obtain t where "f s x = Inr t" "I t" using Cons.prems(2) [of x s] Cons.prems(1) by auto
  moreover obtain u where "rfold f t xs = Inr u" "I u"
    using Cons.IH [OF \<open>I t\<close>] Cons.prems(2) by auto
  ultimately show ?case by simp
qed simp

lemma rfold_append: "rfold f s (xs @ ys) = rbind (rfold f s xs) (\<lambda>t. rfold f t ys)"
proof (induction xs arbitrary: s)
  case (Cons x xs)
  then show ?case by (cases "f s x") simp_all
qed simp

lemma rfold_cong:
  "(\<And>s x. x \<in> set xs \<Longrightarrow> f s x = g s x) \<Longrightarrow> rfold f s xs = rfold g s xs"
proof (induction xs arbitrary: s)
  case (Cons x xs)
  then show ?case by (cases "g s x") simp_all
qed simp

lemma rfold_Inl: "rfold f s xs = Inl e \<Longrightarrow> \<exists>t x. x \<in> set xs \<and> f t x = Inl e"
proof (induction xs arbitrary: s)
  case (Cons x xs)
  then show ?case by (cases "f s x") fastforce+
qed simp

section \<open>JavaScript sets and maps in insertion order\<close>

text \<open>
  A \<open>Set\<close> that is iterated is a list without duplicates: \<open>add\<close> appends a new element.
  A \<open>Map\<close> that is iterated is an association list with distinct keys: \<open>AList.update\<close>
  replaces in place or appends, which is what \<open>Map.prototype.set\<close> does.
\<close>

definition add_last :: "'a \<Rightarrow> 'a list \<Rightarrow> 'a list" where
  "add_last x xs = (if x \<in> set xs then xs else xs @ [x])"

lemma set_add_last [simp]: "set (add_last x xs) = insert x (set xs)"
  by (auto simp: add_last_def)

lemma distinct_add_last [simp]: "distinct (add_last x xs) = distinct xs"
  by (simp add: add_last_def)

definition add_all :: "'a list \<Rightarrow> 'a list \<Rightarrow> 'a list" where
  "add_all xs ys = foldl (\<lambda>acc y. add_last y acc) xs ys"

lemma set_add_all [simp]: "set (add_all xs ys) = set xs \<union> set ys"
  unfolding add_all_def by (induction ys arbitrary: xs) auto

lemma distinct_add_all [simp]: "distinct (add_all xs ys) = distinct xs"
  unfolding add_all_def by (induction ys arbitrary: xs) auto

section \<open>Numbers\<close>

text \<open>
  JavaScript's \<open>>>\<close> and \<open>^\<close> convert their operand to a signed 32-bit integer first;
  \<open>%\<close> takes the sign of the dividend.
\<close>

definition to_int32 :: "int \<Rightarrow> int" where
  "to_int32 x = (x + 2 ^ 31) mod 2 ^ 32 - 2 ^ 31"

definition js_shr1 :: "int \<Rightarrow> int" where
  "js_shr1 x = to_int32 x div 2"

definition js_rem2 :: "int \<Rightarrow> int" where
  "js_rem2 x = (if x < 0 then - ((- x) mod 2) else x mod 2)"

lemma to_int32_small: "- (2 ^ 31) \<le> x \<Longrightarrow> x < 2 ^ 31 \<Longrightarrow> to_int32 x = x"
  by (simp add: to_int32_def)

lemma js_shr1_nat: "n < 2 ^ 31 \<Longrightarrow> js_shr1 (int n) = int (n div 2)"
  by (simp add: js_shr1_def to_int32_small zdiv_int)

lemma js_rem2_nat: "js_rem2 (int n) = int (n mod 2)"
  by (simp add: js_rem2_def zmod_int)

text \<open>Big-endian fixed-width encodings (\<open>writeUInt32BE\<close>, \<open>writeBigUInt64BE\<close>).\<close>

fun be_bytes :: "nat \<Rightarrow> nat \<Rightarrow> bytes" where
  "be_bytes 0 n = []"
| "be_bytes (Suc k) n = be_bytes k (n div 256) @ [of_nat n]"

lemma length_be_bytes [simp]: "length (be_bytes k n) = k"
  by (induction k arbitrary: n) auto

lemma be_bytes_inj:
  "be_bytes k m = be_bytes k n \<Longrightarrow> m < 256 ^ k \<Longrightarrow> n < 256 ^ k \<Longrightarrow> m = n"
proof (induction k arbitrary: m n)
  case 0
  then show ?case by simp
next
  case (Suc k)
  from Suc.prems(1) have hi: "be_bytes k (m div 256) = be_bytes k (n div 256)"
    and lo: "(of_nat m :: 8 word) = of_nat n"
    by auto
  have "m div 256 < 256 ^ k" "n div 256 < 256 ^ k"
    using Suc.prems(2,3) by (simp_all add: less_mult_imp_div_less mult.commute)
  with Suc.IH hi have d: "m div 256 = n div 256" by blast
  have "unat (of_nat m :: 8 word) = unat (of_nat n :: 8 word)" using lo by simp
  then have "m mod 256 = n mod 256" by (simp add: unat_of_nat)
  with d show ?case by (metis div_mult_mod_eq)
qed

section \<open>Components as state machines\<close>

text \<open>
  A component is a step function over its events. The one fact every component needs is that
  an invariant of single steps is an invariant of runs; it is proved once here, and each
  component interprets the locale on its own step function.
\<close>

locale machine =
  fixes step :: "'s \<Rightarrow> 'e \<Rightarrow> 's"
    and inv :: "'s \<Rightarrow> bool"
  assumes step_inv: "inv s \<Longrightarrow> inv (step s e)"
begin

lemma run_inv: "inv s \<Longrightarrow> inv (foldl step s es)"
  by (induction es arbitrary: s) (auto intro: step_inv)

lemma run_prefix_inv: "inv s \<Longrightarrow> inv (foldl step s (take n es))"
  by (rule run_inv)

end

text \<open>A quantity that no step decreases; used for counters and high-water marks.\<close>

locale monotone_machine = machine step inv
  for step :: "'s \<Rightarrow> 'e \<Rightarrow> 's" and inv :: "'s \<Rightarrow> bool" +
  fixes level :: "'s \<Rightarrow> nat"
  assumes step_level: "inv s \<Longrightarrow> level s \<le> level (step s e)"
begin

lemma run_level: "inv s \<Longrightarrow> level s \<le> level (foldl step s es)"
proof (induction es arbitrary: s)
  case Nil
  then show ?case by simp
next
  case (Cons e es)
  from Cons.prems have "level s \<le> level (step s e)" by (rule step_level)
  also have "\<dots> \<le> level (foldl step (step s e) es)"
    by (rule Cons.IH) (rule step_inv [OF Cons.prems])
  finally show ?case by simp
qed

end

text \<open>
  A component that answers its events refines a specification when the two give the same answers
  and stay related; then whole runs give the same answers.
\<close>

fun answers :: "('s \<Rightarrow> 'e \<Rightarrow> 'r \<times> 's) \<Rightarrow> 's \<Rightarrow> 'e list \<Rightarrow> 'r list" where
  "answers step s [] = []"
| "answers step s (e # es) = (case step s e of (r, t) \<Rightarrow> r # answers step t es)"

fun final :: "('s \<Rightarrow> 'e \<Rightarrow> 'r \<times> 's) \<Rightarrow> 's \<Rightarrow> 'e list \<Rightarrow> 's" where
  "final step s [] = s"
| "final step s (e # es) = final step (snd (step s e)) es"

locale simulation =
  fixes cstep :: "'c \<Rightarrow> 'e \<Rightarrow> 'r \<times> 'c"
    and astep :: "'a \<Rightarrow> 'e \<Rightarrow> 'r \<times> 'a"
    and R :: "'c \<Rightarrow> 'a \<Rightarrow> bool"
  assumes same_answer: "R c a \<Longrightarrow> fst (cstep c e) = fst (astep a e)"
    and related: "R c a \<Longrightarrow> R (snd (cstep c e)) (snd (astep a e))"
begin

lemma run_answers: "R c a \<Longrightarrow> answers cstep c es = answers astep a es"
proof (induction es arbitrary: c a)
  case (Cons e es)
  then show ?case using same_answer [of c a e] related [of c a e] by (simp add: split_beta)
qed simp

lemma run_related: "R c a \<Longrightarrow> R (final cstep c es) (final astep a es)"
  by (induction es arbitrary: c a) (simp_all add: related)

end

text \<open>The first element with the least key, as a loop that keeps the best so far finds it.\<close>

definition firstMin :: "('a \<Rightarrow> nat) \<Rightarrow> 'a list \<Rightarrow> 'a option" where
  "firstMin f xs = foldl (\<lambda>best x. case best of None \<Rightarrow> Some x | Some y \<Rightarrow> if f x < f y then Some x else best) None xs"

lemma firstMin_Nil [simp]: "firstMin f [] = None"
  by (simp add: firstMin_def)

lemma firstMin_sorted:
  assumes "sorted (map f (x # xs))"
  shows "firstMin f (x # xs) = Some x"
proof -
  have "foldl (\<lambda>best x. case best of None \<Rightarrow> Some x | Some y \<Rightarrow> if f x < f y then Some x else best) (Some x) xs = Some x"
    using assms by (induction xs rule: rev_induct) (auto simp: sorted_append)
  then show ?thesis by (simp add: firstMin_def)
qed

lemma sort_key_sorted: "sorted (map f xs) \<Longrightarrow> sort_key f xs = xs"
  by (induction xs) (simp_all add: insort_is_Cons)

end
