(* ===== verification/Hashing.thy ===== *)
theory Hashing
  imports Prelude
begin

text \<open>
  \<open>core/crypto/src/hashing.ts\<close>: the domain-separated leaf and node hashes and the preimage
  a relay signs when it assigns a leaf its position. SHA-256 is the parameter \<open>sha\<close>.
\<close>

section \<open>Domain-separated hashes\<close>

definition MSG_LEAF :: "8 word" where "MSG_LEAF = 0x00"
definition INTERNAL_NODE :: "8 word" where "INTERNAL_NODE = 0x01"
definition CTRL_LEAF :: "8 word" where "CTRL_LEAF = 0x02"
definition DOC_LEAF :: "8 word" where "DOC_LEAF = 0x04"
definition REJECT_LEAF :: "8 word" where "REJECT_LEAF = 0x05"

lemmas domain_defs = MSG_LEAF_def INTERNAL_NODE_def CTRL_LEAF_def DOC_LEAF_def REJECT_LEAF_def

definition prefixed :: "8 word \<Rightarrow> bytes \<Rightarrow> bytes" where
  "prefixed prefix d = prefix # d"

definition hash :: "hash_fn \<Rightarrow> bytes \<Rightarrow> bytes" where
  "hash sha d = sha d"

definition msgLeafHash :: "hash_fn \<Rightarrow> bytes \<Rightarrow> bytes" where
  "msgLeafHash sha d = sha (prefixed MSG_LEAF d)"

definition ctrlLeafHash :: "hash_fn \<Rightarrow> bytes \<Rightarrow> bytes" where
  "ctrlLeafHash sha d = sha (prefixed CTRL_LEAF d)"

definition docLeafHash :: "hash_fn \<Rightarrow> bytes \<Rightarrow> bytes" where
  "docLeafHash sha d = sha (prefixed DOC_LEAF d)"

definition rejectLeafHash :: "hash_fn \<Rightarrow> bytes \<Rightarrow> bytes" where
  "rejectLeafHash sha d = sha (prefixed REJECT_LEAF d)"

definition nodeHash :: "hash_fn \<Rightarrow> bytes \<Rightarrow> bytes \<Rightarrow> bytes js" where
  "nodeHash sha left right =
     (if length left \<noteq> 32 \<or> length right \<noteq> 32
      then Inl (Error ''nodeHash: expected 32-byte inputs'')
      else Inr (sha (INTERNAL_NODE # left @ right)))"

definition opaqueLeafHash :: "hash_fn \<Rightarrow> int \<Rightarrow> bytes \<Rightarrow> bytes js" where
  "opaqueLeafHash sha prefix d =
     (if prefix < 0 \<or> prefix > 255
      then Inl (RangeError ''opaqueLeafHash: prefix must be an integer 0-255'')
      else if prefix = uint INTERNAL_NODE
      then Inl (RangeError ''opaqueLeafHash: prefix 0x01 is the internal-node domain'')
      else Inr (sha (prefixed (of_int prefix) d)))"

lemma nodeHash_ok:
  "length l = 32 \<Longrightarrow> length r = 32 \<Longrightarrow> nodeHash sha l r = Inr (sha (INTERNAL_NODE # l @ r))"
  by (simp add: nodeHash_def)

lemma nodeHash_error_iff:
  "(\<exists>e. nodeHash sha l r = Inl e) \<longleftrightarrow> length l \<noteq> 32 \<or> length r \<noteq> 32"
  by (simp add: nodeHash_def)

lemma opaque_never_node_domain:
  "opaqueLeafHash sha p d = Inr h \<Longrightarrow>
     \<exists>w. w \<noteq> INTERNAL_NODE \<and> uint w = p \<and> h = sha (prefixed w d)"
proof -
  assume h: "opaqueLeafHash sha p d = Inr h"
  then have range: "0 \<le> p" "p \<le> 255" and ne: "p \<noteq> uint INTERNAL_NODE"
    and eq: "h = sha (prefixed (of_int p) d)"
    by (auto simp: opaqueLeafHash_def split: if_splits)
  have u: "uint (of_int p :: 8 word) = p"
    using range by (simp add: uint_word_of_int_eq take_bit_int_eq_self)
  with ne eq show ?thesis by metis
qed

section \<open>The relay's ordering attestation\<close>

definition RELAY_ORDER_DOMAIN :: string where
  "RELAY_ORDER_DOMAIN = ''CELLO-RELAY-ORDER-v1''"

definition ascii :: "string \<Rightarrow> bytes" where
  "ascii s = map of_char s"

definition relayAckPreimage :: "bytes \<Rightarrow> bytes \<Rightarrow> int \<Rightarrow> bytes \<Rightarrow> int \<Rightarrow> bytes" where
  "relayAckPreimage sessionId hashBytes sequenceNumber runningRoot timestamp =
     ascii RELAY_ORDER_DOMAIN @ sessionId @ hashBytes
       @ be_bytes 4 (nat (sequenceNumber mod 2 ^ 32))
       @ runningRoot @ be_bytes 8 (nat timestamp)"

definition buildRelayAckTbs ::
  "hash_fn \<Rightarrow> bytes \<Rightarrow> bytes \<Rightarrow> int \<Rightarrow> bytes \<Rightarrow> int \<Rightarrow> bytes js" where
  "buildRelayAckTbs sha sessionId hashBytes sequenceNumber runningRoot timestamp =
     (if length sessionId \<noteq> 16 then Inl (RangeError ''buildRelayAckTbs: session_id must be 16 bytes'')
      else if length hashBytes \<noteq> 32 then Inl (RangeError ''buildRelayAckTbs: content_hash must be 32 bytes'')
      else if length runningRoot \<noteq> 32 then Inl (RangeError ''buildRelayAckTbs: running_root must be 32 bytes'')
      else if timestamp < 0 \<or> timestamp \<ge> 2 ^ 64 then Inl (RangeError ''writeBigUInt64BE'')
      else Inr (sha (relayAckPreimage sessionId hashBytes sequenceNumber runningRoot timestamp)))"

lemma relayAckPreimage_inj:
  assumes "length s = 16" "length s' = 16" "length h = 32" "length h' = 32"
    and "length r = 32" "length r' = 32"
    and "0 \<le> t" "t < 2 ^ 64" "0 \<le> t'" "t' < 2 ^ 64"
    and eq: "relayAckPreimage s h q r t = relayAckPreimage s' h' q' r' t'"
  shows "s = s' \<and> h = h' \<and> q mod 2 ^ 32 = q' mod 2 ^ 32 \<and> r = r' \<and> t = t'"
proof -
  have parts: "s = s'" "h = h'" "r = r'"
      "be_bytes 4 (nat (q mod 2 ^ 32)) = be_bytes 4 (nat (q' mod 2 ^ 32))"
      "be_bytes 8 (nat t) = be_bytes 8 (nat t')"
    using eq assms(1-6) by (simp_all add: relayAckPreimage_def)
  have small: "nat (x mod 2 ^ 32) < 256 ^ 4" for x :: int
    using pos_mod_bound [of "2 ^ 32" x] by (simp add: nat_less_iff)
  have "nat (q mod 2 ^ 32) = nat (q' mod 2 ^ 32)"
    using be_bytes_inj [OF parts(4) small small] .
  then have q: "q mod 2 ^ 32 = q' mod 2 ^ 32"
    by (metis int_nat_eq mod_int_pos_iff zero_less_numeral zero_less_power order.strict_implies_order)
  have "nat t < 256 ^ 8" "nat t' < 256 ^ 8"
    using assms(7-10) by (simp_all add: nat_less_iff)
  then have "nat t = nat t'" by (rule be_bytes_inj [OF parts(5)])
  then have "t = t'" using assms(7,9) by simp
  with parts q show ?thesis by blast
qed

end
