(* ===== verification/Merkle.thy ===== *)
theory Merkle
  imports Hashing
begin

text \<open>
  \<open>core/crypto/src/merkle.ts\<close>: the level-by-level Merkle tree, its root, inclusion proofs
  and their verifier, with RFC 6962's recursive tree hash as the reference the levels
  implement. A digest is a byte string; the code's width checks are kept.
\<close>

section \<open>Building the tree\<close>

datatype LeafInput =
    LMsg bytes
  | LCtrl bytes
  | LDoc bytes
  | LReject bytes
  | LOpaque int bytes
  | LHash bytes

record MerkleTree =
  tree_size :: nat
  levelHashes :: "bytes list list"

fun leafInputHash :: "hash_fn \<Rightarrow> LeafInput \<Rightarrow> bytes js" where
  "leafInputHash sha (LMsg d) = Inr (msgLeafHash sha d)"
| "leafInputHash sha (LCtrl d) = Inr (ctrlLeafHash sha d)"
| "leafInputHash sha (LDoc d) = Inr (docLeafHash sha d)"
| "leafInputHash sha (LReject d) = Inr (rejectLeafHash sha d)"
| "leafInputHash sha (LOpaque p d) = opaqueLeafHash sha p d"
| "leafInputHash sha (LHash d) = Inr d"

text \<open>The body of the \<open>while\<close> loop: pair neighbours, promote an odd last node unchanged.\<close>

fun nextLevel :: "hash_fn \<Rightarrow> bytes list \<Rightarrow> bytes list js" where
  "nextLevel sha [] = Inr []"
| "nextLevel sha [x] = Inr [x]"
| "nextLevel sha (x # y # rest) =
     rbind (nodeHash sha x y) (\<lambda>h. rbind (nextLevel sha rest) (\<lambda>hs. Inr (h # hs)))"

lemma nextLevel_length:
  "nextLevel sha xs = Inr ys \<Longrightarrow> length ys = (length xs + 1) div 2"
  by (induction sha xs arbitrary: ys rule: nextLevel.induct) (auto simp: rbind_Inr_conv)

function upperLevels :: "hash_fn \<Rightarrow> bytes list \<Rightarrow> bytes list list js" where
  "upperLevels sha current =
     (if length current > 1
      then (case nextLevel sha current of
              Inl e \<Rightarrow> Inl e
            | Inr next \<Rightarrow> rbind (upperLevels sha next) (\<lambda>rest. Inr (next # rest)))
      else Inr [])"
  by pat_completeness auto
termination
  by (relation "measure (\<lambda>(sha, current). length current)") (auto dest: nextLevel_length)

declare upperLevels.simps [simp del]

definition buildMerkleTree :: "hash_fn \<Rightarrow> LeafInput list \<Rightarrow> MerkleTree js" where
  "buildMerkleTree sha leaves =
     (if leaves = [] then Inr \<lparr>tree_size = 0, levelHashes = []\<rparr>
      else rbind (rmap (leafInputHash sha) leaves) (\<lambda>current.
           rbind (upperLevels sha current) (\<lambda>upper.
             Inr \<lparr>tree_size = length leaves, levelHashes = current # upper\<rparr>)))"

definition merkleRoot :: "hash_fn \<Rightarrow> MerkleTree \<Rightarrow> bytes" where
  "merkleRoot sha tree =
     (if tree_size tree = 0 then hash sha []
      else hd (last (levelHashes tree)))"

section \<open>Inclusion proofs\<close>

text \<open>
  \<open>idx ^ 1\<close> on a non-negative index flips its last bit; the walk visits every level but the
  last one.
\<close>

definition siblingOf :: "nat \<Rightarrow> nat" where
  "siblingOf idx = (if even idx then idx + 1 else idx - 1)"

fun proofWalk :: "bytes list list \<Rightarrow> nat \<Rightarrow> bytes list" where
  "proofWalk [] idx = []"
| "proofWalk [_] idx = []"
| "proofWalk (row # up # rest) idx =
     (if siblingOf idx < length row then [row ! siblingOf idx] else [])
       @ proofWalk (up # rest) (idx div 2)"

definition inclusionProof :: "MerkleTree \<Rightarrow> nat \<Rightarrow> bytes list js" where
  "inclusionProof tree index =
     (if tree_size tree = 0 \<or> index \<ge> tree_size tree
      then Inl (RangeError ''inclusionProof: index out of range'')
      else Inr (proofWalk (levelHashes tree) index))"

section \<open>Verification\<close>

definition constantTimeEqual :: "bytes \<Rightarrow> bytes \<Rightarrow> bool" where
  "constantTimeEqual a b =
     (if length a \<noteq> length b then False
      else foldl (\<lambda>diff (x, y). diff OR (x XOR y)) 0 (zip a b) = 0)"

text \<open>
  The \<open>while (sz > 1)\<close> loop. The unread part of the proof stands for \<open>proof\<close> and
  \<open>proofIdx\<close>; \<open>None\<close> is the early \<open>return false\<close> when it runs out. Index and size are
  JavaScript numbers: the index goes through the 32-bit shift.
\<close>

function verifyLoop ::
  "hash_fn \<Rightarrow> bytes \<Rightarrow> int \<Rightarrow> int \<Rightarrow> bytes list \<Rightarrow> (bytes \<times> bytes list) option js" where
  "verifyLoop sha cur idx sz path =
     (if sz > 1 then
        (if idx = sz - 1 \<and> js_rem2 idx = 0
         then verifyLoop sha cur (js_shr1 idx) ((sz + 1) div 2) path
         else (case path of
                 [] \<Rightarrow> Inr None
               | sibling # rest \<Rightarrow>
                   (case (if js_rem2 idx = 1 then nodeHash sha sibling cur
                          else nodeHash sha cur sibling) of
                      Inl e \<Rightarrow> Inl e
                    | Inr cur' \<Rightarrow> verifyLoop sha cur' (js_shr1 idx) ((sz + 1) div 2) rest)))
      else Inr (Some (cur, path)))"
  by pat_completeness auto
termination
  by (relation "measure (\<lambda>(sha, cur, idx, sz, path). nat sz)") auto

declare verifyLoop.simps [simp del]

definition verifyInclusion ::
  "hash_fn \<Rightarrow> bytes \<Rightarrow> int \<Rightarrow> int \<Rightarrow> bytes list \<Rightarrow> bytes \<Rightarrow> bool js" where
  "verifyInclusion sha leafHash index treeSize path expectedRoot =
     (if length leafHash \<noteq> 32 then Inr False
      else if treeSize = 0 \<or> index \<ge> treeSize then Inr False
      else if treeSize = 1
      then (if path \<noteq> [] then Inr False else Inr (constantTimeEqual leafHash expectedRoot))
      else if \<exists>sibling \<in> set path. length sibling \<noteq> 32 then Inr False
      else rbind (verifyLoop sha leafHash index treeSize path) (\<lambda>r.
             case r of
               None \<Rightarrow> Inr False
             | Some (cur, rest) \<Rightarrow>
                 if rest \<noteq> [] then Inr False else Inr (constantTimeEqual cur expectedRoot)))"

lemma xor_zero_iff: "x XOR y = 0 \<longleftrightarrow> x = y" for x y :: "8 word"
proof
  assume h: "x XOR y = 0"
  show "x = y"
  proof (rule bit_word_eqI)
    fix n assume "n < LENGTH(8)"
    have "bit (x XOR y) n = bit (0 :: 8 word) n" by (simp only: h)
    then show "bit x n = bit y n" by (simp add: bit_xor_iff)
  qed
next
  assume "x = y"
  then show "x XOR y = 0" by (simp only: xor_self_eq)
qed

lemma or_fold_zero:
  fixes d :: "8 word"
  shows "foldl (\<lambda>diff (x, y). diff OR (x XOR y)) d ps = 0
           \<longleftrightarrow> d = 0 \<and> (\<forall>(x, y) \<in> set ps. x = y)"
proof (induction ps arbitrary: d)
  case Nil
  then show ?case by simp
next
  case (Cons p ps)
  obtain x y where p: "p = (x, y)" by (cases p)
  have "d OR (x XOR y) = 0 \<longleftrightarrow> d = 0 \<and> x = y"
    by (auto simp: or_eq_0_iff xor_zero_iff)
  with Cons.IH [of "d OR (x XOR y)"] show ?case by (auto simp: p)
qed

lemma constantTimeEqual_iff [simp]: "constantTimeEqual a b \<longleftrightarrow> a = b"
  by (simp add: constantTimeEqual_def or_fold_zero list_eq_iff_zip_eq)

section \<open>The levels as pure functions\<close>

text \<open>
  SHA-256 digests have 32 bytes (FIPS 180-4); under that hypothesis no width check of
  \<open>nodeHash\<close> fires inside the tree and the level construction is a pure function.
\<close>

definition width32 :: "hash_fn \<Rightarrow> bool" where
  "width32 sha \<longleftrightarrow> (\<forall>d. length (sha d) = 32)"

definition all32 :: "bytes list \<Rightarrow> bool" where
  "all32 xs \<longleftrightarrow> (\<forall>x \<in> set xs. length x = 32)"

definition node :: "hash_fn \<Rightarrow> bytes \<Rightarrow> bytes \<Rightarrow> bytes" where
  "node sha l r = sha (INTERNAL_NODE # l @ r)"

fun pairs :: "hash_fn \<Rightarrow> bytes list \<Rightarrow> bytes list" where
  "pairs sha [] = []"
| "pairs sha [x] = [x]"
| "pairs sha (x # y # rest) = node sha x y # pairs sha rest"

lemma all32_simps [simp]:
  "all32 []"
  "all32 (x # xs) \<longleftrightarrow> length x = 32 \<and> all32 xs"
  "all32 (xs @ ys) \<longleftrightarrow> all32 xs \<and> all32 ys"
  by (auto simp: all32_def)

lemma all32_nth [simp]: "all32 xs \<Longrightarrow> i < length xs \<Longrightarrow> length (xs ! i) = 32"
  by (simp add: all32_def)

lemma length_node [simp]: "width32 sha \<Longrightarrow> length (node sha l r) = 32"
  by (simp add: width32_def node_def)

lemma nodeHash_node:
  "length l = 32 \<Longrightarrow> length r = 32 \<Longrightarrow> nodeHash sha l r = Inr (node sha l r)"
  by (simp add: nodeHash_ok node_def)

lemma length_pairs [tree_simps]: "length (pairs sha xs) = (length xs + 1) div 2"
  by (induction sha xs rule: pairs.induct) auto

lemma all32_pairs [simp]: "width32 sha \<Longrightarrow> all32 xs \<Longrightarrow> all32 (pairs sha xs)"
  by (induction sha xs rule: pairs.induct) auto

lemma nextLevel_pairs: "all32 xs \<Longrightarrow> nextLevel sha xs = Inr (pairs sha xs)"
  by (induction sha xs rule: nextLevel.induct) (auto simp: nodeHash_node)

lemma pairs_nth:
  "i < (length xs + 1) div 2 \<Longrightarrow>
     pairs sha xs ! i =
       (if 2 * i + 1 < length xs then node sha (xs ! (2 * i)) (xs ! (2 * i + 1)) else xs ! (2 * i))"
proof (induction sha xs arbitrary: i rule: pairs.induct)
  case (3 sha x y rest)
  then show ?case by (cases i) auto
qed auto

lemma pairs_nth_sibling [tree_simps]:
  assumes "i < length xs"
  shows "pairs sha xs ! (i div 2) =
    (if i = length xs - 1 \<and> even i then xs ! i
     else if odd i then node sha (xs ! (i - 1)) (xs ! i)
     else node sha (xs ! i) (xs ! (i + 1)))"
proof -
  have "i div 2 < (length xs + 1) div 2" using assms by linarith
  note nth = pairs_nth [OF this, of sha]
  show ?thesis
  proof (cases "even i")
    case True
    then have h: "2 * (i div 2) = i" by simp
    have last: "i + 1 < length xs \<longleftrightarrow> i \<noteq> length xs - 1"
      using assms by linarith
    from True show ?thesis unfolding nth h last by simp
  next
    case False
    then have h: "2 * (i div 2) + 1 = i" and h': "2 * (i div 2) = i - 1" by presburger+
    from False assms show ?thesis unfolding nth h h' by simp
  qed
qed

lemma pairs_append_even:
  "even (length xs) \<Longrightarrow> pairs sha (xs @ ys) = pairs sha xs @ pairs sha ys"
  by (induction sha xs rule: pairs.induct) auto

function levels :: "hash_fn \<Rightarrow> bytes list \<Rightarrow> bytes list list" where
  "levels sha xs = xs # (if length xs > 1 then levels sha (pairs sha xs) else [])"
  by pat_completeness auto
termination
  by (relation "measure (\<lambda>(sha, xs). length xs)") (auto simp: tree_simps)

declare levels.simps [simp del]

function rootOf :: "hash_fn \<Rightarrow> bytes list \<Rightarrow> bytes" where
  "rootOf sha xs = (if length xs > 1 then rootOf sha (pairs sha xs) else hd xs)"
  by pat_completeness auto
termination
  by (relation "measure (\<lambda>(sha, xs). length xs)") (auto simp: tree_simps)

declare rootOf.simps [simp del]

lemma levels_ne [simp]: "levels sha xs \<noteq> []"
  by (subst levels.simps) simp

lemma hd_levels [simp]: "hd (levels sha xs) = xs"
  by (subst levels.simps) simp

lemma levels_step: "length xs > 1 \<Longrightarrow> levels sha xs = xs # levels sha (pairs sha xs)"
  by (subst levels.simps) simp

lemma levels_stop: "length xs \<le> 1 \<Longrightarrow> levels sha xs = [xs]"
  by (subst levels.simps) simp

lemma rootOf_step: "length xs > 1 \<Longrightarrow> rootOf sha xs = rootOf sha (pairs sha xs)"
  by (subst rootOf.simps) simp

lemma rootOf_single [simp]: "rootOf sha [x] = x"
  by (subst rootOf.simps) simp

lemma last_levels: "hd (last (levels sha xs)) = rootOf sha xs"
proof (induction sha xs rule: levels.induct)
  case (1 sha xs)
  show ?case
  proof (cases "length xs > 1")
    case True
    with "1.IH" show ?thesis by (simp add: levels_step rootOf_step)
  next
    case False
    then show ?thesis by (simp add: levels_stop rootOf.simps)
  qed
qed

lemma upperLevels_levels:
  "width32 sha \<Longrightarrow> all32 xs \<Longrightarrow> upperLevels sha xs = Inr (tl (levels sha xs))"
proof (induction sha xs rule: levels.induct)
  case (1 sha xs)
  show ?case
  proof (cases "length xs > 1")
    case True
    with 1 have "upperLevels sha (pairs sha xs) = Inr (tl (levels sha (pairs sha xs)))"
      by simp
    moreover have "levels sha (pairs sha xs) = pairs sha xs # tl (levels sha (pairs sha xs))"
      by (metis hd_levels levels_ne list.collapse)
    ultimately show ?thesis
      using True "1.prems"
      by (subst upperLevels.simps) (simp add: nextLevel_pairs levels_step)
  next
    case False
    then show ?thesis by (subst upperLevels.simps) (simp add: levels_stop)
  qed
qed

text \<open>What \<open>buildMerkleTree\<close> builds once the leaves hash to \<open>hs\<close>.\<close>

lemma buildMerkleTree_levels:
  assumes "width32 sha" and "rmap (leafInputHash sha) leaves = Inr hs" and "all32 hs"
    and "leaves \<noteq> []"
  shows "buildMerkleTree sha leaves = Inr \<lparr>tree_size = length leaves, levelHashes = levels sha hs\<rparr>"
proof -
  have "hs # tl (levels sha hs) = levels sha hs"
    by (metis hd_levels levels_ne list.collapse)
  with assms show ?thesis
    by (simp add: buildMerkleTree_def upperLevels_levels)
qed

lemma merkleRoot_levels:
  assumes "width32 sha" and "rmap (leafInputHash sha) leaves = Inr hs" and "all32 hs"
    and "leaves \<noteq> []" and "buildMerkleTree sha leaves = Inr t"
  shows "merkleRoot sha t = rootOf sha hs"
  using assms buildMerkleTree_levels [OF assms(1-4)]
  by (auto simp: merkleRoot_def last_levels)

section \<open>The verifier walks the levels\<close>

text \<open>On indices below \<open>2 ^ 31\<close> the 32-bit shift halves the index, as the levels do.\<close>

lemma verifyLoop_step:
  assumes "1 < n" and "i < n" and "n \<le> 2 ^ 31"
  shows "verifyLoop sha cur (int i) (int n) path =
    (if i = n - 1 \<and> even i
     then verifyLoop sha cur (int (i div 2)) (int ((n + 1) div 2)) path
     else (case path of
             [] \<Rightarrow> Inr None
           | s # rest \<Rightarrow>
               (case (if odd i then nodeHash sha s cur else nodeHash sha cur s) of
                  Inl e \<Rightarrow> Inl e
                | Inr cur' \<Rightarrow> verifyLoop sha cur' (int (i div 2)) (int ((n + 1) div 2)) rest)))"
proof -
  have "js_shr1 (int i) = int (i div 2)" using assms by (intro js_shr1_nat) simp
  moreover have "(int n + 1) div 2 = int ((n + 1) div 2)" by (simp add: zdiv_int)
  moreover have "int i = int n - 1 \<longleftrightarrow> i = n - 1" using assms by linarith
  moreover have "js_rem2 (int i) = 0 \<longleftrightarrow> even i" "js_rem2 (int i) = 1 \<longleftrightarrow> odd i"
    by (auto simp: js_rem2_nat odd_iff_mod_2_eq_one)
  moreover have "1 < int n" using assms by simp
  ultimately show ?thesis
    by (subst verifyLoop.simps) (simp only: if_True)
qed

lemma verifyLoop_stop: "sz \<le> 1 \<Longrightarrow> verifyLoop sha cur idx sz path = Inr (Some (cur, path))"
  by (subst verifyLoop.simps) simp

lemma proofWalk_levels:
  assumes "1 < length xs"
  shows "proofWalk (levels sha xs) i =
    (if siblingOf i < length xs then [xs ! siblingOf i] else [])
      @ proofWalk (levels sha (pairs sha xs)) (i div 2)"
proof -
  obtain up rest where "levels sha (pairs sha xs) = up # rest"
    using levels_ne [of sha "pairs sha xs"] by (cases "levels sha (pairs sha xs)") auto
  then show ?thesis using assms by (simp add: levels_step)
qed

lemma all32_proofWalk:
  "width32 sha \<Longrightarrow> all32 xs \<Longrightarrow> all32 (proofWalk (levels sha xs) i)"
proof (induction sha xs arbitrary: i rule: levels.induct)
  case (1 sha xs)
  show ?case
  proof (cases "1 < length xs")
    case True
    with 1 show ?thesis by (simp add: proofWalk_levels)
  next
    case False
    then show ?thesis by (simp add: levels_stop)
  qed
qed

lemma verifyLoop_complete:
  "width32 sha \<Longrightarrow> all32 xs \<Longrightarrow> i < length xs \<Longrightarrow> length xs \<le> 2 ^ 31 \<Longrightarrow>
    verifyLoop sha (xs ! i) (int i) (int (length xs)) (proofWalk (levels sha xs) i @ extra)
      = Inr (Some (rootOf sha xs, extra))"
proof (induction sha xs arbitrary: i rule: levels.induct)
  case (1 sha xs)
  show ?case
  proof (cases "1 < length xs")
    case True
    let ?up = "pairs sha xs"
    have len: "length ?up = (length xs + 1) div 2" by (simp add: tree_simps)
    have "i div 2 < length ?up" "length ?up \<le> 2 ^ 31"
      unfolding len using "1.prems"(3,4) True by linarith+
    then have IH: "verifyLoop sha (?up ! (i div 2)) (int (i div 2)) (int ((length xs + 1) div 2))
        (proofWalk (levels sha ?up) (i div 2) @ extra) = Inr (Some (rootOf sha ?up, extra))"
      using "1.IH" [OF True] "1.prems"(1,2) len by simp
    note up = pairs_nth_sibling [OF "1.prems"(3), of sha]
    note step = verifyLoop_step [OF True "1.prems"(3,4)]
    note root = rootOf_step [OF True, of sha]
    consider (promoted) "i = length xs - 1" "even i" | (right) "odd i"
      | (left) "even i" "i + 1 < length xs"
      using "1.prems"(3) by linarith
    then show ?thesis
    proof cases
      case promoted
      then have sib: "\<not> siblingOf i < length xs" using True by (simp add: siblingOf_def)
      have up': "?up ! (i div 2) = xs ! i" unfolding up using promoted by simp
      have last: "i = length xs - 1 \<and> even i" using promoted by simp
      show ?thesis
        using IH unfolding step root proofWalk_levels [OF True] up' if_P [OF last] if_not_P [OF sib]
        by simp
    next
      case right
      then have "siblingOf i = i - 1" "i - 1 < length xs"
        using "1.prems"(3) by (auto simp: siblingOf_def)
      with right IH up "1.prems" show ?thesis
        by (simp add: step root proofWalk_levels [OF True] nodeHash_node)
    next
      case left
      then have "siblingOf i = i + 1" "i \<noteq> length xs - 1" by (auto simp: siblingOf_def)
      with left IH up "1.prems" show ?thesis
        by (simp add: step root proofWalk_levels [OF True] nodeHash_node)
    qed
  next
    case False
    with "1.prems"(3) obtain x where "xs = [x]" by (cases xs) auto
    with "1.prems"(3) show ?thesis
      by (simp add: verifyLoop_stop levels_stop)
  qed
qed

section \<open>A wrong leaf that verifies exhibits a collision\<close>

text \<open>
  Digests are finite, so colliding preimages always exist; what matters is whether a forged
  proof hands one over. \<open>forgedCollision\<close> reads the two preimages off a proof that verifies
  for a leaf the tree does not hold at that index: the first level at which the path and the
  tree hash different bytes to the same digest.
\<close>

function forgedCollision ::
  "hash_fn \<Rightarrow> bytes \<Rightarrow> nat \<Rightarrow> bytes list \<Rightarrow> bytes list \<Rightarrow> (bytes \<times> bytes) option" where
  "forgedCollision sha cur i xs path =
     (if length xs > 1 then
        (if i = length xs - 1 \<and> even i
         then forgedCollision sha cur (i div 2) (pairs sha xs) path
         else (case path of
                 [] \<Rightarrow> None
               | s # rest \<Rightarrow>
                   (let a = INTERNAL_NODE # (if odd i then s @ cur else cur @ s);
                        b = INTERNAL_NODE # (if odd i then xs ! (i - 1) @ xs ! i
                                             else xs ! i @ xs ! (i + 1))
                    in if a \<noteq> b \<and> sha a = sha b then Some (a, b)
                       else forgedCollision sha (sha a) (i div 2) (pairs sha xs) rest)))
      else None)"
  by pat_completeness auto
termination
  by (relation "measure (\<lambda>(sha, cur, i, xs, path). length xs)") (auto simp: tree_simps)

declare forgedCollision.simps [simp del]

lemma forgedCollision_sound:
  "forgedCollision sha cur i xs path = Some (a, b) \<Longrightarrow> a \<noteq> b \<and> sha a = sha b"
proof (induction sha cur i xs path rule: forgedCollision.induct)
  case (1 sha cur i xs path)
  show ?case
    using "1.prems" "1.IH"
    by (subst (asm) forgedCollision.simps)
      (auto simp: Let_def split: if_splits list.splits)
qed

lemma forgedCollision_promoted:
  assumes len: "1 < length xs" and last: "i = length xs - 1 \<and> even i"
  shows "forgedCollision sha cur i xs path = forgedCollision sha cur (i div 2) (pairs sha xs) path"
  unfolding forgedCollision.simps [of sha cur i xs path] if_P [OF len] if_P [OF last] ..

lemma forgedCollision_step:
  assumes len: "1 < length xs" and inner: "\<not> (i = length xs - 1 \<and> even i)"
  shows "forgedCollision sha cur i xs (s # rest) =
       (let a = INTERNAL_NODE # (if odd i then s @ cur else cur @ s);
            b = INTERNAL_NODE # (if odd i then xs ! (i - 1) @ xs ! i else xs ! i @ xs ! (i + 1))
        in if a \<noteq> b \<and> sha a = sha b then Some (a, b)
           else forgedCollision sha (sha a) (i div 2) (pairs sha xs) rest)"
  unfolding forgedCollision.simps [of sha cur i xs "s # rest"] if_P [OF len] if_not_P [OF inner]
    list.case ..

lemma verifyLoop_sound:
  "width32 sha \<Longrightarrow> all32 xs \<Longrightarrow> all32 path \<Longrightarrow> length cur = 32 \<Longrightarrow>
   i < length xs \<Longrightarrow> length xs \<le> 2 ^ 31 \<Longrightarrow>
   verifyLoop sha cur (int i) (int (length xs)) path = Inr (Some (rootOf sha xs, rest)) \<Longrightarrow>
   cur = xs ! i \<or> forgedCollision sha cur i xs path \<noteq> None"
proof (induction sha xs arbitrary: cur i path rule: levels.induct)
  case (1 sha xs)
  show ?case
  proof (cases "1 < length xs")
    case True
    let ?up = "pairs sha xs"
    have len: "length ?up = (length xs + 1) div 2" by (simp add: tree_simps)
    have bounds: "i div 2 < length ?up" "length ?up \<le> 2 ^ 31"
      unfolding len using "1.prems"(5,6) True by linarith+
    note up = pairs_nth_sibling [OF "1.prems"(5), of sha]
    note step = verifyLoop_step [OF True "1.prems"(5,6)]
    note root = rootOf_step [OF True, of sha]
    have IH: "cur' = ?up ! (i div 2) \<or> forgedCollision sha cur' (i div 2) ?up path' \<noteq> None"
      if "verifyLoop sha cur' (int (i div 2)) (int ((length xs + 1) div 2)) path'
            = Inr (Some (rootOf sha ?up, rest))" "length cur' = 32" "all32 path'" for cur' path'
      using "1.IH" [OF True "1.prems"(1) all32_pairs that(3,2) bounds] that(1) "1.prems"(1,2) len
      by simp
    show ?thesis
    proof (cases "i = length xs - 1 \<and> even i")
      case last: True
      have up': "?up ! (i div 2) = xs ! i" unfolding up if_P [OF last] ..
      show ?thesis
        using IH "1.prems"(3,4,7)
        unfolding step if_P [OF last] root forgedCollision_promoted [OF True last] up'
        by blast
    next
      case False
      from "1.prems"(7) obtain s more where path: "path = s # more"
        unfolding step if_not_P [OF False] by (cases path) simp_all
      let ?a = "INTERNAL_NODE # (if odd i then s @ cur else cur @ s)"
      let ?b = "INTERNAL_NODE # (if odd i then xs ! (i - 1) @ xs ! i else xs ! i @ xs ! (i + 1))"
      have len32: "length s = 32" "all32 more" using "1.prems"(3) path by auto
      have "verifyLoop sha (sha ?a) (int (i div 2)) (int ((length xs + 1) div 2)) more
              = Inr (Some (rootOf sha ?up, rest))"
        using "1.prems"(4,7) len32 False
        unfolding step if_not_P [OF False] path root
        by (auto simp: nodeHash_ok split: if_splits)
      then have "sha ?a = ?up ! (i div 2) \<or> forgedCollision sha (sha ?a) (i div 2) ?up more \<noteq> None"
        using "1.prems"(1) len32 by (intro IH) (simp_all add: width32_def)
      moreover have "?up ! (i div 2) = sha ?b"
        unfolding up if_not_P [OF False] by (simp add: node_def)
      moreover have "cur = xs ! i" if "?a = ?b"
      proof (cases "odd i")
        case True
        with that "1.prems"(2,4,5) len32 show ?thesis by simp
      next
        case ev: False
        with that "1.prems"(2,4,5) show ?thesis by simp
      qed
      ultimately show ?thesis
        unfolding path forgedCollision_step [OF True False] Let_def by auto
    qed
  next
    case False
    with "1.prems"(5) obtain x where "xs = [x]" by (cases xs) auto
    with "1.prems"(5,7) show ?thesis by (simp add: verifyLoop_stop)
  qed
qed

lemma verifyLoop_total:
  "width32 sha \<Longrightarrow> all32 path \<Longrightarrow> length cur = 32 \<Longrightarrow> \<exists>r. verifyLoop sha cur idx sz path = Inr r"
proof (induction sha cur idx sz path rule: verifyLoop.induct)
  case (1 sha cur idx sz path)
  note total = "1.prems" and IH = "1.IH"
  show ?case
  proof (cases "1 < sz \<and> \<not> (idx = sz - 1 \<and> js_rem2 idx = 0) \<and> path \<noteq> []")
    case True
    then obtain s rest where path: "path = s # rest" by (cases path) auto
    have h: "(if js_rem2 idx = 1 then nodeHash sha s cur else nodeHash sha cur s)
        = Inr (if js_rem2 idx = 1 then node sha s cur else node sha cur s)"
      using total path by (auto simp: nodeHash_node)
    have "length (if js_rem2 idx = 1 then node sha s cur else node sha cur s) = 32"
      using total(1) by simp
    with IH(2) [OF _ _ path h] True total path h show ?thesis
      by (subst verifyLoop.simps) auto
  next
    case False
    with IH(1) total show ?thesis
      by (subst verifyLoop.simps) (auto split: list.splits)
  qed
qed

section \<open>RFC 6962's tree hash\<close>

text \<open>The reference: split at the largest power of two below the number of leaves.\<close>

function splitFrom :: "nat \<Rightarrow> nat \<Rightarrow> nat" where
  "splitFrom n k = (if 0 < k \<and> 2 * k < n then splitFrom n (2 * k) else k)"
  by pat_completeness auto
termination
  by (relation "measure (\<lambda>(n, k). n - k)") auto

declare splitFrom.simps [simp del]

definition splitPoint :: "nat \<Rightarrow> nat" where
  "splitPoint n = splitFrom n 1"

lemma splitFrom_bounds: "0 < k \<Longrightarrow> k < n \<Longrightarrow> k \<le> splitFrom n k \<and> splitFrom n k < n"
proof (induction n k rule: splitFrom.induct)
  case (1 n k)
  then show ?case by (subst (1 2) splitFrom.simps) auto
qed

lemma splitPoint_bounds: "1 < n \<Longrightarrow> 0 < splitPoint n \<and> splitPoint n < n"
  using splitFrom_bounds [of 1 n] by (simp add: splitPoint_def)

lemma splitFrom_double:
  "0 < k \<Longrightarrow> splitFrom n (2 * k) = 2 * splitFrom ((n + 1) div 2) k"
proof (induction "(n + 1) div 2" k rule: splitFrom.induct)
  case (1 k)
  have "2 * (2 * k) < n \<longleftrightarrow> 2 * k < (n + 1) div 2" by linarith
  with 1 show ?case
    by (subst (1 2) splitFrom.simps) auto
qed

lemma splitPoint_double: "2 < n \<Longrightarrow> splitPoint n = 2 * splitPoint ((n + 1) div 2)"
  unfolding splitPoint_def using splitFrom_double [of 1 n]
  by (subst splitFrom.simps) simp

function mth :: "hash_fn \<Rightarrow> bytes list \<Rightarrow> bytes" where
  "mth sha xs =
     (if length xs > 1
      then node sha (mth sha (take (splitPoint (length xs)) xs))
                    (mth sha (drop (splitPoint (length xs)) xs))
      else hd xs)"
  by pat_completeness auto
termination
proof (relation "measure (\<lambda>(sha, xs). length xs)", goal_cases)
  case 1
  show ?case by simp
next
  case (2 sha xs)
  then show ?case using splitPoint_bounds [of "length xs"] by simp
next
  case (3 sha xs)
  then show ?case using splitPoint_bounds [of "length xs"] by simp linarith
qed

declare mth.simps [simp del]

lemma mth_single [simp]: "mth sha [x] = x"
  by (subst mth.simps) simp

text \<open>Hashing one level up does not change the tree hash.\<close>

lemma mth_pairs: "xs \<noteq> [] \<Longrightarrow> mth sha (pairs sha xs) = mth sha xs"
proof (induction sha xs rule: mth.induct)
  case (1 sha xs)
  let ?n = "length xs" and ?k = "splitPoint (length xs)"
  consider (one) "?n = 1" | (two) "?n = 2" | (more) "2 < ?n"
    using "1.prems" by (metis One_nat_def length_0_conv less_2_cases nat_neq_iff)
  then show ?case
  proof cases
    case one
    then obtain x where "xs = [x]" by (cases xs) auto
    then show ?thesis by simp
  next
    case two
    then obtain x y where xs: "xs = [x, y]"
      by (cases xs; cases "tl xs") auto
    have "splitPoint (length [x, y]) = 1"
      unfolding splitPoint_def by (subst splitFrom.simps) simp
    then show ?thesis by (simp add: xs mth.simps [of sha "[x, y]"])
  next
    case more
    define j where "j = splitPoint ((?n + 1) div 2)"
    have k: "?k = 2 * j" unfolding j_def by (rule splitPoint_double [OF more])
    have kb: "0 < ?k" "?k < ?n" using splitPoint_bounds more by auto
    have "pairs sha xs = pairs sha (take ?k xs) @ pairs sha (drop ?k xs)"
      using pairs_append_even [of "take ?k xs" sha "drop ?k xs"] k kb by simp
    moreover have "length (pairs sha (take ?k xs)) = j"
      using k kb by (simp add: tree_simps)
    ultimately have halves: "take j (pairs sha xs) = pairs sha (take ?k xs)"
        "drop j (pairs sha xs) = pairs sha (drop ?k xs)"
      by auto
    have len: "length (pairs sha xs) = (?n + 1) div 2" by (simp add: tree_simps)
    have up: "1 < length (pairs sha xs)" unfolding len using more by linarith
    have "mth sha (pairs sha xs) = node sha (mth sha (pairs sha (take ?k xs))) (mth sha (pairs sha (drop ?k xs)))"
      unfolding mth.simps [of sha "pairs sha xs"] if_P [OF up] unfolding len j_def [symmetric] halves ..
    also have "\<dots> = node sha (mth sha (take ?k xs)) (mth sha (drop ?k xs))"
      using "1.IH" more kb "1.prems" by simp
    also have "\<dots> = mth sha xs" using more by (subst (3) mth.simps) simp
    finally show ?thesis .
  qed
qed

lemma rootOf_mth: "xs \<noteq> [] \<Longrightarrow> rootOf sha xs = mth sha xs"
proof (induction sha xs rule: rootOf.induct)
  case (1 sha xs)
  show ?case
  proof (cases "1 < length xs")
    case True
    then have "length (pairs sha xs) \<noteq> 0" by (simp add: tree_simps)
    then have "pairs sha xs \<noteq> []" by simp
    with 1 True show ?thesis by (simp add: rootOf_step mth_pairs)
  next
    case False
    with "1.prems" show ?thesis by (simp add: rootOf.simps mth.simps)
  qed
qed

section \<open>The interface the sealed record relies on\<close>

text \<open>
  What a client of the tree uses: a list is committed to by its root, every element has a proof
  that checks, and a proof that checks for another element comes with a clash of the digest
  function. The clients' lemmas are proved from these two laws.
\<close>

locale authenticated_list =
  fixes valid :: "'d list \<Rightarrow> bool"
    and root :: "'d list \<Rightarrow> 'r"
    and prove :: "'d list \<Rightarrow> nat \<Rightarrow> 'p"
    and check :: "'d \<Rightarrow> nat \<Rightarrow> nat \<Rightarrow> 'p \<Rightarrow> 'r \<Rightarrow> bool"
    and clash :: "'d \<Rightarrow> nat \<Rightarrow> 'd list \<Rightarrow> 'p \<Rightarrow> bool"
  assumes complete: "valid xs \<Longrightarrow> i < length xs \<Longrightarrow> check (xs ! i) i (length xs) (prove xs i) (root xs)"
    and sound: "valid xs \<Longrightarrow> i < length xs \<Longrightarrow> check d i (length xs) p (root xs) \<Longrightarrow>
      d = xs ! i \<or> clash d i xs p"
begin

lemma other_element_refused:
  "valid xs \<Longrightarrow> i < length xs \<Longrightarrow> d \<noteq> xs ! i \<Longrightarrow> \<not> clash d i xs p \<Longrightarrow>
     \<not> check d i (length xs) p (root xs)"
  using sound by blast

lemma same_root_same_elements:
  assumes "valid xs" and "valid ys" and "length xs = length ys" and "root xs = root ys"
    and "\<And>i. i < length xs \<Longrightarrow> \<not> clash (ys ! i) i xs (prove ys i)"
  shows "xs = ys"
proof (rule nth_equalityI)
  fix i assume i: "i < length xs"
  have "check (ys ! i) i (length ys) (prove ys i) (root ys)"
    using complete [OF assms(2)] i assms(3) by simp
  with sound [OF assms(1) i, of "ys ! i" "prove ys i"] assms(3-5) i show "xs ! i = ys ! i" by auto
qed (rule assms(3))

end

definition validLeaves :: "hash_fn \<Rightarrow> bytes list \<Rightarrow> bool" where
  "validLeaves sha hs \<longleftrightarrow> width32 sha \<and> all32 hs \<and> length hs \<le> 2 ^ 31"

definition merkleCheck :: "hash_fn \<Rightarrow> bytes \<Rightarrow> nat \<Rightarrow> nat \<Rightarrow> bytes list \<Rightarrow> bytes \<Rightarrow> bool" where
  "merkleCheck sha d i n p r \<longleftrightarrow> verifyInclusion sha d (int i) (int n) p r = Inr True"

definition merkleClash :: "hash_fn \<Rightarrow> bytes \<Rightarrow> nat \<Rightarrow> bytes list \<Rightarrow> bytes list \<Rightarrow> bool" where
  "merkleClash sha d i hs p \<longleftrightarrow>
     (\<exists>a b. forgedCollision sha d i hs p = Some (a, b) \<and> a \<noteq> b \<and> sha a = sha b)"

lemma merkleCheck_complete:
  assumes "validLeaves sha hs" and "i < length hs"
  shows "merkleCheck sha (hs ! i) i (length hs) (proofWalk (levels sha hs) i) (rootOf sha hs)"
proof -
  let ?p = "proofWalk (levels sha hs) i"
  have v: "width32 sha" "all32 hs" "length hs \<le> 2 ^ 31" using assms(1) by (auto simp: validLeaves_def)
  have path: "all32 ?p" by (rule all32_proofWalk [OF v(1,2)])
  have "verifyLoop sha (hs ! i) (int i) (int (length hs)) ?p = Inr (Some (rootOf sha hs, []))"
    using verifyLoop_complete [OF v(1,2) assms(2) v(3), of "[]"] by simp
  moreover have "length hs = 1 \<Longrightarrow> ?p = [] \<and> hs ! i = rootOf sha hs"
    using assms(2) by (cases hs) (auto simp: levels_stop)
  ultimately show ?thesis
    using path v assms(2) by (auto simp: merkleCheck_def verifyInclusion_def all32_def)
qed

lemma merkleCheck_sound:
  assumes "validLeaves sha hs" and "i < length hs"
    and "merkleCheck sha d i (length hs) p (rootOf sha hs)"
  shows "d = hs ! i \<or> merkleClash sha d i hs p"
proof (cases "length hs = 1")
  case True
  with assms(2,3) show ?thesis
    by (cases hs) (auto simp: merkleCheck_def verifyInclusion_def split: if_splits)
next
  case False
  with assms(2,3) obtain "length d = 32" "all32 p"
    and "verifyLoop sha d (int i) (int (length hs)) p = Inr (Some (rootOf sha hs, []))"
    by (auto simp: merkleCheck_def verifyInclusion_def all32_def rbind_Inr_conv split: if_splits option.splits)
  then have "d = hs ! i \<or> forgedCollision sha d i hs p \<noteq> None"
    using assms(1,2) by (intro verifyLoop_sound) (auto simp: validLeaves_def)
  then show ?thesis using forgedCollision_sound by (fastforce simp: merkleClash_def)
qed

interpretation merkle: authenticated_list "validLeaves sha" "rootOf sha"
    "\<lambda>hs. proofWalk (levels sha hs)" "merkleCheck sha" "merkleClash sha" for sha
  by unfold_locales (auto intro: merkleCheck_complete dest: merkleCheck_sound)

section \<open>Properties\<close>

text \<open>C26: Completeness of inclusion proofs: for every leaf of a built tree the proof
  \<open>inclusionProof\<close> returns is accepted by \<open>verifyInclusion\<close> against \<open>merkleRoot\<close>. The bound
  is the range of the 32-bit shift the verifier uses on the index.\<close>

theorem inclusion_complete:
  assumes "width32 sha" and "rmap (leafInputHash sha) leaves = Inr hs" and "all32 hs"
    and "length leaves \<le> 2 ^ 31" and "buildMerkleTree sha leaves = Inr t" and "i < length leaves"
  shows "\<exists>p. inclusionProof t i = Inr p \<and>
    verifyInclusion sha (hs ! i) (int i) (int (length leaves)) p (merkleRoot sha t) = Inr True"
proof -
  have ne: "leaves \<noteq> []" using assms(6) by auto
  have len: "length hs = length leaves" using rmap_length [OF assms(2)] .
  have t: "t = \<lparr>tree_size = length leaves, levelHashes = levels sha hs\<rparr>"
    using buildMerkleTree_levels [OF assms(1-3) ne] assms(5) by simp
  have root: "merkleRoot sha t = rootOf sha hs" by (rule merkleRoot_levels [OF assms(1-3) ne assms(5)])
  have "validLeaves sha hs" using assms(1,3,4) len by (simp add: validLeaves_def)
  from merkle.complete [OF this, of i] assms(6) len ne show ?thesis
    by (simp add: merkleCheck_def inclusionProof_def t root [unfolded t])
qed

lemma sha_sample_width: "width32 (\<lambda>d. replicate 32 (of_nat (length d)))"
  by (simp add: width32_def)

theorem inclusion_complete_witness:
  "\<exists>p. inclusionProof \<lparr>tree_size = 3, levelHashes = levels (\<lambda>d. replicate 32 (of_nat (length d)))
         [replicate 32 1, replicate 32 2, replicate 32 3]\<rparr> 2 = Inr p \<and>
    verifyInclusion (\<lambda>d. replicate 32 (of_nat (length d))) (replicate 32 3) 2 3 p
      (merkleRoot (\<lambda>d. replicate 32 (of_nat (length d)))
        \<lparr>tree_size = 3, levelHashes = levels (\<lambda>d. replicate 32 (of_nat (length d)))
         [replicate 32 1, replicate 32 2, replicate 32 3]\<rparr>) = Inr True"
proof -
  let ?sha = "\<lambda>d :: bytes. replicate 32 (of_nat (length d)) :: bytes"
  let ?hs = "[replicate 32 1, replicate 32 2, replicate 32 3] :: bytes list"
  have hs: "rmap (leafInputHash ?sha) (map LHash ?hs) = Inr ?hs" by simp
  have t: "buildMerkleTree ?sha (map LHash ?hs) = Inr \<lparr>tree_size = 3, levelHashes = levels ?sha ?hs\<rparr>"
    using buildMerkleTree_levels [OF sha_sample_width hs] by (simp add: numeral_3_eq_3)
  show ?thesis
    using inclusion_complete [OF sha_sample_width hs _ _ t, of 2] by simp
qed

text \<open>C25: Soundness of inclusion proofs: a path that verifies for a digest against the root of
  a tree is about the leaf the tree holds at that index, or hands over two different preimages
  with one SHA-256 digest (\<open>forgedCollision\<close> computes them from the path).\<close>

theorem inclusion_sound:
  assumes "width32 sha" and "rmap (leafInputHash sha) leaves = Inr hs" and "all32 hs"
    and "length leaves \<le> 2 ^ 31" and "buildMerkleTree sha leaves = Inr t" and "i < length leaves"
    and ok: "verifyInclusion sha h (int i) (int (length leaves)) p (merkleRoot sha t) = Inr True"
  shows "h = hs ! i \<or> (\<exists>a b. forgedCollision sha h i hs p = Some (a, b) \<and> a \<noteq> b \<and> sha a = sha b)"
proof -
  have ne: "leaves \<noteq> []" using assms(6) by auto
  have len: "length hs = length leaves" using rmap_length [OF assms(2)] .
  have root: "merkleRoot sha t = rootOf sha hs" by (rule merkleRoot_levels [OF assms(1-3) ne assms(5)])
  have "validLeaves sha hs" using assms(1,3,4) len by (simp add: validLeaves_def)
  from merkle.sound [OF this, of i h p] assms(6) ok len root show ?thesis
    by (simp add: merkleCheck_def merkleClash_def)
qed

theorem inclusion_sound_witness:
  "(replicate 32 2 :: bytes) = [replicate 32 2] ! 0 \<or>
   (\<exists>a b. forgedCollision (\<lambda>d. replicate 32 (of_nat (length d))) (replicate 32 2) 0 [replicate 32 2] []
      = Some (a, b) \<and> a \<noteq> b \<and>
      (replicate 32 (of_nat (length a)) :: bytes) = replicate 32 (of_nat (length b)))"
proof -
  let ?sha = "\<lambda>d :: bytes. replicate 32 (of_nat (length d)) :: bytes"
  let ?hs = "[replicate 32 2] :: bytes list"
  have hs: "rmap (leafInputHash ?sha) [LHash (replicate 32 2)] = Inr ?hs" by simp
  have t: "buildMerkleTree ?sha [LHash (replicate 32 2)] = Inr \<lparr>tree_size = 1, levelHashes = [?hs]\<rparr>"
    using buildMerkleTree_levels [OF sha_sample_width hs] by (simp add: levels_stop)
  show ?thesis
    by (rule inclusion_sound [OF sha_sample_width hs _ _ t, of 0])
      (simp_all add: verifyInclusion_def merkleRoot_def)
qed

text \<open>C27: The level-by-level construction computes RFC 6962's Merkle tree hash: the root is the
  hash of the digest of the empty string for no leaves, and otherwise the recursive hash that
  splits the leaf digests at the largest power of two below their number.\<close>

theorem root_is_rfc6962:
  assumes "width32 sha" and "rmap (leafInputHash sha) leaves = Inr hs" and "all32 hs"
    and "buildMerkleTree sha leaves = Inr t"
  shows "merkleRoot sha t = (if leaves = [] then sha [] else mth sha hs)"
proof (cases "leaves = []")
  case True
  with assms(4) show ?thesis by (auto simp: buildMerkleTree_def merkleRoot_def hash_def)
next
  case False
  then have "hs \<noteq> []" using rmap_length [OF assms(2)] by auto
  with False merkleRoot_levels [OF assms(1-3) False assms(4)] show ?thesis by (simp add: rootOf_mth)
qed

theorem root_is_rfc6962_witness:
  "merkleRoot (\<lambda>d. replicate 32 (of_nat (length d)))
     \<lparr>tree_size = 1, levelHashes = [[replicate 32 7]]\<rparr>
   = mth (\<lambda>d. replicate 32 (of_nat (length d))) [replicate 32 7]"
proof -
  let ?sha = "\<lambda>d :: bytes. replicate 32 (of_nat (length d)) :: bytes"
  have hs: "rmap (leafInputHash ?sha) [LHash (replicate 32 7)] = Inr [replicate 32 7]" by simp
  have t: "buildMerkleTree ?sha [LHash (replicate 32 7)] = Inr \<lparr>tree_size = 1, levelHashes = [[replicate 32 7]]\<rparr>"
    using buildMerkleTree_levels [OF sha_sample_width hs] by (simp add: levels_stop)
  show ?thesis
    using root_is_rfc6962 [OF sha_sample_width hs _ t] by simp
qed

text \<open>\<open>verifyInclusion\<close> never throws: on any digest, index, size, path and root, of any
  width or sign, it returns a boolean.\<close>

theorem verifyInclusion_never_throws:
  assumes "width32 sha"
  shows "\<exists>b. verifyInclusion sha h idx n p root = Inr b"
proof (cases "length h = 32 \<and> all32 p")
  case True
  then obtain r where "verifyLoop sha h idx n p = Inr r"
    using verifyLoop_total [OF assms] by blast
  then have "returns (verifyInclusion sha h idx n p root)"
    by (auto simp: verifyInclusion_def split: option.splits)
  then show ?thesis by (simp add: returns_def)
next
  case False
  then show ?thesis by (auto simp: verifyInclusion_def all32_def)
qed

theorem verifyInclusion_never_throws_witness:
  "\<exists>b. verifyInclusion (\<lambda>d. replicate 32 0) [] (-7) 5 [[1]] [] = Inr b"
  by (rule verifyInclusion_never_throws) (simp add: width32_def)

fun leafPreimage :: "LeafInput \<Rightarrow> bytes" where
  "leafPreimage (LMsg d) = MSG_LEAF # d"
| "leafPreimage (LCtrl d) = CTRL_LEAF # d"
| "leafPreimage (LDoc d) = DOC_LEAF # d"
| "leafPreimage (LReject d) = REJECT_LEAF # d"
| "leafPreimage (LOpaque p d) = of_int p # d"
| "leafPreimage (LHash d) = d"

lemma opaque_preimage:
  "opaqueLeafHash sha p d = Inr h \<Longrightarrow> h = sha (of_int p # d) \<and> (of_int p :: 8 word) \<noteq> INTERNAL_NODE"
  using opaque_never_node_domain [of sha p d h]
  by (auto simp: opaqueLeafHash_def prefixed_def split: if_splits)

lemma leafInputHash_preimage:
  "leafInputHash sha l = Inr h \<Longrightarrow> \<forall>d. l \<noteq> LHash d \<Longrightarrow>
     h = sha (leafPreimage l) \<and> hd (leafPreimage l) \<noteq> INTERNAL_NODE"
  by (cases l) (auto dest: opaque_preimage simp: msgLeafHash_def ctrlLeafHash_def docLeafHash_def
      rejectLeafHash_def prefixed_def domain_defs)

text \<open>Domain separation (the second-preimage protection): if a leaf of any hashed kind and
  an internal node have the same digest, then the two preimages differ in their first byte, so
  they are a SHA-256 collision. An opaque leaf kind 0x01 would break this, and is refused.\<close>

theorem leaf_node_domains_separate:
  assumes "leafInputHash sha l = Inr h" and "\<forall>d. l \<noteq> LHash d" and "nodeHash sha x y = Inr h"
  shows "leafPreimage l \<noteq> INTERNAL_NODE # x @ y \<and> sha (leafPreimage l) = sha (INTERNAL_NODE # x @ y)"
proof -
  have "h = sha (INTERNAL_NODE # x @ y)" using assms(3) by (auto simp: nodeHash_def split: if_splits)
  with leafInputHash_preimage [OF assms(1,2)] show ?thesis by (cases "leafPreimage l") auto
qed

theorem leaf_node_domains_separate_witness:
  "leafPreimage (LMsg [1]) \<noteq> INTERNAL_NODE # replicate 32 1 @ replicate 32 2
     \<and> (replicate 32 0 :: bytes) = replicate 32 0"
  by (rule leaf_node_domains_separate [of "\<lambda>_. replicate 32 0" "LMsg [1]" _ "replicate 32 1" "replicate 32 2"])
    (simp_all add: msgLeafHash_def nodeHash_def)

end
