(* ===== verification/Hex.thy ===== *)
theory Hex
  imports Prelude
begin

text \<open>
  Hexadecimal text: \<open>core/crypto/src/hex.ts\<close> and the \<open>hexToBytes\<close>, \<open>bytesToHex\<close> helpers
  of the daemon (\<open>Buffer.from(hex, "hex")\<close> and \<open>toString("hex")\<close>).
\<close>

section \<open>Digits\<close>

definition hexVal :: "char \<Rightarrow> nat option" where
  "hexVal c =
     (let n = of_char c :: nat
      in if 48 \<le> n \<and> n \<le> 57 then Some (n - 48)
         else if 97 \<le> n \<and> n \<le> 102 then Some (n - 87)
         else if 65 \<le> n \<and> n \<le> 70 then Some (n - 55)
         else None)"

definition hexDigit :: "nat \<Rightarrow> char" where
  "hexDigit n = char_of (if n < 10 then 48 + n else 87 + n)"

text \<open>The character class \<open>[0-9a-f]\<close> of the daemon's patterns.\<close>

definition lowerHex :: "char \<Rightarrow> bool" where
  "lowerHex c \<longleftrightarrow> (let n = of_char c :: nat in 48 \<le> n \<and> n \<le> 57 \<or> 97 \<le> n \<and> n \<le> 102)"

definition HEX32 :: "string \<Rightarrow> bool" where
  "HEX32 s \<longleftrightarrow> length s = 64 \<and> list_all lowerHex s"

lemma of_char_digit: "n < 16 \<Longrightarrow> of_char (hexDigit n) = (if n < 10 then 48 + n else 87 + n)"
  by (simp add: hexDigit_def)

lemma hexVal_digit [simp]: "n < 16 \<Longrightarrow> hexVal (hexDigit n) = Some n"
  by (auto simp: hexVal_def of_char_digit Let_def)

lemma lowerHex_digit [simp]: "n < 16 \<Longrightarrow> lowerHex (hexDigit n)"
  by (auto simp: lowerHex_def of_char_digit Let_def)

lemma hexVal_lower: "lowerHex c \<Longrightarrow> \<exists>n < 16. hexVal c = Some n \<and> hexDigit n = c"
proof -
  assume "lowerHex c"
  then consider "48 \<le> (of_char c :: nat)" "(of_char c :: nat) \<le> 57"
    | "97 \<le> (of_char c :: nat)" "(of_char c :: nat) \<le> 102"
    by (auto simp: lowerHex_def Let_def)
  then show ?thesis
  proof cases
    case 1
    then have "hexVal c = Some (of_char c - 48)" "(of_char c :: nat) - 48 < 10"
      by (auto simp: hexVal_def Let_def)
    moreover have "48 + (of_char c - 48) = (of_char c :: nat)" using 1 by simp
    ultimately show ?thesis by (intro exI [of _ "of_char c - 48"]) (simp add: hexDigit_def)
  next
    case 2
    then have "hexVal c = Some (of_char c - 87)" "(of_char c :: nat) - 87 < 16" "\<not> (of_char c :: nat) - 87 < 10"
      by (auto simp: hexVal_def Let_def)
    moreover have "87 + (of_char c - 87) = (of_char c :: nat)" using 2 by simp
    ultimately show ?thesis by (intro exI [of _ "of_char c - 87"]) (simp add: hexDigit_def)
  qed
qed

section \<open>Strings\<close>

text \<open>Node's decoder stops at the first pair that is not two hexadecimal digits.\<close>

fun hexToBytes :: "string \<Rightarrow> bytes" where
  "hexToBytes (c # d # rest) =
     (case (hexVal c, hexVal d) of
        (Some h, Some l) \<Rightarrow> of_nat (16 * h + l) # hexToBytes rest
      | _ \<Rightarrow> [])"
| "hexToBytes _ = []"

definition byteHex :: "8 word \<Rightarrow> string" where
  "byteHex w = [hexDigit (unat w div 16), hexDigit (unat w mod 16)]"

definition bytesToHex :: "bytes \<Rightarrow> string" where
  "bytesToHex bs = concat (map byteHex bs)"

text \<open>\<open>core/crypto/src/hex.ts\<close>: exact length, either case, \<open>null\<close> on any malformation.\<close>

definition hexToBytesExact :: "string \<Rightarrow> nat \<Rightarrow> bytes option" where
  "hexToBytesExact hex expectedBytes =
     (if length hex \<noteq> expectedBytes * 2 \<or> hex = [] \<or> \<not> list_all (\<lambda>c. hexVal c \<noteq> None) hex
      then None else Some (hexToBytes hex))"

lemma unat8_bound: "unat (w :: 8 word) < 256"
proof -
  have "unat w < 2 ^ LENGTH(8)" by (rule unsigned_less)
  then show ?thesis by simp
qed

lemma unat8_of_nat: "n < 256 \<Longrightarrow> unat (of_nat n :: 8 word) = n"
  by (simp add: unat_of_nat)

lemma length_bytesToHex [simp]: "length (bytesToHex bs) = 2 * length bs"
  by (induction bs) (auto simp: bytesToHex_def byteHex_def)

lemma hex_nibbles: "unat (w :: 8 word) div 16 < 16" "unat w mod 16 < 16"
  using unat8_bound [of w] by auto

lemma bytesToHex_lower [simp]: "list_all lowerHex (bytesToHex bs)"
  by (induction bs) (simp_all add: bytesToHex_def byteHex_def hex_nibbles)

lemma hexToBytes_bytesToHex [simp]: "hexToBytes (bytesToHex bs) = bs"
  by (induction bs) (simp_all add: bytesToHex_def byteHex_def hex_nibbles)

lemma bytesToHex_inj: "bytesToHex a = bytesToHex b \<longleftrightarrow> a = b"
  by (metis hexToBytes_bytesToHex)

lemma length_hexToBytes:
  "list_all (\<lambda>c. hexVal c \<noteq> None) s \<Longrightarrow> length (hexToBytes s) = length s div 2"
  by (induction s rule: hexToBytes.induct) auto

lemma lower_hexVal: "list_all lowerHex s \<Longrightarrow> list_all (\<lambda>c. hexVal c \<noteq> None) s"
  using hexVal_lower by (fastforce simp: list_all_iff)

lemma bytesToHex_hexToBytes:
  "list_all lowerHex s \<Longrightarrow> even (length s) \<Longrightarrow> bytesToHex (hexToBytes s) = s"
proof (induction s rule: hexToBytes.induct)
  case (1 c d rest)
  obtain h where h: "h < 16" "hexVal c = Some h" "hexDigit h = c"
    using 1(2) hexVal_lower by force
  obtain l where l: "l < 16" "hexVal d = Some l" "hexDigit l = d"
    using 1(2) hexVal_lower by force
  have "unat (of_nat (16 * h + l) :: 8 word) = 16 * h + l"
    using h l by (intro unat8_of_nat) simp
  then have "byteHex (of_nat (16 * h + l)) = [c, d]"
    using h l by (simp add: byteHex_def)
  moreover have "bytesToHex (hexToBytes rest) = rest" using 1 h l by simp
  ultimately show ?case using h l by (simp add: bytesToHex_def)
qed (auto simp: bytesToHex_def)

lemma HEX32_bytes: "HEX32 s \<Longrightarrow> length (hexToBytes s) = 32 \<and> bytesToHex (hexToBytes s) = s"
  using length_hexToBytes [OF lower_hexVal] bytesToHex_hexToBytes by (simp add: HEX32_def)

lemma HEX32_bytesToHex [simp]: "HEX32 (bytesToHex bs) \<longleftrightarrow> length bs = 32"
  by (auto simp: HEX32_def)

text \<open>\<open>toLowerCase\<close> on ASCII letters.\<close>

definition toLower :: "string \<Rightarrow> string" where
  "toLower s = map (\<lambda>c. let n = of_char c :: nat in if 65 \<le> n \<and> n \<le> 90 then char_of (n + 32) else c) s"

lemma toLower_HEX32:
  assumes "HEX32 s"
  shows "toLower s = s"
  unfolding toLower_def
proof (rule map_idI)
  fix c assume "c \<in> set s"
  with assms have "lowerHex c" by (simp add: HEX32_def list_all_iff)
  then have "\<not> (65 \<le> (of_char c :: nat) \<and> (of_char c :: nat) \<le> 90)"
    by (auto simp: lowerHex_def Let_def)
  then show "(let n = of_char c :: nat in if 65 \<le> n \<and> n \<le> 90 then char_of (n + 32) else c) = c"
    by (simp only: Let_def if_not_P if_False)
qed

end
