(* ===== verification/Session_Tree.thy ===== *)
theory Session_Tree
  imports Merkle Hex
begin

text \<open>
  \<open>core/daemon/src/session-tree.ts\<close>: the Merkle tree the daemon keeps per session. Leaves are
  stored as digests in hexadecimal with a label of their domain; an index from digest to first
  position answers the inbound duplicate check.
\<close>

section \<open>State\<close>

datatype SessionTreeLeafKind = KMsg | KCtrl | KDoc | KReject | KUnknown

record SessionTreeLeaf =
  leaf_kind :: SessionTreeLeafKind
  hashHex :: string

record SessionTree =
  st_leaves :: "SessionTreeLeaf list"
  indexByHash :: "string \<rightharpoonup> nat"

definition WRITABLE_LEAF_KINDS :: "(string \<times> SessionTreeLeafKind) list" where
  "WRITABLE_LEAF_KINDS =
     [(''msg'', KMsg), (''ctrl'', KCtrl), (''doc'', KDoc), (''reject'', KReject)]"

definition sessionTreeLeafKindFromDb :: "string \<Rightarrow> SessionTreeLeafKind" where
  "sessionTreeLeafKindFromDb value =
     (case map_of WRITABLE_LEAF_KINDS value of Some k \<Rightarrow> k | None \<Rightarrow> KUnknown)"

section \<open>Operations\<close>

text \<open>The constructor's loop: the index keeps the first occurrence of a digest.\<close>

fun indexLeaves :: "SessionTreeLeaf list \<Rightarrow> nat \<Rightarrow> (string \<rightharpoonup> nat) \<Rightarrow> (string \<rightharpoonup> nat)" where
  "indexLeaves [] i m = m"
| "indexLeaves (l # ls) i m =
     indexLeaves ls (Suc i) (if m (hashHex l) = None then m(hashHex l \<mapsto> i) else m)"

definition mkTree :: "SessionTreeLeaf list \<Rightarrow> SessionTree" where
  "mkTree ls = \<lparr>st_leaves = ls, indexByHash = indexLeaves ls 0 Map.empty\<rparr>"

definition emptyTree :: SessionTree where
  "emptyTree = mkTree []"

definition fromLeaves :: "SessionTreeLeaf list \<Rightarrow> SessionTree" where
  "fromLeaves ls = mkTree (map (\<lambda>l. \<lparr>leaf_kind = leaf_kind l, hashHex = hashHex l\<rparr>) ls)"

definition indexOfHash :: "SessionTree \<Rightarrow> string \<Rightarrow> int" where
  "indexOfHash t h = (case indexByHash t h of None \<Rightarrow> -1 | Some i \<Rightarrow> int i)"

definition hashAt :: "SessionTree \<Rightarrow> nat \<Rightarrow> string option" where
  "hashAt t i = (if i < length (st_leaves t) then Some (hashHex (st_leaves t ! i)) else None)"

definition treeSize :: "SessionTree \<Rightarrow> nat" where
  "treeSize t = length (st_leaves t)"

definition leavesOf :: "SessionTree \<Rightarrow> SessionTreeLeaf list" where
  "leavesOf t = map (\<lambda>l. \<lparr>leaf_kind = leaf_kind l, hashHex = hashHex l\<rparr>) (st_leaves t)"

definition rootOfHashes :: "hash_fn \<Rightarrow> string list \<Rightarrow> string js" where
  "rootOfHashes sha hs =
     rbind (buildMerkleTree sha (map (\<lambda>h. LHash (hexToBytes h)) hs))
       (\<lambda>t. Inr (bytesToHex (merkleRoot sha t)))"

definition rootHex :: "hash_fn \<Rightarrow> SessionTree \<Rightarrow> string js" where
  "rootHex sha t = rootOfHashes sha (map hashHex (st_leaves t))"

text \<open>
  \<open>appendLeafHash\<close> mutates before it computes the root, so the new tree is returned even when
  the root computation throws. A digest that is not 64 lowercase hexadecimal digits throws first.
\<close>

definition appendLeafHash ::
  "hash_fn \<Rightarrow> SessionTreeLeafKind \<Rightarrow> string \<Rightarrow> SessionTree \<Rightarrow> SessionTree \<times> (nat \<times> string) js" where
  "appendLeafHash sha kind h t =
     (if \<not> HEX32 h
      then (t, Inl (Error ''SessionTree.appendLeafHash: hashHex must be 64 lowercase hex chars''))
      else
        let leafIndex = length (st_leaves t);
            t' = \<lparr>st_leaves = st_leaves t @ [\<lparr>leaf_kind = kind, hashHex = h\<rparr>],
                  indexByHash = (if indexByHash t h = None then (indexByHash t)(h \<mapsto> leafIndex)
                                 else indexByHash t)\<rparr>
        in (t', rbind (rootHex sha t') (\<lambda>r. Inr (leafIndex, r))))"

definition rootWithAppendedHex :: "hash_fn \<Rightarrow> string \<Rightarrow> SessionTree \<Rightarrow> string js" where
  "rootWithAppendedHex sha h t =
     (if \<not> HEX32 h
      then Inl (Error ''SessionTree.rootWithAppendedHex: hashHex must be 64 lowercase hex chars'')
      else rootOfHashes sha (map hashHex (st_leaves t @ [\<lparr>leaf_kind = KCtrl, hashHex = h\<rparr>])))"

section \<open>The invariant\<close>

text \<open>The index maps a digest to the first position that holds it, and nothing else.\<close>

fun firstIndex :: "string \<Rightarrow> SessionTreeLeaf list \<Rightarrow> nat option" where
  "firstIndex h [] = None"
| "firstIndex h (l # ls) = (if hashHex l = h then Some 0 else map_option Suc (firstIndex h ls))"

definition tree_inv :: "SessionTree \<Rightarrow> bool" where
  "tree_inv t \<longleftrightarrow> indexByHash t = (\<lambda>h. firstIndex h (st_leaves t))"

lemma firstIndex_append:
  "firstIndex h (ls @ [l]) =
     (case firstIndex h ls of Some i \<Rightarrow> Some i
      | None \<Rightarrow> if hashHex l = h then Some (length ls) else None)"
  by (induction ls) (auto split: option.splits)

lemma firstIndex_None: "firstIndex h ls = None \<longleftrightarrow> h \<notin> hashHex ` set ls"
  by (induction ls) auto

lemma firstIndex_Some:
  "firstIndex h ls = Some i \<Longrightarrow>
     i < length ls \<and> hashHex (ls ! i) = h \<and> (\<forall>j < i. hashHex (ls ! j) \<noteq> h)"
proof (induction ls arbitrary: i)
  case Nil
  then show ?case by simp
next
  case (Cons l ls)
  show ?case
  proof (cases "hashHex l = h")
    case True
    with Cons.prems show ?thesis by simp
  next
    case False
    with Cons.prems obtain k where "firstIndex h ls = Some k" "i = Suc k" by auto
    with Cons.IH [of k] False show ?thesis by (auto simp: nth_Cons less_Suc_eq_0_disj split: nat.splits)
  qed
qed

lemma indexLeaves_spec:
  "indexLeaves ls i m =
     (\<lambda>h. case m h of Some k \<Rightarrow> Some k | None \<Rightarrow> map_option (\<lambda>k. k + i) (firstIndex h ls))"
proof (induction ls arbitrary: i m)
  case Nil
  show ?case by (auto simp: fun_eq_iff split: option.splits)
next
  case (Cons l ls)
  show ?case
    by (rule ext) (auto simp: Cons.IH option.map_comp comp_def split: option.splits)
qed

lemma mkTree_inv: "tree_inv (mkTree ls)"
  by (simp add: tree_inv_def mkTree_def indexLeaves_spec option.map_ident)

lemma mkTree_leaves [simp]: "st_leaves (mkTree ls) = ls"
  by (simp add: mkTree_def)

lemma fromLeaves_inv: "tree_inv (fromLeaves ls)"
  by (simp add: fromLeaves_def mkTree_inv)

lemma leaf_copy [simp]: "\<lparr>leaf_kind = leaf_kind l, hashHex = hashHex l\<rparr> = (l :: SessionTreeLeaf)"
  by simp

lemma append_inv: "tree_inv t \<Longrightarrow> tree_inv (fst (appendLeafHash sha k h t))"
  by (auto simp: tree_inv_def appendLeafHash_def Let_def firstIndex_append fun_eq_iff
      split: option.splits)

definition tree_step :: "hash_fn \<Rightarrow> SessionTree \<Rightarrow> SessionTreeLeafKind \<times> string \<Rightarrow> SessionTree" where
  "tree_step sha t e = fst (appendLeafHash sha (fst e) (snd e) t)"

interpretation tree: monotone_machine "tree_step sha" tree_inv treeSize for sha
  by unfold_locales
    (simp_all add: tree_step_def append_inv, simp add: treeSize_def appendLeafHash_def Let_def)

lemma tree_eqI:
  "tree_inv s \<Longrightarrow> tree_inv t \<Longrightarrow> st_leaves s = st_leaves t \<Longrightarrow> s = t"
  by (simp add: tree_inv_def)

section \<open>Roots\<close>

definition goodLeaves :: "SessionTree \<Rightarrow> bool" where
  "goodLeaves t \<longleftrightarrow> (\<forall>l \<in> set (st_leaves t). HEX32 (hashHex l))"

lemma rmap_hashes:
  "rmap (leafInputHash sha) (map (\<lambda>h. LHash (hexToBytes h)) hs) = Inr (map hexToBytes hs)"
  by (induction hs) auto

lemma all32_hashes: "\<forall>h \<in> set hs. HEX32 h \<Longrightarrow> all32 (map hexToBytes hs)"
  using HEX32_bytes by (auto simp: all32_def)

lemma rootOfHashes_ok:
  assumes "width32 sha" and "\<forall>h \<in> set hs. HEX32 h"
  shows "rootOfHashes sha hs =
    Inr (bytesToHex (if hs = [] then sha [] else rootOf sha (map hexToBytes hs)))"
proof (cases "hs = []")
  case True
  then show ?thesis by (simp add: rootOfHashes_def buildMerkleTree_def merkleRoot_def hash_def)
next
  case False
  let ?ls = "map (\<lambda>h. LHash (hexToBytes h)) hs"
  have b: "buildMerkleTree sha ?ls
      = Inr \<lparr>tree_size = length ?ls, levelHashes = levels sha (map hexToBytes hs)\<rparr>"
    using False by (intro buildMerkleTree_levels assms rmap_hashes all32_hashes) simp_all
  with False show ?thesis
    by (simp add: rootOfHashes_def merkleRoot_def last_levels)
qed

section \<open>Properties\<close>

text \<open>The duplicate check answers from the transcript: after any sequence of appends to a
  tree reloaded from persisted leaves, \<open>indexOfHash\<close> returns the first position holding the
  digest, and -1 exactly when no leaf holds it.\<close>

theorem indexOfHash_first_occurrence:
  "indexOfHash (foldl (tree_step sha) (fromLeaves ls) es) h =
     (case firstIndex h (st_leaves (foldl (tree_step sha) (fromLeaves ls) es)) of
        None \<Rightarrow> -1 | Some i \<Rightarrow> int i)"
  using tree.run_inv [OF fromLeaves_inv] by (simp add: indexOfHash_def tree_inv_def)

text \<open>A transcript survives a restart: reloading the leaves \<open>leaves()\<close> persisted gives back
  the same tree, index included, after any run of appends.\<close>

theorem reload_is_identity:
  "fromLeaves (leavesOf (foldl (tree_step sha) (fromLeaves ls) es)) = foldl (tree_step sha) (fromLeaves ls) es"
  by (rule tree_eqI [OF fromLeaves_inv tree.run_inv [OF fromLeaves_inv]])
    (simp add: fromLeaves_def leavesOf_def)

text \<open>The seal's preview is the root the append would report: \<open>rootWithAppendedHex\<close> equals
  the new root of \<open>appendLeafHash\<close>, for every kind of leaf, and both throw together.\<close>

theorem preview_root_is_append_root:
  assumes "HEX32 h"
  shows "rbind (snd (appendLeafHash sha k h t)) (\<lambda>(i, r). Inr r) = rootWithAppendedHex sha h t"
  using assms
  by (cases "rootOfHashes sha (map hashHex (st_leaves t) @ [h])")
    (auto simp: appendLeafHash_def rootWithAppendedHex_def rootHex_def Let_def)

theorem preview_root_is_append_root_witness:
  "rbind (snd (appendLeafHash (\<lambda>_. replicate 32 0) KMsg (replicate 64 (CHR ''a'')) emptyTree)) (\<lambda>(i, r). Inr r)
     = rootWithAppendedHex (\<lambda>_. replicate 32 0) (replicate 64 (CHR ''a'')) emptyTree"
  by (rule preview_root_is_append_root) (simp add: HEX32_def list_all_length lowerHex_def)

text \<open>Both parties to a session reach the same root: two daemons that append the same digests
  in the same order, whatever labels they give the leaves, report the same index and the same
  root, and the root is the RFC 6962 hash of the digests.\<close>

theorem same_digests_same_root:
  assumes "width32 sha" and "map hashHex (st_leaves s) = map hashHex (st_leaves t)"
    and "goodLeaves s" and "HEX32 h"
  shows "snd (appendLeafHash sha k h s) = snd (appendLeafHash sha k' h t) \<and>
    snd (appendLeafHash sha k h s) =
      Inr (treeSize s, bytesToHex (mth sha (map hexToBytes (map hashHex (st_leaves s) @ [h]))))"
proof -
  have "\<forall>d \<in> set (map hashHex (st_leaves s) @ [h]). HEX32 d"
    using assms(3,4) by (auto simp: goodLeaves_def)
  from rootOfHashes_ok [OF assms(1) this] assms(2,4) show ?thesis
    using map_eq_imp_length_eq [OF assms(2)]
    by (simp add: appendLeafHash_def rootHex_def Let_def treeSize_def rootOf_mth)
qed

theorem same_digests_same_root_witness:
  "snd (appendLeafHash (\<lambda>_. replicate 32 0) KMsg (replicate 64 (CHR ''a'')) emptyTree)
     = snd (appendLeafHash (\<lambda>_. replicate 32 0) KCtrl (replicate 64 (CHR ''a'')) emptyTree)"
  using same_digests_same_root [of "\<lambda>_. replicate 32 0" emptyTree emptyTree "replicate 64 (CHR ''a'')" KMsg KCtrl]
  by (simp add: width32_def goodLeaves_def emptyTree_def HEX32_def list_all_length lowerHex_def)

end
