(* ===== verification/Wire.thy ===== *)
theory Wire
  imports Prelude Hex
begin

text \<open>
  Values off the wire: what \<open>decodeCbor\<close> and \<open>JSON.parse\<close> hand to the code, and the readers the
  decoders of \<open>core/protocol-types/src\<close> share. CBOR itself is the third-party package cbor-x; an
  encoder is modelled up to the value it passes to \<open>encodeCbor\<close>, a decoder from the value
  \<open>decodeCbor\<close> returns.
\<close>

section \<open>JavaScript values\<close>

text \<open>
  Numbers split into integers and the rest (kept opaque as text): the code asks
  \<open>Number.isInteger\<close> wherever it reads one. An object is its fields in insertion order.
\<close>

datatype jsval =
    JUndefined
  | JNull
  | JBool bool
  | JInt int
  | JFraction string
  | JBigInt int
  | JText string
  | JBytes bytes
  | JArray "jsval list"
  | JObject "(string \<times> jsval) list"
  | JMap "(jsval \<times> jsval) list"

type_synonym fields = "(string \<times> jsval) list"

text \<open>\<open>p[name]\<close> on an object: \<open>undefined\<close> when the field is absent.\<close>

definition getProp :: "fields \<Rightarrow> string \<Rightarrow> jsval" where
  "getProp m f = (case map_of m f of None \<Rightarrow> JUndefined | Some v \<Rightarrow> v)"

text \<open>
  \<open>typeof v === "object" && v !== null && !Array.isArray(v)\<close>. A byte string is an object in
  JavaScript and passes this test, and so does a \<open>Map\<close>; none of the field names the decoders read is one of their
  properties.
\<close>

fun asObject :: "jsval \<Rightarrow> fields option" where
  "asObject (JObject m) = Some m"
| "asObject (JBytes b) = Some []"
| "asObject (JMap _) = Some []"
| "asObject _ = None"

fun isNumber :: "jsval \<Rightarrow> bool" where
  "isNumber (JInt _) = True"
| "isNumber (JFraction _) = True"
| "isNumber _ = False"

text \<open>\<open>ss.join(sep)\<close>.\<close>

fun join :: "string \<Rightarrow> string list \<Rightarrow> string" where
  "join sep [] = ''''"
| "join sep [s] = s"
| "join sep (s # t # ss) = s @ sep @ join sep (t # ss)"

section \<open>Readers\<close>

text \<open>
  Every frame module repeats these with its own error prefix; \<open>p\<close> is that prefix, and an
  error is named by the code its message starts with.
\<close>

definition present :: "string \<Rightarrow> fields \<Rightarrow> string \<Rightarrow> jsval js" where
  "present p m f =
     (case map_of m f of Some v \<Rightarrow> Inr v | None \<Rightarrow> Inl (Error (p @ ''_missing_field'')))"

definition fieldType :: "string \<Rightarrow> 'a js" where
  "fieldType p = Inl (Error (p @ ''_field_type''))"

fun strVal :: "string \<Rightarrow> jsval \<Rightarrow> string js" where
  "strVal p (JText s) = (if s = '''' then fieldType p else Inr s)"
| "strVal p _ = fieldType p"

definition str :: "string \<Rightarrow> fields \<Rightarrow> string \<Rightarrow> string js" where
  "str p m f = rbind (present p m f) (strVal p)"

fun bytesVal :: "string \<Rightarrow> jsval \<Rightarrow> bytes js" where
  "bytesVal p (JBytes b) = Inr b"
| "bytesVal p _ = fieldType p"

definition bytesField :: "string \<Rightarrow> fields \<Rightarrow> string \<Rightarrow> bytes js" where
  "bytesField p m f = rbind (present p m f) (bytesVal p)"

fun hex64Val :: "string \<Rightarrow> jsval \<Rightarrow> string js" where
  "hex64Val p (JText s) = (if HEX32 s then Inr s else fieldType p)"
| "hex64Val p _ = fieldType p"

definition hex64 :: "string \<Rightarrow> fields \<Rightarrow> string \<Rightarrow> string js" where
  "hex64 p m f = rbind (present p m f) (hex64Val p)"

fun natVal :: "string \<Rightarrow> jsval \<Rightarrow> nat js" where
  "natVal p (JInt i) = (if i < 0 then fieldType p else Inr (nat i))"
| "natVal p _ = fieldType p"

definition nonNegativeInt :: "string \<Rightarrow> fields \<Rightarrow> string \<Rightarrow> nat js" where
  "nonNegativeInt p m f = rbind (present p m f) (natVal p)"

fun arrayVal :: "string \<Rightarrow> jsval \<Rightarrow> jsval list js" where
  "arrayVal p (JArray xs) = Inr xs"
| "arrayVal p _ = fieldType p"

definition arrayOf :: "string \<Rightarrow> fields \<Rightarrow> string \<Rightarrow> jsval list js" where
  "arrayOf p m f = rbind (present p m f) (arrayVal p)"

definition asMap :: "string \<Rightarrow> jsval \<Rightarrow> fields js" where
  "asMap p v = (case asObject v of Some m \<Rightarrow> Inr m | None \<Rightarrow> fieldType p)"

definition hexList :: "string \<Rightarrow> fields \<Rightarrow> string \<Rightarrow> string list js" where
  "hexList p m f = rbind (arrayOf p m f) (rmap (hex64Val p))"

definition byteList :: "string \<Rightarrow> fields \<Rightarrow> string \<Rightarrow> bytes list js" where
  "byteList p m f = rbind (arrayOf p m f) (rmap (bytesVal p))"

lemmas reader_defs = present_def fieldType_def str_def bytesField_def hex64_def nonNegativeInt_def
  arrayOf_def asMap_def hexList_def byteList_def

lemma strVal_Inr [simp]: "strVal p v = Inr s \<longleftrightarrow> v = JText s \<and> s \<noteq> ''''"
  by (cases v) (auto simp: fieldType_def)

lemma bytesVal_Inr [simp]: "bytesVal p v = Inr b \<longleftrightarrow> v = JBytes b"
  by (cases v) (auto simp: fieldType_def)

lemma hex64Val_Inr [simp]: "hex64Val p v = Inr s \<longleftrightarrow> v = JText s \<and> HEX32 s"
  by (cases v) (auto simp: fieldType_def)

lemma natVal_Inr [simp]: "natVal p v = Inr n \<longleftrightarrow> v = JInt (int n)"
  by (cases v) (auto simp: fieldType_def)

lemma arrayVal_Inr [simp]: "arrayVal p v = Inr xs \<longleftrightarrow> v = JArray xs"
  by (cases v) (auto simp: fieldType_def)

lemma str_nonempty: "str p m f = Inr s \<Longrightarrow> s \<noteq> ''''"
  by (auto simp: str_def rbind_Inr_conv)

lemma rmap_hex64 [wire_simps]:
  "\<forall>s \<in> set xs. HEX32 s \<Longrightarrow> rmap (hex64Val p) (map JText xs) = Inr xs"
  by (induction xs) auto

lemma rmap_hex64_ok: "rmap (hex64Val p) vs = Inr xs \<Longrightarrow> \<forall>s \<in> set xs. HEX32 s"
proof (induction vs arbitrary: xs)
  case (Cons v vs)
  then show ?case by (cases v) (auto simp: rbind_Inr_conv fieldType_def split: if_splits)
qed simp

lemma rmap_bytes [wire_simps]: "rmap (bytesVal p) (map JBytes xs) = Inr xs"
  by (induction xs) auto

lemma rmap_decode: "(\<And>x. x \<in> set xs \<Longrightarrow> d (e x) = Inr x) \<Longrightarrow> rmap d (map e xs) = Inr xs"
  by (induction xs) auto

section \<open>The contract of a frame codec\<close>

text \<open>
  A codec writes well-formed frames and reads back what it wrote; writing may throw on a frame that
  is not well formed. Two frames with one encoding are then the same frame.
\<close>

locale frame_writer =
  fixes enc :: "'f \<Rightarrow> 'w js"
    and dec :: "'w \<Rightarrow> 'f js"
    and wf :: "'f \<Rightarrow> bool"
  assumes decode_encode: "wf f \<Longrightarrow> rbind (enc f) dec = Inr f"
begin

lemma encode_returns: "wf f \<Longrightarrow> \<exists>v. enc f = Inr v \<and> dec v = Inr f"
  using decode_encode by (auto simp: rbind_Inr_conv)

lemma encode_inj: "wf f \<Longrightarrow> wf g \<Longrightarrow> enc f = enc g \<Longrightarrow> f = g"
  by (metis decode_encode sum.inject(2))

lemma list_round_trip: "\<forall>f \<in> set fs. wf f \<Longrightarrow> rbind (rmap enc fs) (rmap dec) = Inr fs"
proof (induction fs)
  case (Cons f fs)
  obtain v where "enc f = Inr v" "dec v = Inr f" using encode_returns [of f] Cons.prems by auto
  moreover obtain vs where "rmap enc fs = Inr vs" "rmap dec vs = Inr fs"
    using Cons by (auto simp: rbind_Inr_conv)
  ultimately show ?case by simp
qed simp

end

text \<open>
  When moreover only well-formed frames are ever read, a frame relayed through decode and encode
  arrives unchanged.
\<close>

locale frame_codec = frame_writer enc dec wf
  for enc :: "'f \<Rightarrow> 'w js" and dec :: "'w \<Rightarrow> 'f js" and wf :: "'f \<Rightarrow> bool" +
  assumes decode_wf: "dec v = Inr f \<Longrightarrow> wf f"
begin

lemma relay_identity: "dec v = Inr f \<Longrightarrow> rbind (enc f) dec = Inr f"
  by (rule decode_encode) (rule decode_wf)

lemma list_wf: "rmap dec vs = Inr fs \<Longrightarrow> \<forall>f \<in> set fs. wf f"
  using rmap_all decode_wf by fastforce

end

end
