(* ===== verification/Inclusion_Proof.thy ===== *)
theory Inclusion_Proof
  imports Session_Tree Wire
begin

text \<open>
  \<open>core/daemon/src/inclusion-proof.ts\<close> and \<open>wire-content-hash.ts\<close>: proving that one message
  lies under the root a directory certified. The proof is a JSON object off the wire, so its shape
  is checked first; the root comes from the caller's certificate and the leaf is recomputed from
  the message bytes. HMAC-SHA256 is the parameter \<open>hmac\<close>.
\<close>

section \<open>Content hashes\<close>

definition SHA256 :: string where "SHA256 = ''sha256''"
definition HMAC_SALT_V1 :: string where "HMAC_SALT_V1 = ''hmac-sha256-salt-v1''"

definition isKnownContentHashAlg :: "string \<Rightarrow> bool" where
  "isKnownContentHashAlg alg \<longleftrightarrow> alg = SHA256 \<or> alg = HMAC_SALT_V1"

datatype AlgResolution = AlgOk string | AlgUnknown string

fun resolveContentHashAlg :: "jsval \<Rightarrow> AlgResolution" where
  "resolveContentHashAlg JUndefined = AlgOk SHA256"
| "resolveContentHashAlg JNull = AlgOk SHA256"
| "resolveContentHashAlg (JText raw) = (if isKnownContentHashAlg raw then AlgOk raw else AlgUnknown raw)"
| "resolveContentHashAlg _ = AlgUnknown ''(typeof)''"

definition wireContentHash :: "hash_fn \<Rightarrow> bytes \<Rightarrow> bytes" where
  "wireContentHash sha content = sha (0x00 # content)"

definition saltedContentHash :: "(bytes \<Rightarrow> bytes \<Rightarrow> bytes) \<Rightarrow> bytes \<Rightarrow> bytes \<Rightarrow> bytes" where
  "saltedContentHash hmac salt content = hmac salt (0x00 # content)"

definition contentHashFor ::
  "hash_fn \<Rightarrow> (bytes \<Rightarrow> bytes \<Rightarrow> bytes) \<Rightarrow> bytes \<Rightarrow> string \<Rightarrow> bytes option \<Rightarrow> bytes js" where
  "contentHashFor sha hmac content alg salt =
     (if alg = SHA256 then Inr (wireContentHash sha content)
      else if alg = HMAC_SALT_V1
      then (case salt of None \<Rightarrow> Inl (Error ''CONTENT HASH: no session salt'')
            | Some s \<Rightarrow> Inr (saltedContentHash hmac s content))
      else Inl (Error ''CONTENT HASH: unknown algorithm''))"

section \<open>Proof objects\<close>

definition rootOverLeafHashes :: "hash_fn \<Rightarrow> string list \<Rightarrow> string js" where
  "rootOverLeafHashes sha leafHashesHex = rootOfHashes sha leafHashesHex"

definition proofPathFor :: "hash_fn \<Rightarrow> string list \<Rightarrow> nat \<Rightarrow> string list js" where
  "proofPathFor sha leafHashesHex index =
     rbind (buildMerkleTree sha (map (\<lambda>h. LHash (hexToBytes h)) leafHashesHex)) (\<lambda>t.
     rbind (inclusionProof t index) (\<lambda>path. Inr (map bytesToHex path)))"

record InclusionProof =
  session_id :: string
  certified_root :: string
  leaf_index :: int
  leaf_count :: int
  leaf_hash :: string
  proof_path :: "string list"
  content_hash_alg :: string
  content_salt :: "string option"

fun hexText :: "jsval \<Rightarrow> string option" where
  "hexText (JText s) = (if HEX32 s then Some s else None)"
| "hexText _ = None"

fun textVal :: "jsval \<Rightarrow> string option" where
  "textVal (JText s) = Some s"
| "textVal _ = None"

fun nonEmptyText :: "jsval \<Rightarrow> string option" where
  "nonEmptyText (JText s) = (if s = [] then None else Some s)"
| "nonEmptyText _ = None"

text \<open>Any non-null object passes the first test, an array or a byte string included.\<close>

fun objectFields :: "jsval \<Rightarrow> fields option" where
  "objectFields (JObject m) = Some m"
| "objectFields (JBytes b) = Some []"
| "objectFields (JArray vs) = Some []"
| "objectFields _ = None"

fun intVal :: "jsval \<Rightarrow> int option" where
  "intVal (JInt i) = Some i"
| "intVal _ = None"

fun pathVal :: "jsval \<Rightarrow> string list option" where
  "pathVal (JArray vs) =
     (if list_all (\<lambda>v. hexText v \<noteq> None) vs then Some (map (\<lambda>v. the (hexText v)) vs) else None)"
| "pathVal _ = None"

text \<open>The salt: null, or a non-empty even number of lowercase hexadecimal digits.\<close>

fun saltVal :: "jsval \<Rightarrow> string option option" where
  "saltVal JNull = Some None"
| "saltVal (JText s) = (if s \<noteq> '''' \<and> even (length s) \<and> list_all lowerHex s then Some (Some s) else None)"
| "saltVal _ = None"

text \<open>
  \<open>isInclusionProofShape\<close>, returning the typed fields the type guard lets the caller read.
\<close>

definition inclusionProofShape :: "jsval \<Rightarrow> InclusionProof option" where
  "inclusionProofShape value =
     Option.bind (objectFields value) (\<lambda>p.
     if getProp p ''version'' \<noteq> JInt 1 then None else
     Option.bind (nonEmptyText (getProp p ''session_id'')) (\<lambda>sid.
     Option.bind (hexText (getProp p ''certified_root'')) (\<lambda>root.
     Option.bind (hexText (getProp p ''leaf_hash'')) (\<lambda>leaf.
     Option.bind (intVal (getProp p ''leaf_index'')) (\<lambda>i.
     if i < 0 then None else
     Option.bind (intVal (getProp p ''leaf_count'')) (\<lambda>n.
     if n \<le> 0 \<or> i \<ge> n then None else
     Option.bind (pathVal (getProp p ''proof_path'')) (\<lambda>path.
     Option.bind (textVal (getProp p ''content_hash_alg'')) (\<lambda>alg.
     Option.bind (saltVal (getProp p ''content_salt'')) (\<lambda>salt.
     Some \<lparr>session_id = sid, certified_root = root, leaf_index = i, leaf_count = n,
           leaf_hash = leaf, proof_path = path, content_hash_alg = alg, content_salt = salt\<rparr>)))))))))"

definition isInclusionProofShape :: "jsval \<Rightarrow> bool" where
  "isInclusionProofShape value \<longleftrightarrow> inclusionProofShape value \<noteq> None"

section \<open>Verification\<close>

datatype InclusionVerifyReason =
    PROOF_MALFORMED
  | ROOT_NOT_FROM_CERTIFICATE
  | CERTIFIED_ROOT_MALFORMED
  | UNKNOWN_HASH_ALG
  | UNSALTED_PROOF
  | SALT_MISSING
  | MESSAGE_DOES_NOT_MATCH_LEAF
  | PROOF_PATH_INVALID

record Verified =
  v_session_id :: string
  v_leaf_index :: int
  v_leaf_count :: int
  v_certified_root :: string
  v_content_hash_alg :: string
  v_session_id_verified :: bool

datatype InclusionVerifyResult = Verified Verified | Refused InclusionVerifyReason

definition verifyInclusionProof ::
  "hash_fn \<Rightarrow> (bytes \<Rightarrow> bytes \<Rightarrow> bytes) \<Rightarrow> jsval \<Rightarrow> bytes \<Rightarrow> string \<Rightarrow> InclusionVerifyResult js" where
  "verifyInclusionProof sha hmac value messageBytes certifiedRootHex =
     (case inclusionProofShape value of
        None \<Rightarrow> Inr (Refused PROOF_MALFORMED)
      | Some p \<Rightarrow>
          if \<not> HEX32 (toLower certifiedRootHex) then Inr (Refused CERTIFIED_ROOT_MALFORMED) else
          let anchor = toLower certifiedRootHex in
          if certified_root p \<noteq> anchor then Inr (Refused ROOT_NOT_FROM_CERTIFICATE)
          else if \<not> isKnownContentHashAlg (content_hash_alg p) then Inr (Refused UNKNOWN_HASH_ALG)
          else if content_hash_alg p \<noteq> HMAC_SALT_V1 then Inr (Refused UNSALTED_PROOF)
          else (case content_salt p of
                  None \<Rightarrow> Inr (Refused SALT_MISSING)
                | Some salt \<Rightarrow>
                    rbind (contentHashFor sha hmac messageBytes (content_hash_alg p) (Some (hexToBytes salt)))
                      (\<lambda>h. let recomputed = bytesToHex h in
                        if recomputed \<noteq> leaf_hash p then Inr (Refused MESSAGE_DOES_NOT_MATCH_LEAF)
                        else rbind (verifyInclusion sha (hexToBytes recomputed) (leaf_index p) (leaf_count p)
                               (map hexToBytes (proof_path p)) (hexToBytes anchor))
                          (\<lambda>verified. if \<not> verified then Inr (Refused PROOF_PATH_INVALID)
                            else Inr (Verified \<lparr>v_session_id = session_id p, v_leaf_index = leaf_index p,
                                   v_leaf_count = leaf_count p, v_certified_root = anchor,
                                   v_content_hash_alg = content_hash_alg p,
                                   v_session_id_verified = False\<rparr>)))))"

section \<open>Lemmas\<close>

lemma contentHashFor_salted [simp]:
  "contentHashFor sha hmac m HMAC_SALT_V1 (Some s) = Inr (saltedContentHash hmac s m)"
  by (simp add: contentHashFor_def SHA256_def HMAC_SALT_V1_def)

lemma hexText_Some: "hexText v = Some s \<Longrightarrow> HEX32 s"
  by (cases v) (auto split: if_splits)

lemma pathVal_Some: "pathVal v = Some xs \<Longrightarrow> \<forall>s \<in> set xs. HEX32 s"
proof (cases v)
  case (JArray vs)
  moreover assume "pathVal v = Some xs"
  ultimately show ?thesis by (fastforce simp: list_all_iff split: if_splits intro: hexText_Some)
qed simp_all

lemma shape_fields:
  "inclusionProofShape v = Some p \<Longrightarrow>
     HEX32 (certified_root p) \<and> HEX32 (leaf_hash p) \<and> 0 \<le> leaf_index p \<and>
     leaf_index p < leaf_count p \<and> (\<forall>s \<in> set (proof_path p). HEX32 s)"
  unfolding inclusionProofShape_def
  by (auto simp: Option.bind_eq_Some_conv split: if_splits dest: hexText_Some pathVal_Some)

text \<open>What acceptance establishes, in one place.\<close>

lemma verify_accepts:
  assumes "verifyInclusionProof sha hmac v m root = Inr (Verified r)"
  obtains p salt where "inclusionProofShape v = Some p" "certified_root p = toLower root"
    "content_hash_alg p = HMAC_SALT_V1" "content_salt p = Some salt"
    "leaf_hash p = bytesToHex (saltedContentHash hmac (hexToBytes salt) m)"
    "verifyInclusion sha (saltedContentHash hmac (hexToBytes salt) m) (leaf_index p) (leaf_count p)
       (map hexToBytes (proof_path p)) (hexToBytes (toLower root)) = Inr True"
    "v_leaf_index r = leaf_index p" "v_leaf_count r = leaf_count p" "v_certified_root r = toLower root"
    "\<not> v_session_id_verified r"
proof -
  from assms obtain p salt where p: "inclusionProofShape v = Some p" "certified_root p = toLower root"
      "content_hash_alg p = HMAC_SALT_V1" "content_salt p = Some salt"
    and leaf: "bytesToHex (saltedContentHash hmac (hexToBytes salt) m) = leaf_hash p"
    and check: "verifyInclusion sha (hexToBytes (leaf_hash p)) (leaf_index p) (leaf_count p)
       (map hexToBytes (proof_path p)) (hexToBytes (toLower root)) = Inr True"
    and r: "r = \<lparr>v_session_id = session_id p, v_leaf_index = leaf_index p, v_leaf_count = leaf_count p,
       v_certified_root = toLower root, v_content_hash_alg = HMAC_SALT_V1, v_session_id_verified = False\<rparr>"
    unfolding verifyInclusionProof_def
    by (auto simp: Let_def rbind_Inr_conv split: option.splits if_splits)
  from check leaf have "verifyInclusion sha (saltedContentHash hmac (hexToBytes salt) m) (leaf_index p)
      (leaf_count p) (map hexToBytes (proof_path p)) (hexToBytes (toLower root)) = Inr True"
    by (metis hexToBytes_bytesToHex)
  from that [OF p leaf [symmetric] this] r show thesis by simp
qed

lemma proofPathFor_ok:
  assumes "width32 sha" and "\<forall>h \<in> set hs. HEX32 h" and "i < length hs"
  shows "proofPathFor sha hs i = Inr (map bytesToHex (proofWalk (levels sha (map hexToBytes hs)) i))"
proof -
  let ?ls = "map (\<lambda>h. LHash (hexToBytes h)) hs"
  have "hs \<noteq> []" using assms(3) by auto
  then have "buildMerkleTree sha ?ls
      = Inr \<lparr>tree_size = length ?ls, levelHashes = levels sha (map hexToBytes hs)\<rparr>"
    using assms(1,2) by (intro buildMerkleTree_levels rmap_hashes all32_hashes) simp_all
  with assms(3) \<open>hs \<noteq> []\<close> show ?thesis by (simp add: proofPathFor_def inclusionProof_def)
qed

text \<open>The verifier does not throw, whatever it is given.\<close>

lemma verifyInclusion_returns: "width32 sha \<Longrightarrow> returns (verifyInclusion sha h i n p r)"
proof (cases "length h = 32 \<and> all32 p")
  case True
  assume "width32 sha"
  with True obtain x where "verifyLoop sha h i n p = Inr x" using verifyLoop_total by blast
  then show ?thesis by (auto simp: verifyInclusion_def split: option.splits)
qed (auto simp: verifyInclusion_def all32_def)

lemma verifyInclusionProof_returns:
  assumes "width32 sha"
  shows "returns (verifyInclusionProof sha hmac v m root)"
proof (cases "inclusionProofShape v")
  case (Some p)
  obtain b where b: "verifyInclusion sha (hexToBytes (leaf_hash p)) (leaf_index p) (leaf_count p)
      (map hexToBytes (proof_path p)) (hexToBytes (toLower root)) = Inr b"
    using verifyInclusion_returns [OF assms] unfolding returns_def by blast
  show ?thesis
  proof (cases "content_hash_alg p = HMAC_SALT_V1")
    case True
    with b Some show ?thesis
      by (cases "content_salt p") (simp_all add: verifyInclusionProof_def Let_def)
  qed (simp add: verifyInclusionProof_def Some Let_def)
qed (simp add: verifyInclusionProof_def)

lemma rootOf_width: "width32 sha \<Longrightarrow> all32 xs \<Longrightarrow> xs \<noteq> [] \<Longrightarrow> length (rootOf sha xs) = 32"
proof (induction sha xs rule: rootOf.induct)
  case (1 sha xs)
  show ?case
  proof (cases "length xs > 1")
    case True
    moreover have "pairs sha xs \<noteq> []" using True length_pairs [of sha xs] by (intro notI) simp
    ultimately show ?thesis using 1 by (simp add: rootOf_step)
  next
    case False
    with 1(4) obtain x where "xs = [x]" by (cases xs) auto
    with 1 show ?thesis by simp
  qed
qed

text \<open>The reference list of digests a certificate commits to.\<close>

definition certifies :: "hash_fn \<Rightarrow> string list \<Rightarrow> string \<Rightarrow> bool" where
  "certifies sha hs root \<longleftrightarrow> width32 sha \<and> hs \<noteq> [] \<and> (\<forall>h \<in> set hs. HEX32 h) \<and> length hs \<le> 2 ^ 31 \<and>
     rootOverLeafHashes sha hs = Inr (toLower root)"

lemma certifies_valid:
  assumes "certifies sha hs root"
  shows "validLeaves sha (map hexToBytes hs)" and "hexToBytes (toLower root) = rootOf sha (map hexToBytes hs)"
    and "HEX32 (toLower root)" and "hs \<noteq> []"
proof -
  show "validLeaves sha (map hexToBytes hs)"
    using assms by (auto simp: certifies_def validLeaves_def intro: all32_hashes)
  show "hs \<noteq> []" using assms by (simp add: certifies_def)
  have "rootOverLeafHashes sha hs = Inr (bytesToHex (rootOf sha (map hexToBytes hs)))"
    using assms rootOfHashes_ok [of sha hs] by (simp add: certifies_def rootOverLeafHashes_def)
  then have r: "toLower root = bytesToHex (rootOf sha (map hexToBytes hs))"
    using assms by (simp add: certifies_def)
  then show "hexToBytes (toLower root) = rootOf sha (map hexToBytes hs)" by simp
  have "length (rootOf sha (map hexToBytes hs)) = 32"
    using assms by (auto simp: certifies_def intro!: rootOf_width all32_hashes)
  with r show "HEX32 (toLower root)" by simp
qed

end
