(* ===== verification/Inclusion_Handlers.thy ===== *)
theory Inclusion_Handlers
  imports Inclusion_Proof
begin

text \<open>
  \<open>core/daemon/src/inclusion-proof-handlers.ts\<close> and the leaf-set check of
  \<open>sealed-leaf-set.ts\<close>: issuing the proof that one message lies under a certified root, and
  answering a verification request. What the session store holds (\<open>sessionNodeManager\<close>) is a
  record of lookups; the texts of the answers are dropped, the reason codes and the data kept.
\<close>

section \<open>What the session store answers\<close>

datatype SaltState = SaltHeld bytes | SaltUnreadable | SaltAbsent

record SessionLookups =
  getSealCertificate :: "string \<Rightarrow> string \<Rightarrow> string option"
  getSessionRecord :: "string \<Rightarrow> string \<Rightarrow> bool"
  getCertifiedLeafSet :: "string \<Rightarrow> string \<Rightarrow> string list option"
  getCertifiedLeafSetState :: "string \<Rightarrow> string \<Rightarrow> string option"
  getSessionTree :: "string \<Rightarrow> string \<Rightarrow> SessionTree"
  getSessionContentSaltState :: "string \<Rightarrow> string \<Rightarrow> SaltState"

text \<open>The refusals of both handlers, by reason code, with the data each carries.\<close>

datatype ProofRefusal =
    MissingSessionId | MissingMessage | NoCurrentAgent | UnknownSession | NotSealedYet
  | LeavesRootDisagrees | LeavesMalformed | LeavesPersistFailed | LeavesNotCarried | LeavesUnavailable
  | LeavesRootMismatch | LocalTreeDiverged | SaltUnreadableRefusal | SessionUnsalted
  | InvalidLeafIndex | LeafIndexMismatch int "nat list"
  | HashedUnderOtherAlg nat nat | MessageNotInSession nat | MessageAmbiguous "nat list"
  | SelfCheckFailed InclusionVerifyReason
  | MissingProof | ProofTextNotJson | MissingCertifiedRoot | VerifyRefused InclusionVerifyReason

datatype 'a reply = Ok 'a | No ProofRefusal

text \<open>\<open>TextEncoder.encode\<close> on code points below 256.\<close>

definition utf8 :: "string \<Rightarrow> bytes" where
  "utf8 s = concat (map (\<lambda>c. let n = of_char c :: nat in
     if n < 128 then [of_nat n] else [of_nat (192 + n div 64), of_nat (128 + n mod 64)]) s)"

section \<open>The sealed leaf set\<close>

datatype SealedLeafSet = LeafSet "string list" | LeavesMalformedR | RootDisagreesR

text \<open>
  \<open>decode\<close> is \<open>decodeStructure1\<close> reduced to the content hash it reads, \<open>None\<close> when it refuses
  the bytes.
\<close>

definition sealedLeafHashesFromSignedLeaves ::
  "(bytes \<Rightarrow> bytes option) \<Rightarrow> bytes list \<Rightarrow> string list option" where
  "sealedLeafHashesFromSignedLeaves decode leaves =
     (if leaves = [] \<or> list_ex (\<lambda>l. decode l = None) leaves then None
      else Some (map (\<lambda>l. bytesToHex (the (decode l))) leaves))"

definition certifiedLeafSetFrom ::
  "hash_fn \<Rightarrow> (bytes \<Rightarrow> bytes option) \<Rightarrow> bytes list \<Rightarrow> string \<Rightarrow> SealedLeafSet js" where
  "certifiedLeafSetFrom sha decode leaves sealedRootHex =
     (case sealedLeafHashesFromSignedLeaves decode leaves of
        None \<Rightarrow> Inr LeavesMalformedR
      | Some hashes \<Rightarrow>
          rbind (rootOverLeafHashes sha hashes) (\<lambda>recomputed.
            if recomputed \<noteq> toLower sealedRootHex then Inr RootDisagreesR
            else Inr (LeafSet hashes)))"

section \<open>Issuing a proof\<close>

fun missingLeafSetRefusal :: "string option \<Rightarrow> ProofRefusal" where
  "missingLeafSetRefusal (Some s) =
     (if s = ''sealed_leaves_root_disagrees'' then LeavesRootDisagrees
      else if s = ''sealed_leaves_malformed'' then LeavesMalformed
      else if s = ''persist_failed'' then LeavesPersistFailed
      else if s = ''not_carried_present_party'' then LeavesNotCarried
      else LeavesUnavailable)"
| "missingLeafSetRefusal None = LeavesUnavailable"

text \<open>The local record must be a prefix of the certified leaves.\<close>

definition localDiverges :: "SessionTree \<Rightarrow> string list \<Rightarrow> bool" where
  "localDiverges tree certified \<longleftrightarrow>
     treeSize tree > length certified \<or>
     list_ex (\<lambda>i. hashAt tree i \<noteq> Some (certified ! i)) [0..<treeSize tree]"

definition positionsOf :: "string \<Rightarrow> string list \<Rightarrow> nat list" where
  "positionsOf h hs = filter (\<lambda>i. hs ! i = h) [0..<length hs]"

text \<open>Which leaf the caller means: the requested one, or the only match.\<close>

definition chooseLeaf ::
  "hash_fn \<Rightarrow> string list \<Rightarrow> bytes \<Rightarrow> string \<Rightarrow> jsval \<Rightarrow> nat reply" where
  "chooseLeaf sha certified messageBytes leafHash requested =
     (let matches = positionsOf leafHash certified in
      if requested \<noteq> JUndefined \<and> requested \<noteq> JNull then
        (case requested of
           JInt i \<Rightarrow>
             if i < 0 then No InvalidLeafIndex
             else if \<not> (nat i < length certified \<and> certified ! nat i = leafHash)
             then No (LeafIndexMismatch i matches)
             else Ok (nat i)
         | _ \<Rightarrow> No InvalidLeafIndex)
      else case matches of
        [] \<Rightarrow>
          (case positionsOf (bytesToHex (wireContentHash sha messageBytes)) certified of
             at # _ \<Rightarrow> No (HashedUnderOtherAlg at (length certified))
           | [] \<Rightarrow> No (MessageNotInSession (length certified)))
      | [i] \<Rightarrow> Ok i
      | _ \<Rightarrow> No (MessageAmbiguous matches))"

definition proofObject ::
  "string \<Rightarrow> string \<Rightarrow> nat \<Rightarrow> nat \<Rightarrow> string \<Rightarrow> string list \<Rightarrow> bytes \<Rightarrow> jsval" where
  "proofObject sid root leafIndex leafCount leafHash path salt = JObject
     [(''version'', JInt 1), (''session_id'', JText sid), (''certified_root'', JText root),
      (''leaf_index'', JInt (int leafIndex)), (''leaf_count'', JInt (int leafCount)),
      (''leaf_hash'', JText leafHash), (''proof_path'', JArray (map JText path)),
      (''content_hash_alg'', JText HMAC_SALT_V1), (''content_salt'', JText (bytesToHex salt))]"

text \<open>From the salt on: the leaf, the proof object, and the self-check before it is returned.\<close>

definition issueProof ::
  "hash_fn \<Rightarrow> (bytes \<Rightarrow> bytes \<Rightarrow> bytes) \<Rightarrow> string \<Rightarrow> string \<Rightarrow> string list \<Rightarrow> bytes \<Rightarrow> bytes \<Rightarrow> jsval \<Rightarrow> jsval reply js"
where
  "issueProof sha hmac sid sealedRoot certified salt messageBytes requested =
     rbind (contentHashFor sha hmac messageBytes HMAC_SALT_V1 (Some salt)) (\<lambda>h.
     let leafHash = bytesToHex h in
     case chooseLeaf sha certified messageBytes leafHash requested of
       No r \<Rightarrow> Inr (No r)
     | Ok leafIndex \<Rightarrow>
         rbind (proofPathFor sha certified leafIndex) (\<lambda>path.
         let pobj = proofObject sid (toLower sealedRoot) leafIndex (length certified) leafHash path salt in
         rbind (verifyInclusionProof sha hmac pobj messageBytes sealedRoot) (\<lambda>check.
         case check of Refused r \<Rightarrow> Inr (No (SelfCheckFailed r)) | Verified _ \<Rightarrow> Inr (Ok pobj))))"

text \<open>
  \<open>cello_get_inclusion_proof\<close>. The parameters are the request object's fields and the agent the
  connection resolves to.
\<close>

definition getInclusionProof ::
  "hash_fn \<Rightarrow> (bytes \<Rightarrow> bytes \<Rightarrow> bytes) \<Rightarrow> SessionLookups \<Rightarrow> string option \<Rightarrow> fields \<Rightarrow> jsval reply js" where
  "getInclusionProof sha hmac db agent params =
     (case nonEmptyText (getProp params ''session_id'') of
        None \<Rightarrow> Inr (No MissingSessionId)
      | Some sid \<Rightarrow>
     (case nonEmptyText (getProp params ''message'') of
        None \<Rightarrow> Inr (No MissingMessage)
      | Some message \<Rightarrow>
     (case agent of
        None \<Rightarrow> Inr (No NoCurrentAgent)
      | Some agentName \<Rightarrow>
     (case getSealCertificate db agentName sid of
        None \<Rightarrow> Inr (No (if getSessionRecord db agentName sid then NotSealedYet else UnknownSession))
      | Some sealedRoot \<Rightarrow>
     (case getCertifiedLeafSet db agentName sid of
        None \<Rightarrow> Inr (No (missingLeafSetRefusal (getCertifiedLeafSetState db agentName sid)))
      | Some certified \<Rightarrow>
          rbind (rootOverLeafHashes sha certified) (\<lambda>storedRoot.
          if storedRoot \<noteq> toLower sealedRoot then Inr (No LeavesRootMismatch)
          else if localDiverges (getSessionTree db agentName sid) certified then Inr (No LocalTreeDiverged)
          else case getSessionContentSaltState db agentName sid of
            SaltUnreadable \<Rightarrow> Inr (No SaltUnreadableRefusal)
          | SaltAbsent \<Rightarrow> Inr (No SessionUnsalted)
          | SaltHeld salt \<Rightarrow>
              issueProof sha hmac sid sealedRoot certified salt (utf8 message)
                (getProp params ''leaf_index'')))))))"

text \<open>
  \<open>cello_verify_inclusion_proof\<close>. \<open>parse\<close> is \<open>JSON.parse\<close>, \<open>None\<close> when it throws; it is asked
  only for a proof supplied as text.
\<close>

definition verifyInclusionHandler ::
  "(string \<Rightarrow> jsval option) \<Rightarrow> hash_fn \<Rightarrow> (bytes \<Rightarrow> bytes \<Rightarrow> bytes) \<Rightarrow> fields \<Rightarrow> Verified reply js" where
  "verifyInclusionHandler parse sha hmac params =
     (let rawProof = getProp params ''proof'' in
      if rawProof = JUndefined \<or> rawProof = JNull then Inr (No MissingProof) else
      case (case textVal rawProof of Some text \<Rightarrow> parse text | None \<Rightarrow> Some rawProof) of
        None \<Rightarrow> Inr (No ProofTextNotJson)
      | Some pobj \<Rightarrow>
     (case nonEmptyText (getProp params ''message'') of
        None \<Rightarrow> Inr (No MissingMessage)
      | Some message \<Rightarrow>
     (case nonEmptyText (getProp params ''certified_root'') of
        None \<Rightarrow> Inr (No MissingCertifiedRoot)
      | Some certifiedRoot \<Rightarrow>
          rbind (verifyInclusionProof sha hmac pobj (utf8 message) certifiedRoot) (\<lambda>result.
            case result of Refused r \<Rightarrow> Inr (No (VerifyRefused r)) | Verified v \<Rightarrow> Inr (Ok v)))))"

section \<open>Lemmas\<close>

lemma positionsOf_iff: "i \<in> set (positionsOf h hs) \<longleftrightarrow> i < length hs \<and> hs ! i = h"
  by (auto simp: positionsOf_def)

lemma chooseLeaf_ok:
  "chooseLeaf sha hs m h q = Ok i \<Longrightarrow> i < length hs \<and> hs ! i = h"
  using positionsOf_iff [of i h hs]
  by (auto simp: chooseLeaf_def Let_def split: if_splits jsval.splits list.splits)

lemma chooseLeaf_refusal: "chooseLeaf sha hs m h q \<noteq> No (SelfCheckFailed r)"
  by (auto simp: chooseLeaf_def Let_def split: if_splits jsval.splits list.splits)

lemma saltVal_bytes: "b \<noteq> [] \<Longrightarrow> saltVal (JText (bytesToHex b)) = Some (Some (bytesToHex b))"
  using length_bytesToHex [of b] bytesToHex_lower [of b] by (cases "bytesToHex b") auto

lemma pathVal_map: "\<forall>s \<in> set xs. HEX32 s \<Longrightarrow> pathVal (JArray (map JText xs)) = Some xs"
  by (auto simp: list_all_iff intro: map_idI)

lemma proofObject_shape:
  assumes "sid \<noteq> []" and "HEX32 root" and "HEX32 leaf" and "i < n" and "\<forall>s \<in> set path. HEX32 s"
    and "salt \<noteq> []"
  shows "inclusionProofShape (proofObject sid root i n leaf path salt) =
    Some \<lparr>session_id = sid, certified_root = root, leaf_index = int i, leaf_count = int n,
      leaf_hash = leaf, proof_path = path, content_hash_alg = HMAC_SALT_V1,
      content_salt = Some (bytesToHex salt)\<rparr>"
  using assms saltVal_bytes [OF assms(6)] pathVal_map [OF assms(5)]
  by (simp add: inclusionProofShape_def proofObject_def getProp_def del: saltVal.simps pathVal.simps)

lemma chosen_proof_verifies:
  assumes "certifies sha hs root" and "i < length hs" and "sid \<noteq> []" and "salt \<noteq> []"
    and h: "hs ! i = bytesToHex (saltedContentHash hmac salt m)"
    and path: "proofPathFor sha hs i = Inr path"
  shows "\<exists>r. verifyInclusionProof sha hmac
    (proofObject sid (toLower root) i (length hs) (hs ! i) path salt) m root = Inr (Verified r)"
proof -
  let ?ds = "map hexToBytes hs"
  have hex: "\<forall>h \<in> set hs. HEX32 h" and w: "width32 sha" using assms(1) by (auto simp: certifies_def)
  have p: "path = map bytesToHex (proofWalk (levels sha ?ds) i)"
    using path proofPathFor_ok [OF w hex assms(2)] by simp
  have v: "validLeaves sha ?ds" by (rule certifies_valid [OF assms(1)])
  then have a: "all32 (proofWalk (levels sha ?ds) i)"
    by (intro all32_proofWalk) (auto simp: validLeaves_def)
  then have hp: "\<forall>s \<in> set path. HEX32 s" by (auto simp: p all32_def)
  have unhex: "map hexToBytes path = proofWalk (levels sha ?ds) i" by (simp add: p comp_def)
  have "verifyInclusion sha (hexToBytes (hs ! i)) (int i) (int (length hs)) (map hexToBytes path)
      (hexToBytes (toLower root)) = Inr True"
    using merkle.complete [OF v, of i] assms(2) certifies_valid(2) [OF assms(1)]
    by (simp add: merkleCheck_def unhex)
  moreover have "HEX32 (hs ! i)" using hex assms(2) by simp
  ultimately show ?thesis
    using certifies_valid(3) [OF assms(1)] proofObject_shape [OF assms(3) _ _ assms(2) hp assms(4)] h
    by (simp add: verifyInclusionProof_def isKnownContentHashAlg_def Let_def)
qed

lemma issueProof_never_self_refused:
  assumes "certifies sha hs root" and "sid \<noteq> []" and "salt \<noteq> []"
    and "issueProof sha hmac sid root hs salt m q = Inr (No (SelfCheckFailed r))"
  shows False
proof -
  obtain i where i: "chooseLeaf sha hs m (bytesToHex (saltedContentHash hmac salt m)) q = Ok i"
    using assms(4) chooseLeaf_refusal unfolding issueProof_def
    by (cases "chooseLeaf sha hs m (bytesToHex (saltedContentHash hmac salt m)) q") auto
  with assms(4) obtain path c where path: "proofPathFor sha hs i = Inr path"
    and c: "verifyInclusionProof sha hmac (proofObject sid (toLower root) i (length hs)
      (bytesToHex (saltedContentHash hmac salt m)) path salt) m root = Inr c"
    and "(case c of Refused r \<Rightarrow> Inr (No (SelfCheckFailed r)) | Verified _ \<Rightarrow>
      Inr (Ok (proofObject sid (toLower root) i (length hs)
        (bytesToHex (saltedContentHash hmac salt m)) path salt))) = (Inr (No (SelfCheckFailed r)) :: jsval reply js)"
    by (auto simp: issueProof_def rbind_Inr_conv Let_def)
  then have bad: "verifyInclusionProof sha hmac (proofObject sid (toLower root) i (length hs)
      (bytesToHex (saltedContentHash hmac salt m)) path salt) m root = Inr (Refused r)"
    by (cases c) auto
  from chooseLeaf_ok [OF i] have "i < length hs" "hs ! i = bytesToHex (saltedContentHash hmac salt m)"
    by auto
  with chosen_proof_verifies [OF assms(1) this(1) assms(2,3) this(2) path] bad show False by simp
qed

text \<open>From the salt on, asking for a position that holds the message gets its proof.\<close>

lemma issueProof_ok:
  assumes "certifies sha hs root" and "i < length hs" and "sid \<noteq> []" and "salt \<noteq> []"
    and "hs ! i = bytesToHex (saltedContentHash hmac salt m)"
  obtains path where "proofPathFor sha hs i = Inr path"
    "issueProof sha hmac sid root hs salt m (JInt (int i)) =
       Inr (Ok (proofObject sid (toLower root) i (length hs) (hs ! i) path salt))"
proof -
  have "width32 sha" "\<forall>h \<in> set hs. HEX32 h" using assms(1) by (auto simp: certifies_def)
  from proofPathFor_ok [OF this assms(2)] obtain path where path: "proofPathFor sha hs i = Inr path"
    by blast
  have "chooseLeaf sha hs m (hs ! i) (JInt (int i)) = Ok i"
    using assms(2) by (simp add: chooseLeaf_def Let_def)
  with chosen_proof_verifies [OF assms(1-5) path] path assms(5)
  have "issueProof sha hmac sid root hs salt m (JInt (int i)) =
      Inr (Ok (proofObject sid (toLower root) i (length hs) (hs ! i) path salt))"
    by (auto simp: issueProof_def Let_def)
  with path show thesis by (rule that)
qed

section \<open>A sample record for the witnesses\<close>

definition sample_sha :: hash_fn where
  "sample_sha d = replicate 32 0"

definition sample_leaf :: string where
  "sample_leaf = bytesToHex (replicate 32 7)"

definition sample_hmac :: "bytes \<Rightarrow> bytes \<Rightarrow> bytes" where
  "sample_hmac k d = replicate 32 7"

definition sample_db :: SessionLookups where
  "sample_db = \<lparr>getSealCertificate = (\<lambda>_ _. Some sample_leaf), getSessionRecord = (\<lambda>_ _. True),
     getCertifiedLeafSet = (\<lambda>_ _. Some [sample_leaf]), getCertifiedLeafSetState = (\<lambda>_ _. None),
     getSessionTree = (\<lambda>_ _. emptyTree), getSessionContentSaltState = (\<lambda>_ _. SaltHeld [1])\<rparr>"

lemma sample_certifies: "certifies sample_sha [sample_leaf] sample_leaf"
proof -
  have w: "width32 sample_sha" by (simp add: width32_def sample_sha_def)
  have h: "HEX32 sample_leaf" by (simp add: sample_leaf_def)
  from rootOfHashes_ok [OF w, of "[sample_leaf]"] h
  have "rootOverLeafHashes sample_sha [sample_leaf] = Inr sample_leaf"
    by (simp add: rootOverLeafHashes_def sample_leaf_def)
  with w h show ?thesis by (simp add: certifies_def toLower_HEX32)
qed

section \<open>Properties\<close>

text \<open>A message of the sealed record can be proved, and the proof checks: if the store's leaf
  set hashes to the certified root, the local record is a prefix of it, and the salt is held, then
  asking for the proof of the message at a position that holds its salted digest returns a proof
  object, and the verification handler accepts that object, the same text and the certificate's
  root, and reports that position and the number of certified leaves.\<close>

theorem sealed_message_is_provable:
  assumes "getSealCertificate db agent sid = Some root" and "getCertifiedLeafSet db agent sid = Some hs"
    and c: "certifies sha hs root" and "\<not> localDiverges (getSessionTree db agent sid) hs"
    and "getSessionContentSaltState db agent sid = SaltHeld salt" and salt: "salt \<noteq> []"
    and i: "i < length hs" and h: "hs ! i = bytesToHex (saltedContentHash hmac salt (utf8 text))"
    and ne: "sid \<noteq> []" "text \<noteq> []" "root \<noteq> []"
  shows "\<exists>pobj r.
    getInclusionProof sha hmac db (Some agent)
      [(''session_id'', JText sid), (''message'', JText text), (''leaf_index'', JInt (int i))] = Inr (Ok pobj) \<and>
    verifyInclusionHandler parse sha hmac
      [(''proof'', pobj), (''message'', JText text), (''certified_root'', JText root)] = Inr (Ok r) \<and>
    v_leaf_index r = int i \<and> v_leaf_count r = int (length hs)"
proof -
  obtain path where path: "proofPathFor sha hs i = Inr path"
    and issued: "issueProof sha hmac sid root hs salt (utf8 text) (JInt (int i)) =
       Inr (Ok (proofObject sid (toLower root) i (length hs) (hs ! i) path salt))"
    by (rule issueProof_ok [OF c i ne(1) salt h])
  let ?p = "proofObject sid (toLower root) i (length hs) (hs ! i) path salt"
  have "rootOverLeafHashes sha hs = Inr (toLower root)" using c by (simp add: certifies_def)
  then have get: "getInclusionProof sha hmac db (Some agent)
      [(''session_id'', JText sid), (''message'', JText text), (''leaf_index'', JInt (int i))] = Inr (Ok ?p)"
    using assms(1,2,4,5) ne issued by (simp add: getInclusionProof_def getProp_def)
  obtain r where r: "verifyInclusionProof sha hmac ?p (utf8 text) root = Inr (Verified r)"
    using chosen_proof_verifies [OF c i ne(1) salt h path] by blast
  then have "v_leaf_index r = int i \<and> v_leaf_count r = int (length hs)"
    by (rule verify_accepts) (auto simp: inclusionProofShape_def proofObject_def getProp_def
        Option.bind_eq_Some_conv split: if_splits)
  moreover have "verifyInclusionHandler parse sha hmac
      [(''proof'', ?p), (''message'', JText text), (''certified_root'', JText root)] = Inr (Ok r)"
    using r ne by (simp add: verifyInclusionHandler_def getProp_def proofObject_def)
  ultimately show ?thesis using get by blast
qed

theorem sealed_message_is_provable_witness:
  "\<exists>pobj r.
    getInclusionProof sample_sha sample_hmac sample_db (Some ''alice'')
      [(''session_id'', JText ''5e''), (''message'', JText ''hi''), (''leaf_index'', JInt (int 0))] = Inr (Ok pobj) \<and>
    verifyInclusionHandler (\<lambda>_. None) sample_sha sample_hmac
      [(''proof'', pobj), (''message'', JText ''hi''), (''certified_root'', JText sample_leaf)] = Inr (Ok r) \<and>
    v_leaf_index r = int 0 \<and> v_leaf_count r = int (length [sample_leaf])"
proof (rule sealed_message_is_provable [OF _ _ sample_certifies, where salt = "[1]"])
  show "sample_leaf \<noteq> []"
    using length_bytesToHex [of "replicate 32 7"] by (auto simp: sample_leaf_def simp del: length_bytesToHex)
qed (simp_all add: sample_db_def localDiverges_def treeSize_def emptyTree_def mkTree_def
    sample_leaf_def sample_hmac_def saltedContentHash_def)

text \<open>The proof a request supplies: the object itself, or what the pasted text parses to.\<close>

definition suppliedProof :: "(string \<Rightarrow> jsval option) \<Rightarrow> fields \<Rightarrow> jsval option" where
  "suppliedProof parse params =
     (case getProp params ''proof'' of JText text \<Rightarrow> parse text | JUndefined \<Rightarrow> None | JNull \<Rightarrow> None | v \<Rightarrow> Some v)"

lemma handler_accepts:
  assumes "verifyInclusionHandler parse sha hmac params = Inr (Ok r)"
  obtains pobj msg root where "suppliedProof parse params = Some pobj" "getProp params ''message'' = JText msg"
    "getProp params ''certified_root'' = JText root" "verifyInclusionProof sha hmac pobj (utf8 msg) root = Inr (Verified r)"
proof -
  let ?raw = "getProp params ''proof''"
  have raw: "?raw \<noteq> JUndefined" "?raw \<noteq> JNull" using assms by (auto simp: verifyInclusionHandler_def Let_def)
  have p: "suppliedProof parse params = (case textVal ?raw of Some text \<Rightarrow> parse text | None \<Rightarrow> Some ?raw)"
    using raw by (cases ?raw) (simp_all add: suppliedProof_def)
  have eq: "verifyInclusionHandler parse sha hmac params =
      (case suppliedProof parse params of None \<Rightarrow> Inr (No ProofTextNotJson) | Some pobj \<Rightarrow>
       (case nonEmptyText (getProp params ''message'') of None \<Rightarrow> Inr (No MissingMessage) | Some msg \<Rightarrow>
       (case nonEmptyText (getProp params ''certified_root'') of None \<Rightarrow> Inr (No MissingCertifiedRoot) | Some root \<Rightarrow>
          rbind (verifyInclusionProof sha hmac pobj (utf8 msg) root) (\<lambda>result.
            case result of Refused r \<Rightarrow> Inr (No (VerifyRefused r)) | Verified v \<Rightarrow> Inr (Ok v)))))"
    unfolding p by (simp add: verifyInclusionHandler_def Let_def raw)
  obtain pobj where pobj: "suppliedProof parse params = Some pobj"
    using assms by (cases "suppliedProof parse params") (simp_all add: eq)
  obtain msg where msg: "nonEmptyText (getProp params ''message'') = Some msg"
    using assms pobj by (cases "nonEmptyText (getProp params ''message'')") (simp_all add: eq)
  obtain root where root: "nonEmptyText (getProp params ''certified_root'') = Some root"
    using assms pobj msg by (cases "nonEmptyText (getProp params ''certified_root'')") (simp_all add: eq)
  have "rbind (verifyInclusionProof sha hmac pobj (utf8 msg) root) (\<lambda>result.
      case result of Refused r \<Rightarrow> Inr (No (VerifyRefused r)) | Verified v \<Rightarrow> Inr (Ok v)) = (Inr (Ok r) :: Verified reply js)"
    using assms pobj msg root by (simp add: eq)
  then obtain c where c: "verifyInclusionProof sha hmac pobj (utf8 msg) root = Inr c"
      "(case c of Refused r \<Rightarrow> Inr (No (VerifyRefused r)) | Verified v \<Rightarrow> Inr (Ok v)) = (Inr (Ok r) :: Verified reply js)"
    unfolding rbind_Inr_conv by blast
  then have v: "verifyInclusionProof sha hmac pobj (utf8 msg) root = Inr (Verified r)" by (cases c) auto
  have "getProp params ''message'' = JText msg" "getProp params ''certified_root'' = JText root"
    using msg root by (cases "getProp params ''message''"; cases "getProp params ''certified_root''"; auto split: if_splits)+
  with pobj v show thesis by (intro that)
qed

text \<open>C33: An accepted proof is about the sealed record: if the verification handler accepts a
  request - the proof an object, or the pasted text of one, whatever \<open>JSON.parse\<close> makes of it - under
  the root a leaf list hashes to, for as many leaves as that list has, then the salt in the proof hashes
  the request's message to the leaf at the reported position, or the proof's path yields a SHA-256
  collision. The root reported is the one of the request, never the proof's own, and the session id is
  never reported as verified.\<close>

theorem verified_message_is_in_record:
  assumes ok: "verifyInclusionHandler parse sha hmac params = Inr (Ok r)"
    and "getProp params ''certified_root'' = JText root"
    and c: "certifies sha hs root" and n: "v_leaf_count r = int (length hs)"
  shows "\<exists>pobj text p salt. suppliedProof parse params = Some pobj \<and> getProp params ''message'' = JText text \<and>
    inclusionProofShape pobj = Some p \<and> content_salt p = Some salt \<and>
    (hs ! nat (v_leaf_index r) = bytesToHex (saltedContentHash hmac (hexToBytes salt) (utf8 text)) \<or>
      merkleClash sha (saltedContentHash hmac (hexToBytes salt) (utf8 text)) (nat (v_leaf_index r))
        (map hexToBytes hs) (map hexToBytes (proof_path p))) \<and>
    0 \<le> v_leaf_index r \<and> v_leaf_index r < int (length hs) \<and>
    v_certified_root r = toLower root \<and> \<not> v_session_id_verified r"
proof -
  obtain pobj msg where pobj: "suppliedProof parse params = Some pobj" "getProp params ''message'' = JText msg"
    and v: "verifyInclusionProof sha hmac pobj (utf8 msg) root = Inr (Verified r)"
    by (rule handler_accepts [OF ok]) (use assms(2) in auto)
  from v show ?thesis
  proof (rule verify_accepts)
    fix p salt
    let ?h = "saltedContentHash hmac (hexToBytes salt) (utf8 msg)"
    assume shape: "inclusionProofShape pobj = Some p" and salt: "content_salt p = Some salt"
      and check: "verifyInclusion sha ?h (leaf_index p) (leaf_count p) (map hexToBytes (proof_path p))
        (hexToBytes (toLower root)) = Inr True"
      and r: "v_leaf_index r = leaf_index p" "v_leaf_count r = leaf_count p"
        "v_certified_root r = toLower root" "\<not> v_session_id_verified r"
    from shape_fields [OF shape] n r have i: "0 \<le> leaf_index p" "leaf_index p < int (length hs)" by auto
    let ?i = "nat (leaf_index p)"
    have ilt: "?i < length (map hexToBytes hs)" using i by simp
    have "merkleCheck sha ?h ?i (length (map hexToBytes hs)) (map hexToBytes (proof_path p))
        (rootOf sha (map hexToBytes hs))"
      using check i r n certifies_valid(2) [OF c] by (simp add: merkleCheck_def)
    from merkle.sound [OF certifies_valid(1) [OF c] ilt this]
    have "hexToBytes (hs ! ?i) = ?h \<or> merkleClash sha ?h ?i (map hexToBytes hs) (map hexToBytes (proof_path p))"
      using ilt by auto
    moreover have "bytesToHex (hexToBytes (hs ! ?i)) = hs ! ?i"
      using c ilt by (intro HEX32_bytes [THEN conjunct2]) (simp add: certifies_def)
    ultimately have "hs ! ?i = bytesToHex ?h \<or> merkleClash sha ?h ?i (map hexToBytes hs) (map hexToBytes (proof_path p))" by auto
    with r i shape salt pobj show ?thesis by auto
  qed
qed

text \<open>The proof pasted as text.\<close>

theorem verified_message_is_in_record_witness:
  "\<exists>ob r p salt. let params = [(''proof'', JText ''pasted''), (''message'', JText ''hi''), (''certified_root'', JText sample_leaf)] in
    verifyInclusionHandler (\<lambda>_. Some (JObject ob)) sample_sha sample_hmac params = Inr (Ok r) \<and>
    inclusionProofShape (JObject ob) = Some p \<and> content_salt p = Some salt \<and>
    [sample_leaf] ! nat (v_leaf_index r) = bytesToHex (saltedContentHash sample_hmac (hexToBytes salt) (utf8 ''hi''))"
proof -
  obtain ob where ob: "proofObject ''5e'' sample_leaf 0 1 sample_leaf [] [1] = JObject ob"
    by (simp add: proofObject_def)
  let ?q = "[(''proof'', JText ''pasted''), (''message'', JText ''hi''), (''certified_root'', JText sample_leaf)]"
  let ?r = "\<lparr>v_session_id = ''5e'', v_leaf_index = 0, v_leaf_count = 1, v_certified_root = sample_leaf,
    v_content_hash_alg = HMAC_SALT_V1, v_session_id_verified = False\<rparr>"
  have h: "HEX32 sample_leaf" and ne: "sample_leaf \<noteq> []"
    using length_bytesToHex [of "replicate 32 7"] by (auto simp: sample_leaf_def simp del: length_bytesToHex)
  then have "verifyInclusionProof sample_sha sample_hmac (JObject ob) (utf8 ''hi'') sample_leaf = Inr (Verified ?r)"
    unfolding ob [symmetric]
    by (simp add: verifyInclusionProof_def proofObject_shape toLower_HEX32 isKnownContentHashAlg_def Let_def
        saltedContentHash_def sample_hmac_def) (simp add: sample_leaf_def verifyInclusion_def)
  with ne have ok: "verifyInclusionHandler (\<lambda>_. Some (JObject ob)) sample_sha sample_hmac ?q = Inr (Ok ?r)"
    by (simp add: verifyInclusionHandler_def getProp_def)
  have "v_leaf_count ?r = int (length [sample_leaf])" by simp
  from verified_message_is_in_record [OF ok _ sample_certifies this]
  obtain p salt where "inclusionProofShape (JObject ob) = Some p" "content_salt p = Some salt"
    by (auto simp: getProp_def suppliedProof_def)
  with ok show ?thesis
    unfolding Let_def
    by (intro exI [of _ ob] exI [of _ ?r] exI [of _ p] exI [of _ salt])
      (simp add: saltedContentHash_def sample_hmac_def sample_leaf_def)
qed

text \<open>C34: The verification handler never throws: it answers every request, whatever the proof,
  the message and the root are.\<close>

theorem verify_handler_never_throws:
  assumes "width32 sha"
  shows "\<exists>a. verifyInclusionHandler parse sha hmac params = Inr a"
proof -
  have *: "\<exists>a. (rbind (verifyInclusionProof sha hmac q m root) (\<lambda>result.
      case result of Refused r \<Rightarrow> Inr (No (VerifyRefused r)) | Verified v \<Rightarrow> Inr (Ok v))) = Inr a" for q m root
    using verifyInclusionProof_returns [OF assms, of hmac q m root]
    by (auto simp: returns_def split: InclusionVerifyResult.splits)
  show ?thesis
    by (auto simp: verifyInclusionHandler_def Let_def * split: option.splits)
qed

theorem verify_handler_never_throws_witness:
  "\<exists>a. verifyInclusionHandler (\<lambda>_. None) sample_sha sample_hmac [(''proof'', JText ''{'')] = Inr a"
  by (rule verify_handler_never_throws) (simp add: width32_def sample_sha_def)

text \<open>The position is not bound: for any three leaves the third verifies against their root as
  leaf 1 of 2, with the parent of the first two as its path. The root fixes the leaves only
  together with their number, which the verifier takes from the proof.\<close>

theorem position_not_bound_by_root:
  assumes "width32 sha" and "length a = 32" and "length b = 32" and "length c = 32"
    and "buildMerkleTree sha [LHash a, LHash b, LHash c] = Inr t"
  shows "verifyInclusion sha c 1 2 [node sha a b] (merkleRoot sha t) = Inr True"
proof -
  have w: "all32 [a, b, c]" using assms by (simp add: all32_def)
  have "merkleRoot sha t = rootOf sha [a, b, c]"
    by (rule merkleRoot_levels [OF assms(1) _ w _ assms(5)]) simp_all
  also have "\<dots> = node sha (node sha a b) c" by (simp add: rootOf_step)
  finally show ?thesis
    using assms(1-4) by (simp add: verifyInclusion_def verifyLoop.simps nodeHash_node js_shr1_def to_int32_def js_rem2_def)
qed

theorem position_not_bound_by_root_witness:
  "verifyInclusion sample_sha (replicate 32 3) 1 2 [node sample_sha (replicate 32 1) (replicate 32 2)]
     (merkleRoot sample_sha \<lparr>tree_size = 3, levelHashes = levels sample_sha
        [replicate 32 1, replicate 32 2, replicate 32 3]\<rparr>) = Inr True"
proof (rule position_not_bound_by_root)
  have w: "width32 sample_sha" by (simp add: width32_def sample_sha_def)
  then show "width32 sample_sha" .
  show "buildMerkleTree sample_sha [LHash (replicate 32 1), LHash (replicate 32 2), LHash (replicate 32 3)]
    = Inr \<lparr>tree_size = 3, levelHashes = levels sample_sha [replicate 32 1, replicate 32 2, replicate 32 3]\<rparr>"
    using buildMerkleTree_levels [OF w, of "[LHash (replicate 32 1), LHash (replicate 32 2), LHash (replicate 32 3)]"
        "[replicate 32 1, replicate 32 2, replicate 32 3]"] by (simp add: numeral_3_eq_3)
qed simp_all

end
