(* ===== verification/Document_Multisig.thy ===== *)
theory Document_Multisig
  imports Wire
begin

text \<open>
  \<open>core/protocol-types/src/document-multisig.ts\<close>: a collection of signatures by a required set of
  signers over one subject. The required set is part of what every signer signs. CBOR, SHA-256 and
  Ed25519 verification are the fields of \<open>externals\<close>.
\<close>

section \<open>External functions\<close>

text \<open>
  \<open>x_cbor\<close> is \<open>encodeCbor\<close>, \<open>x_uncbor\<close> is \<open>decodeCbor\<close> (it may throw), \<open>x_verify\<close> the
  signature check the callers pass in.
\<close>

record externals =
  x_sha :: hash_fn
  x_cbor :: "jsval \<Rightarrow> bytes"
  x_uncbor :: "bytes \<Rightarrow> jsval js"
  x_verify :: "string \<Rightarrow> bytes \<Rightarrow> bytes \<Rightarrow> bool"

section \<open>Data\<close>

definition DOCUMENT_MULTISIG_DOMAIN :: string where
  "DOCUMENT_MULTISIG_DOMAIN = ''CELLO-DOCUMENT-MULTISIG-v1''"

record MultisigSignature =
  signer_agent_id :: string
  signature :: bytes

record MultisigCollection =
  mc_document_id :: string
  subject_kind :: string
  subject_hash :: bytes
  required_signers :: "string list"
  signatures :: "MultisigSignature list"

record MultisigStatus =
  complete :: bool
  missing :: "string list"
  invalidSigners :: "string list"
  unknown :: "string list"
  duplicates :: "string list"

section \<open>Operations\<close>

definition multisigError :: "string \<Rightarrow> 'a js" where
  "multisigError code = Inl (Error (''multisig_'' @ code))"

definition canonicalSigners :: "string list \<Rightarrow> string list js" where
  "canonicalSigners signers =
     (if signers = [] then multisigError ''empty_signer_set''
      else let sorted1 = sort signers in
        if \<not> distinct_adj sorted1 then multisigError ''duplicate_signer''
        else if list_ex (\<lambda>s. s = '''') sorted1 then multisigError ''signer_type''
        else Inr sorted1)"

definition multisigPreimage :: "MultisigCollection \<Rightarrow> jsval js" where
  "multisigPreimage c = rbind (canonicalSigners (required_signers c)) (\<lambda>rs. Inr (JArray
     [JText DOCUMENT_MULTISIG_DOMAIN, JText (mc_document_id c), JText (subject_kind c),
      JBytes (subject_hash c), JArray (map JText rs)]))"

definition buildDocumentMultisigTbs :: "externals \<Rightarrow> MultisigCollection \<Rightarrow> bytes js" where
  "buildDocumentMultisigTbs X c = rbind (multisigPreimage c) (\<lambda>v. Inr (x_sha X (x_cbor X v)))"

text \<open>The loop over the signatures: the signers seen, and the three lists of faults.\<close>

type_synonym tally = "string list \<times> string list \<times> string list \<times> string list"

fun tallySignature ::
  "externals \<Rightarrow> string list \<Rightarrow> bytes \<Rightarrow> tally \<Rightarrow> MultisigSignature \<Rightarrow> tally" where
  "tallySignature X required tbs (seen, invalid, unk, dups) s =
     (let id = signer_agent_id s in
      if id \<in> set seen then (seen, invalid, unk, dups @ [id])
      else if id \<notin> set required then (seen @ [id], invalid, unk @ [id], dups)
      else if \<not> x_verify X id tbs (signature s) then (seen @ [id], invalid @ [id], unk, dups)
      else (seen @ [id], invalid, unk, dups))"

definition collectionStatus :: "externals \<Rightarrow> MultisigCollection \<Rightarrow> MultisigStatus js" where
  "collectionStatus X c =
     rbind (canonicalSigners (required_signers c)) (\<lambda>required.
     rbind (buildDocumentMultisigTbs X c) (\<lambda>tbs.
     (case foldl (tallySignature X required tbs) ([], [], [], []) (signatures c) of
        (seen, invalid, unk, dups) \<Rightarrow>
          let miss = filter (\<lambda>id. id \<notin> set seen) required in
          Inr \<lparr>complete = (miss = [] \<and> invalid = [] \<and> unk = [] \<and> dups = []), missing = miss,
               invalidSigners = invalid, unknown = unk, duplicates = dups\<rparr>)))"

definition encodeMultisigCollection :: "MultisigCollection \<Rightarrow> jsval js" where
  "encodeMultisigCollection c =
     rbind (canonicalSigners (required_signers c)) (\<lambda>rs. Inr (JObject
       [(''document_id'', JText (mc_document_id c)), (''subject_kind'', JText (subject_kind c)),
        (''subject_hash'', JBytes (subject_hash c)), (''required_signers'', JArray (map JText rs)),
        (''signatures'', JArray (map (\<lambda>s. JObject
           [(''signer_agent_id'', JText (signer_agent_id s)), (''signature'', JBytes (signature s))])
           (signatures c)))]))"

fun textOf :: "jsval \<Rightarrow> string js" where
  "textOf (JText s) = Inr s"
| "textOf _ = fieldType ''multisig''"

definition decodeSignature :: "jsval \<Rightarrow> MultisigSignature js" where
  "decodeSignature v =
     rbind (asMap ''multisig'' v) (\<lambda>e.
     rbind (str ''multisig'' e ''signer_agent_id'') (\<lambda>id.
     rbind (bytesField ''multisig'' e ''signature'') (\<lambda>sig.
     Inr \<lparr>signer_agent_id = id, signature = sig\<rparr>)))"

definition decodeMultisigCollection :: "jsval \<Rightarrow> MultisigCollection js" where
  "decodeMultisigCollection decoded =
     (case asObject decoded of
        None \<Rightarrow> multisigError ''malformed''
      | Some m \<Rightarrow>
          rbind (arrayOf ''multisig'' m ''required_signers'') (\<lambda>rawSigners.
          rbind (rmap textOf rawSigners) (\<lambda>signers.
          rbind (arrayOf ''multisig'' m ''signatures'') (\<lambda>rawSignatures.
          rbind (rmap decodeSignature rawSignatures) (\<lambda>sigs.
          rbind (str ''multisig'' m ''document_id'') (\<lambda>doc.
          rbind (str ''multisig'' m ''subject_kind'') (\<lambda>kind.
          rbind (bytesField ''multisig'' m ''subject_hash'') (\<lambda>h.
          rbind (canonicalSigners signers) (\<lambda>rs.
          Inr \<lparr>mc_document_id = doc, subject_kind = kind, subject_hash = h,
               required_signers = rs, signatures = sigs\<rparr>)))))))))"

section \<open>Canonical signer lists\<close>

lemma distinct_adj_sorted: "sorted xs \<Longrightarrow> distinct_adj xs \<longleftrightarrow> distinct xs" for xs :: "'a :: linorder list"
proof (induction xs rule: induct_list012)
  case (3 x y zs)
  then show ?case by (auto simp: distinct_adj_Cons)
qed auto

definition canonical_signers :: "string list \<Rightarrow> bool" where
  "canonical_signers rs \<longleftrightarrow> rs \<noteq> [] \<and> sorted rs \<and> distinct rs \<and> '''' \<notin> set rs"

lemma canonicalSigners_Inr:
  "canonicalSigners ss = Inr rs \<longleftrightarrow> ss \<noteq> [] \<and> distinct ss \<and> '''' \<notin> set ss \<and> rs = sort ss"
  by (auto simp: canonicalSigners_def multisigError_def Let_def distinct_adj_sorted list_ex_iff)

lemma canonicalSigners_canonical: "canonicalSigners ss = Inr rs \<Longrightarrow> canonical_signers rs \<and> set rs = set ss"
  by (auto simp: canonicalSigners_Inr canonical_signers_def) (metis set_empty set_sort)

lemma canonicalSigners_id: "canonical_signers rs \<Longrightarrow> canonicalSigners rs = Inr rs"
  by (simp add: canonicalSigners_Inr canonical_signers_def sorted_sort_id)

section \<open>What a complete collection establishes\<close>

lemma tally_faults_kept:
  "foldl (tallySignature X required tbs) (seen, i, u, d) ss = (seen', [], [], []) \<Longrightarrow> i = [] \<and> u = [] \<and> d = []"
proof (induction ss arbitrary: seen i u d)
  case (Cons s ss)
  then show ?case by (fastforce simp: Let_def split: if_splits)
qed simp

lemma tally_invariant:
  assumes "foldl (tallySignature X required tbs) (seen, [], [], []) ss = (seen', [], [], [])"
  shows "set seen' = set seen \<union> signer_agent_id ` set ss \<and> distinct (map signer_agent_id ss) \<and>
    set seen \<inter> signer_agent_id ` set ss = {} \<and>
    (\<forall>s \<in> set ss. signer_agent_id s \<in> set required \<and> x_verify X (signer_agent_id s) tbs (signature s))"
  using assms
proof (induction ss arbitrary: seen)
  case (Cons s ss)
  let ?id = "signer_agent_id s"
  have ok: "?id \<notin> set seen" "?id \<in> set required" "x_verify X ?id tbs (signature s)"
    using Cons.prems by (auto simp: Let_def split: if_splits dest!: tally_faults_kept)
  with Cons.prems have "foldl (tallySignature X required tbs) (seen @ [?id], [], [], []) ss
      = (seen', [], [], [])" by (simp add: Let_def)
  from Cons.IH [OF this] ok show ?case by auto
qed simp

lemma tally_clean:
  "distinct (map signer_agent_id ss) \<Longrightarrow> set seen \<inter> signer_agent_id ` set ss = {} \<Longrightarrow>
   \<forall>s \<in> set ss. signer_agent_id s \<in> set required \<and> x_verify X (signer_agent_id s) tbs (signature s) \<Longrightarrow>
   foldl (tallySignature X required tbs) (seen, [], [], []) ss = (seen @ map signer_agent_id ss, [], [], [])"
proof (induction ss arbitrary: seen)
  case (Cons s ss)
  then have "foldl (tallySignature X required tbs) (seen @ [signer_agent_id s], [], [], []) ss
      = ((seen @ [signer_agent_id s]) @ map signer_agent_id ss, [], [], [])"
    by (intro Cons.IH) auto
  with Cons.prems show ?case by (simp add: Let_def)
qed simp

definition signedExactly :: "externals \<Rightarrow> MultisigCollection \<Rightarrow> bytes \<Rightarrow> bool" where
  "signedExactly X c tbs \<longleftrightarrow>
     distinct (map signer_agent_id (signatures c)) \<and>
     signer_agent_id ` set (signatures c) = set (required_signers c) \<and>
     (\<forall>s \<in> set (signatures c). x_verify X (signer_agent_id s) tbs (signature s))"

lemma collectionStatus_complete:
  assumes st: "collectionStatus X c = Inr st"
  shows "complete st \<longleftrightarrow> (\<exists>tbs. buildDocumentMultisigTbs X c = Inr tbs \<and> signedExactly X c tbs)"
proof -
  obtain required tbs where rq: "canonicalSigners (required_signers c) = Inr required"
    and tbs: "buildDocumentMultisigTbs X c = Inr tbs"
    using st by (auto simp: collectionStatus_def rbind_Inr_conv)
  have srq: "set required = set (required_signers c)" using canonicalSigners_canonical [OF rq] by blast
  obtain seen i u d where f:
    "foldl (tallySignature X required tbs) ([], [], [], []) (signatures c) = (seen, i, u, d)"
    by (metis prod_cases4)
  with st rq tbs have c: "complete st \<longleftrightarrow>
      filter (\<lambda>id. id \<notin> set seen) required = [] \<and> i = [] \<and> u = [] \<and> d = []"
    by (auto simp: collectionStatus_def Let_def)
  show ?thesis
  proof
    assume "complete st"
    with c have miss: "filter (\<lambda>id. id \<notin> set seen) required = []" and z: "i = []" "u = []" "d = []" by auto
    from tally_invariant [OF f [unfolded z]] miss srq
    have "signedExactly X c tbs" by (auto simp: signedExactly_def filter_empty_conv)
    with tbs show "\<exists>tbs. buildDocumentMultisigTbs X c = Inr tbs \<and> signedExactly X c tbs" by blast
  next
    assume "\<exists>tbs. buildDocumentMultisigTbs X c = Inr tbs \<and> signedExactly X c tbs"
    with tbs have sg: "signedExactly X c tbs" by auto
    then have "foldl (tallySignature X required tbs) ([], [], [], []) (signatures c)
        = ([] @ map signer_agent_id (signatures c), [], [], [])"
      by (intro tally_clean) (auto simp: signedExactly_def srq)
    with f have "seen = map signer_agent_id (signatures c)" "i = []" "u = []" "d = []" by auto
    with c sg srq show "complete st" by (auto simp: signedExactly_def filter_empty_conv)
  qed
qed

lemma collectionStatus_returns:
  "returns (collectionStatus X c) \<longleftrightarrow> returns (canonicalSigners (required_signers c))"
proof (cases "canonicalSigners (required_signers c)")
  case (Inr rs)
  then have "returns (buildDocumentMultisigTbs X c)"
    by (simp add: buildDocumentMultisigTbs_def multisigPreimage_def)
  with Inr show ?thesis
    by (auto simp: collectionStatus_def returns_rbind Let_def returns_def split: prod.splits)
qed (simp add: collectionStatus_def)

section \<open>The codec\<close>

definition multisig_wf :: "MultisigCollection \<Rightarrow> bool" where
  "multisig_wf c \<longleftrightarrow> mc_document_id c \<noteq> '''' \<and> subject_kind c \<noteq> '''' \<and>
     canonical_signers (required_signers c) \<and> (\<forall>s \<in> set (signatures c). signer_agent_id s \<noteq> '''')"

lemma rmap_text: "rmap textOf (map JText ss) = Inr ss"
  by (rule rmap_decode) simp

lemma decodeSignature_back:
  "signer_agent_id s \<noteq> '''' \<Longrightarrow> decodeSignature (JObject
     [(''signer_agent_id'', JText (signer_agent_id s)), (''signature'', JBytes (signature s))]) = Inr s"
  by (simp add: decodeSignature_def asMap_def str_def bytesField_def present_def)

lemma decodeSignature_wf: "decodeSignature v = Inr s \<Longrightarrow> signer_agent_id s \<noteq> ''''"
  by (auto simp: decodeSignature_def rbind_Inr_conv dest: str_nonempty)

interpretation multisig: frame_codec encodeMultisigCollection decodeMultisigCollection multisig_wf
proof unfold_locales
  fix c assume wf: "multisig_wf c"
  have sigs: "rmap decodeSignature (map (\<lambda>s. JObject [(''signer_agent_id'', JText (signer_agent_id s)),
      (''signature'', JBytes (signature s))]) (signatures c)) = Inr (signatures c)"
    by (rule rmap_decode) (rule decodeSignature_back, use wf in \<open>auto simp: multisig_wf_def\<close>)
  have "canonicalSigners (required_signers c) = Inr (required_signers c)"
    using wf by (simp add: multisig_wf_def canonicalSigners_id)
  with wf sigs show "rbind (encodeMultisigCollection c) decodeMultisigCollection = Inr c"
    by (simp add: encodeMultisigCollection_def decodeMultisigCollection_def arrayOf_def str_def
        bytesField_def present_def multisig_wf_def rmap_text)
next
  fix v c assume "decodeMultisigCollection v = Inr c"
  then obtain m sigs rs signers where s: "rmap decodeSignature sigs = Inr (signatures c)"
    and "str ''multisig'' m ''document_id'' = Inr (mc_document_id c)"
    and "str ''multisig'' m ''subject_kind'' = Inr (subject_kind c)"
    and "canonicalSigners signers = Inr (required_signers c)"
    by (auto simp: decodeMultisigCollection_def rbind_Inr_conv multisigError_def split: option.splits)
  moreover have "\<forall>x \<in> set (signatures c). signer_agent_id x \<noteq> ''''"
    using rmap_all [OF s] decodeSignature_wf by blast
  ultimately show "multisig_wf c"
    using canonicalSigners_canonical str_nonempty unfolding multisig_wf_def by blast
qed

end
