(* ===== verification/Document_Amendment.thy ===== *)
theory Document_Amendment
  imports Document_Multisig
begin

text \<open>
  \<open>core/protocol-types/src/document-amendment.ts\<close>: an entry of a document's governance history.
  The body names its parents by hash, so entries form a graph; the collection carries the
  signatures. \<open>documentAmendmentHash\<close> covers the body only.
\<close>

section \<open>Data\<close>

definition DOCUMENT_AMENDMENT_DOMAIN :: string where
  "DOCUMENT_AMENDMENT_DOMAIN = ''CELLO-DOCUMENT-AMENDMENT-v3''"

definition MAX_ENTRY_PARENTS :: nat where "MAX_ENTRY_PARENTS = 64"
definition AMENDMENT_SUBJECT_KIND :: string where "AMENDMENT_SUBJECT_KIND = ''document_amendment''"
definition MAX_DOCUMENT_HOLDERS :: nat where "MAX_DOCUMENT_HOLDERS = 20"

datatype AmendmentKind =
    add_holder | remove_holder | promote_admin | remove_admin | change_property
  | consent | refuse_join | close | kill

fun kindText :: "AmendmentKind \<Rightarrow> string" where
  "kindText add_holder = ''add_holder''"
| "kindText remove_holder = ''remove_holder''"
| "kindText promote_admin = ''promote_admin''"
| "kindText remove_admin = ''remove_admin''"
| "kindText change_property = ''change_property''"
| "kindText consent = ''consent''"
| "kindText refuse_join = ''refuse_join''"
| "kindText close = ''close''"
| "kindText kill = ''kill''"

definition AMENDMENT_KINDS :: "AmendmentKind list" where
  "AMENDMENT_KINDS =
     [add_holder, remove_holder, promote_admin, remove_admin, change_property, consent,
      refuse_join, close, kill]"

definition kindOf :: "string \<Rightarrow> AmendmentKind option" where
  "kindOf s = find (\<lambda>k. kindText k = s) AMENDMENT_KINDS"

definition AMENDABLE_PROPERTIES :: "string list" where
  "AMENDABLE_PROPERTIES = [''append_only'']"

record DocumentAmendmentBody =
  document_id :: string
  body_kind :: AmendmentKind
  subject_agent_id :: "string option"
  property_change :: "(string \<times> jsval) option"
  state_hash :: "bytes option"
  authored_at_ms :: int
  author_agent_id :: string
  author_seq :: int
  parents :: "string list"

record DocumentAmendmentEnvelope =
  body :: DocumentAmendmentBody
  collection :: MultisigCollection

section \<open>The signed bytes and the entry's hash\<close>

fun nullable :: "('a \<Rightarrow> jsval) \<Rightarrow> 'a option \<Rightarrow> jsval" where
  "nullable f None = JNull"
| "nullable f (Some x) = f x"

text \<open>\<open>x ?? null\<close>.\<close>

fun orNull :: "jsval \<Rightarrow> jsval" where
  "orNull JUndefined = JNull"
| "orNull v = v"

definition amendmentPreimage :: "DocumentAmendmentBody \<Rightarrow> jsval" where
  "amendmentPreimage b = JArray
     [JText DOCUMENT_AMENDMENT_DOMAIN, JText (document_id b), JText (kindText (body_kind b)),
      nullable JText (subject_agent_id b),
      nullable (JText \<circ> fst) (property_change b), nullable (orNull \<circ> snd) (property_change b),
      nullable JBytes (state_hash b),
      (if authored_at_ms b > 0xffffffff then JBigInt (authored_at_ms b) else JInt (authored_at_ms b)),
      JText (author_agent_id b), JInt (author_seq b), JArray (map JText (parents b))]"

definition buildDocumentAmendmentTbs :: "externals \<Rightarrow> DocumentAmendmentBody \<Rightarrow> bool \<Rightarrow> bytes" where
  "buildDocumentAmendmentTbs X b preHash =
     (let preimage = x_cbor X (amendmentPreimage b) in if \<not> preHash then preimage else x_sha X preimage)"

definition documentAmendmentHash :: "externals \<Rightarrow> DocumentAmendmentBody \<Rightarrow> bytes" where
  "documentAmendmentHash X b = x_sha X (buildDocumentAmendmentTbs X b False)"

section \<open>The wire form\<close>

definition amendmentError :: "string \<Rightarrow> 'a js" where
  "amendmentError code = Inl (Error (''document_amendment_'' @ code))"

definition bodyValue :: "DocumentAmendmentBody \<Rightarrow> jsval" where
  "bodyValue b = JObject
     [(''document_id'', JText (document_id b)), (''kind'', JText (kindText (body_kind b))),
      (''subject_agent_id'', nullable JText (subject_agent_id b)),
      (''property_change'', nullable (\<lambda>(k, v). JObject [(''key'', JText k), (''value'', v)]) (property_change b)),
      (''state_hash'', nullable JBytes (state_hash b)), (''authored_at_ms'', JInt (authored_at_ms b)),
      (''author_agent_id'', JText (author_agent_id b)), (''author_seq'', JInt (author_seq b)),
      (''parents'', JArray (map JText (parents b)))]"

definition encodeDocumentAmendment :: "externals \<Rightarrow> DocumentAmendmentEnvelope \<Rightarrow> jsval js" where
  "encodeDocumentAmendment X env =
     rbind (encodeMultisigCollection (collection env)) (\<lambda>c. Inr (JObject
       [(''type'', JText ''document_amendment''), (''body'', bodyValue (body env)),
        (''collection'', JBytes (x_cbor X c))]))"

definition da :: string where "da = ''document_amendment''"

definition decodeKind :: "fields \<Rightarrow> AmendmentKind js" where
  "decodeKind b = rbind (str da b ''kind'') (\<lambda>kind.
     case kindOf kind of None \<Rightarrow> amendmentError ''kind'' | Some k \<Rightarrow> Inr k)"

fun subjectVal :: "jsval \<Rightarrow> string option js" where
  "subjectVal JNull = Inr None"
| "subjectVal (JText s) = (if s = '''' then fieldType da else Inr (Some s))"
| "subjectVal _ = fieldType da"

fun scalarVal :: "jsval \<Rightarrow> jsval js" where
  "scalarVal (JText s) = Inr (JText s)"
| "scalarVal (JInt i) = Inr (JInt i)"
| "scalarVal (JFraction s) = Inr (JFraction s)"
| "scalarVal (JBool b) = Inr (JBool b)"
| "scalarVal _ = fieldType da"

definition changeVal :: "jsval \<Rightarrow> (string \<times> jsval) option js" where
  "changeVal raw =
     (if raw = JNull then Inr None
      else rbind (asMap da raw) (\<lambda>c.
        rbind (str da c ''key'') (\<lambda>key.
        rbind (present da c ''value'') (\<lambda>v.
        rbind (scalarVal v) (\<lambda>value. Inr (Some (key, value)))))))"

fun stateHashVal :: "jsval \<Rightarrow> bytes option js" where
  "stateHashVal JNull = Inr None"
| "stateHashVal (JBytes b) = Inr (Some b)"
| "stateHashVal _ = fieldType da"

fun integerVal :: "jsval \<Rightarrow> int js" where
  "integerVal (JInt i) = Inr i"
| "integerVal _ = fieldType da"

fun seqVal :: "jsval \<Rightarrow> int js" where
  "seqVal (JInt i) = (if i < 1 then amendmentError ''author_seq'' else Inr i)"
| "seqVal _ = amendmentError ''author_seq''"

fun strictlyAscending :: "string list \<Rightarrow> bool" where
  "strictlyAscending (p # q # ps) \<longleftrightarrow> p < q \<and> strictlyAscending (q # ps)"
| "strictlyAscending _ \<longleftrightarrow> True"

definition decodeParents :: "fields \<Rightarrow> string list js" where
  "decodeParents b = rbind (arrayOf da b ''parents'') (\<lambda>rawParents.
     if length rawParents > MAX_ENTRY_PARENTS then amendmentError ''parents_cap''
     else rbind (rmap (hex64Val da) rawParents) (\<lambda>ps.
       if \<not> strictlyAscending ps then amendmentError ''parents_canonical'' else Inr ps))"

definition decodeDocumentAmendment :: "externals \<Rightarrow> jsval \<Rightarrow> DocumentAmendmentEnvelope js" where
  "decodeDocumentAmendment X decoded =
     (case asObject decoded of
        None \<Rightarrow> amendmentError ''malformed''
      | Some m \<Rightarrow>
          rbind (present da m ''type'') (\<lambda>frameType.
          if frameType \<noteq> JText ''document_amendment'' then amendmentError ''type''
          else rbind (present da m ''body'') (\<lambda>rawBody.
          rbind (asMap da rawBody) (\<lambda>b.
          rbind (decodeKind b) (\<lambda>kind.
          rbind (rbind (present da b ''subject_agent_id'') subjectVal) (\<lambda>subject.
          rbind (rbind (present da b ''property_change'') changeVal) (\<lambda>change.
          rbind (rbind (present da b ''state_hash'') stateHashVal) (\<lambda>sh.
          rbind (rbind (present da b ''authored_at_ms'') integerVal) (\<lambda>authoredAt.
          rbind (hex64 da b ''author_agent_id'') (\<lambda>author.
          rbind (rbind (present da b ''author_seq'') seqVal) (\<lambda>sq.
          rbind (decodeParents b) (\<lambda>ps.
          rbind (bytesField da m ''collection'') (\<lambda>rawCollection.
          rbind (str da b ''document_id'') (\<lambda>doc.
          rbind (rbind (x_uncbor X rawCollection) decodeMultisigCollection) (\<lambda>c.
          Inr \<lparr>body = \<lparr>document_id = doc, body_kind = kind, subject_agent_id = subject,
                 property_change = change, state_hash = sh, authored_at_ms = authoredAt,
                 author_agent_id = author, author_seq = sq, parents = ps\<rparr>,
               collection = c\<rparr>)))))))))))))))"

section \<open>Genesis and state\<close>

record ArrangementGenesis =
  documentId :: string
  proposerAgentId :: string
  peerAgentId :: string
  adminSet :: "string list"
  g_properties :: fields

text \<open>\<open>SignerPolicy\<close>: \<open>None\<close> is \<open>ok: true\<close>, otherwise the reason's code.\<close>

type_synonym SignerPolicy =
  "AmendmentKind \<Rightarrow> string option \<Rightarrow> string set \<times> string set \<Rightarrow> string list \<Rightarrow> string option"

section \<open>The codec\<close>

fun scalar :: "jsval \<Rightarrow> bool" where
  "scalar (JText _) = True"
| "scalar (JInt _) = True"
| "scalar (JFraction _) = True"
| "scalar (JBool _) = True"
| "scalar _ = False"

lemma scalarVal_Inr [simp]: "scalarVal v = Inr w \<longleftrightarrow> w = v \<and> scalar v"
  by (cases v) (auto simp: fieldType_def)

lemma kindOf_text [simp]: "kindOf (kindText k) = Some k"
  by (cases k) (simp_all add: kindOf_def AMENDMENT_KINDS_def)

lemma kindText_nonempty [simp]: "kindText k \<noteq> ''''"
  by (cases k) simp_all

definition body_wf :: "DocumentAmendmentBody \<Rightarrow> bool" where
  "body_wf b \<longleftrightarrow> document_id b \<noteq> '''' \<and> subject_agent_id b \<noteq> Some '''' \<and>
     (\<forall>k v. property_change b = Some (k, v) \<longrightarrow> k \<noteq> '''' \<and> scalar v) \<and>
     HEX32 (author_agent_id b) \<and> author_seq b \<ge> 1 \<and>
     length (parents b) \<le> MAX_ENTRY_PARENTS \<and> (\<forall>h \<in> set (parents b). HEX32 h) \<and>
     strictlyAscending (parents b)"

text \<open>
  An envelope that survives the wire: the body as above, a well-formed collection, and the CBOR
  package reading back the collection it wrote.
\<close>

definition amendment_wf :: "externals \<Rightarrow> DocumentAmendmentEnvelope \<Rightarrow> bool" where
  "amendment_wf X env \<longleftrightarrow> body_wf (body env) \<and> multisig_wf (collection env) \<and>
     (\<forall>c. encodeMultisigCollection (collection env) = Inr c \<longrightarrow> x_uncbor X (x_cbor X c) = Inr c)"

lemma subject_back: "s \<noteq> Some '''' \<Longrightarrow> subjectVal (nullable JText s) = Inr s"
  by (cases s) simp_all

lemma change_back:
  "(\<And>k v. c = Some (k, v) \<Longrightarrow> k \<noteq> '''' \<and> scalar v) \<Longrightarrow>
   changeVal (nullable (\<lambda>(k, v). JObject [(''key'', JText k), (''value'', v)]) c) = Inr c"
  by (cases c) (auto simp: changeVal_def asMap_def str_def present_def rbind_Inr_conv)

lemma stateHash_back: "stateHashVal (nullable JBytes h) = Inr h"
  by (cases h) simp_all

lemma parents_back:
  "length ps \<le> MAX_ENTRY_PARENTS \<Longrightarrow> \<forall>h \<in> set ps. HEX32 h \<Longrightarrow> strictlyAscending ps \<Longrightarrow>
   map_of m ''parents'' = Some (JArray (map JText ps)) \<Longrightarrow> decodeParents m = Inr ps"
  by (simp add: decodeParents_def arrayOf_def present_def wire_simps)

lemma decode_body_value:
  assumes "body_wf b" and "multisig_wf c" and "encodeMultisigCollection c = Inr v"
    and "x_uncbor X (x_cbor X v) = Inr v"
  shows "decodeDocumentAmendment X (JObject [(''type'', JText ''document_amendment''),
      (''body'', bodyValue b), (''collection'', JBytes (x_cbor X v))]) = Inr \<lparr>body = b, collection = c\<rparr>"
proof -
  obtain v' where "encodeMultisigCollection c = Inr v'" "decodeMultisigCollection v' = Inr c"
    using multisig.encode_returns [OF assms(2)] by blast
  with assms(3) have c: "decodeMultisigCollection v = Inr c" by simp
  let ?m = "[(''document_id'', JText (document_id b)), (''kind'', JText (kindText (body_kind b))),
      (''subject_agent_id'', nullable JText (subject_agent_id b)),
      (''property_change'', nullable (\<lambda>(k, v). JObject [(''key'', JText k), (''value'', v)]) (property_change b)),
      (''state_hash'', nullable JBytes (state_hash b)), (''authored_at_ms'', JInt (authored_at_ms b)),
      (''author_agent_id'', JText (author_agent_id b)), (''author_seq'', JInt (author_seq b)),
      (''parents'', JArray (map JText (parents b)))]"
  have "decodeParents ?m = Inr (parents b)"
    using assms(1) by (intro parents_back) (auto simp: body_wf_def)
  moreover have "subjectVal (nullable JText (subject_agent_id b)) = Inr (subject_agent_id b)"
    using assms(1) by (intro subject_back) (auto simp: body_wf_def)
  moreover have "changeVal (nullable (\<lambda>(k, v). JObject [(''key'', JText k), (''value'', v)]) (property_change b))
      = Inr (property_change b)"
    using assms(1) by (intro change_back) (auto simp: body_wf_def)
  ultimately show ?thesis
    using assms(1,4) c stateHash_back [of "state_hash b"]
    by (simp add: decodeDocumentAmendment_def bodyValue_def decodeKind_def present_def str_def asMap_def
        hex64_def bytesField_def body_wf_def)
qed

interpretation amendment: frame_writer "encodeDocumentAmendment X" "decodeDocumentAmendment X"
  "amendment_wf X" for X
proof unfold_locales
  fix env assume wf: "amendment_wf X env"
  then obtain c where c: "encodeMultisigCollection (collection env) = Inr c"
    using multisig.encode_returns by (auto simp: amendment_wf_def)
  with wf decode_body_value [of "body env" "collection env" c X]
  show "rbind (encodeDocumentAmendment X env) (decodeDocumentAmendment X) = Inr env"
    by (simp add: encodeDocumentAmendment_def amendment_wf_def)
qed

text \<open>What a decoded envelope satisfies, whoever sent it.\<close>

lemma subjectVal_wf: "subjectVal v = Inr s \<Longrightarrow> s \<noteq> Some ''''"
  by (cases v) (auto simp: fieldType_def split: if_splits)

lemma changeVal_wf: "changeVal v = Inr (Some (k, w)) \<Longrightarrow> k \<noteq> '''' \<and> scalar w"
  by (auto simp: changeVal_def rbind_Inr_conv dest: str_nonempty split: if_splits)

lemma seqVal_wf: "seqVal v = Inr i \<Longrightarrow> 1 \<le> i"
  by (cases v) (auto simp: amendmentError_def split: if_splits)

lemma decodeParents_wf:
  assumes "decodeParents m = Inr ps"
  shows "length ps \<le> MAX_ENTRY_PARENTS \<and> (\<forall>h \<in> set ps. HEX32 h) \<and> strictlyAscending ps"
proof -
  from assms obtain vs where vs: "rmap (hex64Val da) vs = Inr ps" "length vs \<le> MAX_ENTRY_PARENTS"
    "strictlyAscending ps"
    by (auto simp: decodeParents_def rbind_Inr_conv amendmentError_def split: if_splits)
  with rmap_length [OF vs(1)] rmap_hex64_ok [OF vs(1)] show ?thesis by simp
qed

lemma decoded_wf:
  assumes "decodeDocumentAmendment X v = Inr env"
  shows "body_wf (body env) \<and> multisig_wf (collection env)"
proof -
  from assms obtain m b subj ch sh ps c where
    "str da b ''document_id'' = Inr (document_id (body env))"
    "subjectVal subj = Inr (subject_agent_id (body env))"
    "changeVal ch = Inr (property_change (body env))"
    "hex64 da b ''author_agent_id'' = Inr (author_agent_id (body env))"
    "seqVal sh = Inr (author_seq (body env))" "decodeParents b = Inr (parents (body env))"
    and c: "decodeMultisigCollection c = Inr (collection env)"
    unfolding decodeDocumentAmendment_def
    by (auto simp: rbind_Inr_conv amendmentError_def split: option.splits if_splits)
  then have "body_wf (body env)"
    using str_nonempty subjectVal_wf changeVal_wf seqVal_wf decodeParents_wf
    unfolding body_wf_def by (fastforce simp: hex64_def rbind_Inr_conv)
  with multisig.decode_wf [OF c] show ?thesis by simp
qed

end
