(* ===== verification/Document_Governance.thy ===== *)
theory Document_Governance
  imports Document_Amendment
begin

text \<open>
  \<open>core/protocol-types/src/document-governance.ts\<close>: whose signatures an amendment takes. The
  policy reads the claimed required set, never the signatures. \<open>None\<close> is the verdict
  \<open>ok: true\<close>.
\<close>

section \<open>The policy\<close>

definition canonicalIds :: "string list \<Rightarrow> string list" where
  "canonicalIds ids = sort (remdups ids)"

definition hasDuplicates :: "string list \<Rightarrow> bool" where
  "hasDuplicates ids \<longleftrightarrow> length (remdups ids) \<noteq> length ids"

definition sameSet :: "string list \<Rightarrow> string list \<Rightarrow> bool" where
  "sameSet a b \<longleftrightarrow> length a = length b \<and> list_all (\<lambda>(x, y). x = y) (zip a b)"

definition documentGovernancePolicy :: SignerPolicy where
  "documentGovernancePolicy kind subject st claimedRequiredSet =
     (let admins = snd st in
      if hasDuplicates claimedRequiredSet then Some ''governance_claim_shape''
      else let claimed = canonicalIds claimedRequiredSet in
      if claimed = [] then Some ''governance_claim_shape''
      else if kind \<in> {consent, refuse_join, close} then
        (if \<exists>s \<in> set_option subject. claimed = [s] then None else Some ''governance_consent_self'')
      else if kind = kill then
        (if \<exists>s \<in> set_option subject. claimed = [s] \<and> s \<in> admins then None
         else if \<exists>s \<in> set_option subject. s \<notin> admins then Some ''governance_not_admin''
         else Some ''governance_consent_self'')
      else if kind = remove_admin then
        (if card admins = 2 then Some ''governance_two_admin_deadlock''
         else if \<not> sameSet claimed (sorted_list_of_set {id \<in> admins. Some id \<noteq> subject})
         then Some ''governance_remove_admin_set''
         else None)
      else if kind = remove_holder \<and> (\<exists>s \<in> set_option subject. claimed = [s]) then None
      else if kind = remove_holder \<and> (\<exists>s \<in> set_option subject. s \<in> admins)
      then Some ''governance_remove_admin_first''
      else if length claimed \<noteq> 1 then Some ''governance_claim_shape''
      else if hd claimed \<notin> admins then Some ''governance_not_admin''
      else None)"

section \<open>The rules the policy implements\<close>

text \<open>
  The same decision as a table: who must have signed, for each kind of entry.
\<close>

definition authorized :: "AmendmentKind \<Rightarrow> string option \<Rightarrow> string set \<Rightarrow> string set \<Rightarrow> bool" where
  "authorized kind subject admins signers \<longleftrightarrow>
     (case kind of
        consent \<Rightarrow> (\<exists>s. subject = Some s \<and> signers = {s})
      | refuse_join \<Rightarrow> (\<exists>s. subject = Some s \<and> signers = {s})
      | close \<Rightarrow> (\<exists>s. subject = Some s \<and> signers = {s})
      | kill \<Rightarrow> (\<exists>s. subject = Some s \<and> signers = {s} \<and> s \<in> admins)
      | remove_admin \<Rightarrow> card admins \<noteq> 2 \<and> signers \<noteq> {} \<and> signers = {a \<in> admins. Some a \<noteq> subject}
      | remove_holder \<Rightarrow>
          (\<exists>s. subject = Some s \<and> signers = {s}) \<or>
          (\<exists>a \<in> admins. signers = {a}) \<and> (\<forall>s. subject = Some s \<longrightarrow> s \<notin> admins)
      | _ \<Rightarrow> \<exists>a \<in> admins. signers = {a})"

section \<open>Lemmas\<close>

lemma hasDuplicates_iff [simp]: "hasDuplicates ids \<longleftrightarrow> \<not> distinct ids"
  by (metis distinct_remdups hasDuplicates_def length_remdups_card_conv card_distinct distinct_card)

lemma set_canonicalIds [simp]: "set (canonicalIds ids) = set ids"
  by (simp add: canonicalIds_def)

lemma canonicalIds_sorted [simp]: "sorted (canonicalIds ids)" "distinct (canonicalIds ids)"
  by (simp_all add: canonicalIds_def)

lemma canonicalIds_empty [simp]: "canonicalIds ids = [] \<longleftrightarrow> ids = []"
  by (metis set_canonicalIds set_empty)

lemma canonicalIds_single [simp]: "canonicalIds ids = [s] \<longleftrightarrow> set ids = {s}"
proof
  assume "set ids = {s}"
  then have "set (canonicalIds ids) = {s}" by simp
  moreover have "distinct (canonicalIds ids)" by simp
  ultimately show "canonicalIds ids = [s]"
    by (metis distinct_card card_1_singleton_iff One_nat_def is_singletonI is_singleton_altdef
        length_Suc_conv length_0_conv list.set_intros(1) singletonD)
qed (metis set_canonicalIds list.set(1) list.set(2))

lemma sameSet_iff [simp]: "sameSet a b \<longleftrightarrow> a = b"
proof -
  have "length a = length b \<Longrightarrow> list_all (\<lambda>(x, y). x = y) (zip a b) \<longleftrightarrow> a = b"
    by (induction a b rule: list_induct2) auto
  then show ?thesis by (auto simp: sameSet_def)
qed

lemma canonicalIds_eq_sorted_list:
  "finite A \<Longrightarrow> canonicalIds ids = sorted_list_of_set A \<longleftrightarrow> set ids = A"
  by (metis canonicalIds_sorted set_canonicalIds set_sorted_list_of_set sorted_distinct_set_unique
      sorted_list_of_set.sorted_sorted_key_list_of_set sorted_sorted_list_of_set distinct_sorted_list_of_set)

lemma length_canonicalIds_1: "length (canonicalIds ids) = 1 \<longleftrightarrow> (\<exists>a. set ids = {a})"
  by (metis canonicalIds_single One_nat_def length_Cons length_Suc_conv list.size(3) length_0_conv)

lemma hd_canonicalIds: "set ids = {a} \<Longrightarrow> hd (canonicalIds ids) = a"
  by (metis canonicalIds_single list.sel(1))

lemma governance_rule_table:
  assumes "finite admins"
  shows "documentGovernancePolicy kind subject (participants, admins) claim = None \<longleftrightarrow>
    distinct claim \<and> claim \<noteq> [] \<and> authorized kind subject admins (set claim)"
proof -
  have fin: "finite {id \<in> admins. Some id \<noteq> subject}" using assms by simp
  note eq = canonicalIds_eq_sorted_list [OF fin]
  show ?thesis
  proof (cases "distinct claim \<and> claim \<noteq> []")
    case True
    have one: "length (canonicalIds claim) = 1 \<and> hd (canonicalIds claim) \<in> admins \<longleftrightarrow>
        (\<exists>a \<in> admins. set claim = {a})"
      using length_canonicalIds_1 hd_canonicalIds by metis
    have P: "documentGovernancePolicy kind subject (participants, admins) claim = None \<longleftrightarrow>
        (if kind \<in> {consent, refuse_join, close} then \<exists>s \<in> set_option subject. set claim = {s}
         else if kind = kill then \<exists>s \<in> set_option subject. set claim = {s} \<and> s \<in> admins
         else if kind = remove_admin then card admins \<noteq> 2 \<and> set claim = {a \<in> admins. Some a \<noteq> subject}
         else if kind = remove_holder \<and> (\<exists>s \<in> set_option subject. set claim = {s}) then True
         else if kind = remove_holder \<and> (\<exists>s \<in> set_option subject. s \<in> admins) then False
         else \<exists>a \<in> admins. set claim = {a})"
      using True unfolding one [symmetric] documentGovernancePolicy_def Let_def
      by (simp add: eq)
    from True show ?thesis
      unfolding P authorized_def by (cases kind; cases subject) auto
  qed (simp add: documentGovernancePolicy_def)
qed

section \<open>Properties\<close>

text \<open>The governance policy decides exactly the rule table: a claim is accepted when it names
  no signer twice and its signers are the ones the entry's kind takes, given the current admins.
  In particular consent, refusal and closing are the subject's own act, a kill is an admin's own
  act, demoting an admin takes all the other admins and is impossible with two, an admin is not
  expelled through the holder door, and everything else takes exactly one admin.\<close>

theorem governance_decides_rule_table:
  assumes "finite admins"
  shows "documentGovernancePolicy kind subject (participants, admins) claim = None \<longleftrightarrow>
    distinct claim \<and> claim \<noteq> [] \<and> authorized kind subject admins (set claim)"
  using assms by (rule governance_rule_table)

theorem governance_decides_rule_table_witness:
  "documentGovernancePolicy remove_admin (Some ''c'') ({}, {''a'', ''b'', ''c''}) [''b'', ''a''] = None \<longleftrightarrow>
    distinct [''b'', ''a''] \<and> [''b'', ''a''] \<noteq> [] \<and>
    authorized remove_admin (Some ''c'') {''a'', ''b'', ''c''} (set [''b'', ''a''])"
  by (rule governance_decides_rule_table) simp

end
