(* ===== verification/Document_Derive.thy ===== *)
theory Document_Derive
  imports Document_Governance
begin

text \<open>
  \<open>core/protocol-types/src/document-derive.ts\<close>: the state of a document as a fold over its entry
  graph. Memo tables are caches of pure functions and are dropped; recursions that follow parents
  carry fuel, whose amount \<open>Derive_Graph\<close> and \<open>Derive_Fold\<close> prove sufficient. Sets that are
  iterated are lists in insertion order, sets that are only asked for members are sets.
\<close>

section \<open>The entry graph\<close>

text \<open>A \<open>Map\<close> from entry hash to envelope.\<close>

type_synonym dag = "(string \<times> DocumentAmendmentEnvelope) list"

definition entryHash :: "externals \<Rightarrow> DocumentAmendmentEnvelope \<Rightarrow> string" where
  "entryHash X env = bytesToHex (documentAmendmentHash X (body env))"

definition byHashOf :: "externals \<Rightarrow> DocumentAmendmentEnvelope list \<Rightarrow> dag" where
  "byHashOf X entries = foldl (\<lambda>m env. AList.update (entryHash X env) env m) [] entries"

definition entryAt :: "dag \<Rightarrow> string \<Rightarrow> DocumentAmendmentEnvelope" where
  "entryAt m h = the (map_of m h)"

definition parentsOf :: "dag \<Rightarrow> string \<Rightarrow> string list" where
  "parentsOf m h = (case map_of m h of None \<Rightarrow> [] | Some env \<Rightarrow> parents (body env))"

text \<open>An entry takes part when it and all its ancestors are held and its ancestry has no cycle.\<close>

fun isIncluded :: "nat \<Rightarrow> dag \<Rightarrow> string \<Rightarrow> bool" where
  "isIncluded 0 m h = False"
| "isIncluded (Suc n) m h =
     (case map_of m h of None \<Rightarrow> False
      | Some env \<Rightarrow> list_all (\<lambda>p. isIncluded n m p) (parents (body env)))"

definition includedOf :: "dag \<Rightarrow> dag" where
  "includedOf m = filter (\<lambda>(h, env). isIncluded (length m) m h) m"

definition excludedOf :: "dag \<Rightarrow> string list" where
  "excludedOf m = filter (\<lambda>h. \<not> isIncluded (length m) m h) (map fst m)"

text \<open>The ancestors of an entry, in the order the set is filled.\<close>

definition edgeCount :: "dag \<Rightarrow> nat" where
  "edgeCount m = sum_list (map (\<lambda>(h, env). length (parents (body env))) m)"

fun closureFuel :: "nat \<Rightarrow> dag \<Rightarrow> string \<Rightarrow> string list" where
  "closureFuel 0 inc h = []"
| "closureFuel (Suc n) inc h =
     foldl (\<lambda>out p. add_all (add_last p out) (closureFuel n inc p)) [] (parentsOf inc h)"

definition closure :: "dag \<Rightarrow> string \<Rightarrow> string list" where
  "closure inc h = closureFuel (edgeCount inc) inc h"

section \<open>The total order\<close>

fun minHash :: "string list \<Rightarrow> string option" where
  "minHash [] = None"
| "minHash (h # hs) = Some (foldl (\<lambda>next h. if h < next then h else next) h hs)"

definition ready :: "dag \<Rightarrow> string list \<Rightarrow> string list \<Rightarrow> string \<Rightarrow> bool" where
  "ready inc sub done h \<longleftrightarrow>
     list_all (\<lambda>p. p \<in> set done \<or> p \<notin> set sub) (parents (body (entryAt inc h)))"

lemma minHash_mem: "minHash hs = Some h \<Longrightarrow> h \<in> set hs"
proof (induction hs rule: rev_induct)
  case (snoc x xs)
  then show ?case by (cases xs) (auto split: if_splits)
qed simp

function linearizeLoop :: "dag \<Rightarrow> string list \<Rightarrow> string list \<Rightarrow> string list \<Rightarrow> string list js" where
  "linearizeLoop inc sub pending order =
     (if pending = [] then Inr order
      else case minHash (filter (ready inc sub order) pending) of
        None \<Rightarrow> Inl (Error ''entry_linearize_stuck'')
      | Some h \<Rightarrow> linearizeLoop inc sub (remove1 h pending) (order @ [h]))"
  by pat_completeness auto
termination
proof (relation "measure (\<lambda>(inc, sub, pending, order). length pending)")
  fix inc sub pending order h
  assume "pending \<noteq> []" "minHash (filter (ready inc sub order) pending) = Some h"
  then have "h \<in> set pending" using minHash_mem by fastforce
  then show "((inc, sub, remove1 h pending, order @ [h]), (inc, sub, pending, order))
      \<in> measure (\<lambda>(inc, sub, pending, order). length pending)"
    using length_pos_if_in_set [of h pending] by (simp add: length_remove1)
qed simp

declare linearizeLoop.simps [simp del]

definition linearize :: "dag \<Rightarrow> string list \<Rightarrow> string list js" where
  "linearize inc sub = linearizeLoop inc sub sub []"

section \<open>Judging an entry\<close>

datatype Reason = Code string | ConcurrentRemoval string | AdminFloor

record FoldState =
  participants :: "string set"
  invited :: "string set"
  admins :: "string set"
  spentDeclaredAdmins :: "string set"
  closes :: "string set"
  killed :: bool
  properties :: fields

definition isRemoval :: "AmendmentKind \<Rightarrow> bool" where
  "isRemoval k \<longleftrightarrow> k = remove_holder \<or> k = remove_admin"

definition ownPredecessor :: "dag \<Rightarrow> DocumentAmendmentBody \<Rightarrow> string \<Rightarrow> bool" where
  "ownPredecessor inc b p =
     (case map_of inc p of None \<Rightarrow> False
      | Some parent \<Rightarrow> author_agent_id (body parent) = author_agent_id b \<and>
          author_seq (body parent) = author_seq b - 1)"

definition structuralVoid ::
  "externals \<Rightarrow> ArrangementGenesis \<Rightarrow> dag \<Rightarrow> DocumentAmendmentEnvelope \<Rightarrow> string \<Rightarrow> Reason option" where
  "structuralVoid X G inc env h =
     (let b = body env; c = collection env in
      if document_id b \<noteq> documentId G then Some (Code ''entry_wrong_document'')
      else if author_agent_id b \<notin> set (required_signers c) then Some (Code ''entry_author_not_required'')
      else if mc_document_id c \<noteq> document_id b then Some (Code ''amendment_collection_document_mismatch'')
      else if subject_kind c \<noteq> AMENDMENT_SUBJECT_KIND then Some (Code ''amendment_collection_kind'')
      else if subject_hash c \<noteq> documentAmendmentHash X b then Some (Code ''amendment_collection_subject_mismatch'')
      else if author_seq b > 1 \<and> \<not> list_ex (ownPredecessor inc b) (closure inc h)
      then Some (Code ''entry_own_chain_broken'')
      else None)"

text \<open>\<open>String(value)\<close> on the values a property can have.\<close>

fun digitsOf :: "nat \<Rightarrow> string" where
  "digitsOf n = (if n < 10 then [hexDigit n] else digitsOf (n div 10) @ [hexDigit (n mod 10)])"

declare digitsOf.simps [simp del]

fun jsString :: "jsval \<Rightarrow> string" where
  "jsString (JText s) = s"
| "jsString (JBool b) = (if b then ''true'' else ''false'')"
| "jsString (JInt i) = (if i < 0 then ''-'' @ digitsOf (nat (- i)) else digitsOf (nat i))"
| "jsString (JFraction s) = s"
| "jsString JNull = ''null''"
| "jsString _ = ''undefined''"

definition DOCUMENT_FEATURE_VERSION :: nat where "DOCUMENT_FEATURE_VERSION = 2"

definition consentTarget :: "FoldState \<Rightarrow> string" where
  "consentTarget st =
     jsString (getProp (properties st) ''assurance_tier'') @ ''/'' @ digitsOf DOCUMENT_FEATURE_VERSION"

text \<open>The \<open>switch\<close> of \<open>effectVoid\<close>: does the entry make sense in this state?\<close>

definition kindVoid :: "DocumentAmendmentBody \<Rightarrow> FoldState \<Rightarrow> string option" where
  "kindVoid b st =
     (case (body_kind b, subject_agent_id b) of
        (change_property, Some _) \<Rightarrow> Some ''amendment_subject_forbidden''
      | (change_property, None) \<Rightarrow>
          (case property_change b of
             None \<Rightarrow> Some ''amendment_property_missing''
           | Some (k, v) \<Rightarrow>
               if k \<notin> set AMENDABLE_PROPERTIES then Some ''amendment_property_not_amendable'' else None)
      | (_, None) \<Rightarrow> Some ''amendment_subject_required''
      | (add_holder, Some s) \<Rightarrow>
          if s \<in> participants st then Some ''amendment_subject_already_holder''
          else if s \<in> invited st then Some ''amendment_subject_already_invited''
          else if card (participants st) + card (invited st) + 1 > MAX_DOCUMENT_HOLDERS
          then Some ''amendment_holder_cap''
          else None
      | (consent, Some s) \<Rightarrow>
          if author_agent_id b \<noteq> s then Some ''entry_consent_not_subject''
          else if s \<notin> invited st then Some ''amendment_subject_not_invited''
          else if (case property_change b of
                     Some (k, v) \<Rightarrow> k = ''consents_to'' \<and> jsString v = consentTarget st
                   | None \<Rightarrow> False) then None
          else Some ''entry_consents_to_mismatch''
      | (refuse_join, Some s) \<Rightarrow>
          if author_agent_id b \<noteq> s then Some ''entry_consent_not_subject''
          else if s \<notin> invited st then Some ''amendment_subject_not_invited''
          else None
      | (close, Some s) \<Rightarrow>
          if author_agent_id b \<noteq> s then Some ''entry_consent_not_subject''
          else if s \<notin> participants st then Some ''amendment_subject_not_holder''
          else None
      | (kill, Some s) \<Rightarrow>
          if author_agent_id b \<noteq> s then Some ''entry_consent_not_subject'' else None
      | (remove_holder, Some s) \<Rightarrow>
          if s \<notin> participants st \<and> s \<notin> invited st then Some ''amendment_subject_not_holder'' else None
      | (promote_admin, Some s) \<Rightarrow>
          if s \<notin> participants st then Some ''amendment_subject_not_holder''
          else if s \<in> admins st then Some ''amendment_subject_already_admin''
          else None
      | (remove_admin, Some s) \<Rightarrow>
          if s \<notin> admins st then Some ''amendment_subject_not_admin'' else None)"

definition effectVoid ::
  "externals \<Rightarrow> SignerPolicy \<Rightarrow> DocumentAmendmentEnvelope \<Rightarrow> FoldState \<Rightarrow> Reason option js" where
  "effectVoid X policy env st =
     (let b = body env in
      if state_hash b \<noteq> None \<and> getProp (properties st) ''assurance_tier'' \<noteq> JText ''attested''
      then Inr (Some (Code ''amendment_state_hash_tier''))
      else case kindVoid b st of
        Some r \<Rightarrow> Inr (Some (Code r))
      | None \<Rightarrow>
        (case policy (body_kind b) (subject_agent_id b) (participants st, admins st)
                (required_signers (collection env)) of
           Some r \<Rightarrow> Inr (Some (Code r))
         | None \<Rightarrow>
             rbind (collectionStatus X (collection env)) (\<lambda>status.
               if \<not> complete status then Inr (Some (Code ''amendment_collection_incomplete''))
               else Inr None)))"

text \<open>
  \<open>apply\<close>. The subject and the property change are present: \<open>effectVoid\<close> passed the entry (the
  code's non-null assertions).
\<close>

definition applyEntry ::
  "ArrangementGenesis \<Rightarrow> DocumentAmendmentEnvelope \<Rightarrow> FoldState \<Rightarrow> FoldState" where
  "applyEntry G env st =
     (let b = body env; s = the (subject_agent_id b) in
      case body_kind b of
        add_holder \<Rightarrow> st\<lparr>invited := insert s (invited st)\<rparr>
      | consent \<Rightarrow>
          st\<lparr>invited := invited st - {s}, participants := insert s (participants st),
             admins := (if s \<in> set (adminSet G) \<and> s \<notin> spentDeclaredAdmins st
                        then insert s (admins st) else admins st)\<rparr>
      | refuse_join \<Rightarrow> st\<lparr>invited := invited st - {s}\<rparr>
      | close \<Rightarrow> st\<lparr>closes := insert s (closes st)\<rparr>
      | kill \<Rightarrow> st\<lparr>killed := True\<rparr>
      | remove_holder \<Rightarrow>
          st\<lparr>participants := participants st - {s}, invited := invited st - {s},
             closes := closes st - {s},
             spentDeclaredAdmins := (if s \<in> admins st then insert s (spentDeclaredAdmins st)
                                     else spentDeclaredAdmins st),
             admins := admins st - {s}\<rparr>
      | promote_admin \<Rightarrow> st\<lparr>admins := insert s (admins st)\<rparr>
      | remove_admin \<Rightarrow>
          st\<lparr>spentDeclaredAdmins := insert s (spentDeclaredAdmins st), admins := admins st - {s}\<rparr>
      | change_property \<Rightarrow>
          (let (k, v) = the (property_change b) in st\<lparr>properties := AList.update k v (properties st)\<rparr>))"

section \<open>The fold\<close>

text \<open>
  \<open>V\<close> is \<open>removalValidAtAncestors\<close>: \<open>None\<close> when the removal is valid at its own ancestors,
  otherwise the reason it is not.
\<close>

type_synonym verdicts = "string \<Rightarrow> Reason option js"

fun concurrentRemovalOf ::
  "externals \<Rightarrow> ArrangementGenesis \<Rightarrow> dag \<Rightarrow> verdicts \<Rightarrow> string list \<Rightarrow> string \<Rightarrow> string \<Rightarrow> string option js"
where
  "concurrentRemovalOf X G inc V [] h author = Inr None"
| "concurrentRemovalOf X G inc V (other # rest) h author =
     (let env = entryAt inc other; continue = concurrentRemovalOf X G inc V rest h author in
      if other = h then continue
      else if \<not> isRemoval (body_kind (body env)) then continue
      else if subject_agent_id (body env) \<noteq> Some author then continue
      else if structuralVoid X G inc env other \<noteq> None then continue
      else rbind (V other) (\<lambda>verdict.
        if verdict \<noteq> None then continue
        else if h \<in> set (closure inc other) then continue
        else if other \<in> set (closure inc h) then continue
        else Inr (Some other)))"

definition wouldEmptyAdmins :: "string \<Rightarrow> FoldState \<Rightarrow> bool" where
  "wouldEmptyAdmins s st \<longleftrightarrow> s \<in> admins st \<and> card (admins st) = 1"

type_synonym fold_acc = "FoldState \<times> (string \<times> Reason) list"

definition foldEntry ::
  "externals \<Rightarrow> SignerPolicy \<Rightarrow> ArrangementGenesis \<Rightarrow> dag \<Rightarrow> verdicts \<Rightarrow> string list \<Rightarrow>
   fold_acc \<Rightarrow> string \<Rightarrow> fold_acc js" where
  "foldEntry X policy G inc V sub acc h =
     (case acc of (st, voids) \<Rightarrow>
      let env = entryAt inc h; b = body env in
      case structuralVoid X G inc env h of
        Some r \<Rightarrow> Inr (st, voids @ [(h, r)])
      | None \<Rightarrow>
        if isRemoval (body_kind b) then
          rbind (V h) (\<lambda>verdict. case verdict of
            Some r \<Rightarrow> Inr (st, voids @ [(h, r)])
          | None \<Rightarrow>
              if wouldEmptyAdmins (the (subject_agent_id b)) st then Inr (st, voids @ [(h, AdminFloor)])
              else Inr (applyEntry G env st, voids))
        else
          rbind (concurrentRemovalOf X G inc V sub h (author_agent_id b)) (\<lambda>removal. case removal of
            Some other \<Rightarrow> Inr (st, voids @ [(h, ConcurrentRemoval other)])
          | None \<Rightarrow>
              rbind (effectVoid X policy env st) (\<lambda>ineffective. case ineffective of
                Some r \<Rightarrow> Inr (st, voids @ [(h, r)])
              | None \<Rightarrow> Inr (applyEntry G env st, voids))))"

definition genesisState :: "ArrangementGenesis \<Rightarrow> FoldState" where
  "genesisState G = \<lparr>
     participants = {proposerAgentId G},
     invited = (if peerAgentId G = proposerAgentId G then {} else {peerAgentId G}),
     admins = {id \<in> set (adminSet G). id = proposerAgentId G},
     spentDeclaredAdmins = {}, closes = {}, killed = False, properties = g_properties G\<rparr>"

definition foldSubset ::
  "externals \<Rightarrow> SignerPolicy \<Rightarrow> ArrangementGenesis \<Rightarrow> dag \<Rightarrow> verdicts \<Rightarrow> string list \<Rightarrow>
   (FoldState \<times> string list \<times> (string \<times> Reason) list) js" where
  "foldSubset X policy G inc V sub =
     rbind (linearize inc sub) (\<lambda>order.
     rbind (rfold (foldEntry X policy G inc V sub) (genesisState G, []) order) (\<lambda>(st, voids).
     Inr (st, order, voids)))"

fun removalVerdict ::
  "nat \<Rightarrow> externals \<Rightarrow> SignerPolicy \<Rightarrow> ArrangementGenesis \<Rightarrow> dag \<Rightarrow> verdicts" where
  "removalVerdict 0 X policy G inc h = Inl (Error ''fuel'')"
| "removalVerdict (Suc n) X policy G inc h =
     rbind (foldSubset X policy G inc (removalVerdict n X policy G inc) (closure inc h)) (\<lambda>(st, order, voids).
     effectVoid X policy (entryAt inc h) st)"

section \<open>The derivation\<close>

datatype ended = Open | Closed | Killed

record DocumentStateView =
  v_participants :: "string set"
  v_invited :: "string set"
  v_admins :: "string set"
  v_ended :: ended
  v_closedBy :: "string set"
  v_properties :: fields
  v_order :: "string list"
  v_frontier :: "string list"
  v_voids :: "(string \<times> Reason) list"
  v_excluded :: "string list"
  v_authorSeqs :: "(string \<times> int) list"
  v_interimLastHash :: "string option"

datatype DeriveResult = Derived DocumentStateView | DeriveRefused string

definition frontierOf :: "dag \<Rightarrow> string list" where
  "frontierOf inc =
     (let namedAsParent = concat (map (\<lambda>(h, env). parents (body env)) inc) in
      sort (filter (\<lambda>h. h \<notin> set namedAsParent) (map fst inc)))"

definition authorSeqsOf :: "dag \<Rightarrow> (string \<times> int) list" where
  "authorSeqsOf inc =
     foldl (\<lambda>m (h, env).
       let author = author_agent_id (body env); s = author_seq (body env) in
       if (case map_of m author of None \<Rightarrow> 0 | Some n \<Rightarrow> n) < s then AList.update author s m else m) [] inc"

definition endedOf :: "FoldState \<Rightarrow> ended" where
  "endedOf st =
     (if killed st then Killed
      else if participants st \<noteq> {} \<and> invited st = {} \<and> (\<forall>p \<in> participants st. p \<in> closes st) then Closed
      else Open)"

definition viewOf ::
  "dag \<Rightarrow> FoldState \<Rightarrow> string list \<Rightarrow> (string \<times> Reason) list \<Rightarrow> string list \<Rightarrow> DocumentStateView" where
  "viewOf inc st order voids excluded =
     \<lparr>v_participants = participants st, v_invited = invited st, v_admins = admins st,
      v_ended = endedOf st, v_closedBy = closes st, v_properties = properties st,
      v_order = order, v_frontier = frontierOf inc, v_voids = voids, v_excluded = excluded,
      v_authorSeqs = authorSeqsOf inc,
      v_interimLastHash = (if order = [] then None else Some (last order))\<rparr>"

definition deriveDocumentState ::
  "externals \<Rightarrow> SignerPolicy \<Rightarrow> ArrangementGenesis \<Rightarrow> DocumentAmendmentEnvelope list \<Rightarrow> DeriveResult js" where
  "deriveDocumentState X policy G entries =
     (if adminSet G = [] then Inr (DeriveRefused ''arrangement_admin_set_empty'')
      else if list_ex (\<lambda>a. a \<noteq> proposerAgentId G \<and> a \<noteq> peerAgentId G) (adminSet G)
      then Inr (DeriveRefused ''arrangement_admin_not_participant'')
      else let byHash = byHashOf X entries; inc = includedOf byHash; excluded = excludedOf byHash in
        rbind (foldSubset X policy G inc (removalVerdict (length inc) X policy G inc) (map fst inc))
          (\<lambda>(st, order, voids). Inr (Derived (viewOf inc st order voids excluded))))"

section \<open>State at a named frontier\<close>

text \<open>The work list of ancestors; the stack is kept with its top at the head.\<close>

function wantedLoop :: "dag \<Rightarrow> string list \<Rightarrow> string list \<Rightarrow> string list" where
  "wantedLoop byHash [] wanted = wanted"
| "wantedLoop byHash (h # stack) wanted =
     (if h \<in> set wanted then wantedLoop byHash stack wanted
      else wantedLoop byHash (rev (parentsOf byHash h) @ stack) (wanted @ [h]))"
  by pat_completeness auto

definition unvisited :: "dag \<Rightarrow> string list \<Rightarrow> nat" where
  "unvisited m wanted =
     sum_list (map (\<lambda>(h, env). if h \<in> set wanted then 0 else length (parents (body env))) m)"

lemma unvisited_mono: "unvisited m (w @ v) \<le> unvisited m w"
  unfolding unvisited_def by (induction m) auto

lemma unvisited_visit:
  "h \<notin> set w \<Longrightarrow> unvisited m (w @ [h]) + length (parentsOf m h) \<le> unvisited m w"
proof (induction m)
  case (Cons a m)
  obtain k env where a: "a = (k, env)" by (cases a)
  show ?case
  proof (cases "k = h")
    case True
    with a Cons.prems unvisited_mono [of m w "[h]"] show ?thesis
      by (simp add: unvisited_def parentsOf_def)
  next
    case False
    with a Cons show ?thesis by (simp add: unvisited_def parentsOf_def)
  qed
qed (simp add: unvisited_def parentsOf_def)

termination wantedLoop
proof (relation "measure (\<lambda>(m, stack, wanted). length stack + unvisited m wanted)", goal_cases)
  case (3 byHash h stack wanted)
  then show ?case using unvisited_visit [of h wanted byHash] by simp
qed simp_all

datatype DeriveAtResult = DerivedAt DocumentStateView | DeriveAtRefused string | FrontierMissing "string list"

definition deriveDocumentStateAt ::
  "externals \<Rightarrow> SignerPolicy \<Rightarrow> ArrangementGenesis \<Rightarrow> DocumentAmendmentEnvelope list \<Rightarrow> string list \<Rightarrow>
   DeriveAtResult js" where
  "deriveDocumentStateAt X policy G entries frontierHashes =
     (let byHash = byHashOf X entries;
          miss = filter (\<lambda>h. map_of byHash h = None) frontierHashes in
      if miss \<noteq> [] then Inr (FrontierMissing miss)
      else let wanted = wantedLoop byHash (rev frontierHashes) [];
               sub = filter (\<lambda>env. entryHash X env \<in> set wanted) entries in
        rbind (deriveDocumentState X policy G sub) (\<lambda>r. case r of
          Derived v \<Rightarrow> Inr (DerivedAt v) | DeriveRefused reason \<Rightarrow> Inr (DeriveAtRefused reason)))"

section \<open>Admission of a single entry\<close>

definition checkEntryAdmissible :: "externals \<Rightarrow> DocumentAmendmentEnvelope \<Rightarrow> string option js" where
  "checkEntryAdmissible X env =
     (let b = body env; c = collection env in
      if author_agent_id b \<notin> set (required_signers c) then Inr (Some ''entry_author_not_required'')
      else if mc_document_id c \<noteq> document_id b then Inr (Some ''amendment_collection_document_mismatch'')
      else if subject_kind c \<noteq> AMENDMENT_SUBJECT_KIND then Inr (Some ''amendment_collection_kind'')
      else if subject_hash c \<noteq> documentAmendmentHash X b then Inr (Some ''amendment_collection_subject_mismatch'')
      else rbind (collectionStatus X c) (\<lambda>status.
        if \<not> complete status then Inr (Some ''amendment_collection_incomplete'') else Inr None))"

end
