(* ===== verification/Derive_Graph.thy ===== *)
theory Derive_Graph
  imports Document_Derive
begin

text \<open>
  The entry graph of \<open>Document_Derive\<close>: which entries are included, that the fuel of the two
  recursions over parents is enough, that inclusion is acyclic, and that the total order is a
  topological order of the whole set which does not depend on the order of arrival.
\<close>

section \<open>The map from hash to entry\<close>

lemma byHashOf_snoc: "byHashOf X (es @ [e]) = AList.update (entryHash X e) e (byHashOf X es)"
  by (simp add: byHashOf_def)

lemma distinct_byHashOf [simp]: "distinct (map fst (byHashOf X es))"
  by (induction es rule: rev_induct) (simp_all add: byHashOf_snoc distinct_update, simp add: byHashOf_def)

lemma keys_byHashOf [simp]: "fst ` set (byHashOf X es) = entryHash X ` set es"
proof (induction es rule: rev_induct)
  case (snoc e es)
  then show ?case by (simp add: byHashOf_snoc dom_update [unfolded dom_map_of_conv_image_fst] insert_commute)
qed (simp add: byHashOf_def)

lemma byHashOf_hash: "map_of (byHashOf X es) h = Some e \<Longrightarrow> entryHash X e = h \<and> e \<in> set es"
proof (induction es rule: rev_induct)
  case (snoc x es)
  then show ?case by (auto simp: byHashOf_snoc update_conv split: if_splits)
qed (simp add: byHashOf_def)

section \<open>Inclusion\<close>

text \<open>The meaning of inclusion: held, with every parent included.\<close>

inductive grounded :: "dag \<Rightarrow> string \<Rightarrow> bool" for m where
  grounded: "map_of m h = Some env \<Longrightarrow> (\<And>p. p \<in> set (parents (body env)) \<Longrightarrow> grounded m p) \<Longrightarrow> grounded m h"

lemma isIncluded_step:
  "isIncluded (Suc n) m h \<longleftrightarrow>
     (\<exists>env. map_of m h = Some env \<and> (\<forall>p \<in> set (parents (body env)). isIncluded n m p))"
  by (simp add: list_all_iff split: option.splits)

declare isIncluded.simps(2) [simp del]

lemma isIncluded_Suc: "isIncluded n m h \<Longrightarrow> isIncluded (Suc n) m h"
proof (induction n arbitrary: h)
  case (Suc n)
  then show ?case unfolding isIncluded_step [of "Suc n"] isIncluded_step [of n m h] by blast
qed simp

lemma isIncluded_mono: "n \<le> k \<Longrightarrow> isIncluded n m h \<Longrightarrow> isIncluded k m h"
  by (induction k rule: dec_induct) (auto simp del: isIncluded.simps intro: isIncluded_Suc)

lemma isIncluded_grounded: "isIncluded n m h \<Longrightarrow> grounded m h"
  by (induction n arbitrary: h) (auto intro: grounded.intros simp: isIncluded_step)

lemma grounded_isIncluded: "grounded m h \<Longrightarrow> \<exists>n. isIncluded n m h"
proof (induction rule: grounded.induct)
  case (grounded h env)
  then have "\<forall>p \<in> set (parents (body env)). \<exists>n. isIncluded n m p" by blast
  from bchoice [OF this] obtain f
    where f: "\<forall>p \<in> set (parents (body env)). isIncluded (f p) m p" by (elim exE)
  let ?n = "Max (insert 0 (f ` set (parents (body env))))"
  have "isIncluded ?n m p" if "p \<in> set (parents (body env))" for p
    by (rule isIncluded_mono [OF _ bspec [OF f that]]) (simp add: that)
  then have "isIncluded (Suc ?n) m h" using grounded(1) by (simp add: isIncluded_step)
  then show ?case by blast
qed

text \<open>As many rounds as there are entries are enough.\<close>

lemma isIncluded_stable:
  assumes "{h. isIncluded n m h} = {h. isIncluded (Suc n) m h}"
  shows "{h. isIncluded (Suc n) m h} = {h. isIncluded (Suc (Suc n)) m h}"
proof -
  have e: "isIncluded (Suc n) m = isIncluded n m" using assms by (intro ext) blast
  have "isIncluded (Suc n) m h \<longleftrightarrow> isIncluded (Suc (Suc n)) m h" for h
    using isIncluded_step [of n m h] unfolding isIncluded_step [of "Suc n" m h] e by simp
  then show ?thesis by (rule Collect_cong)
qed

lemma included_fuel: "isIncluded (length m) m h \<longleftrightarrow> grounded m h"
proof -
  let ?S = "\<lambda>n. {h. isIncluded n m h}"
  let ?D = "fst ` set m"
  have sub: "?S n \<subseteq> ?D" for n
  proof (cases n)
    case (Suc k)
    then show ?thesis by (auto simp: isIncluded_step dest!: map_of_SomeD intro: rev_image_eqI)
  qed simp
  have fin: "finite ?D" by simp
  have "mono ?S" by (intro monoI subsetI) (auto intro: isIncluded_mono)
  then have "\<exists>N. (\<forall>n\<le>N. \<forall>k\<le>N. k < n \<longrightarrow> ?S k \<subset> ?S n) \<and> (\<forall>n\<ge>N. ?S N = ?S n)"
  proof (intro finite_mono_remains_stable_implies_strict_prefix)
    have "range ?S \<subseteq> Pow ?D" using sub by blast
    then show "finite (range ?S)" using finite_subset fin by blast
  qed (use isIncluded_stable in blast)+
  from finite_mono_strict_prefix_implies_finite_fixpoint [OF sub fin this]
  have lim: "?S (card ?D) = (\<Union>n. ?S n)" .
  have "card ?D \<le> length m" by (metis card_image_le card_length finite_set le_trans)
  then have "?S (card ?D) \<subseteq> ?S (length m)" by (rule monoD [OF \<open>mono ?S\<close>])
  moreover have "grounded m h \<longleftrightarrow> h \<in> (\<Union>n. ?S n)"
    using grounded_isIncluded isIncluded_grounded by auto
  moreover have "isIncluded (length m) m h \<Longrightarrow> grounded m h" by (rule isIncluded_grounded)
  ultimately show ?thesis unfolding lim [symmetric] by auto
qed

text \<open>The included part of a map, as a graph in its own right.\<close>

definition closed_dag :: "dag \<Rightarrow> bool" where
  "closed_dag inc \<longleftrightarrow> distinct (map fst inc) \<and> (\<forall>h \<in> fst ` set inc. grounded inc h)"

lemma map_of_filter_key: "map_of (filter (\<lambda>(h, env). P h) m) h = (if P h then map_of m h else None)"
  by (induction m) auto

lemma map_of_includedOf:
  "map_of (includedOf m) h = (if grounded m h then map_of m h else None)"
  unfolding includedOf_def included_fuel by (rule map_of_filter_key)

lemma set_excludedOf: "set (excludedOf m) = {h \<in> fst ` set m. \<not> grounded m h}"
  unfolding excludedOf_def included_fuel by auto

lemma distinct_includedOf [simp]: "distinct (map fst m) \<Longrightarrow> distinct (map fst (includedOf m))"
  unfolding includedOf_def by (rule distinct_map_filter)

lemma grounded_held: "grounded m h \<Longrightarrow> \<exists>env. map_of m h = Some env"
  by (auto elim: grounded.cases)

lemma grounded_includedOf: "grounded m h \<Longrightarrow> grounded (includedOf m) h"
proof (induction rule: grounded.induct)
  case (grounded h env)
  then have "map_of (includedOf m) h = Some env"
    using grounded.grounded [of m h env] by (simp add: map_of_includedOf)
  then show ?case using grounded by (auto intro: grounded.grounded)
qed

lemma keys_map_of: "h \<in> fst ` set m \<longleftrightarrow> (\<exists>env. map_of m h = Some env)"
  by (metis (no_types, lifting) domD domI dom_map_of_conv_image_fst)

lemma keys_includedOf: "fst ` set (includedOf m) = {h. grounded m h}"
proof (intro set_eqI)
  fix h
  have "h \<in> fst ` set (includedOf m) \<longleftrightarrow> (\<exists>env. map_of (includedOf m) h = Some env)"
    by (rule keys_map_of)
  then show "h \<in> fst ` set (includedOf m) \<longleftrightarrow> h \<in> {h. grounded m h}"
    using grounded_held by (auto simp: map_of_includedOf)
qed

lemma closed_includedOf: "distinct (map fst m) \<Longrightarrow> closed_dag (includedOf m)"
  by (auto simp: closed_dag_def keys_includedOf intro: grounded_includedOf)

section \<open>Ancestors\<close>

definition edges :: "dag \<Rightarrow> (string \<times> string) set" where
  "edges inc = {(p, h). \<exists>env. map_of inc h = Some env \<and> p \<in> set (parents (body env))}"

lemma edges_iff: "(p, h) \<in> edges inc \<longleftrightarrow> p \<in> set (parentsOf inc h)"
  by (cases "map_of inc h") (auto simp: edges_def parentsOf_def)

lemma closed_parent:
  assumes "closed_dag inc" and "(p, h) \<in> edges inc"
  shows "p \<in> fst ` set inc \<and> h \<in> fst ` set inc"
proof -
  obtain env where env: "map_of inc h = Some env" "p \<in> set (parents (body env))"
    using assms(2) by (cases "map_of inc h") (auto simp: edges_iff parentsOf_def)
  then have h: "h \<in> fst ` set inc" by (auto simp: keys_map_of)
  with assms(1) have "grounded inc h" by (auto simp: closed_dag_def)
  then have "grounded inc p" using env by (auto elim: grounded.cases)
  with h grounded_held show ?thesis by (auto simp: keys_map_of)
qed

lemma acyclic_edges:
  assumes "closed_dag inc"
  shows "wf (edges inc)"
proof (rule wfI_min)
  fix x :: string and Q assume x: "x \<in> Q"
  have "\<exists>z \<in> Q. \<forall>y. (y, z) \<in> edges inc \<longrightarrow> y \<notin> Q" if "grounded inc h" "h \<in> Q" for h :: string
    using that
  proof (induction rule: grounded.induct)
    case (grounded h env)
    show ?case
    proof (cases "\<exists>p \<in> set (parents (body env)). p \<in> Q")
      case True
      with grounded show ?thesis by blast
    next
      case False
      with grounded show ?thesis by (auto simp: edges_def intro!: bexI [of _ h])
    qed
  qed
  moreover have "grounded inc x \<or> (\<forall>y. (y, x) \<notin> edges inc)"
    using assms by (auto simp: closed_dag_def edges_def keys_map_of)
  ultimately show "\<exists>z \<in> Q. \<forall>y. (y, z) \<in> edges inc \<longrightarrow> y \<notin> Q" using x by blast
qed

definition ancestors :: "dag \<Rightarrow> string \<Rightarrow> string set" where
  "ancestors inc h = {a. (a, h) \<in> (edges inc)\<^sup>+}"

lemma set_foldl_add:
  "set (foldl (\<lambda>out p. add_all (add_last p out) (f p)) acc ps) = set acc \<union> set ps \<union> (\<Union>p \<in> set ps. set (f p))"
  by (induction ps arbitrary: acc) auto

lemma set_closureFuel: "set (closureFuel n inc h) = (\<Union>k \<in> {0<..n}. {a. (a, h) \<in> edges inc ^^ k})"
proof (induction n arbitrary: h)
  case (Suc n)
  have "set (closureFuel (Suc n) inc h) =
      {p. (p, h) \<in> edges inc} \<union> (\<Union>p \<in> {p. (p, h) \<in> edges inc}. set (closureFuel n inc p))"
    by (simp add: set_foldl_add edges_iff)
  also have "\<dots> = (\<Union>k \<in> {0<..Suc n}. {a. (a, h) \<in> edges inc ^^ k})"
  proof (intro equalityI subsetI)
    fix a assume "a \<in> {p. (p, h) \<in> edges inc} \<union> (\<Union>p \<in> {p. (p, h) \<in> edges inc}. set (closureFuel n inc p))"
    then consider "(a, h) \<in> edges inc ^^ 1" |
      p k where "(p, h) \<in> edges inc" "0 < k" "k \<le> n" "(a, p) \<in> edges inc ^^ k"
      using Suc.IH by auto
    then show "a \<in> (\<Union>k \<in> {0<..Suc n}. {a. (a, h) \<in> edges inc ^^ k})"
    proof cases
      case 1
      then show ?thesis by (intro UN_I [of 1]) auto
    next
      case 2
      then show ?thesis by (intro UN_I [of "Suc k"]) (auto intro: relpow_Suc_I)
    qed
  next
    fix a assume "a \<in> (\<Union>k \<in> {0<..Suc n}. {a. (a, h) \<in> edges inc ^^ k})"
    then obtain k where k: "k \<le> n" "(a, h) \<in> edges inc ^^ Suc k"
      by (auto simp: gr0_conv_Suc)
    then obtain p where p: "(a, p) \<in> edges inc ^^ k" "(p, h) \<in> edges inc" by (auto elim: relpow_Suc_E)
    show "a \<in> {p. (p, h) \<in> edges inc} \<union> (\<Union>p \<in> {p. (p, h) \<in> edges inc}. set (closureFuel n inc p))"
    proof (cases k)
      case 0
      with p show ?thesis by simp
    next
      case (Suc j)
      with p k(1) have "a \<in> set (closureFuel n inc p)"
        unfolding Suc.IH by (intro UN_I [of k]) auto
      with p show ?thesis by blast
    qed
  qed
  finally show ?case .
qed simp

lemma edges_finite_card: "finite (edges m) \<and> card (edges m) \<le> edgeCount m"
proof (induction m)
  case (Cons a m)
  obtain k env where a: "a = (k, env)" by (cases a)
  have sub: "edges (a # m) \<subseteq> edges m \<union> (\<lambda>p. (p, k)) ` set (parents (body env))"
    by (auto simp: edges_def a split: if_splits)
  have "card ((\<lambda>p. (p, k)) ` set (parents (body env))) \<le> length (parents (body env))"
    by (metis card_image_le card_length finite_set le_trans)
  with Cons card_Un_le [of "edges m" "(\<lambda>p. (p, k)) ` set (parents (body env))"]
  have "card (edges m \<union> (\<lambda>p. (p, k)) ` set (parents (body env))) \<le> edgeCount (a # m)"
    by (simp add: edgeCount_def a)
  with sub Cons show ?case
    by (meson card_mono finite_Un finite_imageI finite_set finite_subset le_trans)
qed (simp add: edges_def edgeCount_def)

text \<open>As many rounds as there are parent references are enough.\<close>

lemma set_closure [simp]: "set (closure inc h) = ancestors inc h"
proof
  show "set (closure inc h) \<subseteq> ancestors inc h"
    by (auto simp: closure_def set_closureFuel ancestors_def trancl_power)
  show "ancestors inc h \<subseteq> set (closure inc h)"
  proof
    fix a assume "a \<in> ancestors inc h"
    then obtain k where "0 < k" "k \<le> card (edges inc)" "(a, h) \<in> edges inc ^^ k"
      using trancl_finite_eq_relpow [of "edges inc"] edges_finite_card [of inc] by (auto simp: ancestors_def)
    with edges_finite_card [of inc] show "a \<in> set (closure inc h)"
      by (auto simp: closure_def set_closureFuel intro!: bexI [of _ k])
  qed
qed

lemma ancestors_held: "closed_dag inc \<Longrightarrow> a \<in> ancestors inc h \<Longrightarrow> a \<in> fst ` set inc"
  unfolding ancestors_def by (auto elim: converse_tranclE dest: closed_parent)

lemma ancestors_trans: "a \<in> ancestors inc b \<Longrightarrow> b \<in> ancestors inc c \<Longrightarrow> a \<in> ancestors inc c"
  unfolding ancestors_def by auto

lemma ancestors_irrefl: "closed_dag inc \<Longrightarrow> a \<notin> ancestors inc a"
  using acyclic_edges [of inc] by (auto simp: ancestors_def dest!: wf_acyclic simp: acyclic_def)

lemma ancestors_parent: "p \<in> set (parentsOf inc h) \<Longrightarrow> p \<in> ancestors inc h"
  by (auto simp: ancestors_def edges_iff)

lemma ancestors_finite: "finite (ancestors inc h)"
  by (simp flip: set_closure)

lemma ancestors_smaller:
  assumes "closed_dag inc" and "a \<in> ancestors inc h"
  shows "card (ancestors inc a) < card (ancestors inc h)"
proof (rule psubset_card_mono [OF ancestors_finite])
  have "ancestors inc a \<subseteq> ancestors inc h" using assms(2) ancestors_trans by blast
  moreover have "a \<notin> ancestors inc a" by (rule ancestors_irrefl [OF assms(1)])
  ultimately show "ancestors inc a \<subset> ancestors inc h" using assms(2) by blast
qed

section \<open>The total order\<close>

lemma minHash_Min: "hs \<noteq> [] \<Longrightarrow> minHash hs = Some (Min (set hs))"
proof (cases hs)
  case (Cons h xs)
  have "foldl (\<lambda>next h. if h < next then h else next) h xs = Min (set (h # xs))"
  proof (induction xs rule: rev_induct)
    case (snoc x xs)
    have "Min (set (h # xs @ [x])) = Min (insert x (set (h # xs)))" by (simp add: insert_commute)
    also have "\<dots> = min x (Min (set (h # xs)))" by (rule Min_insert) simp_all
    finally show ?case using snoc by (simp add: min_def not_less less_le)
  qed simp
  with Cons show ?thesis by simp
qed simp

lemma minHash_set: "set xs = set ys \<Longrightarrow> minHash xs = minHash ys"
  by (metis minHash.simps(1) minHash_Min set_empty)

lemma ready_iff:
  "h \<in> fst ` set inc \<Longrightarrow>
   ready inc sub done h \<longleftrightarrow> (\<forall>p \<in> set (parentsOf inc h). p \<in> set sub \<longrightarrow> p \<in> set done)"
  by (auto simp: ready_def entryAt_def parentsOf_def keys_map_of list_all_iff)

definition topological :: "dag \<Rightarrow> string list \<Rightarrow> string list \<Rightarrow> bool" where
  "topological inc sub hs \<longleftrightarrow>
     (\<forall>i < length hs. \<forall>p \<in> set (parentsOf inc (hs ! i)). p \<in> set sub \<longrightarrow> p \<in> set (take i hs))"

lemma topological_snoc:
  "topological inc sub hs \<Longrightarrow> \<forall>p \<in> set (parentsOf inc h). p \<in> set sub \<longrightarrow> p \<in> set hs \<Longrightarrow>
   topological inc sub (hs @ [h])"
  by (auto simp: topological_def nth_append less_Suc_eq)

lemma linearizeLoop_ok:
  assumes "closed_dag inc" and "set sub \<subseteq> fst ` set inc"
    and "distinct (order @ pending)" and "set order \<union> set pending = set sub"
    and "topological inc sub order"
  shows "\<exists>hs. linearizeLoop inc sub pending order = Inr hs \<and> set hs = set sub \<and> distinct hs \<and>
    topological inc sub hs"
  using assms(3-5)
proof (induction "length pending" arbitrary: pending order)
  case 0
  then show ?case by (subst linearizeLoop.simps) simp
next
  case (Suc n)
  then have ne: "pending \<noteq> []" by auto
  then obtain h where h: "h \<in> set pending" and least: "\<And>p. (p, h) \<in> edges inc \<Longrightarrow> p \<notin> set pending"
    using wfE_min [OF acyclic_edges [OF assms(1)], of "hd pending" "set pending"] hd_in_set by metis
  have held: "x \<in> fst ` set inc" if "x \<in> set pending" for x using that Suc.prems(2) assms(2) by blast
  have "ready inc sub order h"
    using least Suc.prems(2) by (auto simp: ready_iff [OF held [OF h]] edges_iff)
  then have "filter (ready inc sub order) pending \<noteq> []" using h by (auto simp: filter_empty_conv)
  then obtain x where m: "minHash (filter (ready inc sub order) pending) = Some x"
    using minHash_Min by blast
  then have x: "x \<in> set pending" "ready inc sub order x" using minHash_mem by fastforce+
  have "topological inc sub (order @ [x])"
    using x(2) Suc.prems(3) ready_iff [OF held [OF x(1)]] by (intro topological_snoc) auto
  moreover have "distinct ((order @ [x]) @ remove1 x pending)"
    "set (order @ [x]) \<union> set (remove1 x pending) = set sub"
    using Suc.prems(1,2) x(1) by (auto simp: set_remove1_eq)
  moreover have "n = length (remove1 x pending)" using Suc.hyps(2) x(1) by (simp add: length_remove1)
  ultimately obtain hs where "linearizeLoop inc sub (remove1 x pending) (order @ [x]) = Inr hs"
    and "set hs = set sub" "distinct hs" "topological inc sub hs"
    using Suc.hyps(1) by blast
  then show ?case using ne m by (subst linearizeLoop.simps) simp
qed

text \<open>The loop always finds a ready entry, and what it returns is a topological order.\<close>

lemma linearize_ok:
  assumes "closed_dag inc" and "set sub \<subseteq> fst ` set inc" and "distinct sub"
  obtains hs where "linearize inc sub = Inr hs" "set hs = set sub" "distinct hs" "topological inc sub hs"
  using linearizeLoop_ok [OF assms(1,2), of "[]" sub] assms(3)
  by (auto simp: linearize_def topological_def)

lemma linearized:
  assumes "closed_dag inc" and "linearize inc (map fst inc) = Inr hs"
  shows "set hs = fst ` set inc \<and> distinct hs \<and> topological inc (map fst inc) hs"
proof -
  have "distinct (map fst inc)" using assms(1) by (simp add: closed_dag_def)
  then obtain hs' where "linearize inc (map fst inc) = Inr hs'" "set hs' = set (map fst inc)" "distinct hs'"
    "topological inc (map fst inc) hs'"
    using linearize_ok [OF assms(1), of "map fst inc"] by auto
  with assms(2) show ?thesis by simp
qed

lemma linearizeLoop_cong:
  assumes "map_of inc = map_of inc'" and "set sub = set sub'"
    and "distinct pending" and "distinct pending'" and "set pending = set pending'"
  shows "linearizeLoop inc sub pending order = linearizeLoop inc' sub' pending' order"
  using assms(3-5)
proof (induction "length pending" arbitrary: pending pending' order)
  case 0
  then show ?case by (simp add: linearizeLoop.simps)
next
  case (Suc n)
  have r: "ready inc sub order = ready inc' sub' order"
    by (intro ext) (simp add: ready_def entryAt_def assms(1,2))
  then have m: "minHash (filter (ready inc sub order) pending) = minHash (filter (ready inc' sub' order) pending')"
    using Suc.prems(3) by (intro minHash_set) simp
  show ?case
  proof (cases "minHash (filter (ready inc sub order) pending)")
    case None
    then show ?thesis using m Suc.prems(3)
      by (subst (1 2) linearizeLoop.simps) (metis (mono_tags, lifting) set_empty option.case(1))
  next
    case (Some x)
    then have x: "x \<in> set pending" using minHash_mem by fastforce
    then have "n = length (remove1 x pending)" "pending \<noteq> []" "pending' \<noteq> []"
      using Suc.hyps(2) Suc.prems(3) by (auto simp: length_remove1)
    moreover have "linearizeLoop inc sub (remove1 x pending) (order @ [x])
        = linearizeLoop inc' sub' (remove1 x pending') (order @ [x])"
      using calculation(1) Suc.prems by (intro Suc.hyps(1)) (auto simp: set_remove1_eq)
    ultimately show ?thesis using Some m by (subst (1 2) linearizeLoop.simps) simp
  qed
qed

lemma linearize_cong:
  "map_of inc = map_of inc' \<Longrightarrow> set sub = set sub' \<Longrightarrow> distinct sub \<Longrightarrow> distinct sub' \<Longrightarrow>
   linearize inc sub = linearize inc' sub'"
  unfolding linearize_def by (rule linearizeLoop_cong)

section \<open>What depends only on the set of entries\<close>

lemma edges_cong: "map_of inc = map_of inc' \<Longrightarrow> edges inc = edges inc'"
  by (simp add: edges_def)

lemma ancestors_cong: "map_of inc = map_of inc' \<Longrightarrow> ancestors inc = ancestors inc'"
  by (drule edges_cong) (simp add: ancestors_def fun_eq_iff)

lemma grounded_transfer: "grounded m h \<Longrightarrow> map_of m = map_of m' \<Longrightarrow> grounded m' h"
  by (induction rule: grounded.induct) (auto intro: grounded.grounded)

lemma grounded_cong: "map_of m = map_of m' \<Longrightarrow> grounded m h = grounded m' h"
  using grounded_transfer [of m h m'] grounded_transfer [of m' h m] by auto

lemma included_cong: "map_of m = map_of m' \<Longrightarrow> map_of (includedOf m) = map_of (includedOf m')"
  by (intro ext) (simp add: map_of_includedOf grounded_cong [of m m'])

lemma keys_cong: "map_of m = map_of m' \<Longrightarrow> fst ` set m = fst ` set m'"
  by (metis dom_map_of_conv_image_fst)

end
