(* ===== verification/Derive_Fold.thy ===== *)
theory Derive_Fold
  imports Derive_Graph
begin

text \<open>
  The fold of \<open>Document_Derive\<close> over the total order: it returns on canonical collections, its
  result depends on the set of entries and not on their order of arrival, more fuel changes
  nothing, and every step keeps the invariant of the membership state.
\<close>

section \<open>Returning\<close>

definition canonical_entries :: "dag \<Rightarrow> bool" where
  "canonical_entries inc \<longleftrightarrow>
     (\<forall>env \<in> snd ` set inc. returns (canonicalSigners (required_signers (collection env))))"

lemma entryAt_mem: "h \<in> fst ` set inc \<Longrightarrow> entryAt inc h \<in> snd ` set inc"
proof -
  assume "h \<in> fst ` set inc"
  then obtain env where e: "map_of inc h = Some env" unfolding keys_map_of by blast
  then have "(h, env) \<in> set inc" by (rule map_of_SomeD)
  with e show ?thesis by (force simp: entryAt_def)
qed

lemma effectVoid_returns:
  assumes "returns (canonicalSigners (required_signers (collection env)))"
  shows "returns (effectVoid X policy env st)"
proof -
  obtain status where "collectionStatus X (collection env) = Inr status"
    using assms collectionStatus_returns unfolding returns_def by blast
  then show ?thesis by (simp add: effectVoid_def Let_def split: option.splits)
qed

lemma effectVoid_Inr:
  "canonical_entries inc \<Longrightarrow> h \<in> fst ` set inc \<Longrightarrow> \<exists>r. effectVoid X policy (entryAt inc h) st = Inr r"
  unfolding returns_def [symmetric]
  by (rule effectVoid_returns) (use entryAt_mem in \<open>unfold canonical_entries_def, blast\<close>)

section \<open>Independence of the arrival order\<close>

lemma structuralVoid_cong:
  "map_of inc = map_of inc' \<Longrightarrow> structuralVoid X G inc env h = structuralVoid X G inc' env h"
proof -
  assume m: "map_of inc = map_of inc'"
  have *: "list_ex (ownPredecessor inc b) (closure inc h) = list_ex (ownPredecessor inc' b) (closure inc' h)" for b
    unfolding list_ex_iff set_closure ancestors_cong [OF m] by (simp add: ownPredecessor_def m)
  show ?thesis unfolding structuralVoid_def Let_def by (simp only: *)
qed

lemma entryAt_cong: "map_of inc = map_of inc' \<Longrightarrow> entryAt inc h = entryAt inc' h"
  by (simp add: entryAt_def)

text \<open>The removals that void an entry by concurrency.\<close>

definition dominates ::
  "externals \<Rightarrow> ArrangementGenesis \<Rightarrow> dag \<Rightarrow> verdicts \<Rightarrow> string \<Rightarrow> string \<Rightarrow> bool" where
  "dominates X G inc V other h \<longleftrightarrow>
     other \<noteq> h \<and> isRemoval (body_kind (body (entryAt inc other))) \<and>
     subject_agent_id (body (entryAt inc other)) = Some (author_agent_id (body (entryAt inc h))) \<and>
     structuralVoid X G inc (entryAt inc other) other = None \<and> V other = Inr None \<and>
     h \<notin> ancestors inc other \<and> other \<notin> ancestors inc h"

lemma concurrentRemovalOf_spec:
  assumes "\<forall>x \<in> set sub. returns (V x)"
  shows "\<exists>r. concurrentRemovalOf X G inc V sub h (author_agent_id (body (entryAt inc h))) = Inr r \<and>
    (r = None \<longleftrightarrow> \<not> (\<exists>x \<in> set sub. dominates X G inc V x h)) \<and>
    (\<forall>x. r = Some x \<longrightarrow> x \<in> set sub \<and> dominates X G inc V x h)"
  using assms
proof (induction sub)
  case (Cons x xs)
  then obtain r where r: "concurrentRemovalOf X G inc V xs h (author_agent_id (body (entryAt inc h))) = Inr r"
    "r = None \<longleftrightarrow> \<not> (\<exists>x \<in> set xs. dominates X G inc V x h)"
    "\<forall>x. r = Some x \<longrightarrow> x \<in> set xs \<and> dominates X G inc V x h" by auto
  obtain v where v: "V x = Inr v" using Cons.prems by (auto simp: returns_def)
  show ?case
  proof (cases "dominates X G inc V x h")
    case True
    then show ?thesis by (simp add: dominates_def Let_def)
  next
    case False
    then have "concurrentRemovalOf X G inc V (x # xs) h (author_agent_id (body (entryAt inc h))) = Inr r"
      using r(1) v by (auto simp: dominates_def Let_def)
    with r(2,3) False show ?thesis by auto
  qed
qed simp

lemma dominates_cong:
  "map_of inc = map_of inc' \<Longrightarrow> V x = V' x \<Longrightarrow> dominates X G inc V x h = dominates X G inc' V' x h"
  using structuralVoid_cong [of inc inc'] ancestors_cong [of inc inc']
  by (simp add: dominates_def entryAt_cong [of inc inc'])

text \<open>Results are compared up to which of several dominating removals a void entry names.\<close>

fun blur :: "Reason \<Rightarrow> Reason" where
  "blur (ConcurrentRemoval _) = ConcurrentRemoval ''''"
| "blur r = r"

definition blurred :: "(string \<times> Reason) list \<Rightarrow> (string \<times> Reason) list" where
  "blurred voids = map (\<lambda>(h, r). (h, blur r)) voids"

lemma blurred_snoc [simp]: "blurred (vs @ [(h, r)]) = blurred vs @ [(h, blur r)]"
  by (simp add: blurred_def)

definition same_acc :: "fold_acc \<Rightarrow> fold_acc \<Rightarrow> bool" where
  "same_acc a b \<longleftrightarrow> fst a = fst b \<and> blurred (snd a) = blurred (snd b)"

lemma foldEntry_agree:
  assumes m: "map_of inc = map_of inc'" and s: "set sub = set sub'" "set sub \<subseteq> fst ` set inc"
    and c: "canonical_entries inc"
    and V: "\<And>x. x \<in> set sub \<Longrightarrow> V x = V' x \<and> returns (V x)"
    and h: "h \<in> set sub" and a: "same_acc a a'"
  shows "\<exists>b b'. foldEntry X policy G inc V sub a h = Inr b \<and>
    foldEntry X policy G inc' V' sub' a' h = Inr b' \<and> same_acc b b'"
proof -
  obtain st vs st' vs' where p: "a = (st, vs)" "a' = (st', vs')" by (cases a; cases a')
  have e: "entryAt inc' h = entryAt inc h" by (rule entryAt_cong [OF m [symmetric]])
  have sv: "structuralVoid X G inc' (entryAt inc h) h = structuralVoid X G inc (entryAt inc h) h"
    by (rule structuralVoid_cong [OF m [symmetric]])
  have st: "st' = st" and vs: "blurred vs = blurred vs'" using a p by (auto simp: same_acc_def)
  obtain v where v: "V h = Inr v" "V' h = Inr v" using V [OF h] unfolding returns_def by metis
  have V': "\<forall>x \<in> set sub'. returns (V' x)" using V s(1) by metis
  have V1: "\<forall>x \<in> set sub. returns (V x)" using V by blast
  obtain r where r: "concurrentRemovalOf X G inc V sub h (author_agent_id (body (entryAt inc h))) = Inr r"
    "r = None \<longleftrightarrow> \<not> (\<exists>x \<in> set sub. dominates X G inc V x h)"
    using concurrentRemovalOf_spec [OF V1] by blast
  obtain r' where r': "concurrentRemovalOf X G inc' V' sub' h (author_agent_id (body (entryAt inc h))) = Inr r'"
    "r' = None \<longleftrightarrow> \<not> (\<exists>x \<in> set sub'. dominates X G inc' V' x h)"
    using concurrentRemovalOf_spec [OF V', of X G inc' h] unfolding e by blast
  have rr: "r = None \<longleftrightarrow> r' = None"
    using r(2) r'(2) dominates_cong [OF m] V unfolding s(1) by metis
  obtain w where w: "effectVoid X policy (entryAt inc h) st = Inr w"
    using effectVoid_Inr [OF c subsetD [OF s(2) h]] by blast
  show ?thesis
  proof (cases "structuralVoid X G inc (entryAt inc h) h")
    case (Some x)
    then show ?thesis using sv e st vs by (simp add: foldEntry_def p Let_def same_acc_def)
  next
    case None
    show ?thesis
    proof (cases "isRemoval (body_kind (body (entryAt inc h)))")
      case True
      then show ?thesis using None sv e st vs v
        by (cases v) (simp_all add: foldEntry_def p Let_def same_acc_def)
    next
      case False
      then show ?thesis using None sv e st vs r(1) r'(1) rr w
        by (cases r; cases r'; cases w) (simp_all add: foldEntry_def p Let_def same_acc_def)
    qed
  qed
qed

lemma rfold_agree:
  assumes "\<And>a a' h. h \<in> set hs \<Longrightarrow> R a a' \<Longrightarrow> \<exists>b b'. f a h = Inr b \<and> g a' h = Inr b' \<and> R b b'" and "R a a'"
  shows "\<exists>b b'. rfold f a hs = Inr b \<and> rfold g a' hs = Inr b' \<and> R b b'"
  using assms
proof (induction hs arbitrary: a a')
  case (Cons h hs)
  obtain b b' where "f a h = Inr b" "g a' h = Inr b'" "R b b'"
    using Cons.prems(1) [of h a a'] Cons.prems(2) by auto
  with Cons.IH [of b b'] Cons.prems(1) show ?case by simp
qed auto

lemma foldSubset_agree:
  assumes cl: "closed_dag inc" and m: "map_of inc = map_of inc'"
    and s: "set sub = set sub'" "set sub \<subseteq> fst ` set inc" "distinct sub" "distinct sub'"
    and c: "canonical_entries inc"
    and V: "\<And>x. x \<in> set sub \<Longrightarrow> V x = V' x \<and> returns (V x)"
  shows "\<exists>st order vs vs'. foldSubset X policy G inc V sub = Inr (st, order, vs) \<and>
    foldSubset X policy G inc' V' sub' = Inr (st, order, vs') \<and> blurred vs = blurred vs' \<and>
    linearize inc sub = Inr order"
proof -
  obtain order where o: "linearize inc sub = Inr order" "set order = set sub"
    using linearize_ok [OF cl s(2,3)] by metis
  have o': "linearize inc' sub' = Inr order" using linearize_cong [OF m s(1,3,4)] o(1) by simp
  have "\<exists>b b'. rfold (foldEntry X policy G inc V sub) (genesisState G, []) order = Inr b \<and>
      rfold (foldEntry X policy G inc' V' sub') (genesisState G, []) order = Inr b' \<and> same_acc b b'"
  proof (rule rfold_agree)
    fix a a' h assume "h \<in> set order" "same_acc a a'"
    then show "\<exists>b b'. foldEntry X policy G inc V sub a h = Inr b \<and>
        foldEntry X policy G inc' V' sub' a' h = Inr b' \<and> same_acc b b'"
      using o(2) by (intro foldEntry_agree [OF m s(1,2) c V]) auto
  qed (simp add: same_acc_def)
  then show ?thesis using o(1) o' by (auto simp: foldSubset_def same_acc_def)
qed

section \<open>Fuel of the removal verdicts\<close>

lemma distinct_closureFuel: "distinct (closureFuel n inc h)"
proof (cases n)
  case (Suc k)
  have "distinct (foldl (\<lambda>out p. add_all (add_last p out) (f p)) acc ps)" if "distinct acc" for f acc ps
    using that by (induction ps arbitrary: acc) simp_all
  from this [of "[]"] Suc show ?thesis by simp
qed simp

lemma distinct_closure [simp]: "distinct (closure inc h)"
  by (simp add: closure_def distinct_closureFuel)

lemma removalVerdict_agree:
  assumes "closed_dag inc" and "map_of inc = map_of inc'" and "canonical_entries inc"
  shows "h \<in> fst ` set inc \<Longrightarrow> card (ancestors inc h) < n \<Longrightarrow> card (ancestors inc h) < n' \<Longrightarrow>
    removalVerdict n X policy G inc h = removalVerdict n' X policy G inc' h \<and>
    returns (removalVerdict n X policy G inc h)"
proof (induction n arbitrary: n' h)
  case (Suc k)
  then obtain k' where n': "n' = Suc k'" by (cases n') auto
  have "removalVerdict k X policy G inc x = removalVerdict k' X policy G inc' x \<and>
      returns (removalVerdict k X policy G inc x)" if "x \<in> set (closure inc h)" for x
    using that ancestors_smaller [OF assms(1)] ancestors_held [OF assms(1)] Suc.prems n'
    by (intro Suc.IH) (force simp: less_Suc_eq_le)+
  moreover have "set (closure inc h) = set (closure inc' h)"
    using ancestors_cong [OF assms(2)] by simp
  moreover have "set (closure inc h) \<subseteq> fst ` set inc" using ancestors_held [OF assms(1)] by auto
  ultimately obtain st order vs vs' where
    f: "foldSubset X policy G inc (removalVerdict k X policy G inc) (closure inc h) = Inr (st, order, vs)"
    and f': "foldSubset X policy G inc' (removalVerdict k' X policy G inc') (closure inc' h) = Inr (st, order, vs')"
    using foldSubset_agree [OF assms(1,2) _ _ distinct_closure distinct_closure assms(3),
        where V = "removalVerdict k X policy G inc" and V' = "removalVerdict k' X policy G inc'"] by metis
  obtain w where "effectVoid X policy (entryAt inc h) st = Inr w"
    using effectVoid_Inr [OF assms(3) Suc.prems(1)] by blast
  then show ?case by (simp add: n' f f' entryAt_cong [OF assms(2) [symmetric]])
qed simp

lemma ancestors_lt_length:
  assumes "closed_dag inc" and "h \<in> fst ` set inc"
  shows "card (ancestors inc h) < length inc"
proof -
  have "ancestors inc h \<subseteq> fst ` set inc - {h}"
    using ancestors_held [OF assms(1)] ancestors_irrefl [OF assms(1)] by blast
  then have "card (ancestors inc h) \<le> card (fst ` set inc - {h})" by (intro card_mono) auto
  also have "\<dots> < card (fst ` set inc)" using assms(2) by (intro card_Diff1_less) auto
  also have "\<dots> \<le> length inc" by (metis card_image_le card_length finite_set le_trans)
  finally show ?thesis .
qed

section \<open>The whole derivation\<close>

definition genesis_ok :: "ArrangementGenesis \<Rightarrow> bool" where
  "genesis_ok G \<longleftrightarrow> adminSet G \<noteq> [] \<and>
     (\<forall>a \<in> set (adminSet G). a = proposerAgentId G \<or> a = peerAgentId G)"

definition canonical_envs :: "DocumentAmendmentEnvelope list \<Rightarrow> bool" where
  "canonical_envs entries \<longleftrightarrow>
     (\<forall>env \<in> set entries. returns (canonicalSigners (required_signers (collection env))))"

lemma canonical_included: "canonical_envs es \<Longrightarrow> canonical_entries (includedOf (byHashOf X es))"
proof -
  assume c: "canonical_envs es"
  have "env \<in> set es" if "env \<in> snd ` set (includedOf (byHashOf X es))" for env
  proof -
    from that obtain h where "(h, env) \<in> set (includedOf (byHashOf X es))" by auto
    then have "(h, env) \<in> set (byHashOf X es)" by (auto simp: includedOf_def)
    then have "map_of (byHashOf X es) h = Some env" by (simp add: distinct_byHashOf)
    then show ?thesis using byHashOf_hash by blast
  qed
  with c show ?thesis by (auto simp: canonical_entries_def canonical_envs_def)
qed

abbreviation included :: "externals \<Rightarrow> DocumentAmendmentEnvelope list \<Rightarrow> dag" where
  "included X es \<equiv> includedOf (byHashOf X es)"

abbreviation topVerdict ::
  "externals \<Rightarrow> SignerPolicy \<Rightarrow> ArrangementGenesis \<Rightarrow> DocumentAmendmentEnvelope list \<Rightarrow> verdicts" where
  "topVerdict X policy G es \<equiv> removalVerdict (length (included X es)) X policy G (included X es)"

lemma closed_included [simp]: "closed_dag (included X es)"
  by (rule closed_includedOf) simp

lemma distinct_included [simp]: "distinct (map fst (included X es))"
  by simp

text \<open>Two histories with the same map from hash to entry derive the same state.\<close>

lemma derive_agree:
  assumes m: "map_of (byHashOf X es) = map_of (byHashOf X es')" and c: "canonical_envs es" and g: "genesis_ok G"
  shows "\<exists>st order vs vs'.
    deriveDocumentState X policy G es =
      Inr (Derived (viewOf (included X es) st order vs (excludedOf (byHashOf X es)))) \<and>
    deriveDocumentState X policy G es' =
      Inr (Derived (viewOf (included X es') st order vs' (excludedOf (byHashOf X es')))) \<and>
    blurred vs = blurred vs' \<and> linearize (included X es) (map fst (included X es)) = Inr order \<and>
    foldSubset X policy G (included X es) (topVerdict X policy G es) (map fst (included X es)) = Inr (st, order, vs)"
proof -
  have mi: "map_of (included X es) = map_of (included X es')" by (rule included_cong [OF m])
  have ks: "fst ` set (included X es) = fst ` set (included X es')" by (rule keys_cong [OF mi])
  have ce: "canonical_entries (included X es)" by (rule canonical_included [OF c])
  have V: "topVerdict X policy G es x = topVerdict X policy G es' x \<and> returns (topVerdict X policy G es x)"
    if "x \<in> fst ` set (included X es)" for x
  proof (rule removalVerdict_agree [OF closed_included mi ce that])
    show "card (ancestors (included X es) x) < length (included X es)"
      by (rule ancestors_lt_length [OF closed_included that])
    show "card (ancestors (included X es) x) < length (included X es')"
      using ancestors_lt_length [OF closed_included that [unfolded ks]]
      unfolding ancestors_cong [OF mi] .
  qed
  have "\<exists>st order vs vs'.
      foldSubset X policy G (included X es) (topVerdict X policy G es) (map fst (included X es)) = Inr (st, order, vs) \<and>
      foldSubset X policy G (included X es') (topVerdict X policy G es') (map fst (included X es')) = Inr (st, order, vs') \<and>
      blurred vs = blurred vs' \<and> linearize (included X es) (map fst (included X es)) = Inr order"
  proof (rule foldSubset_agree [OF closed_included mi _ _ _ _ ce])
    fix x assume "x \<in> set (map fst (included X es))"
    then show "topVerdict X policy G es x = topVerdict X policy G es' x \<and> returns (topVerdict X policy G es x)"
      by (intro V) simp
  qed (use ks in simp_all)
  then obtain st order vs vs' where f:
      "foldSubset X policy G (included X es) (topVerdict X policy G es) (map fst (included X es)) = Inr (st, order, vs)"
      "foldSubset X policy G (included X es') (topVerdict X policy G es') (map fst (included X es')) = Inr (st, order, vs')"
      "blurred vs = blurred vs'" "linearize (included X es) (map fst (included X es)) = Inr order"
    by blast
  moreover have "\<not> list_ex (\<lambda>a. a \<noteq> proposerAgentId G \<and> a \<noteq> peerAgentId G) (adminSet G)"
    using g by (auto simp: genesis_ok_def list_ex_iff)
  ultimately show ?thesis
    using g by (intro exI [of _ st] exI [of _ order] exI [of _ vs] exI [of _ vs'])
      (simp add: deriveDocumentState_def genesis_ok_def Let_def)
qed

text \<open>What a derived view comes from.\<close>

lemma derived_fold:
  assumes "deriveDocumentState X policy G es = Inr (Derived v)"
  obtains st order vs where
    "foldSubset X policy G (included X es) (topVerdict X policy G es) (map fst (included X es)) = Inr (st, order, vs)"
    "linearize (included X es) (map fst (included X es)) = Inr order"
    "rfold (foldEntry X policy G (included X es) (topVerdict X policy G es) (map fst (included X es)))
       (genesisState G, []) order = Inr (st, vs)"
    "v = viewOf (included X es) st order vs (excludedOf (byHashOf X es))" "genesis_ok G"
proof -
  from assms have g: "genesis_ok G"
    by (auto simp: deriveDocumentState_def genesis_ok_def list_ex_iff split: if_splits)
  from assms obtain r where f: "foldSubset X policy G (included X es) (topVerdict X policy G es)
      (map fst (included X es)) = Inr r"
    and v: "v = (case r of (st, order, vs) \<Rightarrow> viewOf (included X es) st order vs (excludedOf (byHashOf X es)))"
    by (auto simp: deriveDocumentState_def Let_def rbind_Inr_conv split: if_splits)
  obtain st order vs where r: "r = (st, order, vs)" by (cases r)
  from f r have "linearize (included X es) (map fst (included X es)) = Inr order"
    "rfold (foldEntry X policy G (included X es) (topVerdict X policy G es) (map fst (included X es)))
       (genesisState G, []) order = Inr (st, vs)"
    by (auto simp: foldSubset_def rbind_Inr_conv)
  with that f v r g show thesis by simp
qed

end
