(* ===== verification/Derive_Properties.thy ===== *)
theory Derive_Properties
  imports Derive_Fold
begin

text \<open>
  The properties of the governance derivation: it never throws on decoded entries, it is a
  function of the set of entries, the membership state is well formed, power is rooted in the
  genesis, and a removed party's concurrent acts do not stand.
\<close>

section \<open>The invariant of the membership state\<close>

definition state_inv :: "FoldState \<Rightarrow> bool" where
  "state_inv st \<longleftrightarrow>
     finite (participants st) \<and> finite (invited st) \<and> admins st \<subseteq> participants st \<and>
     closes st \<subseteq> participants st \<and> participants st \<inter> invited st = {} \<and>
     card (participants st) + card (invited st) \<le> MAX_DOCUMENT_HOLDERS"

lemma genesis_inv: "state_inv (genesisState G)"
  by (auto simp: state_inv_def genesisState_def MAX_DOCUMENT_HOLDERS_def)

text \<open>A removal keeps the invariant in any state, whatever its subject.\<close>

lemma removal_inv:
  assumes "state_inv st" and "isRemoval (body_kind (body env))"
  shows "state_inv (applyEntry G env st)"
proof -
  let ?s = "the (subject_agent_id (body env))"
  have "card (participants st - {?s}) \<le> card (participants st)" "card (invited st - {?s}) \<le> card (invited st)"
    using assms(1) by (auto simp: state_inv_def intro: card_mono)
  with assms show ?thesis
    by (auto simp: state_inv_def applyEntry_def isRemoval_def Let_def)
qed

text \<open>Any other entry keeps it in a state in which its kind's conditions hold.\<close>

lemma consent_card:
  "finite P \<Longrightarrow> finite I \<Longrightarrow> s \<in> I \<Longrightarrow> P \<inter> I = {} \<Longrightarrow> card (insert s P) + (card I - Suc 0) = card P + card I"
  by (metis Suc_pred add_Suc add_Suc_right card_gt_0_iff card_insert_disjoint disjoint_iff empty_iff)

lemma apply_inv:
  assumes inv: "state_inv st" and ok: "kindVoid (body env) st = None"
  shows "state_inv (applyEntry G env st)"
proof (cases "isRemoval (body_kind (body env))")
  case False
  show ?thesis
  proof (cases "subject_agent_id (body env)")
    case None
    with ok have "body_kind (body env) = change_property" by (cases "body_kind (body env)") (auto simp: kindVoid_def)
    with inv show ?thesis by (simp add: applyEntry_def state_inv_def split: prod.split)
  next
    case (Some s)
    with ok False inv show ?thesis
      by (cases "body_kind (body env)")
        (auto simp: kindVoid_def applyEntry_def state_inv_def isRemoval_def consent_card Let_def
          split: if_splits)
  qed
qed (rule removal_inv [OF inv])

lemma effectVoid_None:
  assumes "effectVoid X policy env st = Inr None"
  shows "kindVoid (body env) st = None"
    and "policy (body_kind (body env)) (subject_agent_id (body env)) (participants st, admins st)
           (required_signers (collection env)) = None"
    and "\<exists>tbs. buildDocumentMultisigTbs X (collection env) = Inr tbs \<and> signedExactly X (collection env) tbs"
proof -
  obtain status where "collectionStatus X (collection env) = Inr status" "complete status"
    and "kindVoid (body env) st = None" "policy (body_kind (body env)) (subject_agent_id (body env))
      (participants st, admins st) (required_signers (collection env)) = None"
    using assms by (auto simp: effectVoid_def Let_def rbind_Inr_conv split: if_splits option.splits)
  then show "kindVoid (body env) st = None"
    and "policy (body_kind (body env)) (subject_agent_id (body env)) (participants st, admins st)
           (required_signers (collection env)) = None"
    and "\<exists>tbs. buildDocumentMultisigTbs X (collection env) = Inr tbs \<and> signedExactly X (collection env) tbs"
    using collectionStatus_complete by blast+
qed

text \<open>The three ways a step of the fold can end.\<close>

lemma foldEntry_cases:
  assumes "foldEntry X policy G inc V sub (st, vs) h = Inr (st', vs')"
  obtains (void) r where "st' = st" "vs' = vs @ [(h, r)]"
  | (removal) "structuralVoid X G inc (entryAt inc h) h = None" "isRemoval (body_kind (body (entryAt inc h)))"
      "V h = Inr None" "\<not> wouldEmptyAdmins (the (subject_agent_id (body (entryAt inc h)))) st"
      "st' = applyEntry G (entryAt inc h) st" "vs' = vs"
  | (effect) "structuralVoid X G inc (entryAt inc h) h = None" "\<not> isRemoval (body_kind (body (entryAt inc h)))"
      "effectVoid X policy (entryAt inc h) st = Inr None"
      "st' = applyEntry G (entryAt inc h) st" "vs' = vs"
proof (cases "structuralVoid X G inc (entryAt inc h) h")
  case (Some r)
  with assms have "st' = st" "vs' = vs @ [(h, r)]" by (simp_all add: foldEntry_def Let_def)
  then show thesis by (rule void)
next
  case None
  show thesis
  proof (cases "isRemoval (body_kind (body (entryAt inc h)))")
    case True
    with assms None obtain v where v: "V h = Inr v" by (auto simp: foldEntry_def Let_def rbind_Inr_conv)
    show thesis
    proof (cases "v = None \<and> \<not> wouldEmptyAdmins (the (subject_agent_id (body (entryAt inc h)))) st")
      case ok: True
      with assms None True v have "st' = applyEntry G (entryAt inc h) st" "vs' = vs"
        by (simp_all add: foldEntry_def Let_def)
      with None True v ok show thesis by (intro removal) simp_all
    next
      case False
      with assms None True v obtain r where "st' = st" "vs' = vs @ [(h, r)]"
        by (cases v) (auto simp: foldEntry_def Let_def)
      then show thesis by (rule void)
    qed
  next
    case False
    with assms None obtain r where r: "concurrentRemovalOf X G inc V sub h
        (author_agent_id (body (entryAt inc h))) = Inr r"
      by (auto simp: foldEntry_def Let_def rbind_Inr_conv)
    show thesis
    proof (cases r)
      case (Some other)
      with assms None False r have "st' = st" "vs' = vs @ [(h, ConcurrentRemoval other)]"
        by (simp_all add: foldEntry_def Let_def)
      then show thesis by (rule void)
    next
      case rn: None
      with assms None False r obtain w where w: "effectVoid X policy (entryAt inc h) st = Inr w"
        by (auto simp: foldEntry_def Let_def rbind_Inr_conv)
      show thesis
      proof (cases w)
        case (Some x)
        with assms None False r rn w have "st' = st" "vs' = vs @ [(h, x)]"
          by (simp_all add: foldEntry_def Let_def)
        then show thesis by (rule void)
      next
        case wn: None
        with assms None False r rn w have "st' = applyEntry G (entryAt inc h) st" "vs' = vs"
          by (simp_all add: foldEntry_def Let_def)
        with None False w wn show thesis by (intro effect) simp_all
      qed
    qed
  qed
qed

lemma foldEntry_inv:
  "foldEntry X policy G inc V sub (st, vs) h = Inr (st', vs') \<Longrightarrow> state_inv st \<Longrightarrow> state_inv st'"
  by (erule foldEntry_cases) (auto intro: removal_inv apply_inv dest: effectVoid_None(1))

lemma admins_floor:
  assumes "foldEntry X policy G inc V sub (st, vs) h = Inr (st', vs')" and "finite (admins st)"
    and "admins st \<noteq> {}"
  shows "admins st' \<noteq> {}"
  using assms(1)
proof (cases rule: foldEntry_cases)
  case removal
  let ?s = "the (subject_agent_id (body (entryAt inc h)))"
  have "admins st - {?s} \<noteq> {}"
  proof
    assume "admins st - {?s} = {}"
    with assms(3) have "admins st = {?s}" by blast
    with removal(4) show False by (simp add: wouldEmptyAdmins_def)
  qed
  with removal(2,5) show ?thesis by (auto simp: applyEntry_def isRemoval_def Let_def)
next
  case effect
  with assms(3) show ?thesis
    by (cases "body_kind (body (entryAt inc h))")
      (auto simp: applyEntry_def isRemoval_def Let_def split: prod.splits)
qed (use assms(3) in simp)

lemma fold_inv:
  assumes "rfold (foldEntry X policy G inc V sub) (genesisState G, []) order = Inr (st, vs)"
    and "I (genesisState G)"
    and "\<And>h st vs st' vs'. h \<in> set order \<Longrightarrow> I st \<Longrightarrow>
      foldEntry X policy G inc V sub (st, vs) h = Inr (st', vs') \<Longrightarrow> I st'"
  shows "I st"
  using rfold_inv [OF assms(1), of "\<lambda>a. I (fst a)"] assms(2,3) by auto

section \<open>Authority\<close>

text \<open>Who can hold admin power: the declared admins, and whoever one of these promoted by signature.\<close>

inductive empowered ::
  "externals \<Rightarrow> ArrangementGenesis \<Rightarrow> DocumentAmendmentEnvelope list \<Rightarrow> string \<Rightarrow> bool" for X G es where
  declared: "p \<in> set (adminSet G) \<Longrightarrow> empowered X G es p"
| promoted: "empowered X G es a \<Longrightarrow> env \<in> set es \<Longrightarrow> body_kind (body env) = promote_admin \<Longrightarrow>
    subject_agent_id (body env) = Some p \<Longrightarrow> document_id (body env) = documentId G \<Longrightarrow>
    subject_hash (collection env) = documentAmendmentHash X (body env) \<Longrightarrow>
    buildDocumentMultisigTbs X (collection env) = Inr tbs \<Longrightarrow> x_verify X a tbs sig \<Longrightarrow>
    empowered X G es p"

text \<open>A party's own signed consent to this document.\<close>

definition consented ::
  "externals \<Rightarrow> ArrangementGenesis \<Rightarrow> DocumentAmendmentEnvelope list \<Rightarrow> string \<Rightarrow> bool" where
  "consented X G es p \<longleftrightarrow>
     (\<exists>env \<in> set es. \<exists>tbs sig. body_kind (body env) = consent \<and> subject_agent_id (body env) = Some p \<and>
        document_id (body env) = documentId G \<and> subject_hash (collection env) = documentAmendmentHash X (body env) \<and>
        buildDocumentMultisigTbs X (collection env) = Inr tbs \<and> x_verify X p tbs sig)"

lemma structural_facts:
  "structuralVoid X G inc env h = None \<Longrightarrow>
     document_id (body env) = documentId G \<and> subject_hash (collection env) = documentAmendmentHash X (body env) \<and>
     author_agent_id (body env) \<in> set (required_signers (collection env))"
  by (auto simp: structuralVoid_def Let_def split: if_splits)

lemma signed_by:
  "signedExactly X c tbs \<Longrightarrow> a \<in> set (required_signers c) \<Longrightarrow> \<exists>sig. x_verify X a tbs sig"
  unfolding signedExactly_def by (metis image_iff)

definition rooted ::
  "externals \<Rightarrow> ArrangementGenesis \<Rightarrow> DocumentAmendmentEnvelope list \<Rightarrow> FoldState \<Rightarrow> bool" where
  "rooted X G es st \<longleftrightarrow>
     state_inv st \<and> (\<forall>p \<in> admins st. empowered X G es p) \<and>
     (\<forall>p \<in> participants st. p = proposerAgentId G \<or> consented X G es p)"

lemma apply_rooted:
  assumes inv: "rooted X G es st" and e: "env \<in> set es"
    and sv: "structuralVoid X G inc env h = None" and nr: "\<not> isRemoval (body_kind (body env))"
    and ok: "effectVoid X documentGovernancePolicy env st = Inr None"
  shows "rooted X G es (applyEntry G env st)"
proof -
  from effectVoid_None(3) [OF ok] obtain tbs where
    tbs: "buildDocumentMultisigTbs X (collection env) = Inr tbs" and sg: "signedExactly X (collection env) tbs" by blast
  have si: "state_inv st" using inv by (simp add: rooted_def)
  then have fin: "finite (admins st)" by (auto simp: state_inv_def intro: finite_subset)
  have auth: "authorized (body_kind (body env)) (subject_agent_id (body env)) (admins st)
      (set (required_signers (collection env)))"
    using effectVoid_None(2) [OF ok] governance_rule_table [OF fin] by blast
  note facts = structural_facts [OF sv]
  have si': "state_inv (applyEntry G env st)" by (rule apply_inv [OF si effectVoid_None(1) [OF ok]])
  show ?thesis
  proof (cases "body_kind (body env)")
    case consent
    with auth obtain s where s: "subject_agent_id (body env) = Some s"
      "set (required_signers (collection env)) = {s}" by (auto simp: authorized_def)
    then have "s \<in> set (required_signers (collection env))" by simp
    from signed_by [OF sg this] obtain sig where "x_verify X s tbs sig" ..
    with consent s facts tbs e have "consented X G es s" by (auto simp: consented_def)
    with inv si' consent s show ?thesis
      by (auto simp: rooted_def applyEntry_def Let_def intro: declared)
  next
    case promote_admin
    with auth obtain a where a: "a \<in> admins st" "set (required_signers (collection env)) = {a}"
      by (auto simp: authorized_def)
    then have "a \<in> set (required_signers (collection env))" by simp
    from signed_by [OF sg this] obtain sig where sig: "x_verify X a tbs sig" ..
    obtain s where s: "subject_agent_id (body env) = Some s"
      using effectVoid_None(1) [OF ok] promote_admin
      by (cases "subject_agent_id (body env)") (auto simp: kindVoid_def)
    have "empowered X G es a" using inv a by (simp add: rooted_def)
    then have "empowered X G es s" using e promote_admin s facts tbs sig by (auto intro: promoted)
    with inv si' promote_admin s show ?thesis by (auto simp: rooted_def applyEntry_def Let_def)
  qed (use inv si' nr in \<open>auto simp: rooted_def applyEntry_def isRemoval_def Let_def split: prod.splits\<close>)
qed

lemma foldEntry_rooted:
  assumes "foldEntry X documentGovernancePolicy G inc V sub (st, vs) h = Inr (st', vs')"
    and "rooted X G es st" and "entryAt inc h \<in> set es"
  shows "rooted X G es st'"
  using assms(1)
proof (cases rule: foldEntry_cases)
  case removal
  with assms(2) removal_inv [of st "entryAt inc h" G] show ?thesis
    by (auto simp: rooted_def applyEntry_def isRemoval_def Let_def)
next
  case effect
  with apply_rooted [OF assms(2,3)] show ?thesis by blast
qed (use assms(2) in simp)

lemma genesis_rooted: "rooted X G es (genesisState G)"
proof -
  have "p \<in> admins (genesisState G) \<Longrightarrow> p \<in> set (adminSet G)" for p by (auto simp: genesisState_def)
  then show ?thesis
    using genesis_inv [of G] by (auto simp: rooted_def intro: declared) (simp add: genesisState_def)
qed

end
