(* ===== verification/Derive_Claims.thy ===== *)
theory Derive_Claims
  imports Derive_Properties
begin

text \<open>
  The properties of \<open>deriveDocumentState\<close>, each with a concrete instance, and two places where the
  derivation does not do what its comments promise.
\<close>

section \<open>Sample histories\<close>

definition alice :: string where "alice = bytesToHex (replicate 32 0xaa)"
definition bob :: string where "bob = bytesToHex (replicate 32 0xbb)"

definition sample_genesis :: "string list \<Rightarrow> ArrangementGenesis" where
  "sample_genesis as =
     \<lparr>documentId = ''d'', proposerAgentId = alice, peerAgentId = bob, adminSet = as, g_properties = []\<rparr>"

text \<open>A digest that tells entries apart by the length of their kind's name.\<close>

fun sample_cbor :: "jsval \<Rightarrow> bytes" where
  "sample_cbor (JArray (d # i # JText k # vs)) = [of_nat (length k)]"
| "sample_cbor _ = []"

definition sample_X :: "jsval \<Rightarrow> externals" where
  "sample_X v = \<lparr>x_sha = (\<lambda>d. d), x_cbor = sample_cbor, x_uncbor = (\<lambda>_. Inr v), x_verify = (\<lambda>_ _ _. True)\<rparr>"

definition sample_entry :: "AmendmentKind \<Rightarrow> string \<Rightarrow> string option \<Rightarrow> (string \<times> jsval) option \<Rightarrow> DocumentAmendmentEnvelope" where
  "sample_entry k author subject change = \<lparr>
     body = \<lparr>document_id = ''d'', body_kind = k, subject_agent_id = subject, property_change = change,
       state_hash = None, authored_at_ms = 0, author_agent_id = author, author_seq = 1, parents = []\<rparr>,
     collection = \<lparr>mc_document_id = ''d'', subject_kind = AMENDMENT_SUBJECT_KIND,
       subject_hash = [of_nat (length (kindText k))], required_signers = [author],
       signatures = [\<lparr>signer_agent_id = author, signature = []\<rparr>]\<rparr>\<rparr>"

lemma parties [simp]: "HEX32 alice" "HEX32 bob" "alice \<noteq> bob" "bob \<noteq> alice" "alice \<noteq> ''''" "bob \<noteq> ''''"
  "'''' \<noteq> alice" "'''' \<noteq> bob"
proof -
  show "HEX32 alice" "HEX32 bob" by (simp_all add: alice_def bob_def)
  then show "alice \<noteq> ''''" "bob \<noteq> ''''" by (auto simp: HEX32_def)
  then show "'''' \<noteq> alice" "'''' \<noteq> bob" by metis+
  have "(0xaa :: 8 word) \<noteq> 0xbb" by simp
  then have "replicate 32 (0xaa :: 8 word) \<noteq> replicate 32 0xbb" by (simp only: replicate_eq_replicate) simp
  then show "alice \<noteq> bob" by (simp add: alice_def bob_def bytesToHex_inj)
  then show "bob \<noteq> alice" by simp
qed

lemma sample_hash [simp]:
  "documentAmendmentHash (sample_X v) (body (sample_entry k a s c)) = [of_nat (length (kindText k))]"
  by (simp add: documentAmendmentHash_def buildDocumentAmendmentTbs_def sample_X_def amendmentPreimage_def sample_entry_def)

lemma sample_entryHash [simp]:
  "entryHash (sample_X v) (sample_entry k a s c) = bytesToHex [of_nat (length (kindText k))]"
  by (simp add: entryHash_def)

lemma sample_fields [simp]:
  "body_kind (body (sample_entry k a s c)) = k"
  "subject_agent_id (body (sample_entry k a s c)) = s"
  "author_agent_id (body (sample_entry k a s c)) = a"
  "parents (body (sample_entry k a s c)) = []"
  "property_change (body (sample_entry k a s c)) = c"
  "state_hash (body (sample_entry k a s c)) = None"
  "required_signers (collection (sample_entry k a s c)) = [a]"
  by (simp_all add: sample_entry_def)

lemma sample_signers [simp]: "a \<noteq> '''' \<Longrightarrow> canonicalSigners [a] = Inr [a]"
  by (simp add: canonicalSigners_Inr)

lemma sample_signed [simp]:
  "a \<noteq> '''' \<Longrightarrow> collectionStatus (sample_X v) (collection (sample_entry k a s c)) =
     Inr \<lparr>complete = True, missing = [], invalidSigners = [], unknown = [], duplicates = []\<rparr>"
  by (simp add: collectionStatus_def buildDocumentMultisigTbs_def multisigPreimage_def sample_entry_def
      sample_X_def)

lemma sample_structural [simp]:
  "structuralVoid (sample_X v) (sample_genesis as) inc (sample_entry k a s c) h = None"
proof -
  have "documentAmendmentHash (sample_X v) (body (sample_entry k a s c)) = subject_hash (collection (sample_entry k a s c))"
    by (simp) (simp add: sample_entry_def)
  then show ?thesis
    unfolding structuralVoid_def Let_def by (simp add: sample_entry_def sample_genesis_def)
qed

lemma sample_decoded:
  assumes "a = alice \<or> a = bob" and "s = None \<or> s = Some alice \<or> s = Some bob" and "c = None"
  shows "\<exists>v w. decodeDocumentAmendment (sample_X v) w = Inr (sample_entry k a s c)"
proof -
  let ?e = "sample_entry k a s c"
  have m: "multisig_wf (collection ?e)"
    using assms(1) parties(7,8) by (elim disjE) (simp_all add: multisig_wf_def sample_entry_def canonical_signers_def AMENDMENT_SUBJECT_KIND_def)
  then obtain v where v: "encodeMultisigCollection (collection ?e) = Inr v" using multisig.encode_returns by blast
  have "body_wf (body ?e)"
    using assms by (elim disjE) (simp_all add: body_wf_def sample_entry_def)
  with m v have "amendment_wf (sample_X v) ?e" by (auto simp: amendment_wf_def sample_X_def)
  from amendment.encode_returns [OF this] show ?thesis by blast
qed

lemma sample_canonical: "a \<noteq> '''' \<Longrightarrow> canonical_envs [sample_entry k a s c]"
  by (simp add: canonical_envs_def)

lemma sample_genesis_ok [simp]: "genesis_ok (sample_genesis as) \<longleftrightarrow> as \<noteq> [] \<and> set as \<subseteq> {alice, bob}"
  by (auto simp: genesis_ok_def sample_genesis_def)

lemma derive_returns:
  "canonical_envs es \<Longrightarrow> genesis_ok G \<Longrightarrow> \<exists>v. deriveDocumentState X policy G es = Inr (Derived v)"
  using derive_agree [of X es es] by blast

section \<open>Totality\<close>

text \<open>C6: Deriving never throws on entries that came off the wire, for any policy and signature
  check: the linearization is never stuck, no collection status throws, and the removal verdicts
  terminate. The result is a state exactly when the genesis names at least one admin and only
  genesis parties as admins.\<close>

theorem derive_never_throws:
  assumes "\<forall>env \<in> set es. \<exists>w. decodeDocumentAmendment X w = Inr env"
  shows "\<exists>r. deriveDocumentState X policy G es = Inr r \<and> ((\<exists>v. r = Derived v) \<longleftrightarrow> genesis_ok G)"
proof (cases "genesis_ok G")
  case True
  have "canonical_envs es"
    using assms decoded_wf canonicalSigners_id unfolding canonical_envs_def multisig_wf_def
    by (metis returns_simps(1))
  from derive_returns [OF this True] True show ?thesis by blast
next
  case False
  then show ?thesis by (auto simp: deriveDocumentState_def genesis_ok_def list_ex_iff)
qed

theorem derive_never_throws_witness:
  "\<exists>v r. deriveDocumentState (sample_X v) documentGovernancePolicy (sample_genesis [alice])
     [sample_entry add_holder alice (Some bob) None] = Inr r \<and>
   ((\<exists>v. r = Derived v) \<longleftrightarrow> genesis_ok (sample_genesis [alice]))"
proof -
  obtain v w where "decodeDocumentAmendment (sample_X v) w = Inr (sample_entry add_holder alice (Some bob) None)"
    using sample_decoded [of alice "Some bob" None add_holder] by blast
  then have "\<forall>env \<in> set [sample_entry add_holder alice (Some bob) None].
      \<exists>w. decodeDocumentAmendment (sample_X v) w = Inr env" by auto
  from derive_never_throws [OF this, of documentGovernancePolicy "sample_genesis [alice]"] show ?thesis by blast
qed

section \<open>One set of entries, one state\<close>

lemma byHashOf_inj:
  "inj_on (entryHash X) (set es) \<Longrightarrow> map_of (byHashOf X es) h = Some e \<longleftrightarrow> e \<in> set es \<and> entryHash X e = h"
proof (induction es rule: rev_induct)
  case (snoc x es)
  then have "inj_on (entryHash X) (set es)" by (auto intro: inj_on_subset)
  with snoc show ?case by (auto simp: byHashOf_snoc update_conv inj_on_def)
qed (simp add: byHashOf_def)

lemma byHashOf_set:
  assumes "set es = set es'" and "inj_on (entryHash X) (set es)"
  shows "map_of (byHashOf X es) = map_of (byHashOf X es')"
proof
  fix h
  have "map_of (byHashOf X es) h = Some e \<longleftrightarrow> map_of (byHashOf X es') h = Some e" for e
    unfolding byHashOf_inj [OF assms(2)] byHashOf_inj [OF assms(2) [unfolded assms(1)]] assms(1) ..
  then show "map_of (byHashOf X es) h = map_of (byHashOf X es') h" by (metis option.exhaust)
qed

lemma sort_set: "distinct xs \<Longrightarrow> distinct ys \<Longrightarrow> set xs = set ys \<Longrightarrow> sort xs = sort ys"
  by (metis distinct_remdups_id sorted_list_of_set_sort_remdups)

lemma map_of_set:
  "map_of m = map_of m' \<Longrightarrow> distinct (map fst m) \<Longrightarrow> distinct (map fst m') \<Longrightarrow> set m = set m'"
  by (simp add: map_of_inject_set)

lemma frontier_cong:
  assumes "map_of inc = map_of inc'" and "distinct (map fst inc)" and "distinct (map fst inc')"
  shows "frontierOf inc = frontierOf inc'"
proof -
  have "set inc = set inc'" by (rule map_of_set [OF assms])
  then show ?thesis unfolding frontierOf_def Let_def by (intro sort_set) (use assms in \<open>auto\<close>)
qed

text \<open>The high-water marks: the largest positive sequence number of each author.\<close>

definition seqsOf :: "dag \<Rightarrow> string \<Rightarrow> int set" where
  "seqsOf inc a = {n. 0 < n \<and> (\<exists>env \<in> snd ` set inc. author_agent_id (body env) = a \<and> author_seq (body env) = n)}"

lemma authorSeqs_spec:
  "map_of (authorSeqsOf inc) a = (if seqsOf inc a = {} then None else Some (Max (seqsOf inc a)))"
proof (induction inc rule: rev_induct)
  case (snoc x inc)
  obtain h env where x: "x = (h, env)" by (cases x)
  let ?b = "author_agent_id (body env)" and ?n = "author_seq (body env)"
  have fin: "finite (seqsOf inc c)" for c
    by (rule finite_subset [of _ "(author_seq \<circ> body) ` snd ` set inc"]) (auto simp: seqsOf_def)
  have s: "seqsOf (inc @ [x]) c = (if c = ?b \<and> 0 < ?n then insert ?n (seqsOf inc c) else seqsOf inc c)" for c
    by (auto simp: seqsOf_def x)
  have step: "authorSeqsOf (inc @ [x]) =
      (if (case map_of (authorSeqsOf inc) ?b of None \<Rightarrow> 0 | Some n \<Rightarrow> n) < ?n
       then AList.update ?b ?n (authorSeqsOf inc) else authorSeqsOf inc)"
    by (simp add: authorSeqsOf_def x Let_def)
  have pos: "m \<in> seqsOf inc c \<Longrightarrow> 0 < m" for m c by (simp add: seqsOf_def)
  show ?case
  proof (cases "a = ?b")
    case False
    then show ?thesis using snoc.IH by (auto simp: step s update_conv)
  next
    case True
    show ?thesis
    proof (cases "seqsOf inc a = {}")
      case empty: True
      with snoc.IH True show ?thesis by (auto simp: step s update_conv)
    next
      case False
      then have p: "0 < Max (seqsOf inc a)" using Max_in [OF fin] pos by blast
      have mx: "Max (insert ?n (seqsOf inc a)) = max ?n (Max (seqsOf inc a))"
        by (rule Max_insert [OF fin False])
      have mem: "?n \<le> Max (seqsOf inc a)" if "?n \<in> seqsOf inc a" by (rule Max_ge [OF fin that])
      show ?thesis
      proof (cases "Max (seqsOf inc a) < ?n")
        case True
        with p snoc.IH False mx \<open>a = ?b\<close> show ?thesis by (simp add: step s update_conv max_def)
      next
        case False
        with p snoc.IH \<open>seqsOf inc a \<noteq> {}\<close> mx \<open>a = ?b\<close> show ?thesis by (simp add: step s max_def)
      qed
    qed
  qed
qed (simp add: authorSeqsOf_def seqsOf_def)

definition same_view :: "DocumentStateView \<Rightarrow> DocumentStateView \<Rightarrow> bool" where
  "same_view v w \<longleftrightarrow>
     v_participants v = v_participants w \<and> v_invited v = v_invited w \<and> v_admins v = v_admins w \<and>
     v_ended v = v_ended w \<and> v_closedBy v = v_closedBy w \<and> v_properties v = v_properties w \<and>
     v_order v = v_order w \<and> v_frontier v = v_frontier w \<and> v_interimLastHash v = v_interimLastHash w \<and>
     blurred (v_voids v) = blurred (v_voids w) \<and> set (v_excluded v) = set (v_excluded w) \<and>
     map_of (v_authorSeqs v) = map_of (v_authorSeqs w)"

lemma derive_same_view:
  assumes m: "map_of (byHashOf X es) = map_of (byHashOf X es')" and c: "canonical_envs es" and g: "genesis_ok G"
  shows "\<exists>v w. deriveDocumentState X policy G es = Inr (Derived v) \<and>
    deriveDocumentState X policy G es' = Inr (Derived w) \<and> same_view v w"
proof -
  obtain st order vs vs' where
    d: "deriveDocumentState X policy G es =
      Inr (Derived (viewOf (included X es) st order vs (excludedOf (byHashOf X es))))"
      "deriveDocumentState X policy G es' =
      Inr (Derived (viewOf (included X es') st order vs' (excludedOf (byHashOf X es'))))"
    and b: "blurred vs = blurred vs'"
    using derive_agree [OF m c g] by blast
  have mi: "map_of (included X es) = map_of (included X es')" by (rule included_cong [OF m])
  have si: "set (included X es) = set (included X es')" by (rule map_of_set [OF mi]) simp_all
  have f: "frontierOf (included X es) = frontierOf (included X es')" by (rule frontier_cong [OF mi]) simp_all
  have a: "map_of (authorSeqsOf (included X es)) = map_of (authorSeqsOf (included X es'))"
    by (intro ext) (simp add: authorSeqs_spec seqsOf_def si)
  have e: "set (excludedOf (byHashOf X es)) = set (excludedOf (byHashOf X es'))"
    unfolding set_excludedOf keys_cong [OF m] using grounded_cong [OF m] by simp
  have "same_view (viewOf (included X es) st order vs (excludedOf (byHashOf X es)))
      (viewOf (included X es') st order vs' (excludedOf (byHashOf X es')))"
    using b f a e by (simp add: same_view_def viewOf_def)
  with d show ?thesis by blast
qed

text \<open>C1: One set of entries, one state: two holders that hold the same entries, whatever order
  they arrived in and however often, derive the same participants, invitations, admins, end state,
  properties, total order, frontier, high-water marks and set of held-out entries, and void the
  same entries for the same reasons (up to which of several concurrent removals is named). The
  hypothesis is that distinct envelopes held have distinct entry hashes.\<close>

theorem derive_order_independent:
  assumes "set es = set es'" and "inj_on (entryHash X) (set es)" and "canonical_envs es" and "genesis_ok G"
  shows "\<exists>v w. deriveDocumentState X policy G es = Inr (Derived v) \<and>
    deriveDocumentState X policy G es' = Inr (Derived w) \<and> same_view v w"
  by (rule derive_same_view [OF byHashOf_set [OF assms(1,2)] assms(3,4)])

theorem derive_order_independent_witness:
  "\<exists>v w. deriveDocumentState (sample_X JNull) documentGovernancePolicy (sample_genesis [alice])
      [sample_entry remove_holder alice (Some bob) None, sample_entry consent bob (Some bob) None] = Inr (Derived v) \<and>
    deriveDocumentState (sample_X JNull) documentGovernancePolicy (sample_genesis [alice])
      [sample_entry consent bob (Some bob) None, sample_entry remove_holder alice (Some bob) None] = Inr (Derived w) \<and>
    same_view v w"
  by (rule derive_order_independent)
    (auto simp: inj_on_def bytesToHex_inj canonical_envs_def)

section \<open>History\<close>

lemma voids_subset:
  assumes "rfold (foldEntry X policy G inc V sub) (st, vs) hs = Inr (st', vs')"
  shows "fst ` set vs' \<subseteq> fst ` set vs \<union> set hs \<and> set vs \<subseteq> set vs'"
  using assms
proof (induction hs arbitrary: st vs)
  case (Cons h hs)
  then obtain st1 vs1 where s: "foldEntry X policy G inc V sub (st, vs) h = Inr (st1, vs1)"
    and r: "rfold (foldEntry X policy G inc V sub) (st1, vs1) hs = Inr (st', vs')"
    by (auto simp: rbind_Inr_conv)
  from s have a: "fst ` set vs1 \<subseteq> insert h (fst ` set vs)" and b: "set vs \<subseteq> set vs1"
    by (cases rule: foldEntry_cases; auto)+
  from Cons.IH [OF r] have c: "fst ` set vs' \<subseteq> fst ` set vs1 \<union> set hs" and d: "set vs1 \<subseteq> set vs'" by simp_all
  have "fst ` set vs' \<subseteq> insert h (fst ` set vs) \<union> set hs"
    by (rule order_trans [OF c Un_mono [OF a order_refl]])
  with order_trans [OF b d] show ?case by simp
qed simp

lemma parentsOf_included: "grounded m h \<Longrightarrow> parentsOf (includedOf m) h = parentsOf m h"
  by (simp add: parentsOf_def map_of_includedOf)

text \<open>Nothing of the history is lost or reordered against causality: the total order lists,
  once each, exactly the held entries whose whole ancestry is held (and acyclic), every entry after
  all its parents; the other held entries are reported as held out, and every void entry stays in
  the order.\<close>

theorem history_is_partitioned:
  assumes "deriveDocumentState X policy G es = Inr (Derived v)"
  shows "distinct (v_order v) \<and>
    set (v_order v) = {h \<in> entryHash X ` set es. grounded (byHashOf X es) h} \<and>
    set (v_excluded v) = {h \<in> entryHash X ` set es. \<not> grounded (byHashOf X es) h} \<and>
    (\<forall>i < length (v_order v). set (parentsOf (byHashOf X es) (v_order v ! i)) \<subseteq> set (take i (v_order v))) \<and>
    fst ` set (v_voids v) \<subseteq> set (v_order v)"
  using assms
proof (rule derived_fold)
  fix st order vs
  let ?m = "byHashOf X es"
  assume lin: "linearize (included X es) (map fst (included X es)) = Inr order"
    and f: "rfold (foldEntry X policy G (included X es) (topVerdict X policy G es) (map fst (included X es)))
       (genesisState G, []) order = Inr (st, vs)"
    and v: "v = viewOf (included X es) st order vs (excludedOf ?m)"
  have o: "set order = fst ` set (included X es)" "distinct order"
    "topological (included X es) (map fst (included X es)) order"
    using linearized [OF closed_included lin] by auto
  have og: "set order = {h. grounded ?m h}" using o(1) keys_includedOf by auto
  have held: "grounded ?m h \<Longrightarrow> h \<in> entryHash X ` set es" for h
    using grounded_held [of ?m h] keys_byHashOf [of X es] keys_map_of [of h ?m] by auto
  have "set (parentsOf ?m (order ! i)) \<subseteq> set (take i order)" if "i < length order" for i
  proof
    fix p assume p: "p \<in> set (parentsOf ?m (order ! i))"
    have gi: "grounded ?m (order ! i)" using og that by auto
    with p have pe: "p \<in> set (parentsOf (included X es) (order ! i))" by (simp add: parentsOf_included)
    then have "p \<in> fst ` set (included X es)" using closed_parent [OF closed_included] edges_iff by blast
    with pe o(3) that show "p \<in> set (take i order)" by (auto simp: topological_def)
  qed
  moreover have "fst ` set vs \<subseteq> set order" using voids_subset [OF f] by simp
  moreover have "set order = {h \<in> entryHash X ` set es. grounded ?m h}" using og held by auto
  moreover have "set (excludedOf ?m) = {h \<in> entryHash X ` set es. \<not> grounded ?m h}"
    by (simp add: set_excludedOf)
  ultimately show ?thesis using o(2) by (simp add: v viewOf_def)
qed

text \<open>Histories without parents, for the witnesses.\<close>

lemma flat_dag:
  assumes "\<forall>env \<in> snd ` set m. parents (body env) = []"
  shows "includedOf m = m" and "edgeCount m = 0" and "closure m h = []"
proof -
  have g: "isIncluded (length m) m (fst x)" if "x \<in> set m" for x
  proof -
    have "fst x \<in> fst ` set m" using that by simp
    then obtain env where e: "map_of m (fst x) = Some env" unfolding keys_map_of by blast
    then have "parents (body env) = []" using assms by (auto dest!: map_of_SomeD)
    then show ?thesis using e that by (cases m) (auto simp: isIncluded.simps)
  qed
  then show "includedOf m = m" by (auto simp: includedOf_def intro: filter_True)
  show "edgeCount m = 0" using assms by (induction m) (auto simp: edgeCount_def)
  then show "closure m h = []" by (simp add: closure_def)
qed

definition two_entries :: "DocumentAmendmentEnvelope list" where
  "two_entries = [sample_entry remove_holder alice (Some bob) None, sample_entry consent bob (Some bob) None]"

lemma two_entries_map:
  "byHashOf (sample_X v) two_entries =
     [(bytesToHex [13], sample_entry remove_holder alice (Some bob) None),
      (bytesToHex [7], sample_entry consent bob (Some bob) None)]"
  by (simp add: two_entries_def byHashOf_def bytesToHex_inj)

lemma two_entries_included: "included (sample_X v) two_entries = byHashOf (sample_X v) two_entries"
  by (rule flat_dag) (simp add: two_entries_map)

lemma two_entries_ok: "canonical_envs two_entries"
  by (simp add: canonical_envs_def two_entries_def)

theorem history_is_partitioned_witness:
  "\<exists>v. deriveDocumentState (sample_X JNull) documentGovernancePolicy (sample_genesis [alice]) two_entries = Inr (Derived v) \<and>
    distinct (v_order v) \<and> fst ` set (v_voids v) \<subseteq> set (v_order v)"
proof -
  obtain v where "deriveDocumentState (sample_X JNull) documentGovernancePolicy (sample_genesis [alice]) two_entries
      = Inr (Derived v)"
    using derive_returns [OF two_entries_ok, of "sample_genesis [alice]"] by auto
  with history_is_partitioned [OF this] show ?thesis by blast
qed

section \<open>The membership state\<close>

text \<open>C3: The derived membership is well formed under any policy: admins are participants, nobody
  is both invited and a participant, only participants have closed, and participants and
  invitations together never exceed the holder cap.\<close>

theorem membership_well_formed:
  assumes "deriveDocumentState X policy G es = Inr (Derived v)"
  shows "v_admins v \<subseteq> v_participants v \<and> v_participants v \<inter> v_invited v = {} \<and>
    v_closedBy v \<subseteq> v_participants v \<and>
    card (v_participants v) + card (v_invited v) \<le> MAX_DOCUMENT_HOLDERS"
  using assms
proof (rule derived_fold)
  fix st order vs
  assume f: "rfold (foldEntry X policy G (included X es) (topVerdict X policy G es) (map fst (included X es)))
       (genesisState G, []) order = Inr (st, vs)"
    and v: "v = viewOf (included X es) st order vs (excludedOf (byHashOf X es))"
  have "state_inv st"
    by (rule fold_inv [where I = state_inv, OF f genesis_inv]) (blast intro: foldEntry_inv)
  then show ?thesis by (simp add: v viewOf_def state_inv_def)
qed

theorem membership_well_formed_witness:
  "\<exists>v. deriveDocumentState (sample_X JNull) documentGovernancePolicy (sample_genesis [alice]) two_entries = Inr (Derived v) \<and>
    v_admins v \<subseteq> v_participants v \<and> v_participants v \<inter> v_invited v = {}"
proof -
  obtain v where "deriveDocumentState (sample_X JNull) documentGovernancePolicy (sample_genesis [alice]) two_entries
      = Inr (Derived v)"
    using derive_returns [OF two_entries_ok, of "sample_genesis [alice]"] by auto
  with membership_well_formed [OF this] show ?thesis by blast
qed

text \<open>C4: The admin floor: a document whose proposer is a declared admin never derives to a state
  without admins, whatever the entries, the policy and the interleaving of removals.\<close>

theorem admin_floor:
  assumes "deriveDocumentState X policy G es = Inr (Derived v)" and "proposerAgentId G \<in> set (adminSet G)"
  shows "v_admins v \<noteq> {}"
  using assms(1)
proof (rule derived_fold)
  fix st order vs
  assume f: "rfold (foldEntry X policy G (included X es) (topVerdict X policy G es) (map fst (included X es)))
       (genesisState G, []) order = Inr (st, vs)"
    and v: "v = viewOf (included X es) st order vs (excludedOf (byHashOf X es))"
  have "state_inv st \<and> admins st \<noteq> {}"
  proof (rule fold_inv [where I = "\<lambda>st. state_inv st \<and> admins st \<noteq> {}", OF f])
    show "state_inv (genesisState G) \<and> admins (genesisState G) \<noteq> {}"
      using assms(2) by (simp add: genesis_inv) (auto simp: genesisState_def)
    fix h s ws s' ws'
    assume inv: "state_inv s \<and> admins s \<noteq> {}"
      and step: "foldEntry X policy G (included X es) (topVerdict X policy G es) (map fst (included X es)) (s, ws) h
        = Inr (s', ws')"
    have "finite (admins s)" using inv by (auto simp: state_inv_def intro: finite_subset)
    with inv admins_floor [OF step] foldEntry_inv [OF step] show "state_inv s' \<and> admins s' \<noteq> {}" by blast
  qed
  then show ?thesis by (simp add: v viewOf_def)
qed

theorem admin_floor_witness:
  "\<exists>v. deriveDocumentState (sample_X JNull) documentGovernancePolicy (sample_genesis [alice]) two_entries = Inr (Derived v) \<and>
    v_admins v \<noteq> {}"
proof -
  obtain v where d: "deriveDocumentState (sample_X JNull) documentGovernancePolicy (sample_genesis [alice]) two_entries
      = Inr (Derived v)"
    using derive_returns [OF two_entries_ok, of "sample_genesis [alice]"] by auto
  have "proposerAgentId (sample_genesis [alice]) \<in> set (adminSet (sample_genesis [alice]))"
    by (simp add: sample_genesis_def)
  from admin_floor [OF d this] d show ?thesis by blast
qed



section \<open>Removals\<close>

lemma dominated_void:
  assumes V: "\<forall>x \<in> set sub. returns (V x)" and r: "r \<in> set sub" "dominates X G inc V r h"
    and nr: "\<not> isRemoval (body_kind (body (entryAt inc h)))"
    and f: "rfold (foldEntry X policy G inc V sub) (genesisState G, []) order = Inr (st, vs)" and h: "h \<in> set order"
  shows "h \<in> fst ` set vs"
proof -
  obtain xs ys where o: "order = xs @ h # ys" using h by (metis split_list)
  obtain st1 vs1 st2 vs2 where s: "foldEntry X policy G inc V sub (st1, vs1) h = Inr (st2, vs2)"
    and rest: "rfold (foldEntry X policy G inc V sub) (st2, vs2) ys = Inr (st, vs)"
    using f by (auto simp: o rfold_append rbind_Inr_conv)
  obtain c where c: "concurrentRemovalOf X G inc V sub h (author_agent_id (body (entryAt inc h))) = Inr (Some c)"
    using concurrentRemovalOf_spec [OF V, of X G inc h] r by (metis option.exhaust)
  have "h \<in> fst ` set vs2"
    using s nr c by (auto simp: foldEntry_def Let_def split: option.splits)
  with voids_subset [OF rest] show ?thesis by auto
qed

text \<open>C5: A removed party's concurrent authority does not stand: if a held, well-formed removal of an
  agent is valid in the state of its own ancestors, then every entry of that agent, other than a
  removal, that is concurrent with it is void in the derived state, however its author chose its
  parents and whatever the hash order says.\<close>

theorem removal_dominates:
  assumes "deriveDocumentState X policy G es = Inr (Derived v)" and "canonical_envs es"
    and "r \<in> fst ` set (included X es)" and "e \<in> fst ` set (included X es)"
    and "dominates X G (included X es) (topVerdict X policy G es) r e"
    and "\<not> isRemoval (body_kind (body (entryAt (included X es) e)))"
  shows "e \<in> fst ` set (v_voids v)"
  using assms(1)
proof (rule derived_fold)
  fix st order vs
  assume lin: "linearize (included X es) (map fst (included X es)) = Inr order"
    and f: "rfold (foldEntry X policy G (included X es)
      (topVerdict X policy G es) (map fst (included X es))) (genesisState G, []) order = Inr (st, vs)"
    and v: "v = viewOf (included X es) st order vs (excludedOf (byHashOf X es))"
  have o: "set order = fst ` set (included X es)"
    using linearized [OF closed_included lin] by auto
  have V: "\<forall>x \<in> set (map fst (included X es)). returns (topVerdict X policy G es x)"
  proof
    fix x assume "x \<in> set (map fst (included X es))"
    then have x: "x \<in> fst ` set (included X es)" by simp
    have "card (ancestors (included X es) x) < length (included X es)"
      by (rule ancestors_lt_length [OF closed_included x])
    from removalVerdict_agree [OF closed_included refl canonical_included [OF assms(2)] x this this]
    show "returns (topVerdict X policy G es x)" by blast
  qed
  have "e \<in> fst ` set vs"
    using assms(3,4) o by (intro dominated_void [OF V _ assms(5,6) f]) auto
  then show ?thesis by (simp add: v viewOf_def)
qed

lemma foldSubset_empty: "foldSubset X policy G inc V [] = Inr (genesisState G, [], [])"
  by (simp add: foldSubset_def linearize_def linearizeLoop.simps)

lemma sample_removal_valid:
  "effectVoid (sample_X v) documentGovernancePolicy (sample_entry remove_holder alice (Some bob) None)
     (genesisState (sample_genesis [alice])) = Inr None"
  by (simp add: effectVoid_def Let_def kindVoid_def genesisState_def sample_genesis_def
      documentGovernancePolicy_def canonicalIds_def)

lemma sample_dominates:
  "dominates (sample_X v) (sample_genesis [alice]) (included (sample_X v) two_entries)
     (topVerdict (sample_X v) documentGovernancePolicy (sample_genesis [alice]) two_entries)
     (bytesToHex [13]) (bytesToHex [7])"
proof -
  let ?m = "byHashOf (sample_X v) two_entries"
  have flat: "closure ?m h = []" for h by (rule flat_dag) (simp add: two_entries_map)
  then have a: "ancestors ?m h = {}" for h using set_closure [of ?m h] by simp
  have "removalVerdict (length ?m) (sample_X v) documentGovernancePolicy (sample_genesis [alice]) ?m (bytesToHex [13])
      = Inr None"
  proof -
    have l: "length ?m = Suc 1" by (simp add: two_entries_map)
    have e: "entryAt ?m (bytesToHex [13]) = sample_entry remove_holder alice (Some bob) None"
      by (simp add: entryAt_def two_entries_map)
    show ?thesis
      unfolding l removalVerdict.simps(2) flat foldSubset_empty e by (simp add: sample_removal_valid)
  qed
  then show ?thesis
    by (simp add: dominates_def two_entries_included a bytesToHex_inj)
      (simp add: two_entries_map entryAt_def isRemoval_def bytesToHex_inj)
qed

theorem removal_dominates_witness:
  "\<exists>v. deriveDocumentState (sample_X JNull) documentGovernancePolicy (sample_genesis [alice]) two_entries = Inr (Derived v) \<and>
    bytesToHex [7] \<in> fst ` set (v_voids v)"
proof -
  obtain v where d: "deriveDocumentState (sample_X JNull) documentGovernancePolicy (sample_genesis [alice]) two_entries
      = Inr (Derived v)"
    using derive_returns [OF two_entries_ok, of "sample_genesis [alice]"] by auto
  have "bytesToHex [7] \<in> fst ` set (v_voids v)"
    by (rule removal_dominates [OF d two_entries_ok _ _ sample_dominates])
      (unfold two_entries_included, simp_all add: two_entries_map entryAt_def isRemoval_def bytesToHex_inj)
  with d show ?thesis by blast
qed

end
