(* ===== verification/Derive_Frontier.thy ===== *)
theory Derive_Frontier
  imports Derive_Claims
begin

text \<open>
  The state at a named frontier depends on the frontier's ancestors only, and two behaviours of the
  derivation its comments do not describe: an entry's hash leaves its signature collection out, and
  a document can lose its last admin before it has one.
\<close>

section \<open>The work list\<close>

lemma wantedLoop_keeps: "set stack \<union> set wanted \<subseteq> set (wantedLoop m stack wanted)"
  by (induction m stack wanted rule: wantedLoop.induct) auto

lemma wantedLoop_cong:
  assumes "\<And>h. h \<notin> A \<Longrightarrow> parentsOf m h = parentsOf m' h"
    and "A \<inter> set (wantedLoop m stack wanted) = {}"
  shows "wantedLoop m' stack wanted = wantedLoop m stack wanted"
  using assms
proof (induction m stack wanted rule: wantedLoop.induct)
  case (2 m h stack wanted)
  have "h \<in> set (wantedLoop m (h # stack) wanted)"
    using wantedLoop_keeps [of "h # stack" wanted m] by auto
  with 2(4) have "h \<notin> A" by auto
  with 2 show ?case by (cases "h \<in> set wanted") simp_all
qed simp

lemma byHashOf_append:
  "h \<notin> entryHash X ` set extra \<Longrightarrow> map_of (byHashOf X (es @ extra)) h = map_of (byHashOf X es) h"
proof (induction extra rule: rev_induct)
  case (snoc x extra)
  then show ?case by (simp add: byHashOf_snoc update_conv flip: append_assoc)
qed simp

text \<open>C7: The ruling at a frontier is local: entries that are not among the frontier's ancestors,
  however many and whatever they say, change neither the answer nor the state derived there. (The
  ancestors include the ones named but not held, so an entry that fills a gap is not covered.)\<close>

theorem frontier_state_is_local:
  assumes "entryHash X ` set extra \<inter> set (wantedLoop (byHashOf X es) (rev F) []) = {}"
  shows "deriveDocumentStateAt X policy G (es @ extra) F = deriveDocumentStateAt X policy G es F"
proof -
  let ?A = "entryHash X ` set extra"
  have m: "map_of (byHashOf X (es @ extra)) h = map_of (byHashOf X es) h" if "h \<notin> ?A" for h
    by (rule byHashOf_append [OF that])
  have w: "wantedLoop (byHashOf X (es @ extra)) (rev F) [] = wantedLoop (byHashOf X es) (rev F) []"
    by (rule wantedLoop_cong [OF _ assms]) (simp add: parentsOf_def m)
  have "set F \<subseteq> set (wantedLoop (byHashOf X es) (rev F) [])"
    using wantedLoop_keeps [of "rev F" "[]" "byHashOf X es"] by simp
  then have "h \<notin> ?A" if "h \<in> set F" for h using assms that by blast
  then have miss: "filter (\<lambda>h. map_of (byHashOf X (es @ extra)) h = None) F
      = filter (\<lambda>h. map_of (byHashOf X es) h = None) F"
    by (intro filter_cong) (simp_all add: m)
  have "filter (\<lambda>env. entryHash X env \<in> set (wantedLoop (byHashOf X es) (rev F) [])) extra = []"
    using assms by (auto simp: filter_empty_conv)
  then show ?thesis by (simp add: deriveDocumentStateAt_def Let_def miss w)
qed

theorem frontier_state_is_local_witness:
  "deriveDocumentStateAt (sample_X JNull) documentGovernancePolicy (sample_genesis [alice])
     ([sample_entry remove_holder alice (Some bob) None] @ [sample_entry consent bob (Some bob) None]) [bytesToHex [13]] =
   deriveDocumentStateAt (sample_X JNull) documentGovernancePolicy (sample_genesis [alice])
     [sample_entry remove_holder alice (Some bob) None] [bytesToHex [13]]"
proof (rule frontier_state_is_local)
  have "wantedLoop (byHashOf (sample_X JNull) [sample_entry remove_holder alice (Some bob) None])
      (rev [bytesToHex [13]]) [] = [bytesToHex [13]]"
    by (simp add: byHashOf_def parentsOf_def)
  then show "entryHash (sample_X JNull) ` set [sample_entry consent bob (Some bob) None] \<inter>
      set (wantedLoop (byHashOf (sample_X JNull) [sample_entry remove_holder alice (Some bob) None])
        (rev [bytesToHex [13]]) []) = {}"
    by (simp add: bytesToHex_inj)
qed

section \<open>Histories of one entry\<close>

lemma one_entry:
  assumes m: "byHashOf X es = [(h, e)]" and p: "parents (body e) = []" and g: "genesis_ok G"
    and sv: "structuralVoid X G [(h, e)] e h = None"
  shows "effectVoid X policy e (genesisState G) = Inr (Some r) \<Longrightarrow>
      deriveDocumentState X policy G es = Inr (Derived (viewOf [(h, e)] (genesisState G) [h] [(h, r)] []))"
    and "effectVoid X policy e (genesisState G) = Inr None \<Longrightarrow>
      \<not> (isRemoval (body_kind (body e)) \<and> wouldEmptyAdmins (the (subject_agent_id (body e))) (genesisState G)) \<Longrightarrow>
      deriveDocumentState X policy G es =
        Inr (Derived (viewOf [(h, e)] (applyEntry G e (genesisState G)) [h] [] []))"
proof -
  have inc: "includedOf [(h, e)] = [(h, e)]" and cl: "closure [(h, e)] x = []" for x
    by (rule flat_dag; simp add: p)+
  have ex: "excludedOf [(h, e)] = []"
    using inc by (simp add: excludedOf_def includedOf_def split: if_splits)
  have lin: "linearize [(h, e)] [h] = Inr [h]"
    by (simp add: linearize_def linearizeLoop.simps ready_def entryAt_def p)
  have V: "removalVerdict (Suc 0) X policy G [(h, e)] h = effectVoid X policy e (genesisState G)"
    by (simp add: cl foldSubset_empty entryAt_def)
  have gen: "adminSet G \<noteq> []" "\<not> list_ex (\<lambda>a. a \<noteq> proposerAgentId G \<and> a \<noteq> peerAgentId G) (adminSet G)"
    using g by (auto simp: genesis_ok_def list_ex_iff)
  have d: "deriveDocumentState X policy G es =
      rbind (foldEntry X policy G [(h, e)] (removalVerdict (Suc 0) X policy G [(h, e)]) [h] (genesisState G, []) h)
        (\<lambda>(st, voids). Inr (Derived (viewOf [(h, e)] st [h] voids [])))"
    using gen by (simp add: deriveDocumentState_def Let_def m inc ex foldSubset_def lin)
      (cases "foldEntry X policy G [(h, e)] (removalVerdict (Suc 0) X policy G [(h, e)]) [h] (genesisState G, []) h";
       simp split: prod.split)
  show "effectVoid X policy e (genesisState G) = Inr (Some r) \<Longrightarrow>
      deriveDocumentState X policy G es = Inr (Derived (viewOf [(h, e)] (genesisState G) [h] [(h, r)] []))"
    unfolding d by (simp add: foldEntry_def Let_def entryAt_def sv V del: removalVerdict.simps)
  show "effectVoid X policy e (genesisState G) = Inr None \<Longrightarrow>
      \<not> (isRemoval (body_kind (body e)) \<and> wouldEmptyAdmins (the (subject_agent_id (body e))) (genesisState G)) \<Longrightarrow>
      deriveDocumentState X policy G es =
        Inr (Derived (viewOf [(h, e)] (applyEntry G e (genesisState G)) [h] [] []))"
    unfolding d by (auto simp: foldEntry_def Let_def entryAt_def sv V simp del: removalVerdict.simps)
qed

text \<open>The peer can leave a document without admins: when the genesis declares the peer the only
  admin, the peer's refusal to join derives to a state that has the proposer as its participant, no
  invitation open and no admin, contrary to the comments that a document always has an admin and
  that a declared peer's power resolves itself.\<close>

theorem refusal_leaves_no_admin:
  "\<exists>v. deriveDocumentState (sample_X JNull) documentGovernancePolicy (sample_genesis [bob])
     [sample_entry refuse_join bob (Some bob) None] = Inr (Derived v) \<and>
   v_admins v = {} \<and> v_invited v = {} \<and> v_participants v = {alice} \<and> v_voids v = []"
proof -
  let ?e = "sample_entry refuse_join bob (Some bob) None" and ?G = "sample_genesis [bob]"
  have ok: "effectVoid (sample_X JNull) documentGovernancePolicy ?e (genesisState ?G) = Inr None"
    by (simp add: effectVoid_def Let_def kindVoid_def genesisState_def sample_genesis_def
        documentGovernancePolicy_def canonicalIds_def)
  have "deriveDocumentState (sample_X JNull) documentGovernancePolicy ?G [?e] =
      Inr (Derived (viewOf [(bytesToHex [11], ?e)] (applyEntry ?G ?e (genesisState ?G)) [bytesToHex [11]] [] []))"
    by (rule one_entry(2) [OF _ _ _ _ ok]) (simp_all add: byHashOf_def isRemoval_def)
  then show ?thesis
    by (simp add: viewOf_def applyEntry_def genesisState_def sample_genesis_def)
qed

text \<open>The same removal, signed by the admin alone and by the admin together with the removed party.\<close>

definition signed_alone :: DocumentAmendmentEnvelope where
  "signed_alone = sample_entry remove_holder alice (Some bob) None"

definition signed_by_both :: DocumentAmendmentEnvelope where
  "signed_by_both = signed_alone\<lparr>collection := (collection signed_alone)\<lparr>
     required_signers := [alice, bob],
     signatures := [\<lparr>signer_agent_id = alice, signature = []\<rparr>, \<lparr>signer_agent_id = bob, signature = []\<rparr>]\<rparr>\<rparr>"

lemma both_canonical: "canonicalSigners [alice, bob] = Inr (sort [alice, bob])"
  using parties by (simp add: canonicalSigners_Inr)

lemma both_complete:
  "collectionStatus (sample_X v) (collection signed_by_both) =
     Inr \<lparr>complete = True, missing = [], invalidSigners = [], unknown = [], duplicates = []\<rparr>"
proof -
  have rq: "required_signers (collection signed_by_both) = [alice, bob]" by (simp add: signed_by_both_def)
  then obtain tbs where tbs: "buildDocumentMultisigTbs (sample_X v) (collection signed_by_both) = Inr tbs"
    using both_canonical by (simp add: buildDocumentMultisigTbs_def multisigPreimage_def)
  have sg: "signatures (collection signed_by_both) =
      [\<lparr>signer_agent_id = alice, signature = []\<rparr>, \<lparr>signer_agent_id = bob, signature = []\<rparr>]"
    by (simp add: signed_by_both_def)
  define required where "required = sort [alice, bob]"
  have "set required = {alice, bob}" unfolding required_def set_sort by simp
  then show ?thesis
    using tbs by (simp add: collectionStatus_def rq both_canonical sg Let_def filter_empty_conv sample_X_def
        flip: required_def)
qed

text \<open>An entry's identity does not cover its signature collection: two envelopes with one entry
  hash, both admissible (every required signature verifies), derive to different memberships, so
  the state is not a function of the set of entry hashes: a holder that holds the one has removed
  the invited party, a holder that holds the other has not, and a holder of both follows whichever
  came last.\<close>

theorem collection_not_in_entry_hash:
  "entryHash (sample_X JNull) signed_alone = entryHash (sample_X JNull) signed_by_both \<and>
   checkEntryAdmissible (sample_X JNull) signed_alone = Inr None \<and>
   checkEntryAdmissible (sample_X JNull) signed_by_both = Inr None \<and>
   (\<exists>v w. deriveDocumentState (sample_X JNull) documentGovernancePolicy (sample_genesis [alice])
        [signed_by_both, signed_alone] = Inr (Derived v) \<and>
      deriveDocumentState (sample_X JNull) documentGovernancePolicy (sample_genesis [alice])
        [signed_alone, signed_by_both] = Inr (Derived w) \<and>
      v_invited v = {} \<and> v_invited w = {bob})"
proof -
  let ?X = "sample_X JNull" and ?G = "sample_genesis [alice]" and ?h = "bytesToHex [13]"
  have b: "body signed_by_both = body signed_alone" by (simp add: signed_by_both_def)
  have h: "entryHash ?X signed_alone = ?h" "entryHash ?X signed_by_both = ?h"
    by (simp_all add: signed_alone_def signed_by_both_def entryHash_def)
  have H: "documentAmendmentHash ?X (body signed_alone) = [13]" by (simp add: signed_alone_def)
  have c: "mc_document_id (collection signed_by_both) = ''d''" "subject_kind (collection signed_by_both) = AMENDMENT_SUBJECT_KIND"
    "subject_hash (collection signed_by_both) = [13]" "required_signers (collection signed_by_both) = [alice, bob]"
    "mc_document_id (collection signed_alone) = ''d''" "subject_kind (collection signed_alone) = AMENDMENT_SUBJECT_KIND"
    "subject_hash (collection signed_alone) = [13]" "required_signers (collection signed_alone) = [alice]"
    "document_id (body signed_alone) = ''d''" "author_agent_id (body signed_alone) = alice" "author_seq (body signed_alone) = 1"
    by (simp_all add: signed_by_both_def signed_alone_def sample_entry_def)
  have adm: "checkEntryAdmissible ?X signed_alone = Inr None" "checkEntryAdmissible ?X signed_by_both = Inr None"
    by (simp_all add: checkEntryAdmissible_def Let_def b c H both_complete) (simp add: signed_alone_def)
  have sv: "structuralVoid ?X ?G inc signed_alone x = None" "structuralVoid ?X ?G inc signed_by_both x = None" for inc x
    by (simp_all add: structuralVoid_def Let_def b c H) (simp_all add: sample_genesis_def)
  have m: "byHashOf ?X [signed_by_both, signed_alone] = [(?h, signed_alone)]"
    "byHashOf ?X [signed_alone, signed_by_both] = [(?h, signed_by_both)]"
    by (simp_all add: byHashOf_def h)
  have p: "parents (body signed_alone) = []" by (simp add: signed_alone_def)
  have refused: "effectVoid ?X documentGovernancePolicy signed_by_both (genesisState ?G) = Inr (Some (Code ''governance_claim_shape''))"
  proof -
    have "length (canonicalIds [alice, bob]) \<noteq> 1"
      unfolding length_canonicalIds_1 using parties by auto
    then have "documentGovernancePolicy remove_holder (Some bob) ({alice}, {alice}) [alice, bob]
        = Some ''governance_claim_shape''"
      using parties by (simp add: documentGovernancePolicy_def Let_def)
    moreover have "body_kind (body signed_alone) = remove_holder" "subject_agent_id (body signed_alone) = Some bob"
      "state_hash (body signed_alone) = None" by (simp_all add: signed_alone_def)
    moreover have "participants (genesisState ?G) = {alice}" "admins (genesisState ?G) = {alice}"
      "invited (genesisState ?G) = {bob}" by (auto simp: genesisState_def sample_genesis_def)
    ultimately show ?thesis by (simp add: effectVoid_def Let_def kindVoid_def b c)
  qed
  have ok: "effectVoid ?X documentGovernancePolicy signed_alone (genesisState ?G) = Inr None"
    unfolding signed_alone_def by (rule sample_removal_valid)
  have v: "deriveDocumentState ?X documentGovernancePolicy ?G [signed_by_both, signed_alone] =
      Inr (Derived (viewOf [(?h, signed_alone)] (applyEntry ?G signed_alone (genesisState ?G)) [?h] [] []))"
    by (rule one_entry(2) [OF m(1) p _ sv(1) ok])
      (simp_all add: signed_alone_def wouldEmptyAdmins_def, simp add: genesisState_def sample_genesis_def)
  have w: "deriveDocumentState ?X documentGovernancePolicy ?G [signed_alone, signed_by_both] =
      Inr (Derived (viewOf [(?h, signed_by_both)] (genesisState ?G) [?h] [(?h, Code ''governance_claim_shape'')] []))"
    by (rule one_entry(1) [OF m(2) _ _ sv(2) refused]) (simp_all add: b p)
  from v w h adm show ?thesis
    by (simp add: viewOf_def) (simp add: applyEntry_def signed_alone_def genesisState_def sample_genesis_def)
qed

end
