(* ===== verification/Retry_Queue.thy ===== *)
theory Retry_Queue
  imports Hex "HOL-Library.Product_Lexorder"
begin

text \<open>
  \<open>core/daemon/src/retry-queue.ts\<close>: content waiting to be sent again, per session, and content
  waiting for the peer's acknowledgement, per agent and session; both mirrored in one SQLite table.
  The arrays of the two maps are shared by reference with drains that are suspended in an
  \<open>await\<close>, so the model keeps them in a store addressed by reference, and entry objects have an
  identity. A database write that can fail takes a flag saying whether it does.
\<close>

section \<open>State\<close>

definition RETRY_QUEUE_CAP :: nat where "RETRY_QUEUE_CAP = 1000"

record Row =
  r_session :: string
  r_agent :: "string option"
  r_nonce :: string
  r_blob :: bytes
  r_queuedAt :: nat
  r_attempts :: nat
  r_position :: nat
  r_awaiting :: bool
  r_hash :: "string option"
  r_alg :: "string option"
  r_structure1 :: "bytes option"
  r_structure2 :: "bytes option"
  r_signature :: "bytes option"
  r_leafKind :: "nat option"

record RetryQueueEntry =
  e_id :: nat
  e_session :: string
  e_nonce :: string
  e_blob :: bytes
  e_queuedAt :: nat
  e_attempts :: nat
  e_position :: nat

record AwaitingContentEntry =
  a_id :: nat
  a_agent :: string
  a_session :: string
  a_hash :: string
  a_blob :: bytes
  a_alg :: "string option"
  a_structure1 :: "bytes option"
  a_structure2 :: "bytes option"
  a_signature :: "bytes option"
  a_leafKind :: "nat option"
  a_queuedAt :: nat
  a_position :: nat

text \<open>
  \<open>rows\<close> is the table in the order of its ids; \<open>queues\<close> and \<open>awaiting\<close> are the maps from key to
  array reference, \<open>cells\<close> and \<open>acells\<close> the arrays; \<open>counters\<close> is the one position counter map
  both use; \<open>fresh\<close> names the next array or object.
\<close>

record RetryQueue =
  rows :: "Row list"
  queues :: "string \<rightharpoonup> nat"
  cells :: "nat \<Rightarrow> RetryQueueEntry list"
  awaiting :: "string \<rightharpoonup> nat"
  acells :: "nat \<Rightarrow> AwaitingContentEntry list"
  counters :: "string \<rightharpoonup> nat"
  fresh :: nat

definition emptyQueue :: RetryQueue where
  "emptyQueue = \<lparr>rows = [], queues = Map.empty, cells = (\<lambda>_. []), awaiting = Map.empty,
     acells = (\<lambda>_. []), counters = Map.empty, fresh = 0\<rparr>"

definition ak :: "string \<Rightarrow> string \<Rightarrow> string" where
  "ak agentId sessionId = agentId @ [char_of (31 :: nat)] @ sessionId"

definition counterAt :: "RetryQueue \<Rightarrow> string \<Rightarrow> nat" where
  "counterAt st k = (case counters st k of None \<Rightarrow> 0 | Some n \<Rightarrow> n)"

text \<open>\<open>let q = map.get(k); if (!q) { q = []; map.set(k, q); }\<close>\<close>

definition queueRef :: "string \<Rightarrow> RetryQueue \<Rightarrow> nat \<times> RetryQueue" where
  "queueRef k st = (case queues st k of
     Some r \<Rightarrow> (r, st)
   | None \<Rightarrow> (fresh st, st\<lparr>queues := (queues st)(k \<mapsto> fresh st), cells := (cells st)(fresh st := []),
                fresh := Suc (fresh st)\<rparr>))"

definition awaitingRef :: "string \<Rightarrow> RetryQueue \<Rightarrow> nat \<times> RetryQueue" where
  "awaitingRef k st = (case awaiting st k of
     Some r \<Rightarrow> (r, st)
   | None \<Rightarrow> (fresh st, st\<lparr>awaiting := (awaiting st)(k \<mapsto> fresh st), acells := (acells st)(fresh st := []),
                fresh := Suc (fresh st)\<rparr>))"

definition pushEntry :: "nat \<Rightarrow> RetryQueueEntry \<Rightarrow> RetryQueue \<Rightarrow> RetryQueue" where
  "pushEntry r e st = st\<lparr>cells := (cells st)(r := cells st r @ [e\<lparr>e_id := fresh st\<rparr>]), fresh := Suc (fresh st)\<rparr>"

definition pushAwaiting :: "nat \<Rightarrow> AwaitingContentEntry \<Rightarrow> RetryQueue \<Rightarrow> RetryQueue" where
  "pushAwaiting r e st = st\<lparr>acells := (acells st)(r := acells st r @ [e\<lparr>a_id := fresh st\<rparr>]), fresh := Suc (fresh st)\<rparr>"

section \<open>The table\<close>

text \<open>The unique index over owner (the empty string when there is none), session and nonce.\<close>

definition conflicts :: "Row \<Rightarrow> Row \<Rightarrow> bool" where
  "conflicts a b \<longleftrightarrow>
     (case r_agent a of None \<Rightarrow> '''' | Some x \<Rightarrow> x) = (case r_agent b of None \<Rightarrow> '''' | Some x \<Rightarrow> x) \<and>
     r_session a = r_session b \<and> r_nonce a = r_nonce b"

text \<open>
  The production driver binds a byte string of length zero as NULL: \<open>content_blob\<close> is NOT NULL, so
  such a row is refused; in the other columns it is stored as NULL.
\<close>

definition nullIfEmpty :: "bytes option \<Rightarrow> bytes option" where
  "nullIfEmpty b = (if b = Some [] then None else b)"

definition asStored :: "Row \<Rightarrow> Row" where
  "asStored row = row\<lparr>r_structure1 := nullIfEmpty (r_structure1 row),
     r_structure2 := nullIfEmpty (r_structure2 row), r_signature := nullIfEmpty (r_signature row)\<rparr>"

definition insertRow :: "bool \<Rightarrow> Row \<Rightarrow> RetryQueue \<Rightarrow> RetryQueue option" where
  "insertRow ok row st =
     (if ok \<and> r_blob row \<noteq> [] \<and> \<not> list_ex (conflicts row) (rows st)
      then Some (st\<lparr>rows := rows st @ [asStored row]\<rparr>) else None)"

definition deleteRows :: "bool \<Rightarrow> (Row \<Rightarrow> bool) \<Rightarrow> RetryQueue \<Rightarrow> RetryQueue" where
  "deleteRows ok P st = (if ok then st\<lparr>rows := filter (\<lambda>r. \<not> P r) (rows st)\<rparr> else st)"

text \<open>\<open>content_hash_hex = ?\<close> is not true of a null.\<close>

definition awaitingRowOf :: "string \<Rightarrow> string \<Rightarrow> string \<Rightarrow> Row \<Rightarrow> bool" where
  "awaitingRowOf agentId sessionId h r \<longleftrightarrow>
     r_agent r = Some agentId \<and> r_session r = sessionId \<and> r_hash r = Some h \<and> r_awaiting r"

section \<open>Start-up\<close>

definition bumpCounter :: "string \<Rightarrow> nat \<Rightarrow> RetryQueue \<Rightarrow> RetryQueue" where
  "bumpCounter k p st = (if p > counterAt st k then st\<lparr>counters := (counters st)(k \<mapsto> p)\<rparr> else st)"

definition awaitingOfRow :: "string \<Rightarrow> Row \<Rightarrow> AwaitingContentEntry" where
  "awaitingOfRow agent row =
     \<lparr>a_id = 0, a_agent = agent, a_session = r_session row,
      a_hash = (case r_hash row of None \<Rightarrow> r_nonce row | Some h \<Rightarrow> h), a_blob = r_blob row,
      a_alg = r_alg row, a_structure1 = r_structure1 row, a_structure2 = r_structure2 row,
      a_signature = r_signature row, a_leafKind = r_leafKind row, a_queuedAt = r_queuedAt row,
      a_position = r_position row\<rparr>"

definition entryOfRow :: "Row \<Rightarrow> RetryQueueEntry" where
  "entryOfRow row =
     \<lparr>e_id = 0, e_session = r_session row, e_nonce = r_nonce row, e_blob = r_blob row,
      e_queuedAt = r_queuedAt row, e_attempts = r_attempts row, e_position = r_position row\<rparr>"

definition loadRow :: "Row \<Rightarrow> RetryQueue \<Rightarrow> RetryQueue" where
  "loadRow row st =
     (if r_awaiting row then
        (case r_agent row of
           None \<Rightarrow> st
         | Some agent \<Rightarrow>
             (let k = ak agent (r_session row);
                  (r, st') = awaitingRef k (bumpCounter k (r_position row) st)
              in pushAwaiting r (awaitingOfRow agent row) st'))
      else
        (let (r, st') = queueRef (r_session row) (bumpCounter (r_session row) (r_position row) st)
         in pushEntry r (entryOfRow row) st'))"

definition loadFromDb :: "RetryQueue \<Rightarrow> RetryQueue" where
  "loadFromDb st =
     fold loadRow (sort_key (\<lambda>r. (r_session r, r_position r)) (rows st))
       (st\<lparr>queues := Map.empty, counters := Map.empty, awaiting := Map.empty\<rparr>)"

section \<open>The send queue\<close>

text \<open>At the cap the oldest entry goes, from the table by session and position.\<close>

definition evictOldest :: "bool \<Rightarrow> string \<Rightarrow> nat \<Rightarrow> RetryQueue \<Rightarrow> RetryQueue" where
  "evictOldest delOk sessionId q st =
     (if length (cells st q) \<ge> RETRY_QUEUE_CAP then
        (let oldest = hd (cells st q);
             st' = deleteRows delOk (\<lambda>r. r_session r = sessionId \<and> r_position r = e_position oldest) st
         in st'\<lparr>cells := (cells st')(q := tl (cells st' q))\<rparr>)
      else st)"

definition newEntry :: "nat \<Rightarrow> string \<Rightarrow> string \<Rightarrow> bytes \<Rightarrow> nat \<Rightarrow> RetryQueueEntry" where
  "newEntry now sessionId nonceHex contentBlob position =
     \<lparr>e_id = 0, e_session = sessionId, e_nonce = nonceHex, e_blob = contentBlob,
      e_queuedAt = now, e_attempts = 1, e_position = position\<rparr>"

definition newRow :: "nat \<Rightarrow> string \<Rightarrow> string \<Rightarrow> bytes \<Rightarrow> nat \<Rightarrow> Row" where
  "newRow now sessionId nonceHex contentBlob position =
     \<lparr>r_session = sessionId, r_agent = None, r_nonce = nonceHex, r_blob = contentBlob,
      r_queuedAt = now, r_attempts = 1, r_position = position, r_awaiting = False,
      r_hash = None, r_alg = None, r_structure1 = None, r_structure2 = None,
      r_signature = None, r_leafKind = None\<rparr>"

definition appendEntry :: "bool \<Rightarrow> nat \<Rightarrow> string \<Rightarrow> string \<Rightarrow> bytes \<Rightarrow> nat \<Rightarrow> RetryQueue \<Rightarrow> RetryQueue" where
  "appendEntry insOk now sessionId nonceHex contentBlob q st =
     (let nextPosition = counterAt st sessionId + 1;
          st' = st\<lparr>counters := (counters st)(sessionId \<mapsto> nextPosition)\<rparr>;
          st'' = (case insertRow insOk (newRow now sessionId nonceHex contentBlob nextPosition) st' of
                    None \<Rightarrow> st' | Some s \<Rightarrow> s)
      in pushEntry q (newEntry now sessionId nonceHex contentBlob nextPosition) st'')"

definition enqueue ::
  "bool \<Rightarrow> bool \<Rightarrow> nat \<Rightarrow> string \<Rightarrow> bytes \<Rightarrow> bytes \<Rightarrow> RetryQueue \<Rightarrow> RetryQueue" where
  "enqueue delOk insOk now sessionId nonce contentBlob st =
     (let (q, st') = queueRef sessionId st
      in appendEntry insOk now sessionId (bytesToHex nonce) contentBlob q (evictOldest delOk sessionId q st'))"

text \<open>
  \<open>drainSession\<close> between two awaits. \<open>q\<close> is the array it holds, \<open>entry\<close> the object it sent;
  \<open>drainFailed\<close> and \<open>drainDelivered\<close> are what follows the await, \<open>drainFinish\<close> the exit.
\<close>

definition currentAttempts :: "nat \<Rightarrow> RetryQueueEntry \<Rightarrow> RetryQueue \<Rightarrow> nat" where
  "currentAttempts q entry st =
     (case find (\<lambda>e. e_id e = e_id entry) (cells st q) of None \<Rightarrow> e_attempts entry | Some e \<Rightarrow> e_attempts e)"

definition drainFailed :: "bool \<Rightarrow> string \<Rightarrow> nat \<Rightarrow> RetryQueueEntry \<Rightarrow> RetryQueue \<Rightarrow> RetryQueue" where
  "drainFailed ok sessionId q entry st =
     (let n = currentAttempts q entry st + 1;
          st' = st\<lparr>cells := (cells st)(q := map (\<lambda>e. if e_id e = e_id entry then e\<lparr>e_attempts := n\<rparr> else e)
                    (cells st q))\<rparr>
      in if ok then st'\<lparr>rows := map (\<lambda>r. if r_session r = sessionId \<and> r_nonce r = e_nonce entry
                       then r\<lparr>r_attempts := n\<rparr> else r) (rows st')\<rparr>
         else st')"

definition drainDelivered :: "bool \<Rightarrow> string \<Rightarrow> nat \<Rightarrow> RetryQueueEntry \<Rightarrow> RetryQueue \<Rightarrow> RetryQueue" where
  "drainDelivered ok sessionId q entry st =
     (let st' = deleteRows ok (\<lambda>r. r_session r = sessionId \<and> r_nonce r = e_nonce entry) st
      in st'\<lparr>cells := (cells st')(q := tl (cells st' q))\<rparr>)"

definition drainFinish :: "string \<Rightarrow> nat \<Rightarrow> RetryQueue \<Rightarrow> RetryQueue" where
  "drainFinish sessionId q st =
     (if cells st q = [] then st\<lparr>queues := (queues st)(sessionId := None)\<rparr> else st)"

text \<open>The loop when nothing else runs in between; \<open>send i\<close> is the outcome of the i-th send.\<close>

function drainLoop ::
  "(nat \<Rightarrow> bytes \<Rightarrow> bool) \<Rightarrow> nat \<Rightarrow> string \<Rightarrow> nat \<Rightarrow> RetryQueue \<Rightarrow> nat \<times> RetryQueue" where
  "drainLoop send i sessionId q st =
     (if cells st q = [] then (i, st)
      else let entry = hd (cells st q) in
        if send i (e_blob entry) then drainLoop send (Suc i) sessionId q (drainDelivered True sessionId q entry st)
        else (i, drainFailed True sessionId q entry st))"
  by pat_completeness auto
termination
  by (relation "measure (\<lambda>(send, i, sessionId, q, st). length (cells st q))")
    (auto simp: drainDelivered_def deleteRows_def Let_def)

declare drainLoop.simps [simp del]

definition drainSession ::
  "(nat \<Rightarrow> bytes \<Rightarrow> bool) \<Rightarrow> string \<Rightarrow> RetryQueue \<Rightarrow> nat \<times> RetryQueue" where
  "drainSession send sessionId st =
     (case queues st sessionId of
        None \<Rightarrow> (0, st)
      | Some q \<Rightarrow>
          if cells st q = [] then (0, st)
          else let (delivered, st') = drainLoop send 0 sessionId q st in (delivered, drainFinish sessionId q st'))"

section \<open>Terminal sessions\<close>

definition reapTerminalSession :: "bool \<Rightarrow> bool \<Rightarrow> string \<Rightarrow> RetryQueue \<Rightarrow> nat \<times> RetryQueue" where
  "reapTerminalSession selOk delOk sessionId st =
     (let P = (\<lambda>r. r_session r = sessionId \<and> \<not> r_awaiting r);
          doomed = filter P (rows st);
          forget = (\<lambda>s. s\<lparr>queues := (queues s)(sessionId := None), counters := (counters s)(sessionId := None)\<rparr>)
      in if \<not> selOk then (0, st)
         else if doomed = [] then (0, forget st)
         else if \<not> delOk then (0, st)
         else (length doomed, forget (deleteRows True P st)))"

text \<open>\<open>sessions\<close> is the sessions table, as pairs of id and status, in the order the join lists them.\<close>

definition reapAlreadyTerminalSessions ::
  "bool \<Rightarrow> (string \<times> string) list \<Rightarrow> RetryQueue \<Rightarrow> nat \<times> RetryQueue" where
  "reapAlreadyTerminalSessions selOk sessions st =
     (if \<not> selOk then (0, st)
      else foldl (\<lambda>(total, s) (sid, status).
             let (n, s') = reapTerminalSession True True sid s in (total + n, s')) (0, st)
           (remdups (filter (\<lambda>(sid, status). (status = ''sealed'' \<or> status = ''abandoned'') \<and>
              list_ex (\<lambda>r. r_session r = sid \<and> \<not> r_awaiting r) (rows st)) sessions)))"

definition getSessionDepth :: "string \<Rightarrow> RetryQueue \<Rightarrow> nat" where
  "getSessionDepth sessionId st = (case queues st sessionId of None \<Rightarrow> 0 | Some q \<Rightarrow> length (cells st q))"

definition getSessionEntries :: "string \<Rightarrow> RetryQueue \<Rightarrow> RetryQueueEntry list" where
  "getSessionEntries sessionId st = (case queues st sessionId of None \<Rightarrow> [] | Some q \<Rightarrow> cells st q)"

section \<open>Content awaiting its acknowledgement\<close>

definition enqueueAwaitingContent ::
  "bool \<Rightarrow> nat \<Rightarrow> string \<Rightarrow> string \<Rightarrow> bytes \<Rightarrow> bytes \<Rightarrow> bytes option \<Rightarrow> bytes option \<Rightarrow> string option \<Rightarrow>
   bytes option \<Rightarrow> nat option \<Rightarrow> RetryQueue \<Rightarrow> RetryQueue \<times> bool js" where
  "enqueueAwaitingContent insOk now agentId sessionId contentHash contentBlob s1 s2 alg sig leafKind st0 =
     (if agentId = '''' then (st0, Inl (Error ''enqueueAwaitingContent''))
      else
        let h = bytesToHex contentHash; k = ak agentId sessionId; (q, st) = awaitingRef k st0 in
        if list_ex (\<lambda>e. a_hash e = h) (acells st q) then (st, Inr False)
        else
          let position = counterAt st k + 1;
              row = \<lparr>r_session = sessionId, r_agent = Some agentId, r_nonce = h, r_blob = contentBlob,
                     r_queuedAt = now, r_attempts = 1, r_position = position, r_awaiting = True,
                     r_hash = Some h, r_alg = alg, r_structure1 = s1, r_structure2 = s2,
                     r_signature = sig, r_leafKind = leafKind\<rparr> in
          (case insertRow insOk row st of
             None \<Rightarrow> (st, Inl (Error ''awaiting_content_persist_failed''))
           | Some st' \<Rightarrow>
               (pushAwaiting q
                  \<lparr>a_id = 0, a_agent = agentId, a_session = sessionId, a_hash = h, a_blob = contentBlob,
                   a_alg = alg, a_structure1 = s1, a_structure2 = s2, a_signature = None,
                   a_leafKind = None, a_queuedAt = now, a_position = position\<rparr>
                  (st'\<lparr>counters := (counters st')(k \<mapsto> position)\<rparr>), Inr True)))"

fun removeFirst :: "('a \<Rightarrow> bool) \<Rightarrow> 'a list \<Rightarrow> 'a list" where
  "removeFirst P [] = []"
| "removeFirst P (x # xs) = (if P x then xs else x # removeFirst P xs)"

definition markContentAcked :: "bool \<Rightarrow> string \<Rightarrow> string \<Rightarrow> bytes \<Rightarrow> RetryQueue \<Rightarrow> RetryQueue" where
  "markContentAcked delOk agentId sessionId contentHash st =
     (let h = bytesToHex contentHash; k = ak agentId sessionId;
          st' = (case awaiting st k of
                   None \<Rightarrow> st
                 | Some q \<Rightarrow>
                     (let s = st\<lparr>acells := (acells st)(q := removeFirst (\<lambda>e. a_hash e = h) (acells st q))\<rparr>
                      in if acells s q = [] then s\<lparr>awaiting := (awaiting s)(k := None)\<rparr> else s))
      in deleteRows delOk (awaitingRowOf agentId sessionId h) st')"

definition getAwaitingDepth :: "string \<Rightarrow> string \<Rightarrow> RetryQueue \<Rightarrow> nat" where
  "getAwaitingDepth agentId sessionId st =
     (case awaiting st (ak agentId sessionId) of None \<Rightarrow> 0 | Some q \<Rightarrow> length (acells st q))"

datatype ParkResult = Parked | NotParked string "nat option"

definition PERMANENT_PARK_FAILURES :: "string set" where
  "PERMANENT_PARK_FAILURES = {''owning_agent_not_found''}"

text \<open>
  What follows one await of \<open>drainAwaitingToPark\<close>: \<open>q\<close> is the array it holds, \<open>entry\<close> the object
  it offered; the accumulator is the number parked and the longest retry-after.
\<close>

definition dropAwaiting :: "bool \<Rightarrow> string \<Rightarrow> string \<Rightarrow> nat \<Rightarrow> AwaitingContentEntry \<Rightarrow> RetryQueue \<Rightarrow> RetryQueue" where
  "dropAwaiting delOk agentId sessionId q entry st =
     deleteRows delOk (awaitingRowOf agentId sessionId (a_hash entry))
       (st\<lparr>acells := (acells st)(q := removeFirst (\<lambda>e. a_id e = a_id entry) (acells st q))\<rparr>)"

definition parkResult ::
  "bool \<Rightarrow> string \<Rightarrow> string \<Rightarrow> nat \<Rightarrow> AwaitingContentEntry \<Rightarrow> ParkResult \<Rightarrow> (nat \<times> nat) \<times> RetryQueue \<Rightarrow>
   (nat \<times> nat) \<times> RetryQueue" where
  "parkResult delOk agentId sessionId q entry result acc =
     (case acc of ((parked, maxRetryAfterMs), st) \<Rightarrow>
      case result of
        Parked \<Rightarrow> ((parked + 1, maxRetryAfterMs), dropAwaiting delOk agentId sessionId q entry st)
      | NotParked err retryAfter \<Rightarrow>
          let m = (case retryAfter of None \<Rightarrow> maxRetryAfterMs | Some ms \<Rightarrow> max maxRetryAfterMs ms) in
          if err \<in> PERMANENT_PARK_FAILURES
          then ((parked, m), dropAwaiting delOk agentId sessionId q entry st)
          else ((parked, m), st))"

definition parkFinish :: "string \<Rightarrow> string \<Rightarrow> nat \<Rightarrow> RetryQueue \<Rightarrow> RetryQueue" where
  "parkFinish agentId sessionId q st =
     (if acells st q = [] then st\<lparr>awaiting := (awaiting st)(ak agentId sessionId := None)\<rparr> else st)"

text \<open>The whole drain when nothing else runs in between; the retry-after is \<open>None\<close> when not called back.\<close>

definition drainAwaitingToPark ::
  "(AwaitingContentEntry \<Rightarrow> ParkResult) \<Rightarrow> string \<Rightarrow> string \<Rightarrow> RetryQueue \<Rightarrow> (nat \<times> nat option) \<times> RetryQueue" where
  "drainAwaitingToPark parkFn agentId sessionId st =
     (case awaiting st (ak agentId sessionId) of
        None \<Rightarrow> ((0, None), st)
      | Some q \<Rightarrow>
          if acells st q = [] then ((0, None), st)
          else let ((parked, m), st') =
                 foldl (\<lambda>acc entry. parkResult True agentId sessionId q entry (parkFn entry) acc) ((0, 0), st) (acells st q)
               in ((parked, if m > 0 then Some m else None), parkFinish agentId sessionId q st'))"

end
