(* ===== verification/Retry_Queue_Claims.thy ===== *)
theory Retry_Queue_Claims
  imports Retry_Queue
begin

text \<open>
  The send queue and its table agree as long as the statements of the enqueues and drains succeed:
  every state so reached can be rebuilt from the table alone, queues are bounded, and draining is in
  order. An enqueue the table refuses is in memory only. Three interleavings and overlaps lose
  content. Each is a lemma or theorem.
\<close>

section \<open>The invariant\<close>

definition strip :: "RetryQueueEntry \<Rightarrow> RetryQueueEntry" where
  "strip e = e\<lparr>e_id := 0\<rparr>"

definition queueRow :: "string \<Rightarrow> Row \<Rightarrow> bool" where
  "queueRow sid r \<longleftrightarrow> r_session r = sid \<and> \<not> r_awaiting r"

abbreviation queueRows :: "string \<Rightarrow> Row list \<Rightarrow> Row list" where
  "queueRows sid rs \<equiv> filter (queueRow sid) rs"

definition refs_ok :: "RetryQueue \<Rightarrow> bool" where
  "refs_ok st \<longleftrightarrow>
     (\<forall>s s' q. queues st s = Some q \<longrightarrow> queues st s' = Some q \<longrightarrow> s = s') \<and>
     (\<forall>s q. queues st s = Some q \<longrightarrow> q < fresh st) \<and>
     (\<forall>s q. queues st s = Some q \<longrightarrow> distinct (map e_id (cells st q)) \<and> (\<forall>e \<in> set (cells st q). e_id e < fresh st))"

definition rows_ok :: "(string \<Rightarrow> nat) \<Rightarrow> Row list \<Rightarrow> bool" where
  "rows_ok counter rs \<longleftrightarrow>
     (\<forall>sid. sorted_wrt (<) (map r_position (queueRows sid rs)) \<and> distinct (map r_nonce (queueRows sid rs)) \<and>
        (\<forall>r \<in> set (queueRows sid rs). r_position r \<le> counter sid \<and> r_agent r = None))"

definition mirrored :: "RetryQueue \<Rightarrow> bool" where
  "mirrored st \<longleftrightarrow> (\<forall>sid. map strip (getSessionEntries sid st) = map entryOfRow (queueRows sid (rows st)))"

definition bounded :: "RetryQueue \<Rightarrow> bool" where
  "bounded st \<longleftrightarrow> (\<forall>sid. length (getSessionEntries sid st) \<le> RETRY_QUEUE_CAP)"

definition synced :: "RetryQueue \<Rightarrow> bool" where
  "synced st \<longleftrightarrow> refs_ok st \<and> rows_ok (counterAt st) (rows st) \<and> mirrored st \<and> bounded st"

lemma entries_queueRef: "getSessionEntries s (snd (queueRef sid st)) = getSessionEntries s st"
  if "refs_ok st"
  using that by (auto simp: getSessionEntries_def queueRef_def refs_ok_def split: option.splits)

lemma queueRef_facts:
  assumes "refs_ok st"
  shows "refs_ok (snd (queueRef sid st))"
    and "queues (snd (queueRef sid st)) sid = Some (fst (queueRef sid st))"
    and "cells (snd (queueRef sid st)) (fst (queueRef sid st)) = getSessionEntries sid st"
    and "rows (snd (queueRef sid st)) = rows st" and "counters (snd (queueRef sid st)) = counters st"
    and "awaiting (snd (queueRef sid st)) = awaiting st" and "acells (snd (queueRef sid st)) = acells st"
proof -
  show "refs_ok (snd (queueRef sid st))"
    using assms unfolding queueRef_def refs_ok_def
    by (auto split: option.splits if_splits) (metis less_irrefl less_SucI less_Suc_eq)+
qed (use assms in \<open>auto simp: queueRef_def getSessionEntries_def split: option.splits\<close>)

lemma entries_set:
  assumes "refs_ok st" and "queues st sid = Some q"
  shows "getSessionEntries s (st\<lparr>cells := (cells st)(q := xs)\<rparr>) = (if s = sid then xs else getSessionEntries s st)"
  using assms unfolding getSessionEntries_def refs_ok_def
  by (auto split: option.splits)

lemma refs_set:
  assumes "refs_ok st" and "queues st sid = Some q" and "distinct (map e_id xs)" and "\<forall>e \<in> set xs. e_id e < fresh st"
  shows "refs_ok (st\<lparr>cells := (cells st)(q := xs)\<rparr>)"
  using assms unfolding refs_ok_def by auto

lemma refs_push:
  assumes "refs_ok st" and "queues st sid = Some q"
  shows "refs_ok (pushEntry q e st)"
  using assms unfolding refs_ok_def pushEntry_def by (auto simp: less_Suc_eq) (metis less_irrefl)+

lemma entries_push:
  assumes "refs_ok st" and "queues st sid = Some q"
  shows "getSessionEntries s (pushEntry q e st) =
    (if s = sid then getSessionEntries sid st @ [e\<lparr>e_id := fresh st\<rparr>] else getSessionEntries s st)"
  using assms unfolding getSessionEntries_def refs_ok_def pushEntry_def
  by (auto split: option.splits)

text \<open>Only these fields matter to the entries.\<close>

lemma entries_cong: "queues a = queues b \<Longrightarrow> cells a = cells b \<Longrightarrow> getSessionEntries s a = getSessionEntries s b"
  by (simp add: getSessionEntries_def split: option.splits)

lemma refs_grow:
  "refs_ok a \<Longrightarrow> queues b = queues a \<Longrightarrow> cells b = cells a \<Longrightarrow> fresh a \<le> fresh b \<Longrightarrow> refs_ok b"
  unfolding refs_ok_def by (simp, meson less_le_trans)

lemma entries_pushAwaiting [simp]: "getSessionEntries s (pushAwaiting q e st) = getSessionEntries s st"
  by (rule entries_cong) (simp_all add: pushAwaiting_def)

lemma refs_cong: "queues a = queues b \<Longrightarrow> cells a = cells b \<Longrightarrow> fresh a = fresh b \<Longrightarrow> refs_ok a = refs_ok b"
  by (simp add: refs_ok_def)

section \<open>Enqueueing\<close>

lemma queueRows_delete_position:
  assumes "rows_ok c rs" and "map strip es = map entryOfRow (queueRows sid rs)" and "es = e # rest"
  shows "queueRows s (filter (\<lambda>r. \<not> (r_session r = sid \<and> r_position r = e_position e)) rs) =
    (if s = sid then tl (queueRows sid rs) else queueRows s rs)"
proof (cases "s = sid")
  case False
  then show ?thesis by (auto simp: queueRow_def intro: filter_cong)
next
  case True
  from assms(2,3) obtain r rs' where q: "queueRows sid rs = r # rs'" and r: "entryOfRow r = strip e"
    by (cases "queueRows sid rs") auto
  have p: "r_position r = e_position e"
    using arg_cong [OF r, of e_position] by (simp add: entryOfRow_def strip_def)
  have "sorted_wrt (<) (map r_position (r # rs'))" using assms(1) unfolding rows_ok_def q [symmetric] by blast
  then have "x \<in> set rs' \<Longrightarrow> r_position x \<noteq> e_position e" for x using p by auto
  then have "filter (\<lambda>r. r_position r \<noteq> e_position e) (r # rs') = rs'" using p by (simp add: filter_id_conv)
  moreover have "queueRows sid (filter (\<lambda>r. \<not> (r_session r = sid \<and> r_position r = e_position e)) rs) =
      filter (\<lambda>r. r_position r \<noteq> e_position e) (queueRows sid rs)"
    by (auto simp: queueRow_def intro: filter_cong)
  ultimately show ?thesis using True q by simp
qed

lemma rows_ok_filter: "rows_ok c rs \<Longrightarrow> rows_ok c (filter P rs)"
proof -
  have *: "queueRows s (filter P rs) = filter P (queueRows s rs)" for s by (simp add: conj_commute)
  show "rows_ok c rs \<Longrightarrow> rows_ok c (filter P rs)"
    unfolding rows_ok_def *
    by (auto simp: sorted_wrt_map sorted_wrt_filter simp del: filter_filter intro: distinct_map_filter)
qed

lemma rows_ok_snoc:
  assumes "rows_ok c rs" and "r_position row = c sid + 1" and "r_session row = sid" and "\<not> r_awaiting row"
    and "r_agent row = None" and "\<not> list_ex (conflicts row) rs"
  shows "rows_ok (c(sid := c sid + 1)) (rs @ [row])"
proof -
  have new: "r_nonce row \<notin> r_nonce ` set (queueRows sid rs)"
  proof
    assume "r_nonce row \<in> r_nonce ` set (queueRows sid rs)"
    then obtain x where "x \<in> set (queueRows sid rs)" "r_nonce row = r_nonce x" by auto
    moreover then have "r_agent x = None" using assms(1) by (auto simp: rows_ok_def)
    ultimately have "conflicts row x" using assms by (auto simp: conflicts_def queueRow_def)
    with \<open>x \<in> set (queueRows sid rs)\<close> assms(6) show False by (auto simp: list_ex_iff)
  qed
  have b: "x \<in> set (queueRows sid rs) \<Longrightarrow> r_position x \<le> c sid" for x using assms(1) by (auto simp: rows_ok_def)
  show ?thesis
    unfolding rows_ok_def
  proof
    fix s
    show "sorted_wrt (<) (map r_position (queueRows s (rs @ [row]))) \<and>
        distinct (map r_nonce (queueRows s (rs @ [row]))) \<and>
        (\<forall>r \<in> set (queueRows s (rs @ [row])). r_position r \<le> (c(sid := c sid + 1)) s \<and> r_agent r = None)"
    proof (cases "s = sid")
      case True
      have "queueRow sid row" using assms(3,4) by (simp add: queueRow_def)
      moreover have "sorted_wrt (<) (map r_position (queueRows sid rs))" "distinct (map r_nonce (queueRows sid rs))"
        "\<forall>r \<in> set (queueRows sid rs). r_position r \<le> c sid \<and> r_agent r = None"
        using assms(1) by (auto simp: rows_ok_def)
      ultimately show ?thesis
        using True assms(2,5) new b by (auto simp: sorted_wrt_append less_Suc_eq_le le_SucI)
    next
      case False
      with assms show ?thesis by (auto simp: rows_ok_def queueRow_def)
    qed
  qed
qed

lemma evict_synced:
  assumes "synced st" and "queues st sid = Some q"
  shows "synced (evictOldest True sid q st) \<and> length (getSessionEntries sid (evictOldest True sid q st)) < RETRY_QUEUE_CAP \<and>
    queues (evictOldest True sid q st) = queues st \<and> counters (evictOldest True sid q st) = counters st \<and>
    (\<forall>r \<in> set (rows (evictOldest True sid q st)). r \<in> set (rows st))"
proof (cases "length (cells st q) \<ge> RETRY_QUEUE_CAP")
  case False
  with assms show ?thesis by (simp add: evictOldest_def getSessionEntries_def)
next
  case True
  have es: "getSessionEntries sid st = cells st q" using assms(2) by (simp add: getSessionEntries_def)
  obtain e rest where c: "cells st q = e # rest" using True by (cases "cells st q") (auto simp: RETRY_QUEUE_CAP_def)
  have ok: "refs_ok st" "rows_ok (counterAt st) (rows st)" "mirrored st" "bounded st"
    using assms(1) by (auto simp: synced_def)
  define st1 where "st1 = st\<lparr>rows := filter (\<lambda>r. \<not> (r_session r = sid \<and> r_position r = e_position e)) (rows st)\<rparr>"
  have ev: "evictOldest True sid q st = st1\<lparr>cells := (cells st1)(q := rest)\<rparr>"
    using True c by (simp add: evictOldest_def deleteRows_def st1_def Let_def)
  have r1: "refs_ok st1" using ok(1) by (simp add: st1_def refs_ok_def)
  have q1: "queues st1 sid = Some q" using assms(2) by (simp add: st1_def)
  have ent: "getSessionEntries s (evictOldest True sid q st) = (if s = sid then rest else getSessionEntries s st)" for s
    unfolding ev entries_set [OF r1 q1] by (simp add: st1_def getSessionEntries_def split: option.splits)
  have "distinct (map e_id (cells st q)) \<and> (\<forall>x \<in> set (cells st q). e_id x < fresh st)"
    using ok(1) assms(2) unfolding refs_ok_def by blast
  then have "distinct (map e_id rest)" "\<forall>x \<in> set rest. e_id x < fresh st1"
    using c by (auto simp: st1_def)
  then have "refs_ok (evictOldest True sid q st)" unfolding ev by (rule refs_set [OF r1 q1])
  moreover have "rows_ok (counterAt (evictOldest True sid q st)) (rows (evictOldest True sid q st))"
    using rows_ok_filter [OF ok(2)] by (simp add: ev st1_def counterAt_def [abs_def])
  moreover have "mirrored (evictOldest True sid q st)"
    unfolding mirrored_def ent
  proof
    fix s
    have m: "map strip (getSessionEntries sid st) = map entryOfRow (queueRows sid (rows st))"
      using ok(3) by (simp add: mirrored_def)
    have "queueRows s (rows (evictOldest True sid q st)) = (if s = sid then tl (queueRows sid (rows st)) else queueRows s (rows st))"
      using queueRows_delete_position [OF ok(2) m, of e rest s] es c by (simp add: ev st1_def)
    moreover have "map strip rest = map entryOfRow (tl (queueRows sid (rows st)))"
      using arg_cong [OF m, of tl] es c by (simp add: map_tl)
    ultimately show "map strip (if s = sid then rest else getSessionEntries s st) =
        map entryOfRow (queueRows s (rows (evictOldest True sid q st)))"
      using ok(3) by (simp add: mirrored_def)
  qed
  moreover have l: "length rest < RETRY_QUEUE_CAP"
    using ok(4) es c by (auto simp: bounded_def dest: spec [of _ sid])
  moreover have "bounded (evictOldest True sid q st)"
    using ok(4) l by (simp add: bounded_def ent)
  ultimately show ?thesis
    by (simp add: synced_def ent) (simp add: ev st1_def)
qed

lemma asStored_newRow [simp]: "asStored (newRow now sid h b p) = newRow now sid h b p"
  by (simp add: asStored_def nullIfEmpty_def newRow_def)

lemma asStored_keeps [simp]:
  "r_session (asStored row) = r_session row" "r_agent (asStored row) = r_agent row"
  "r_hash (asStored row) = r_hash row" "r_awaiting (asStored row) = r_awaiting row"
  by (simp_all add: asStored_def)

definition nonceFree :: "string \<Rightarrow> string \<Rightarrow> RetryQueue \<Rightarrow> bool" where
  "nonceFree sid nonceHex st \<longleftrightarrow>
     \<not> list_ex (\<lambda>r. (r_agent r = None \<or> r_agent r = Some '''') \<and> r_session r = sid \<and> r_nonce r = nonceHex) (rows st)"

lemma synced_queueRef:
  assumes "synced st"
  shows "synced (snd (queueRef sid st))"
proof -
  have r: "refs_ok st" using assms by (simp add: synced_def)
  have c: "counterAt (snd (queueRef sid st)) = counterAt st"
    by (intro ext) (simp add: counterAt_def queueRef_facts(5) [OF r])
  show ?thesis
    using assms queueRef_facts [OF r] entries_queueRef [OF r]
    by (simp add: synced_def mirrored_def bounded_def c)
qed

lemma append_synced:
  assumes "synced st" and q: "queues st sid = Some q" and len: "length (getSessionEntries sid st) < RETRY_QUEUE_CAP"
    and free: "nonceFree sid nonceHex st" and blob: "blob \<noteq> []"
  shows "synced (appendEntry True now sid nonceHex blob q st)"
proof -
  let ?p = "Suc (counterAt st sid)"
  let ?row = "newRow now sid nonceHex blob ?p" and ?entry = "newEntry now sid nonceHex blob ?p"
  define st1 where "st1 = st\<lparr>counters := (counters st)(sid \<mapsto> ?p), rows := rows st @ [?row]\<rparr>"
  have ok: "refs_ok st" "rows_ok (counterAt st) (rows st)" "mirrored st" "bounded st"
    using assms(1) by (auto simp: synced_def)
  have nc: "\<not> list_ex (conflicts ?row) (rows st)"
    using free by (auto simp: list_ex_iff nonceFree_def conflicts_def newRow_def split: option.splits)
  moreover have "r_blob ?row \<noteq> []" using blob by (simp add: newRow_def)
  ultimately have eq: "appendEntry True now sid nonceHex blob q st = pushEntry q ?entry st1"
    by (simp add: appendEntry_def Let_def insertRow_def st1_def)
  have r1: "refs_ok st1" and q1: "queues st1 sid = Some q"
    and ent1: "getSessionEntries s st1 = getSessionEntries s st" for s
    using ok(1) q by (simp_all add: st1_def refs_ok_def getSessionEntries_def split: option.splits)
  have ent: "getSessionEntries s (pushEntry q ?entry st1) =
      (if s = sid then getSessionEntries sid st @ [?entry\<lparr>e_id := fresh st1\<rparr>] else getSessionEntries s st)" for s
    using entries_push [OF r1 q1] ent1 by simp
  have c: "counterAt (pushEntry q ?entry st1) = (counterAt st)(sid := counterAt st sid + 1)"
    by (intro ext) (simp add: counterAt_def pushEntry_def st1_def)
  have rw: "rows (pushEntry q ?entry st1) = rows st @ [?row]" by (simp add: pushEntry_def st1_def)
  have "rows_ok (counterAt (pushEntry q ?entry st1)) (rows (pushEntry q ?entry st1))"
    unfolding c rw by (rule rows_ok_snoc [OF ok(2) _ _ _ _ nc]) (simp_all add: newRow_def)
  moreover have "mirrored (pushEntry q ?entry st1)"
    unfolding mirrored_def ent rw
  proof
    fix s
    have "strip (?entry\<lparr>e_id := fresh st1\<rparr>) = entryOfRow ?row"
      by (simp add: strip_def entryOfRow_def newEntry_def newRow_def)
    moreover have "queueRow s ?row \<longleftrightarrow> s = sid" by (auto simp: queueRow_def newRow_def)
    ultimately show "map strip (if s = sid then getSessionEntries sid st @ [?entry\<lparr>e_id := fresh st1\<rparr>]
        else getSessionEntries s st) = map entryOfRow (queueRows s (rows st @ [?row]))"
      using ok(3) by (simp add: mirrored_def)
  qed
  moreover have "bounded (pushEntry q ?entry st1)"
    unfolding bounded_def ent using ok(4) len by (simp add: bounded_def)
  ultimately show ?thesis
    using refs_push [OF r1 q1] by (simp add: synced_def eq)
qed

lemma enqueue_synced:
  assumes "synced st" and free: "nonceFree sid (bytesToHex nonce) st" and "blob \<noteq> []"
  shows "synced (enqueue True True now sid nonce blob st)"
proof -
  obtain q st1 where q: "queueRef sid st = (q, st1)" by (cases "queueRef sid st")
  have s1: "synced st1" using synced_queueRef [OF assms(1), of sid] q by simp
  have r0: "refs_ok st" using assms(1) by (simp add: synced_def)
  have f1: "queues st1 sid = Some q" "rows st1 = rows st" using queueRef_facts [OF r0, of sid] q by auto
  note ev = evict_synced [OF s1 f1(1)]
  then have "nonceFree sid (bytesToHex nonce) (evictOldest True sid q st1)"
    using free by (auto simp: nonceFree_def list_ex_iff f1)
  with ev have "synced (appendEntry True now sid (bytesToHex nonce) blob q (evictOldest True sid q st1))"
    using f1(1) assms(3) by (intro append_synced) auto
  then show ?thesis by (simp add: enqueue_def q)
qed

section \<open>Draining\<close>

lemma entry_ids:
  "refs_ok st \<Longrightarrow> queues st sid = Some q \<Longrightarrow> distinct (map e_id (cells st q)) \<and> (\<forall>e \<in> set (cells st q). e_id e < fresh st)"
  unfolding refs_ok_def by blast

lemma head_row:
  assumes "synced st" and "queues st sid = Some q" and "cells st q = e # es"
  obtains r rs where "queueRows sid (rows st) = r # rs" "strip e = entryOfRow r"
    "map strip es = map entryOfRow rs" "e_nonce e = r_nonce r" "e_attempts e = r_attempts r"
    "\<forall>x \<in> set rs. r_nonce x \<noteq> r_nonce r"
proof -
  have m: "map strip (e # es) = map entryOfRow (queueRows sid (rows st))"
    using assms by (auto simp: synced_def mirrored_def getSessionEntries_def dest: spec [of _ sid])
  then obtain r rs where q: "queueRows sid (rows st) = r # rs" and h: "strip e = entryOfRow r"
    and t: "map strip es = map entryOfRow rs"
    by (cases "queueRows sid (rows st)") auto
  have n: "e_nonce e = r_nonce r" using arg_cong [OF h, of e_nonce] by (simp add: strip_def entryOfRow_def)
  have a: "e_attempts e = r_attempts r" using arg_cong [OF h, of e_attempts] by (simp add: strip_def entryOfRow_def)
  have "distinct (map r_nonce (r # rs))"
    using assms(1) unfolding synced_def rows_ok_def q [symmetric] by blast
  then have "\<forall>x \<in> set rs. r_nonce x \<noteq> r_nonce r" by (metis distinct.simps(2) image_eqI list.set_map list.simps(9))
  from that [OF q h t n a this] show thesis .
qed

lemma delivered_synced:
  assumes s: "synced st" and q: "queues st sid = Some q" and c: "cells st q = e # es"
  shows "synced (drainDelivered True sid q e st)" and "cells (drainDelivered True sid q e st) q = es"
    and "queues (drainDelivered True sid q e st) = queues st"
    and "getSessionEntries s (drainDelivered True sid q e st) = (if s = sid then es else getSessionEntries s st)"
proof -
  define st1 where "st1 = st\<lparr>rows := filter (\<lambda>r. \<not> (r_session r = sid \<and> r_nonce r = e_nonce e)) (rows st)\<rparr>"
  have eq: "drainDelivered True sid q e st = st1\<lparr>cells := (cells st1)(q := es)\<rparr>"
    using c by (simp add: drainDelivered_def deleteRows_def Let_def st1_def)
  have ok: "refs_ok st" "rows_ok (counterAt st) (rows st)" "mirrored st" "bounded st" using s by (auto simp: synced_def)
  have r1: "refs_ok st1" and q1: "queues st1 sid = Some q" using ok(1) q by (simp_all add: st1_def refs_ok_def)
  show ent: "getSessionEntries s (drainDelivered True sid q e st) = (if s = sid then es else getSessionEntries s st)" for s
    unfolding eq entries_set [OF r1 q1] by (simp add: st1_def getSessionEntries_def split: option.splits)
  show "cells (drainDelivered True sid q e st) q = es" "queues (drainDelivered True sid q e st) = queues st"
    by (simp_all add: eq st1_def)
  obtain r rs where hr: "queueRows sid (rows st) = r # rs" "map strip es = map entryOfRow rs"
    "e_nonce e = r_nonce r" "\<forall>x \<in> set rs. r_nonce x \<noteq> r_nonce r"
    by (rule head_row [OF s q c])
  have "queueRows sid (rows st1) = filter (\<lambda>x. r_nonce x \<noteq> e_nonce e) (queueRows sid (rows st))"
    by (auto simp: st1_def queueRow_def intro: filter_cong)
  also have "\<dots> = rs" using hr by (auto simp: filter_id_conv)
  finally have qs: "queueRows sid (rows st1) = rs" .
  have qo: "queueRows x (rows st1) = queueRows x (rows st)" if "x \<noteq> sid" for x
    using that by (auto simp: st1_def queueRow_def intro: filter_cong)
  have "refs_ok (st1\<lparr>cells := (cells st1)(q := es)\<rparr>)"
    using entry_ids [OF ok(1) q] c by (intro refs_set [OF r1 q1]) (auto simp: st1_def)
  moreover have "rows_ok (counterAt st) (rows st1)" unfolding st1_def using rows_ok_filter [OF ok(2)] by simp
  moreover have "mirrored (drainDelivered True sid q e st)"
    using ok(3) hr(2) qs qo unfolding mirrored_def ent by (simp add: eq)
  moreover have "bounded (drainDelivered True sid q e st)"
    using ok(4) c q unfolding bounded_def ent by (auto simp: getSessionEntries_def dest: spec [of _ sid])
  ultimately show "synced (drainDelivered True sid q e st)"
    by (simp add: synced_def eq) (simp add: counterAt_def [abs_def] st1_def)
qed

lemma failed_synced:
  assumes s: "synced st" and q: "queues st sid = Some q" and c: "cells st q = e # es"
  shows "synced (drainFailed True sid q e st)"
    and "queues (drainFailed True sid q e st) = queues st"
    and "getSessionEntries s (drainFailed True sid q e st) =
      (if s = sid then e\<lparr>e_attempts := Suc (e_attempts e)\<rparr> # es else getSessionEntries s st)"
proof -
  let ?n = "Suc (e_attempts e)"
  have ok: "refs_ok st" "rows_ok (counterAt st) (rows st)" "mirrored st" "bounded st" using s by (auto simp: synced_def)
  have ids: "distinct (map e_id (cells st q))" "\<forall>e \<in> set (cells st q). e_id e < fresh st"
    using entry_ids [OF ok(1) q] by auto
  have cur: "currentAttempts q e st = e_attempts e" by (simp add: currentAttempts_def c)
  have cell: "map (\<lambda>x. if e_id x = e_id e then x\<lparr>e_attempts := ?n\<rparr> else x) (cells st q) = e\<lparr>e_attempts := ?n\<rparr> # es"
  proof -
    have "\<forall>x \<in> set es. e_id x \<noteq> e_id e" using ids(1) c by (auto simp: image_iff)
    then show ?thesis by (simp add: c map_idI)
  qed
  define st1 where "st1 = st\<lparr>rows := map (\<lambda>r. if r_session r = sid \<and> r_nonce r = e_nonce e
    then r\<lparr>r_attempts := ?n\<rparr> else r) (rows st)\<rparr>"
  have eq: "drainFailed True sid q e st = st1\<lparr>cells := (cells st1)(q := e\<lparr>e_attempts := ?n\<rparr> # es)\<rparr>"
    using cell by (simp add: drainFailed_def cur Let_def st1_def)
  have r1: "refs_ok st1" and q1: "queues st1 sid = Some q" using ok(1) q by (simp_all add: st1_def refs_ok_def)
  show ent: "getSessionEntries s (drainFailed True sid q e st) =
      (if s = sid then e\<lparr>e_attempts := ?n\<rparr> # es else getSessionEntries s st)" for s
    unfolding eq entries_set [OF r1 q1] by (simp add: st1_def getSessionEntries_def split: option.splits)
  show "queues (drainFailed True sid q e st) = queues st" by (simp add: eq st1_def)
  obtain r rs where hr: "queueRows sid (rows st) = r # rs" "strip e = entryOfRow r" "map strip es = map entryOfRow rs"
    "e_nonce e = r_nonce r" "\<forall>x \<in> set rs. r_nonce x \<noteq> r_nonce r"
    by (rule head_row [OF s q c])
  have qf: "queueRows x (rows st1) = map (\<lambda>r. if r_session r = sid \<and> r_nonce r = e_nonce e
      then r\<lparr>r_attempts := ?n\<rparr> else r) (queueRows x (rows st))" for x
    unfolding st1_def by (simp add: filter_map comp_def) (auto intro!: arg_cong [where f = "map _"] filter_cong simp: queueRow_def)
  have qs: "queueRows sid (rows st1) = r\<lparr>r_attempts := ?n\<rparr> # rs"
  proof -
    have "r_session r = sid" using hr(1) by (metis Cons_eq_filterD queueRow_def)
    then show ?thesis using hr by (auto simp: qf intro: map_idI)
  qed
  have qo: "queueRows x (rows st1) = queueRows x (rows st)" if "x \<noteq> sid" for x
    unfolding qf using that by (intro map_idI) (auto simp: queueRow_def)
  have keep: "map r_position (queueRows x (rows st1)) = map r_position (queueRows x (rows st))"
    "map r_nonce (queueRows x (rows st1)) = map r_nonce (queueRows x (rows st))" for x
    unfolding qf by (auto simp: comp_def if_distrib cong: if_cong)
  have "refs_ok (st1\<lparr>cells := (cells st1)(q := e\<lparr>e_attempts := ?n\<rparr> # es)\<rparr>)"
    using ids c by (intro refs_set [OF r1 q1]) (auto simp: st1_def)
  moreover have "rows_ok (counterAt st) (rows st1)"
    using ok(2) unfolding rows_ok_def keep unfolding qf by (auto split: if_splits)
  moreover have "mirrored (drainFailed True sid q e st)"
  proof -
    have "strip (e\<lparr>e_attempts := ?n\<rparr>) = entryOfRow (r\<lparr>r_attempts := ?n\<rparr>)"
    proof -
      have "strip (e\<lparr>e_attempts := ?n\<rparr>) = (strip e)\<lparr>e_attempts := ?n\<rparr>" by (simp add: strip_def)
      also have "\<dots> = entryOfRow (r\<lparr>r_attempts := ?n\<rparr>)" unfolding hr(2) by (simp add: entryOfRow_def)
      finally show ?thesis .
    qed
    with ok(3) hr(3) qs qo show ?thesis unfolding mirrored_def ent by (simp add: eq)
  qed
  moreover have "bounded (drainFailed True sid q e st)"
    using ok(4) c q unfolding bounded_def ent by (auto simp: getSessionEntries_def dest: spec [of _ sid])
  ultimately show "synced (drainFailed True sid q e st)"
    by (simp add: synced_def eq) (simp add: counterAt_def [abs_def] st1_def)
qed

lemma drainLoop_spec:
  assumes "synced st" and "queues st sid = Some q"
  shows "\<exists>n st'. drainLoop send i sid q st = (i + n, st') \<and> synced st' \<and> queues st' = queues st \<and>
    n \<le> length (cells st q) \<and> (\<forall>k < n. send (i + k) (e_blob (cells st q ! k))) \<and>
    (n < length (cells st q) \<longrightarrow> \<not> send (i + n) (e_blob (cells st q ! n))) \<and>
    map e_blob (cells st' q) = map e_blob (drop n (cells st q)) \<and>
    (\<forall>s. s \<noteq> sid \<longrightarrow> getSessionEntries s st' = getSessionEntries s st)"
  using assms
proof (induction "length (cells st q)" arbitrary: st i)
  case 0
  then show ?case by (subst drainLoop.simps) simp
next
  case (Suc m)
  then obtain e es where c: "cells st q = e # es" by (cases "cells st q") auto
  show ?case
  proof (cases "send i (e_blob e)")
    case False
    note f = failed_synced [OF Suc.prems c]
    have q': "queues (drainFailed True sid q e st) sid = Some q" using f(2) Suc.prems(2) by simp
    have "map e_blob (cells (drainFailed True sid q e st) q) = map e_blob (cells st q)"
      using f(3) [of sid] q' by (simp add: getSessionEntries_def c)
    with False f c show ?thesis by (subst drainLoop.simps) (simp add: exI [of _ 0])
  next
    case True
    let ?st = "drainDelivered True sid q e st"
    note d = delivered_synced [OF Suc.prems c]
    have q': "queues ?st sid = Some q" using d(3) Suc.prems(2) by simp
    have "m = length (cells ?st q)" using Suc.hyps(2) c d(2) by simp
    from Suc.hyps(1) [OF this d(1) q', of "Suc i"] obtain n st' where
      n: "drainLoop send (Suc i) sid q ?st = (Suc i + n, st')" "synced st'" "queues st' = queues st"
      "n \<le> length es" "\<forall>k < n. send (Suc i + k) (e_blob (es ! k))"
      "n < length es \<longrightarrow> \<not> send (Suc i + n) (e_blob (es ! n))"
      "map e_blob (cells st' q) = map e_blob (drop n es)"
      "\<forall>s. s \<noteq> sid \<longrightarrow> getSessionEntries s st' = getSessionEntries s ?st"
      using d(2,3) by auto
    have "drainLoop send i sid q st = (i + Suc n, st')"
      using True c n(1) by (subst drainLoop.simps) simp
    moreover have "\<forall>k < Suc n. send (i + k) (e_blob (cells st q ! k))"
      using True c n(5) by (auto simp: less_Suc_eq_0_disj)
    ultimately show ?thesis using n c d(4) by (intro exI [of _ "Suc n"] exI [of _ st']) simp
  qed
qed

lemma finish_synced:
  assumes "synced st" and "queues st sid = Some q"
  shows "synced (drainFinish sid q st)" and "getSessionEntries s (drainFinish sid q st) = getSessionEntries s st"
proof -
  show ent: "getSessionEntries s (drainFinish sid q st) = getSessionEntries s st" for s
    using assms(2) by (auto simp: drainFinish_def getSessionEntries_def split: option.splits)
  have "refs_ok (drainFinish sid q st)"
    using assms(1) by (auto simp: drainFinish_def synced_def refs_ok_def)
  with assms(1) ent show "synced (drainFinish sid q st)"
    by (simp add: synced_def mirrored_def bounded_def)
      (simp add: drainFinish_def counterAt_def [abs_def])
qed

lemma drainSession_spec:
  assumes "synced st" and "drainSession send sid st = (n, st')"
  shows "synced st' \<and> n \<le> getSessionDepth sid st \<and>
    (\<forall>k < n. send k (e_blob (getSessionEntries sid st ! k))) \<and>
    (n < getSessionDepth sid st \<longrightarrow> \<not> send n (e_blob (getSessionEntries sid st ! n))) \<and>
    map e_blob (getSessionEntries sid st') = map e_blob (drop n (getSessionEntries sid st)) \<and>
    (\<forall>s. s \<noteq> sid \<longrightarrow> getSessionEntries s st' = getSessionEntries s st)"
proof (cases "queues st sid")
  case None
  with assms show ?thesis by (auto simp: drainSession_def getSessionDepth_def getSessionEntries_def)
next
  case (Some q)
  have g: "getSessionEntries sid st = cells st q" "getSessionDepth sid st = length (cells st q)"
    using Some by (simp_all add: getSessionEntries_def getSessionDepth_def)
  show ?thesis
  proof (cases "cells st q = []")
    case True
    with assms Some g show ?thesis by (auto simp: drainSession_def)
  next
    case False
    obtain k st1 where l: "drainLoop send 0 sid q st = (k, st1)" "synced st1" "queues st1 = queues st"
      "k \<le> length (cells st q)" "\<forall>j < k. send j (e_blob (cells st q ! j))"
      "k < length (cells st q) \<longrightarrow> \<not> send k (e_blob (cells st q ! k))"
      "map e_blob (cells st1 q) = map e_blob (drop k (cells st q))"
      "\<forall>s. s \<noteq> sid \<longrightarrow> getSessionEntries s st1 = getSessionEntries s st"
      using drainLoop_spec [OF assms(1) Some, of send 0] by auto
    have q1: "queues st1 sid = Some q" using l(3) Some by simp
    have r: "n = k" "st' = drainFinish sid q st1" using assms(2) Some False l(1) by (auto simp: drainSession_def)
    have "getSessionEntries sid st1 = cells st1 q" using q1 by (simp add: getSessionEntries_def)
    with l g r finish_synced [OF l(2) q1] show ?thesis by simp
  qed
qed

section \<open>The other operations\<close>

text \<open>An operation that leaves the queue rows, the queues and the arrays alone.\<close>

lemma synced_frame:
  assumes "synced st" and "queues st' = queues st" and "cells st' = cells st" and "fresh st \<le> fresh st'"
    and "\<And>sid. queueRows sid (rows st') = queueRows sid (rows st)"
    and "\<And>sid. counterAt st sid \<le> counterAt st' sid"
  shows "synced st' \<and> getSessionEntries sid st' = getSessionEntries sid st"
proof -
  have e: "getSessionEntries s st' = getSessionEntries s st" for s by (rule entries_cong) (use assms in simp_all)
  have "refs_ok st'" using assms(1-4) refs_grow [of st st'] unfolding synced_def by blast
  moreover have "rows_ok (counterAt st') (rows st')"
    using assms(1,6) unfolding synced_def rows_ok_def assms(5) by (meson le_trans)
  ultimately show ?thesis using assms(1) e by (simp add: synced_def mirrored_def bounded_def assms(5))
qed

lemma counterAt_upd: "counterAt (st\<lparr>counters := (counters st)(k \<mapsto> n)\<rparr>) s = (if s = k then n else counterAt st s)"
  by (simp add: counterAt_def)

lemma acked_synced:
  "synced st \<Longrightarrow> synced (markContentAcked ok a s h st) \<and>
     getSessionEntries sid (markContentAcked ok a s h st) = getSessionEntries sid st"
  by (rule synced_frame)
    (auto simp: markContentAcked_def deleteRows_def Let_def counterAt_def awaitingRowOf_def queueRow_def
      split: option.splits intro!: filter_cong)

lemma awaitingRef_frame:
  "queues (snd (awaitingRef k st)) = queues st" "cells (snd (awaitingRef k st)) = cells st"
  "fresh st \<le> fresh (snd (awaitingRef k st))" "rows (snd (awaitingRef k st)) = rows st"
  "counters (snd (awaitingRef k st)) = counters st"
  by (auto simp: awaitingRef_def split: option.splits)

lemma awaited_synced:
  assumes "synced st"
  shows "synced (fst (enqueueAwaitingContent ok now a s h blob s1 s2 alg sig lk st)) \<and>
    getSessionEntries sid (fst (enqueueAwaitingContent ok now a s h blob s1 s2 alg sig lk st)) = getSessionEntries sid st"
proof (rule synced_frame [OF assms])
  let ?st' = "fst (enqueueAwaitingContent ok now a s h blob s1 s2 alg sig lk st)"
  obtain q st1 where q: "awaitingRef (ak a s) st = (q, st1)" by (cases "awaitingRef (ak a s) st")
  have f: "queues st1 = queues st" "cells st1 = cells st" "fresh st \<le> fresh st1" "rows st1 = rows st"
    "counters st1 = counters st"
    using awaitingRef_frame [where k = "ak a s" and st = st] q by simp_all
  note d = enqueueAwaitingContent_def Let_def q f insertRow_def pushAwaiting_def
  show "queues ?st' = queues st" "cells ?st' = cells st" "fresh st \<le> fresh ?st'"
    using f(3) by (simp_all add: d le_SucI)
  show "queueRows x (rows ?st') = queueRows x (rows st)" for x by (simp add: d queueRow_def)
  show "counterAt st x \<le> counterAt ?st' x" for x
    by (simp add: d counterAt_def split: option.splits)
qed

lemma parked_synced:
  assumes "synced st" and "drainAwaitingToPark parkFn a s st = (r, st')"
  shows "synced st' \<and> getSessionEntries sid st' = getSessionEntries sid st"
proof -
  have drop: "synced (dropAwaiting True a s q e t) \<and> getSessionEntries x (dropAwaiting True a s q e t) = getSessionEntries x t"
    if "synced t" for q e t x
    by (rule synced_frame [OF that])
      (auto simp: dropAwaiting_def deleteRows_def counterAt_def awaitingRowOf_def queueRow_def intro!: filter_cong)
  have step: "synced (snd (parkResult True a s q e res acc)) \<and>
      getSessionEntries x (snd (parkResult True a s q e res acc)) = getSessionEntries x (snd acc)"
    if "synced (snd acc)" for q e res acc x
    using that drop by (cases acc) (auto simp: parkResult_def Let_def split: ParkResult.splits prod.splits)
  have loop: "synced (snd (foldl (\<lambda>acc e. parkResult True a s q e (parkFn e) acc) acc es)) \<and>
      getSessionEntries x (snd (foldl (\<lambda>acc e. parkResult True a s q e (parkFn e) acc) acc es)) = getSessionEntries x (snd acc)"
    if "synced (snd acc)" for q acc es x
    using that by (induction es arbitrary: acc) (simp_all add: step)
  have fin: "synced (parkFinish a s q t) \<and> getSessionEntries x (parkFinish a s q t) = getSessionEntries x t"
    if "synced t" for q t x
    by (rule synced_frame [OF that]) (auto simp: parkFinish_def counterAt_def)
  show ?thesis
  proof (cases "awaiting st (ak a s)")
    case None
    with assms show ?thesis by (simp add: drainAwaitingToPark_def)
  next
    case (Some q)
    let ?l = "foldl (\<lambda>acc e. parkResult True a s q e (parkFn e) acc) ((0, 0), st) (acells st q)"
    show ?thesis
    proof (cases "acells st q = []")
      case True
      with assms Some show ?thesis by (simp add: drainAwaitingToPark_def)
    next
      case False
      have "st' = parkFinish a s q (snd ?l)"
        using assms(2) Some False by (auto simp: drainAwaitingToPark_def Let_def split: prod.splits)
      with loop [of "((0, 0), st)" q "acells st q"] assms(1) fin show ?thesis by simp
    qed
  qed
qed

lemma reap_synced:
  assumes "synced st" and "reapTerminalSession selOk delOk sid st = (n, st')"
  shows "synced st'"
proof -
  have ok: "refs_ok st" "rows_ok (counterAt st) (rows st)" "mirrored st" "bounded st"
    using assms(1) by (auto simp: synced_def)
  define gone where "gone = st\<lparr>rows := filter (\<lambda>r. \<not> queueRow sid r) (rows st),
    queues := (queues st)(sid := None), counters := (counters st)(sid := None)\<rparr>"
  have q: "queueRows x (rows gone) = (if x = sid then [] else queueRows x (rows st))" for x
    by (auto simp: gone_def queueRow_def filter_empty_conv intro!: filter_cong)
  have "refs_ok gone" using ok(1) by (auto simp: gone_def refs_ok_def)
  moreover have "rows_ok (counterAt gone) (rows gone)"
    using ok(2) unfolding rows_ok_def q by (simp add: counterAt_def gone_def, blast)
  moreover have e: "getSessionEntries x gone = (if x = sid then [] else getSessionEntries x st)" for x
    by (simp add: gone_def getSessionEntries_def split: option.splits)
  moreover have "mirrored gone" using ok(3) by (simp add: mirrored_def e q)
  moreover have "bounded gone" using ok(4) by (simp add: bounded_def e)
  ultimately have g: "synced gone" by (simp add: synced_def)
  have "st' = st \<or> st' = gone"
  proof (cases "filter (\<lambda>r. r_session r = sid \<and> \<not> r_awaiting r) (rows st) = []")
    case True
    then have "filter (\<lambda>r. \<not> queueRow sid r) (rows st) = rows st"
      by (auto simp: filter_empty_conv queueRow_def intro: filter_True)
    with True assms(2) show ?thesis
      by (auto simp: reapTerminalSession_def gone_def Let_def split: if_splits)
  next
    case False
    then show ?thesis using assms(2)
      by (auto simp: reapTerminalSession_def gone_def deleteRows_def queueRow_def Let_def split: if_splits)
  qed
  with g assms(1) show ?thesis by auto
qed

section \<open>Start-up\<close>

lemma load_fold:
  assumes "refs_ok st" and "fold loadRow rs st = st'"
  shows "refs_ok st' \<and> rows st' = rows st \<and>
    map strip (getSessionEntries sid st') = map strip (getSessionEntries sid st) @ map entryOfRow (queueRows sid rs) \<and>
    counterAt st sid \<le> counterAt st' sid \<and> (\<forall>r \<in> set (queueRows sid rs). r_position r \<le> counterAt st' sid)"
  using assms
proof (induction rs arbitrary: st)
  case (Cons row rs)
  let ?k = "r_session row"
  have bump: "refs_ok (bumpCounter k p st)" "rows (bumpCounter k p st) = rows st"
    "getSessionEntries s (bumpCounter k p st) = getSessionEntries s st"
    "counterAt st s \<le> counterAt (bumpCounter k p st) s" "p \<le> counterAt (bumpCounter k p st) k" for k p s
    using Cons.prems(1) by (auto simp: bumpCounter_def refs_ok_def getSessionEntries_def counterAt_upd split: option.splits)
  have step: "refs_ok (loadRow row st) \<and> rows (loadRow row st) = rows st \<and>
      map strip (getSessionEntries sid (loadRow row st)) =
        map strip (getSessionEntries sid st) @ map entryOfRow (queueRows sid [row]) \<and>
      counterAt st sid \<le> counterAt (loadRow row st) sid \<and>
      (queueRow sid row \<longrightarrow> r_position row \<le> counterAt (loadRow row st) sid)"
  proof (cases "r_awaiting row")
    case True
    show ?thesis
    proof (cases "r_agent row")
      case None
      with True Cons.prems(1) show ?thesis by (simp add: loadRow_def queueRow_def)
    next
      case (Some a)
      let ?b = "bumpCounter (ak a ?k) (r_position row) st"
      obtain q st1 where q: "awaitingRef (ak a ?k) ?b = (q, st1)" by (cases "awaitingRef (ak a ?k) ?b")
      have f: "queues st1 = queues ?b" "cells st1 = cells ?b" "fresh ?b \<le> fresh st1" "rows st1 = rows ?b"
        "counters st1 = counters ?b"
        using awaitingRef_frame [where k = "ak a ?k" and st = ?b] q by simp_all
      have l: "loadRow row st = pushAwaiting q (awaitingOfRow a row) st1"
        using True Some q by (simp add: loadRow_def)
      have "refs_ok (pushAwaiting q (awaitingOfRow a row) st1)"
        using f by (intro refs_grow [OF bump(1) [of "ak a ?k" "r_position row"]]) (simp_all add: pushAwaiting_def le_SucI)
      moreover have "getSessionEntries s (pushAwaiting q (awaitingOfRow a row) st1) = getSessionEntries s st" for s
        using bump(3) [of s "ak a ?k" "r_position row"] entries_cong [OF f(1,2), of s] by simp
      moreover have "counterAt (pushAwaiting q (awaitingOfRow a row) st1) s = counterAt ?b s" for s
        by (simp add: counterAt_def pushAwaiting_def f)
      ultimately show ?thesis using True bump f(4) unfolding l by (simp add: queueRow_def pushAwaiting_def)
    qed
  next
    case False
    let ?b = "bumpCounter ?k (r_position row) st"
    have rb: "refs_ok ?b" by (rule bump(1))
    obtain q st1 where q: "queueRef ?k ?b = (q, st1)" by (cases "queueRef ?k ?b")
    have f: "refs_ok st1" "queues st1 ?k = Some q" "rows st1 = rows ?b" "counters st1 = counters ?b"
      using queueRef_facts [OF rb, of ?k] q by simp_all
    have e1: "getSessionEntries s st1 = getSessionEntries s st" for s
      using entries_queueRef [OF rb, of s ?k] q bump(3) by simp
    have l: "loadRow row st = pushEntry q (entryOfRow row) st1" using False q by (simp add: loadRow_def)
    have c: "counterAt (pushEntry q (entryOfRow row) st1) s = counterAt ?b s" for s
      by (simp add: counterAt_def pushEntry_def f)
    have "strip (entryOfRow row\<lparr>e_id := fresh st1\<rparr>) = entryOfRow row" by (simp add: strip_def entryOfRow_def)
    moreover have "queueRow sid row \<longleftrightarrow> sid = ?k" using False by (auto simp: queueRow_def)
    ultimately show ?thesis
      unfolding l entries_push [OF f(1,2)] c
      using refs_push [OF f(1,2)] bump e1 f(3) by (auto simp: pushEntry_def)
  qed
  from Cons.prems(2) have "fold loadRow rs (loadRow row st) = st'" by simp
  from Cons.IH [OF _ this] step show ?case by (auto intro: order_trans)
qed simp

lemma queueRows_sorted:
  assumes "rows_ok c rs"
  shows "queueRows sid (sort_key (\<lambda>r. (r_session r, r_position r)) rs) = queueRows sid rs"
proof -
  have "sorted_wrt (<) (map r_position (queueRows sid rs))" using assms by (simp add: rows_ok_def)
  then have "sorted (map (\<lambda>r. (r_session r, r_position r)) (queueRows sid rs))"
    unfolding sorted_wrt_map by (rule sorted_wrt_mono_rel [rotated]) (auto simp: queueRow_def less_eq_prod_def)
  then show ?thesis by (simp add: filter_sort sort_key_id_if_sorted)
qed

text \<open>A restart rebuilds every queue, in order, from the table.\<close>

lemma load_synced:
  assumes "synced st"
  shows "synced (loadFromDb st) \<and>
    map strip (getSessionEntries sid (loadFromDb st)) = map strip (getSessionEntries sid st)"
proof -
  let ?st0 = "st\<lparr>queues := Map.empty, counters := Map.empty, awaiting := Map.empty\<rparr>"
  have ok: "rows_ok (counterAt st) (rows st)" "mirrored st" "bounded st" using assms by (auto simp: synced_def)
  have r0: "refs_ok ?st0" by (simp add: refs_ok_def)
  have e0: "getSessionEntries s ?st0 = []" for s by (simp add: getSessionEntries_def)
  note l = load_fold [OF r0 refl, of "sort_key (\<lambda>r. (r_session r, r_position r)) (rows st)"]
  have q: "map strip (getSessionEntries s (loadFromDb st)) = map entryOfRow (queueRows s (rows st))" for s
    using l [of s] unfolding loadFromDb_def e0 queueRows_sorted [OF ok(1)] by simp
  have c: "\<forall>r \<in> set (queueRows s (rows st)). r_position r \<le> counterAt (loadFromDb st) s" for s
    using l [of s] unfolding loadFromDb_def queueRows_sorted [OF ok(1)] by blast
  have rw: "rows (loadFromDb st) = rows st" using l [of sid] by (simp add: loadFromDb_def)
  have m: "map strip (getSessionEntries s (loadFromDb st)) = map strip (getSessionEntries s st)" for s
    using q [of s] ok(2) by (simp add: mirrored_def)
  have "rows_ok (counterAt (loadFromDb st)) (rows (loadFromDb st))"
    using ok(1) c unfolding rows_ok_def rw by blast
  moreover have "mirrored (loadFromDb st)" using q by (simp add: mirrored_def rw)
  moreover have "bounded (loadFromDb st)"
    unfolding bounded_def
  proof
    fix s
    show "length (getSessionEntries s (loadFromDb st)) \<le> RETRY_QUEUE_CAP"
      using ok(3) map_eq_imp_length_eq [OF m [of s]] by (simp add: bounded_def)
  qed
  moreover have "refs_ok (loadFromDb st)" using l [of sid] by (simp add: loadFromDb_def)
  ultimately show ?thesis using m by (simp add: synced_def)
qed

section \<open>Reachable states\<close>

text \<open>
  The calls a daemon makes, one after the other. The flags say whether the statements of a call
  succeed: the eviction's delete and the insert of an enqueue, the select and the delete of a reap,
  the insert of awaiting content, the delete of an acknowledgement and the select of the start-up
  reconciliation. The statements of a drain and of a park drain succeed.
\<close>

datatype rq_event =
    Enqueue bool bool nat string bytes bytes
  | Drain "nat \<Rightarrow> bytes \<Rightarrow> bool" string
  | Reap bool bool string
  | Reconcile bool "(string \<times> string) list"
  | Await bool nat string string bytes bytes "bytes option" "bytes option" "string option" "bytes option" "nat option"
  | Acked bool string string bytes
  | Park "AwaitingContentEntry \<Rightarrow> ParkResult" string string
  | Restart

fun rq_step :: "RetryQueue \<Rightarrow> rq_event \<Rightarrow> RetryQueue" where
  "rq_step st (Enqueue delOk insOk now sid nonce blob) = enqueue delOk insOk now sid nonce blob st"
| "rq_step st (Drain send sid) = snd (drainSession send sid st)"
| "rq_step st (Reap selOk delOk sid) = snd (reapTerminalSession selOk delOk sid st)"
| "rq_step st (Reconcile selOk sessions) = snd (reapAlreadyTerminalSessions selOk sessions st)"
| "rq_step st (Await insOk now a s h blob s1 s2 alg sig lk) =
     fst (enqueueAwaitingContent insOk now a s h blob s1 s2 alg sig lk st)"
| "rq_step st (Acked delOk a s h) = markContentAcked delOk a s h st"
| "rq_step st (Park parkFn a s) = snd (drainAwaitingToPark parkFn a s st)"
| "rq_step st Restart = loadFromDb st"

text \<open>
  An enqueue is durable when its statements succeed: the database answers, the content is not empty
  and the nonce is not in the table for the session. Every other call is.
\<close>

fun durable_call :: "RetryQueue \<Rightarrow> rq_event \<Rightarrow> bool" where
  "durable_call st (Enqueue delOk insOk now sid nonce blob) \<longleftrightarrow>
     delOk \<and> insOk \<and> blob \<noteq> [] \<and> nonceFree sid (bytesToHex nonce) st"
| "durable_call st e \<longleftrightarrow> True"

fun durable_run :: "RetryQueue \<Rightarrow> rq_event list \<Rightarrow> bool" where
  "durable_run st [] \<longleftrightarrow> True"
| "durable_run st (e # es) \<longleftrightarrow> durable_call st e \<and> durable_run (rq_step st e) es"

lemma reconcile_synced:
  assumes "synced st"
  shows "synced (snd (reapAlreadyTerminalSessions selOk sessions st))"
proof -
  have "synced (snd (foldl (\<lambda>(total, s) (sid, status).
      let (n, s') = reapTerminalSession True True sid s in (total + n, s')) acc xs))"
    if "synced (snd acc)" for acc :: "nat \<times> RetryQueue" and xs :: "(string \<times> string) list"
    using that
  proof (induction xs arbitrary: acc)
    case (Cons x xs)
    obtain n s' where r: "reapTerminalSession True True (fst x) (snd acc) = (n, s')"
      by (cases "reapTerminalSession True True (fst x) (snd acc)")
    have "synced s'" by (rule reap_synced [OF Cons.prems r])
    with Cons.IH [of "(fst acc + n, s')"] r show ?case by (simp add: case_prod_beta Let_def)
  qed simp
  with assms show ?thesis by (simp add: reapAlreadyTerminalSessions_def)
qed

lemma rq_step_synced:
  assumes sy: "synced st" and d: "durable_call st e"
  shows "synced (rq_step st e)"
proof (cases e)
  case (Enqueue delOk insOk now sid nonce blob)
  with d have "nonceFree sid (bytesToHex nonce) st" "blob \<noteq> []" and ok: "delOk" "insOk" by simp_all
  from enqueue_synced [OF sy this(1,2)] ok Enqueue show ?thesis by simp
next
  case (Drain send sid)
  obtain n st' where dr: "drainSession send sid st = (n, st')" by (cases "drainSession send sid st")
  with drainSession_spec [OF sy dr] Drain show ?thesis by simp
next
  case (Reap selOk delOk sid)
  obtain n st' where r: "reapTerminalSession selOk delOk sid st = (n, st')"
    by (cases "reapTerminalSession selOk delOk sid st")
  with reap_synced [OF sy r] Reap show ?thesis by simp
next
  case (Park parkFn a s)
  obtain r st' where p: "drainAwaitingToPark parkFn a s st = (r, st')" by (cases "drainAwaitingToPark parkFn a s st")
  with parked_synced [OF sy p] Park show ?thesis by simp
qed (use sy in \<open>simp_all add: reconcile_synced awaited_synced acked_synced load_synced\<close>)

interpretation rq: machine "\<lambda>st e. if durable_call st e then rq_step st e else st" synced
  by unfold_locales (simp add: rq_step_synced)

lemma durable_fold:
  "durable_run st es \<Longrightarrow> foldl (\<lambda>st e. if durable_call st e then rq_step st e else st) st es = foldl rq_step st es"
  by (induction es arbitrary: st) simp_all

lemma synced_empty: "synced emptyQueue"
  by (auto simp: synced_def refs_ok_def rows_ok_def mirrored_def bounded_def emptyQueue_def getSessionEntries_def)

abbreviation reached :: "rq_event list \<Rightarrow> RetryQueue" where
  "reached es \<equiv> foldl rq_step emptyQueue es"

lemma reached_synced: "durable_run emptyQueue es \<Longrightarrow> synced (reached es)"
  using rq.run_inv [OF synced_empty, of es] by (simp add: durable_fold)

section \<open>Properties\<close>

text \<open>C35: Crash recovery of the send queue: after any run of enqueues, drains, reaps, awaiting
  content, acknowledgements, parking and restarts, one call after the other, in which every enqueue
  is durable (its statements succeed, its content is not empty, its nonce is not in the table for
  the session) and the statements of the drains succeed, rebuilding the maps from the table gives
  every session the queue it had in memory, entry for entry and in order, and no queue is longer
  than the cap. The statements of the other calls may fail.\<close>

theorem restart_restores_queues:
  assumes "durable_run emptyQueue es"
  shows "map strip (getSessionEntries sid (loadFromDb (reached es))) = map strip (getSessionEntries sid (reached es)) \<and>
    length (getSessionEntries sid (reached es)) \<le> RETRY_QUEUE_CAP"
  using load_synced [OF reached_synced [OF assms], of sid] reached_synced [OF assms]
  by (simp add: synced_def bounded_def)

definition sample_run :: "rq_event list" where
  "sample_run = [Enqueue True True 1 ''s'' [1] [2], Enqueue True True 2 ''s'' [3] [4], Reap False True ''s'', Restart]"

lemma sample_queue:
  "durable_run emptyQueue sample_run" "map e_blob (getSessionEntries ''s'' (reached sample_run)) = [[2], [4]]"
proof -
  let ?es = "[Enqueue True True 1 ''s'' [1] [2], Enqueue True True 2 ''s'' [3] [4]]"
  have n: "bytesToHex [3] \<noteq> bytesToHex [1]" by (simp add: bytesToHex_inj)
  note d = nonceFree_def emptyQueue_def enqueue_def queueRef_def evictOldest_def RETRY_QUEUE_CAP_def
    appendEntry_def Let_def insertRow_def newRow_def conflicts_def pushEntry_def newEntry_def counterAt_def
    reapTerminalSession_def asStored_def nullIfEmpty_def
  have a: "durable_run emptyQueue ?es" and b: "getSessionEntries ''s'' (reached ?es) \<noteq> []"
    "map e_blob (getSessionEntries ''s'' (reached ?es)) = [[2], [4]]"
    using n by (simp_all add: d getSessionEntries_def)
  have r: "reached sample_run = loadFromDb (reached ?es)"
    by (simp add: sample_run_def reapTerminalSession_def Let_def)
  from a show "durable_run emptyQueue sample_run" by (simp add: sample_run_def)
  from load_synced [OF reached_synced [OF a], of "''s''"]
  have "map strip (getSessionEntries ''s'' (reached sample_run)) = map strip (getSessionEntries ''s'' (reached ?es))"
    unfolding r by simp
  then have "map (e_blob \<circ> strip) (getSessionEntries ''s'' (reached sample_run)) =
      map (e_blob \<circ> strip) (getSessionEntries ''s'' (reached ?es))" by (metis map_map)
  with b(2) show "map e_blob (getSessionEntries ''s'' (reached sample_run)) = [[2], [4]]"
    by (simp add: comp_def strip_def)
qed

theorem restart_restores_queues_witness:
  "map strip (getSessionEntries ''s'' (loadFromDb (reached sample_run))) =
     map strip (getSessionEntries ''s'' (reached sample_run)) \<and>
   map e_blob (getSessionEntries ''s'' (reached sample_run)) = [[2], [4]]"
  using restart_restores_queues [OF sample_queue(1), of "''s''"] sample_queue(2) by simp

text \<open>The side condition is needed: an enqueue whose nonce is already in the table, whose content
  is empty or whose insert fails is queued in memory and nowhere else.\<close>

lemma enqueue_in_memory_only:
  assumes "refs_ok st" and "getSessionDepth sid st < RETRY_QUEUE_CAP"
    and "\<not> nonceFree sid (bytesToHex nonce) st \<or> blob = [] \<or> \<not> insOk"
  shows "rows (enqueue delOk insOk now sid nonce blob st) = rows st \<and>
    map e_blob (getSessionEntries sid (enqueue delOk insOk now sid nonce blob st)) =
      map e_blob (getSessionEntries sid st) @ [blob]"
proof -
  obtain q st1 where q: "queueRef sid st = (q, st1)" by (cases "queueRef sid st")
  have f: "refs_ok st1" "queues st1 sid = Some q" "cells st1 q = getSessionEntries sid st" "rows st1 = rows st"
    using queueRef_facts [OF assms(1), of sid] q by simp_all
  have len: "\<not> length (cells st1 q) \<ge> RETRY_QUEUE_CAP"
    using assms(2) f(3) by (simp add: getSessionDepth_def getSessionEntries_def split: option.splits)
  have "insertRow insOk (newRow now sid (bytesToHex nonce) blob p) (st1\<lparr>counters := c\<rparr>) = None" for p c
    using assms(3) by (auto simp: insertRow_def newRow_def nonceFree_def list_ex_iff conflicts_def f(4))
  then have "enqueue delOk insOk now sid nonce blob st =
      pushEntry q (newEntry now sid (bytesToHex nonce) blob (counterAt st1 sid + 1))
        (st1\<lparr>counters := (counters st1)(sid \<mapsto> counterAt st1 sid + 1)\<rparr>)"
    using len by (simp add: enqueue_def q evictOldest_def appendEntry_def Let_def)
  then show ?thesis using f by (simp add: pushEntry_def getSessionEntries_def newEntry_def)
qed

text \<open>Draining is in order and loses nothing: when nothing else runs in between, a drain sends
  the queued blobs from the front, stops at the first failure, removes exactly the delivered
  prefix, keeps the rest in order and touches no other session.\<close>

theorem drain_is_fifo:
  assumes "durable_run emptyQueue es"
  shows "case drainSession send sid (reached es) of (n, st') \<Rightarrow>
     let before = getSessionEntries sid (reached es) in
     n \<le> length before \<and> (\<forall>k \<in> {..<n}. send k (e_blob (before ! k))) \<and>
     (n = length before \<or> \<not> send n (e_blob (before ! n))) \<and>
     map e_blob (getSessionEntries sid st') = map e_blob (drop n before) \<and>
     (\<forall>s \<in> - {sid}. getSessionEntries s st' = getSessionEntries s (reached es))"
proof -
  obtain n st' where d: "drainSession send sid (reached es) = (n, st')" by (cases "drainSession send sid (reached es)")
  have "getSessionDepth sid st = length (getSessionEntries sid st)" for st
    by (simp add: getSessionDepth_def getSessionEntries_def split: option.splits)
  with drainSession_spec [OF reached_synced [OF assms] d] show ?thesis by (auto simp: d Let_def)
qed

theorem drain_is_fifo_witness:
  "case drainSession (\<lambda>_ _. True) ''s'' (reached sample_run) of (n, st') \<Rightarrow>
     n \<le> length (getSessionEntries ''s'' (reached sample_run))"
proof (cases "drainSession (\<lambda>_ _. True) ''s'' (reached sample_run)")
  case (Pair n st')
  show ?thesis
    using drain_is_fifo [OF sample_queue(1), where send = "\<lambda>_ _. True" and sid = "''s''"]
    unfolding Pair prod.case Let_def by (elim conjE)
qed

text \<open>A full send queue can delete content of the other queue: the eviction deletes by session
  and position, and the two queues count positions separately, so the row of unacknowledged content
  at the evicted position is gone from the table while it is still in memory; a restart loses it.\<close>

theorem eviction_drops_awaiting_row:
  assumes "refs_ok st" and "length (getSessionEntries sid st) \<ge> RETRY_QUEUE_CAP"
    and "x \<in> set (rows st)" and "r_awaiting x" and "r_session x = sid"
    and "r_position x = e_position (hd (getSessionEntries sid st))"
  shows "x \<notin> set (rows (enqueue True True now sid nonce blob st)) \<and>
    awaiting (enqueue True True now sid nonce blob st) = awaiting st \<and>
    acells (enqueue True True now sid nonce blob st) = acells st"
proof -
  obtain q st1 where q: "queueRef sid st = (q, st1)" by (cases "queueRef sid st")
  have f: "cells st1 q = getSessionEntries sid st" "rows st1 = rows st" "awaiting st1 = awaiting st" "acells st1 = acells st"
    using queueRef_facts [OF assms(1), of sid] q by simp_all
  have "x \<notin> set (rows (evictOldest True sid q st1))"
    using assms f by (simp add: evictOldest_def deleteRows_def Let_def)
  moreover have "awaiting (evictOldest True sid q st1) = awaiting st" "acells (evictOldest True sid q st1) = acells st"
    by (simp_all add: evictOldest_def deleteRows_def Let_def f)
  moreover have "x \<noteq> newRow now sid h b p" for h b p using assms(4) by (auto simp: newRow_def)
  ultimately show ?thesis
    by (simp add: enqueue_def q appendEntry_def Let_def insertRow_def pushEntry_def)
qed

definition full_queue :: RetryQueue where
  "full_queue = emptyQueue\<lparr>rows := [(newRow 0 ''s'' ''aa'' [9] 1)\<lparr>r_agent := Some ''a'', r_awaiting := True\<rparr>],
     queues := [''s'' \<mapsto> 0], cells := (\<lambda>_. map (\<lambda>i. (newEntry 0 ''s'' [] [] (Suc i))\<lparr>e_id := i\<rparr>) [0..<RETRY_QUEUE_CAP]),
     fresh := RETRY_QUEUE_CAP\<rparr>"

lemma full_queue_facts:
  "refs_ok full_queue" "length (getSessionEntries ''s'' full_queue) = RETRY_QUEUE_CAP"
  "e_position (hd (getSessionEntries ''s'' full_queue)) = 1"
proof -
  show "refs_ok full_queue"
    by (auto simp: refs_ok_def full_queue_def RETRY_QUEUE_CAP_def newEntry_def comp_def split: if_splits)
  show "length (getSessionEntries ''s'' full_queue) = RETRY_QUEUE_CAP"
    "e_position (hd (getSessionEntries ''s'' full_queue)) = 1"
    by (simp_all add: full_queue_def getSessionEntries_def RETRY_QUEUE_CAP_def newEntry_def hd_map)
qed

theorem eviction_drops_awaiting_row_witness:
  "\<exists>x. x \<in> set (rows full_queue) \<and> x \<notin> set (rows (enqueue True True 5 ''s'' [1] [2] full_queue))"
proof -
  let ?x = "(newRow 0 ''s'' ''aa'' [9] 1)\<lparr>r_agent := Some ''a'', r_awaiting := True\<rparr>"
  have x: "?x \<in> set (rows full_queue)" by (simp add: full_queue_def)
  have "?x \<notin> set (rows (enqueue True True 5 ''s'' [1] [2] full_queue)) \<and>
    awaiting (enqueue True True 5 ''s'' [1] [2] full_queue) = awaiting full_queue \<and>
    acells (enqueue True True 5 ''s'' [1] [2] full_queue) = acells full_queue"
    by (rule eviction_drops_awaiting_row [OF full_queue_facts(1) _ x])
      (simp_all add: full_queue_facts newRow_def)
  with x show ?thesis by blast
qed

text \<open>An enqueue while a drain of a full queue waits for its send drops an entry that was never
  sent: the eviction removes the entry in flight, and the drain, once the send succeeds, removes
  the next one.\<close>

theorem enqueue_during_drain_drops_unsent:
  assumes "refs_ok st" and "queues st sid = Some q" and "cells st q = e0 # e1 # rest"
    and "length (cells st q) = RETRY_QUEUE_CAP"
  shows "\<exists>new. cells (drainDelivered True sid q e0 (enqueue True True now sid nonce blob st)) q = rest @ [new] \<and>
    e_blob new = blob"
proof -
  have "queueRef sid st = (q, st)" using assms(2) by (simp add: queueRef_def)
  moreover have "cells (evictOldest True sid q st) q = e1 # rest"
    using assms(3,4) by (simp add: evictOldest_def deleteRows_def Let_def)
  ultimately show ?thesis
    by (auto simp: enqueue_def appendEntry_def Let_def drainDelivered_def deleteRows_def pushEntry_def
        insertRow_def newEntry_def split: option.splits)
qed

theorem enqueue_during_drain_drops_unsent_witness:
  "\<exists>new. cells (drainDelivered True ''s'' 0 (hd (cells full_queue 0))
      (enqueue True True 5 ''s'' [1] [2] full_queue)) 0 = drop 2 (cells full_queue 0) @ [new] \<and> e_blob new = [2]"
proof -
  have c: "cells full_queue 0 = hd (cells full_queue 0) # cells full_queue 0 ! 1 # drop 2 (cells full_queue 0)"
    and l: "length (cells full_queue 0) = RETRY_QUEUE_CAP"
  proof -
    have l: "length (cells full_queue 0) = 1000" by (simp add: full_queue_def RETRY_QUEUE_CAP_def)
    then obtain a b xs where "cells full_queue 0 = a # b # xs"
      by (metis (no_types, lifting) length_Cons length_0_conv list.exhaust numeral_eq_Suc pred_numeral_simps(2)
          nat.inject zero_neq_numeral One_nat_def numeral_eq_one_iff semiring_norm(84,86))
    then show "cells full_queue 0 = hd (cells full_queue 0) # cells full_queue 0 ! 1 # drop 2 (cells full_queue 0)"
      by simp
    show "length (cells full_queue 0) = RETRY_QUEUE_CAP" by (simp add: l RETRY_QUEUE_CAP_def)
  qed
  show ?thesis
    by (rule enqueue_during_drain_drops_unsent [OF full_queue_facts(1) _ c l]) (simp add: full_queue_def)
qed

text \<open>An acknowledgement and a new send while a park drain waits make the daemon forget the new
  content: the acknowledgement empties and removes the array the drain holds, the new content goes
  into a new array, and the drain, seeing its own array empty, removes the map entry of the new
  one. The row is still in the table, so the content is stranded until the next restart.\<close>

theorem park_drain_forgets_new_content:
  assumes "awaiting st (ak a s) = Some q" and "acells st q = [e]" and "a_hash e = bytesToHex h"
    and "q < fresh st" and "a \<noteq> ''''" and "bytesToHex h2 \<noteq> bytesToHex h"
    and st1: "st1 = markContentAcked True a s h st"
    and st2: "enqueueAwaitingContent True now a s h2 blob s1 s2 alg sig lk st1 = (st2, Inr True)"
    and st3: "st3 = parkFinish a s q (snd (parkResult True a s q e Parked ((0, 0), st2)))"
  shows "getAwaitingDepth a s st2 = 1 \<and> getAwaitingDepth a s st3 = 0 \<and>
    (\<exists>row \<in> set (rows st3). awaitingRowOf a s (bytesToHex h2) row)"
proof -
  let ?k = "ak a s" and ?h2 = "bytesToHex h2"
  have one: "awaiting st1 ?k = None" "fresh st1 = fresh st" "acells st1 q = []"
    using assms(1-3) by (simp_all add: st1 markContentAcked_def deleteRows_def Let_def)
  define st1' where "st1' = st1\<lparr>awaiting := (awaiting st1)(?k \<mapsto> fresh st), acells := (acells st1)(fresh st := []),
    fresh := Suc (fresh st)\<rparr>"
  have ref: "awaitingRef ?k st1 = (fresh st, st1')" using one by (simp add: awaitingRef_def st1'_def)
  have two: "awaiting st2 ?k = Some (fresh st)" "length (acells st2 (fresh st)) = 1" "acells st2 q = []"
    "\<exists>row \<in> set (rows st2). awaitingRowOf a s ?h2 row"
    using st2 assms(4,5) one(3)
    by (auto simp: enqueueAwaitingContent_def Let_def ref st1'_def insertRow_def pushAwaiting_def awaitingRowOf_def
        split: if_splits option.splits)
  have "awaitingRowOf a s ?h2 row \<Longrightarrow> \<not> awaitingRowOf a s (bytesToHex h) row" for row
    using assms(6) by (auto simp: awaitingRowOf_def)
  with two assms(3) have "\<exists>row \<in> set (rows st3). awaitingRowOf a s ?h2 row"
    by (auto simp: st3 parkResult_def parkFinish_def dropAwaiting_def deleteRows_def)
  with two show ?thesis
    by (simp add: getAwaitingDepth_def st3 parkResult_def parkFinish_def dropAwaiting_def deleteRows_def)
qed

definition one_awaiting :: RetryQueue where
  "one_awaiting = fst (enqueueAwaitingContent True 1 ''a'' ''s'' [1] [9] None None None None None emptyQueue)"

theorem park_drain_forgets_new_content_witness:
  "\<exists>st2 e. enqueueAwaitingContent True 2 ''a'' ''s'' [2] [9] None None None None None
      (markContentAcked True ''a'' ''s'' [1] one_awaiting) = (st2, Inr True) \<and>
    getAwaitingDepth ''a'' ''s'' st2 = 1 \<and>
    getAwaitingDepth ''a'' ''s'' (parkFinish ''a'' ''s'' 0 (snd (parkResult True ''a'' ''s'' 0 e Parked ((0, 0), st2)))) = 0"
proof -
  have q: "awaiting one_awaiting (ak ''a'' ''s'') = Some 0"
    and "length (acells one_awaiting 0) = 1" "a_hash (hd (acells one_awaiting 0)) = bytesToHex [1]" "fresh one_awaiting = 2"
    by (simp_all add: one_awaiting_def enqueueAwaitingContent_def awaitingRef_def emptyQueue_def insertRow_def
        pushAwaiting_def Let_def)
  then obtain e where e: "acells one_awaiting 0 = [e]" "a_hash e = bytesToHex [1]" "0 < fresh one_awaiting"
    by (metis One_nat_def length_0_conv length_Suc_conv list.sel(1) zero_less_numeral)
  let ?st1 = "markContentAcked True ''a'' ''s'' [1] one_awaiting"
  obtain st2 where st2: "enqueueAwaitingContent True 2 ''a'' ''s'' [2] [9] None None None None None ?st1 = (st2, Inr True)"
    by (simp add: one_awaiting_def markContentAcked_def enqueueAwaitingContent_def awaitingRef_def emptyQueue_def insertRow_def
        pushAwaiting_def Let_def deleteRows_def awaitingRowOf_def conflicts_def)
  have "bytesToHex [2] \<noteq> bytesToHex [1]" by (simp add: bytesToHex_inj)
  from park_drain_forgets_new_content [OF q e(1,2,3) _ this refl st2 refl] st2 show ?thesis by blast
qed

end
