(* ===== verification/Holder_Registry.thy ===== *)
theory Holder_Registry
  imports Prelude
begin

text \<open>
  Who may act as an agent: \<open>core/daemon/src/holder-registry.ts\<close>. An agent has at most one holder;
  it is reachable while a listener, a channel or a wait exists for it, and every change of that is
  reported through \<open>onReachability\<close>. The agent roster (\<open>agentKey\<close>) is an argument \<open>K\<close>, the clock an
  argument \<open>now\<close>, the reports a log in the state. Times stay numbers where \<open>#view\<close> renders them with
  \<open>toISOString\<close>.
\<close>

section \<open>State\<close>

record Caller =
  c_key :: string
  c_label :: string

record HolderView =
  view_label :: string
  view_since :: nat
  view_last_active :: nat

text \<open>\<open>channels\<close> is a \<open>Set\<close> and \<open>waits\<close> a \<open>Map\<close>, both in insertion order.\<close>

record Holder =
  h_agentName :: string
  h_callerKey :: string
  h_label :: string
  h_since :: nat
  h_lastActive :: nat
  h_channels :: "string list"
  h_waits :: "(string \<times> nat) list"

record Listener =
  l_connection :: string
  l_agentName :: string

datatype HoldCheck = HoldOk | AgentHeld HolderView | AgentDisplaced HolderView string

record Displaced =
  d_callerKey :: string
  d_label :: string
  d_channels :: "string list"

datatype TakeResult = Taken "Displaced option" "string option" | TakeRefused HolderView

record HolderRegistry =
  holders :: "(string \<times> Holder) list"
  listeners :: "(string \<times> Listener) list"
  displaced :: "(string \<times> (string \<times> string) list) list"
  reports :: "(string \<times> bool) list"

type_synonym agent_key = "string \<Rightarrow> string option"

section \<open>Reads\<close>

definition view :: "Holder \<Rightarrow> HolderView" where
  "view h = \<lparr>view_label = h_label h, view_since = h_since h, view_last_active = h_lastActive h\<rparr>"

definition reachable :: "string \<Rightarrow> HolderRegistry \<Rightarrow> bool" where
  "reachable key st =
     (if map_of (listeners st) key \<noteq> None then True
      else case map_of (holders st) key of
        None \<Rightarrow> False
      | Some h \<Rightarrow> h_channels h \<noteq> [] \<or> h_waits h \<noteq> [])"

definition holderAt :: "agent_key \<Rightarrow> string \<Rightarrow> HolderRegistry \<Rightarrow> Holder option" where
  "holderAt K agentName st = (case K agentName of None \<Rightarrow> None | Some key \<Rightarrow> map_of (holders st) key)"

definition holderView :: "agent_key \<Rightarrow> string \<Rightarrow> HolderRegistry \<Rightarrow> HolderView option" where
  "holderView K agentName st = map_option view (holderAt K agentName st)"

definition isReachable :: "agent_key \<Rightarrow> string \<Rightarrow> HolderRegistry \<Rightarrow> bool" where
  "isReachable K agentName st = (case K agentName of None \<Rightarrow> False | Some key \<Rightarrow> reachable key st)"

definition heldBy :: "string \<Rightarrow> HolderRegistry \<Rightarrow> string option" where
  "heldBy callerKey st =
     map_option (\<lambda>(k, h). h_agentName h) (find (\<lambda>(k, h). h_callerKey h = callerKey) (holders st))"

definition mayAct :: "agent_key \<Rightarrow> string \<Rightarrow> Caller \<Rightarrow> HolderRegistry \<Rightarrow> bool" where
  "mayAct K agentName caller st =
     (case holderAt K agentName st of None \<Rightarrow> True | Some h \<Rightarrow> h_callerKey h = c_key caller)"

definition routeFor :: "agent_key \<Rightarrow> string \<Rightarrow> HolderRegistry \<Rightarrow> string list" where
  "routeFor K agentName st =
     (case K agentName of None \<Rightarrow> []
      | Some key \<Rightarrow>
          let out = (case map_of (holders st) key of None \<Rightarrow> [] | Some h \<Rightarrow> h_channels h) in
          case map_of (listeners st) key of
            None \<Rightarrow> out
          | Some l \<Rightarrow> if l_connection l \<notin> set out then out @ [l_connection l] else out)"

section \<open>Reporting\<close>

text \<open>\<open>#mutate\<close>: run a change and report every agent whose reachability it changed.\<close>

definition report :: "agent_key \<Rightarrow> HolderRegistry \<Rightarrow> string \<times> bool \<Rightarrow> HolderRegistry" where
  "report K st = (\<lambda>(name, was).
     let now = reachable (the (K name)) st in
     if now \<noteq> was then st\<lparr>reports := reports st @ [(name, now)]\<rparr> else st)"

definition mutate ::
  "agent_key \<Rightarrow> string list \<Rightarrow> (HolderRegistry \<Rightarrow> 'r \<times> HolderRegistry) \<Rightarrow> HolderRegistry \<Rightarrow> 'r \<times> HolderRegistry" where
  "mutate K agentNames fn st =
     (let before = foldl (\<lambda>m name. case K name of None \<Rightarrow> m
            | Some key \<Rightarrow> AList.update name (reachable key st) m) [] agentNames
      in case fn st of (result, st') \<Rightarrow> (result, foldl (report K) st' before))"

definition changed :: "agent_key \<Rightarrow> string list \<Rightarrow> (HolderRegistry \<Rightarrow> HolderRegistry) \<Rightarrow> HolderRegistry \<Rightarrow> HolderRegistry" where
  "changed K agentNames fn st = snd (mutate K agentNames (\<lambda>s. ((), fn s)) st)"

section \<open>Operations\<close>

text \<open>A refusal because of a displacement uses up its mark.\<close>

definition check :: "agent_key \<Rightarrow> string \<Rightarrow> Caller \<Rightarrow> HolderRegistry \<Rightarrow> HoldCheck \<times> HolderRegistry" where
  "check K agentName caller st =
     (case K agentName of
        None \<Rightarrow> (HoldOk, st)
      | Some key \<Rightarrow>
        (case map_of (holders st) key of
           None \<Rightarrow> (HoldOk, st)
         | Some h \<Rightarrow>
             if h_callerKey h = c_key caller then (HoldOk, st)
             else (case map_of (displaced st) (c_key caller) of
                 None \<Rightarrow> (AgentHeld (view h), st)
               | Some marks \<Rightarrow>
                   (case map_of marks key of
                      None \<Rightarrow> (AgentHeld (view h), st)
                    | Some by \<Rightarrow>
                        (let marks' = AList.delete key marks in
                         (AgentDisplaced (view h) by,
                          st\<lparr>displaced := (if marks' = [] then AList.delete (c_key caller) (displaced st)
                                           else AList.update (c_key caller) marks' (displaced st))\<rparr>))))))"

text \<open>The body of \<open>take\<close> inside \<open>#mutate\<close>. \<open>other\<close> is another agent the caller still holds.\<close>

definition takeBody ::
  "agent_key \<Rightarrow> nat \<Rightarrow> string \<Rightarrow> string \<Rightarrow> Caller \<Rightarrow> string option \<Rightarrow> Holder option \<Rightarrow> string option \<Rightarrow>
   HolderRegistry \<Rightarrow> TakeResult \<times> HolderRegistry" where
  "takeBody K now key agentName caller channel current other st =
     (let held = (case other of None \<Rightarrow> holders st
                  | Some p \<Rightarrow> (case K p of None \<Rightarrow> holders st | Some k \<Rightarrow> AList.delete k (holders st)));
          ousted = (case current of None \<Rightarrow> None
                    | Some h \<Rightarrow> if h_callerKey h \<noteq> c_key caller then Some h else None);
          marked = (case ousted of None \<Rightarrow> displaced st
                    | Some h \<Rightarrow>
                        (let marks = (case map_of (displaced st) (h_callerKey h) of None \<Rightarrow> [] | Some m \<Rightarrow> m)
                         in AList.update (h_callerKey h) (AList.update key (c_label caller) marks) (displaced st)));
          holder = (case current of
                      Some h \<Rightarrow> if h_callerKey h = c_key caller then h
                        else \<lparr>h_agentName = agentName, h_callerKey = c_key caller, h_label = c_label caller,
                               h_since = now, h_lastActive = now, h_channels = [], h_waits = []\<rparr>
                    | None \<Rightarrow> \<lparr>h_agentName = agentName, h_callerKey = c_key caller, h_label = c_label caller,
                               h_since = now, h_lastActive = now, h_channels = [], h_waits = []\<rparr>);
          holder' = holder\<lparr>h_lastActive := now,
             h_channels := (case channel of None \<Rightarrow> h_channels holder | Some ch \<Rightarrow> add_last ch (h_channels holder))\<rparr>
      in (Taken (map_option (\<lambda>h. \<lparr>d_callerKey = h_callerKey h, d_label = h_label h, d_channels = h_channels h\<rparr>) ousted) other,
          st\<lparr>holders := AList.update key holder' held,
             displaced := AList.map_entry (c_key caller) (AList.delete key) marked\<rparr>))"

text \<open>The empty string is no agent to JavaScript's \<open>&&\<close>.\<close>

definition otherHold :: "string \<Rightarrow> Caller \<Rightarrow> HolderRegistry \<Rightarrow> string option" where
  "otherHold agentName caller st =
     (case heldBy (c_key caller) st of
        None \<Rightarrow> None
      | Some p \<Rightarrow> if p \<noteq> '''' \<and> p \<noteq> agentName then Some p else None)"

definition take_hold ::
  "agent_key \<Rightarrow> nat \<Rightarrow> string \<Rightarrow> Caller \<Rightarrow> bool \<Rightarrow> string option \<Rightarrow> HolderRegistry \<Rightarrow> TakeResult \<times> HolderRegistry" where
  "take_hold K now agentName caller force channel st =
     (case K agentName of
        None \<Rightarrow> (Taken None None, st)
      | Some key \<Rightarrow>
        (let current = map_of (holders st) key;
             other = otherHold agentName caller st;
             body = takeBody K now key agentName caller channel current other;
             touched = agentName # (case other of None \<Rightarrow> [] | Some p \<Rightarrow> [p])
         in case current of
              None \<Rightarrow> mutate K touched body st
            | Some h \<Rightarrow>
                if h_callerKey h \<noteq> c_key caller \<and> \<not> force then (TakeRefused (view h), st)
                else mutate K touched body st))"

definition release :: "agent_key \<Rightarrow> string \<Rightarrow> Caller \<Rightarrow> HolderRegistry \<Rightarrow> bool \<times> HolderRegistry" where
  "release K agentName caller st =
     (case K agentName of
        None \<Rightarrow> (False, st)
      | Some key \<Rightarrow>
        (case map_of (holders st) key of
           None \<Rightarrow> (False, st)
         | Some h \<Rightarrow>
             if h_callerKey h \<noteq> c_key caller then (False, st)
             else (True, changed K [agentName] (\<lambda>s. s\<lparr>holders := AList.delete key (holders s)\<rparr>) st)))"

definition setListener :: "agent_key \<Rightarrow> string \<Rightarrow> string \<Rightarrow> HolderRegistry \<Rightarrow> HolderRegistry" where
  "setListener K agentName connectionId st =
     (case K agentName of
        None \<Rightarrow> st
      | Some key \<Rightarrow> changed K [agentName] (\<lambda>s. s\<lparr>listeners :=
          AList.update key \<lparr>l_connection = connectionId, l_agentName = agentName\<rparr> (listeners s)\<rparr>) st)"

definition dropListener :: "agent_key \<Rightarrow> string \<Rightarrow> string \<Rightarrow> HolderRegistry \<Rightarrow> bool \<times> HolderRegistry" where
  "dropListener K agentName connectionId st =
     (case K agentName of
        None \<Rightarrow> (False, st)
      | Some key \<Rightarrow>
          if map_option l_connection (map_of (listeners st) key) \<noteq> Some connectionId then (False, st)
          else (True, changed K [agentName] (\<lambda>s. s\<lparr>listeners := AList.delete key (listeners s)\<rparr>) st))"

text \<open>
  \<open>beginWait\<close> returns a function that ends the wait once; \<open>endWait\<close> is that function, with the
  \<open>key\<close>, caller and connection it closed over.
\<close>

definition waitOn :: "nat \<Rightarrow> string \<Rightarrow> string \<Rightarrow> HolderRegistry \<Rightarrow> HolderRegistry" where
  "waitOn now key connectionId s =
     s\<lparr>holders := AList.map_entry key (\<lambda>h. h\<lparr>h_lastActive := now,
        h_waits := AList.update connectionId
          ((case map_of (h_waits h) connectionId of None \<Rightarrow> 0 | Some n \<Rightarrow> n) + 1) (h_waits h)\<rparr>) (holders s)\<rparr>"

definition beginWait :: "agent_key \<Rightarrow> nat \<Rightarrow> string \<Rightarrow> Caller \<Rightarrow> string \<Rightarrow> HolderRegistry \<Rightarrow> HolderRegistry" where
  "beginWait K now agentName caller connectionId st =
     (case K agentName of
        None \<Rightarrow> st
      | Some key \<Rightarrow> changed K [agentName] (\<lambda>s.
          waitOn now key connectionId
            (if map_of (holders s) key = None then snd (take_hold K now agentName caller False None s) else s)) st)"

definition endWait :: "agent_key \<Rightarrow> string \<Rightarrow> string \<Rightarrow> Caller \<Rightarrow> string \<Rightarrow> HolderRegistry \<Rightarrow> HolderRegistry" where
  "endWait K key agentName caller connectionId st =
     changed K [agentName] (\<lambda>s.
       case map_of (holders s) key of
         None \<Rightarrow> s
       | Some h \<Rightarrow>
           if h_callerKey h \<noteq> c_key caller then s
           else let n = (case map_of (h_waits h) connectionId of None \<Rightarrow> 1 | Some n \<Rightarrow> n) - 1 in
             s\<lparr>holders := AList.map_entry key (\<lambda>h. h\<lparr>h_waits :=
                if n \<le> 0 then AList.delete connectionId (h_waits h)
                else AList.update connectionId n (h_waits h)\<rparr>) (holders s)\<rparr>) st"

definition touch :: "agent_key \<Rightarrow> nat \<Rightarrow> string \<Rightarrow> Caller \<Rightarrow> HolderRegistry \<Rightarrow> HolderRegistry" where
  "touch K now agentName caller st =
     (case K agentName of
        None \<Rightarrow> st
      | Some key \<Rightarrow>
        (case map_of (holders st) key of
           None \<Rightarrow> st
         | Some h \<Rightarrow>
             if h_callerKey h = c_key caller
             then st\<lparr>holders := AList.map_entry key (\<lambda>h. h\<lparr>h_lastActive := now\<rparr>) (holders st)\<rparr>
             else st))"

definition socketOf :: "string \<Rightarrow> string" where
  "socketOf connectionId = ''socket:'' @ connectionId"

definition onConnection :: "string \<Rightarrow> Holder \<Rightarrow> bool" where
  "onConnection connectionId h \<longleftrightarrow>
     h_callerKey h = socketOf connectionId \<or> connectionId \<in> set (h_channels h) \<or> map_of (h_waits h) connectionId \<noteq> None"

definition affectedBy :: "string \<Rightarrow> HolderRegistry \<Rightarrow> string list" where
  "affectedBy connectionId st =
     add_all (add_all [] (map (\<lambda>(k, h). h_agentName h) (filter (\<lambda>(k, h). onConnection connectionId h) (holders st))))
       (map (\<lambda>(k, l). l_agentName l) (filter (\<lambda>(k, l). l_connection l = connectionId) (listeners st)))"

definition withoutConnection :: "string \<Rightarrow> HolderRegistry \<Rightarrow> HolderRegistry" where
  "withoutConnection connectionId s =
     s\<lparr>holders := map (\<lambda>(k, h). (k, h\<lparr>h_channels := removeAll connectionId (h_channels h),
                                      h_waits := AList.delete connectionId (h_waits h)\<rparr>))
          (filter (\<lambda>(k, h). h_callerKey h \<noteq> socketOf connectionId) (holders s)),
        listeners := filter (\<lambda>(k, l). l_connection l \<noteq> connectionId) (listeners s)\<rparr>"

definition dropConnection :: "agent_key \<Rightarrow> string \<Rightarrow> HolderRegistry \<Rightarrow> HolderRegistry" where
  "dropConnection K connectionId st =
     (let affected = affectedBy connectionId st;
          st' = (if affected = [] then st else changed K affected (withoutConnection connectionId) st)
      in st'\<lparr>displaced := AList.delete (socketOf connectionId) (displaced st')\<rparr>)"

definition clearAgent :: "agent_key \<Rightarrow> string \<Rightarrow> HolderRegistry \<Rightarrow> HolderRegistry" where
  "clearAgent K agentName st =
     (case K agentName of
        None \<Rightarrow> st
      | Some key \<Rightarrow>
        (let st' = changed K [agentName] (\<lambda>s. s\<lparr>holders := AList.delete key (holders s),
               listeners := AList.delete key (listeners s)\<rparr>) st
         in st'\<lparr>displaced := map (\<lambda>(c, marks). (c, AList.delete key marks)) (displaced st')\<rparr>))"

end
