(* ===== verification/Holder_Registry_Claims.thy ===== *)
theory Holder_Registry_Claims
  imports Holder_Registry
begin

text \<open>
  The registry over any run of calls: a caller holds one agent at most, and the reports made so far
  always add up to the present reachability. The roster of agents is part of the run: an agent is
  added under a fresh name and key, and removed the way \<open>agent-handlers.ts\<close> does it, after
  \<open>clearAgent\<close>.
\<close>

section \<open>What the reports say\<close>

definition lastReport :: "string \<Rightarrow> (string \<times> bool) list \<Rightarrow> bool" where
  "lastReport n rs = foldl (\<lambda>acc (m, b). if m = n then b else acc) False rs"

lemma lastReport_simps [simp]:
  "lastReport n [] = False"
  "lastReport n (rs @ [(m, b)]) = (if m = n then b else lastReport n rs)"
  by (simp_all add: lastReport_def)

definition told :: "agent_key \<Rightarrow> HolderRegistry \<Rightarrow> bool" where
  "told K st \<longleftrightarrow> (\<forall>n. lastReport n (reports st) = isReachable K n st)"

lemma report_fields [simp]:
  "holders (report K st x) = holders st"
  "listeners (report K st x) = listeners st"
  "displaced (report K st x) = displaced st"
  by (simp_all add: report_def Let_def split: prod.split)

lemma foldl_report_fields [simp]:
  "holders (foldl (report K) st bs) = holders st"
  "listeners (foldl (report K) st bs) = listeners st"
  "displaced (foldl (report K) st bs) = displaced st"
  by (induction bs arbitrary: st) simp_all

lemma reachable_cong: "holders s = holders t \<Longrightarrow> listeners s = listeners t \<Longrightarrow> reachable k s = reachable k t"
  by (simp add: reachable_def)

lemma reachable_foldl_report [simp]: "reachable k (foldl (report K) st bs) = reachable k st"
  by (rule reachable_cong) simp_all

lemma reachable_report [simp]: "reachable k (report K st x) = reachable k st"
  by (rule reachable_cong) simp_all

lemma lastReport_foldl:
  "distinct (map fst bs) \<Longrightarrow>
   lastReport n (reports (foldl (report K) st bs)) =
     (case map_of bs n of
        None \<Rightarrow> lastReport n (reports st)
      | Some was \<Rightarrow> if reachable (the (K n)) st \<noteq> was then reachable (the (K n)) st else lastReport n (reports st))"
proof (induction bs arbitrary: st)
  case (Cons b bs)
  obtain m was where b: "b = (m, was)" by (cases b)
  have fresh: "map_of bs m = None" using Cons.prems b by (simp add: map_of_eq_None_iff)
  have one: "lastReport n (reports (report K st b)) =
      (if n = m \<and> reachable (the (K n)) st \<noteq> was then reachable (the (K n)) st else lastReport n (reports st))"
    by (cases "n = m") (simp_all add: b report_def Let_def)
  show ?case
  proof (cases "n = m")
    case True
    show ?thesis using Cons.IH [of "report K st b"] Cons.prems fresh one by (simp add: b True)
  next
    case False
    then show ?thesis using Cons.IH [of "report K st b"] Cons.prems one by (simp add: b split: option.split)
  qed
qed simp

definition reachBefore :: "agent_key \<Rightarrow> string list \<Rightarrow> HolderRegistry \<Rightarrow> (string \<times> bool) list" where
  "reachBefore K agentNames st =
     foldl (\<lambda>m name. case K name of None \<Rightarrow> m
            | Some key \<Rightarrow> AList.update name (reachable key st) m) [] agentNames"

lemma reachBefore_snoc:
  "reachBefore K (ns @ [n]) st =
     (case K n of None \<Rightarrow> reachBefore K ns st | Some key \<Rightarrow> AList.update n (reachable key st) (reachBefore K ns st))"
  by (simp add: reachBefore_def split: option.split)

lemma reachBefore_distinct: "distinct (map fst (reachBefore K ns st))"
  by (induction ns rule: rev_induct)
    (auto simp: reachBefore_snoc distinct_update split: option.split, simp add: reachBefore_def)

lemma reachBefore_map_of:
  "map_of (reachBefore K ns st) n =
     (if n \<in> set ns then (case K n of None \<Rightarrow> None | Some key \<Rightarrow> Some (reachable key st)) else None)"
  by (induction ns rule: rev_induct)
    (auto simp: reachBefore_snoc update_conv' split: option.split, simp_all add: reachBefore_def)

lemma mutate_eq:
  "mutate K ns fn st = (fst (fn st), foldl (report K) (snd (fn st)) (reachBefore K ns st))"
  by (simp add: mutate_def reachBefore_def Let_def split_beta)

lemma mutate_fields [simp]:
  "holders (snd (mutate K ns fn st)) = holders (snd (fn st))"
  "listeners (snd (mutate K ns fn st)) = listeners (snd (fn st))"
  "displaced (snd (mutate K ns fn st)) = displaced (snd (fn st))"
  "fst (mutate K ns fn st) = fst (fn st)"
  by (simp_all add: mutate_eq)

lemma changed_fields [simp]:
  "holders (changed K ns f st) = holders (f st)"
  "listeners (changed K ns f st) = listeners (f st)"
  "displaced (changed K ns f st) = displaced (f st)"
  by (simp_all add: changed_def)

text \<open>A change that reports agents outside \<open>ns\<close> itself, and leaves the reports of \<open>ns\<close> to \<open>mutate\<close>.\<close>

lemma mutate_told:
  assumes "told K st"
    and "\<And>n. n \<in> set ns \<Longrightarrow> lastReport n (reports (snd (fn st))) = lastReport n (reports st)"
    and "\<And>n. n \<notin> set ns \<Longrightarrow> lastReport n (reports (snd (fn st))) = isReachable K n (snd (fn st))"
  shows "told K (snd (mutate K ns fn st))"
  unfolding told_def
proof
  fix n
  have r: "isReachable K n (snd (mutate K ns fn st)) = isReachable K n (snd (fn st))"
    by (simp add: isReachable_def mutate_eq split: option.split)
  show "lastReport n (reports (snd (mutate K ns fn st))) = isReachable K n (snd (mutate K ns fn st))"
    unfolding r
    using assms(1) assms(2,3) [of n]
    by (cases "n \<in> set ns"; cases "K n")
      (auto simp: mutate_eq lastReport_foldl [OF reachBefore_distinct] reachBefore_map_of told_def isReachable_def)
qed

lemma changed_told:
  assumes "told K st" and "reports (f st) = reports st"
    and "\<And>n. n \<notin> set ns \<Longrightarrow> isReachable K n (f st) = isReachable K n st"
  shows "told K (changed K ns f st)"
  unfolding changed_def by (rule mutate_told) (use assms in \<open>auto simp: told_def\<close>)

section \<open>The invariant\<close>

text \<open>Distinct agents have distinct keys, and no agent has the empty name.\<close>

definition good_key :: "agent_key \<Rightarrow> bool" where
  "good_key K \<longleftrightarrow> (\<forall>m n k. K m = Some k \<longrightarrow> K n = Some k \<longrightarrow> m = n) \<and> K '''' = None"

definition reg_wf :: "agent_key \<Rightarrow> HolderRegistry \<Rightarrow> bool" where
  "reg_wf K st \<longleftrightarrow> distinct (map fst (holders st)) \<and> distinct (map fst (listeners st)) \<and>
     (\<forall>k h. map_of (holders st) k = Some h \<longrightarrow> K (h_agentName h) = Some k) \<and>
     (\<forall>k l. map_of (listeners st) k = Some l \<longrightarrow> K (l_agentName l) = Some k) \<and>
     (\<forall>k k' h h'. map_of (holders st) k = Some h \<longrightarrow> map_of (holders st) k' = Some h' \<longrightarrow>
        h_callerKey h = h_callerKey h' \<longrightarrow> k = k')"

definition sound :: "agent_key \<Rightarrow> HolderRegistry \<Rightarrow> bool" where
  "sound K st \<longleftrightarrow> reg_wf K st \<and> told K st"

lemma good_keyD: "good_key K \<Longrightarrow> K m = Some k \<Longrightarrow> K n = Some k \<Longrightarrow> m = n"
  by (auto simp: good_key_def)

lemma reg_wf_cong: "holders s = holders t \<Longrightarrow> listeners s = listeners t \<Longrightarrow> reg_wf K s = reg_wf K t"
  by (simp add: reg_wf_def)

lemma reg_wf_delete_holder: "reg_wf K st \<Longrightarrow> reg_wf K (st\<lparr>holders := AList.delete k (holders st)\<rparr>)"
  by (auto simp: reg_wf_def distinct_delete delete_conv' split: if_splits)

lemma reg_wf_delete_listener: "reg_wf K st \<Longrightarrow> reg_wf K (st\<lparr>listeners := AList.delete k (listeners st)\<rparr>)"
  by (auto simp: reg_wf_def distinct_delete delete_conv' split: if_splits)

lemma reg_wf_update_listener:
  "reg_wf K st \<Longrightarrow> K n = Some k \<Longrightarrow> l_agentName l = n \<Longrightarrow> reg_wf K (st\<lparr>listeners := AList.update k l (listeners st)\<rparr>)"
  by (auto simp: reg_wf_def distinct_update update_conv' split: if_splits)

lemma reg_wf_map_entry:
  assumes "reg_wf K st" and f: "\<And>h. h_agentName (f h) = h_agentName h" "\<And>h. h_callerKey (f h) = h_callerKey h"
  shows "reg_wf K (st\<lparr>holders := AList.map_entry k f (holders st)\<rparr>)"
proof -
  have m: "\<And>k' h. map_of (AList.map_entry k f (holders st)) k' = Some h \<Longrightarrow>
      \<exists>g. map_of (holders st) k' = Some g \<and> h_agentName h = h_agentName g \<and> h_callerKey h = h_callerKey g"
    by (auto simp: AList.map_of_map_entry f split: if_splits option.splits)
  have w: "distinct (map fst (holders st))" "distinct (map fst (listeners st))"
    "\<And>k h. map_of (holders st) k = Some h \<Longrightarrow> K (h_agentName h) = Some k"
    "\<forall>k l. map_of (listeners st) k = Some l \<longrightarrow> K (l_agentName l) = Some k"
    "\<And>k k' h h'. map_of (holders st) k = Some h \<Longrightarrow> map_of (holders st) k' = Some h' \<Longrightarrow>
      h_callerKey h = h_callerKey h' \<Longrightarrow> k = k'"
    using assms(1) unfolding reg_wf_def by blast+
  have "distinct (map fst (AList.map_entry k f (holders st)))" using w(1) by (rule AList.distinct_map_entry)
  moreover have "K (h_agentName h) = Some k'" if "map_of (AList.map_entry k f (holders st)) k' = Some h" for k' h
    using m [OF that] w(3) by auto
  moreover have "k' = k''" if "map_of (AList.map_entry k f (holders st)) k' = Some h"
    "map_of (AList.map_entry k f (holders st)) k'' = Some h'" "h_callerKey h = h_callerKey h'" for k' k'' h h'
    using m [OF that(1)] m [OF that(2)] that(3) w(5) by metis
  ultimately show ?thesis using w(2,4) unfolding reg_wf_def by simp
qed

text \<open>A holder may be put at an agent's key when no other agent is held by the same caller.\<close>

lemma reg_wf_update_holder:
  assumes "reg_wf K st" and "K (h_agentName h) = Some k"
    and "\<And>k' h'. map_of (holders st) k' = Some h' \<Longrightarrow> h_callerKey h' = h_callerKey h \<Longrightarrow> k' = k"
  shows "reg_wf K (st\<lparr>holders := AList.update k h (holders st)\<rparr>)"
  using assms unfolding reg_wf_def by (auto simp: distinct_update update_conv' split: if_splits)

lemma changed_sound:
  assumes "good_key K" "K n = Some key" "sound K st" "reports (f st) = reports st" "reg_wf K (f st)"
    and "\<And>k. k \<noteq> key \<Longrightarrow> map_of (holders (f st)) k = map_of (holders st) k"
    and "\<And>k. k \<noteq> key \<Longrightarrow> map_of (listeners (f st)) k = map_of (listeners st) k"
  shows "sound K (changed K [n] f st)"
proof -
  have "told K (changed K [n] f st)"
  proof (rule changed_told)
    fix m
    assume m: "m \<notin> set [n]"
    have "K m \<noteq> Some key" using m assms(1,2) good_keyD by fastforce
    then show "isReachable K m (f st) = isReachable K m st"
      using assms(6,7) by (auto simp: isReachable_def reachable_def split: option.split)
  qed (use assms in \<open>auto simp: sound_def\<close>)
  moreover have "reg_wf K (changed K [n] f st)" using assms(5) by (simp cong: reg_wf_cong add: reg_wf_def)
  ultimately show ?thesis by (simp add: sound_def)
qed

lemma reports_only:
  assumes "reports s = reports t" "holders s = holders t" "listeners s = listeners t"
  shows "sound K s = sound K t"
proof -
  have "\<And>n. isReachable K n s = isReachable K n t"
    using reachable_cong [OF assms(2,3)] by (simp add: isReachable_def split: option.split)
  then show ?thesis using assms reg_wf_cong [OF assms(2,3)] by (simp add: sound_def told_def)
qed

lemma sound_displaced [simp]: "sound K (st\<lparr>displaced := d\<rparr>) = sound K st"
  by (rule reports_only) simp_all

section \<open>Every operation keeps it\<close>

lemma sound_wf: "sound K st \<Longrightarrow> reg_wf K st"
  by (simp add: sound_def)

lemma release_sound: "good_key K \<Longrightarrow> sound K st \<Longrightarrow> sound K (snd (release K n c st))"
  unfolding release_def
  by (auto split: option.split intro!: changed_sound reg_wf_delete_holder [OF sound_wf] simp: delete_conv')

lemma setListener_sound: "good_key K \<Longrightarrow> sound K st \<Longrightarrow> sound K (setListener K n conn st)"
  unfolding setListener_def
  by (auto split: option.split intro!: changed_sound reg_wf_update_listener [OF sound_wf] simp: update_conv')

lemma dropListener_sound: "good_key K \<Longrightarrow> sound K st \<Longrightarrow> sound K (snd (dropListener K n conn st))"
  unfolding dropListener_def
  by (auto split: option.split intro!: changed_sound reg_wf_delete_listener [OF sound_wf] simp: delete_conv')

lemma endWait_sound:
  assumes "good_key K" "sound K st" "K n = Some key"
  shows "sound K (endWait K key n c conn st)"
  unfolding endWait_def
  using assms
  by (intro changed_sound [OF assms(1,3,2)])
    (auto simp: Let_def AList.map_of_map_entry split: option.split intro!: reg_wf_map_entry [OF sound_wf] intro: sound_wf)

lemma touch_sound: 
  assumes "sound K st"
  shows "sound K (touch K now n c st)"
proof -
  have "\<And>k. sound K (st\<lparr>holders := AList.map_entry k (\<lambda>h. h\<lparr>h_lastActive := now\<rparr>) (holders st)\<rparr>)"
    using assms reg_wf_map_entry [of K st "\<lambda>h. h\<lparr>h_lastActive := now\<rparr>"]
    by (auto simp: sound_def told_def isReachable_def reachable_def AList.map_of_map_entry split: option.split)
  with assms show ?thesis by (simp add: touch_def split: option.split)
qed

lemma check_sound: "sound K (snd (check K n c st)) = sound K st"
  by (simp add: check_def Let_def split: option.split)

lemma clearAgent_sound:
  assumes "good_key K" "sound K st"
  shows "sound K (clearAgent K n st)"
proof (cases "K n")
  case (Some key)
  let ?f = "\<lambda>s :: HolderRegistry. s\<lparr>holders := AList.delete key (holders s), listeners := AList.delete key (listeners s)\<rparr>"
  have "reg_wf K (?f st)"
    using reg_wf_delete_listener [OF reg_wf_delete_holder [of K st key], of key] assms(2) by (simp add: sound_def)
  then have "sound K (changed K [n] ?f st)"
    using assms Some by (intro changed_sound) (auto simp: delete_conv')
  then show ?thesis by (simp add: clearAgent_def Some Let_def)
qed (use assms in \<open>simp add: clearAgent_def\<close>)

text \<open>Taking: after letting go of another agent, the caller holds nothing but the one taken.\<close>

lemma heldBy_None: "heldBy c st = None \<Longrightarrow> map_of (holders st) k = Some h \<Longrightarrow> h_callerKey h \<noteq> c"
  by (auto simp: heldBy_def find_None_iff dest!: map_of_SomeD)

lemma find_SomeD: "find P xs = Some x \<Longrightarrow> x \<in> set xs \<and> P x"
  by (induction xs) (auto split: if_splits)

lemma heldBy_Some:
  assumes "reg_wf K st" "heldBy c st = Some p"
  obtains k h where "map_of (holders st) k = Some h" "h_callerKey h = c" "h_agentName h = p" "K p = Some k"
proof -
  from assms(2) obtain k h where "(k, h) \<in> set (holders st)" "h_callerKey h = c" "h_agentName h = p"
    by (auto simp: heldBy_def dest!: find_SomeD)
  with assms(1) that show thesis by (auto simp: reg_wf_def)
qed

definition heldWithout :: "agent_key \<Rightarrow> string option \<Rightarrow> HolderRegistry \<Rightarrow> (string \<times> Holder) list" where
  "heldWithout K other st = (case other of None \<Rightarrow> holders st
     | Some p \<Rightarrow> (case K p of None \<Rightarrow> holders st | Some k \<Rightarrow> AList.delete k (holders st)))"

lemma heldWithout_wf: "reg_wf K st \<Longrightarrow> reg_wf K (st\<lparr>holders := heldWithout K other st\<rparr>)"
  using reg_wf_delete_holder reg_wf_cong [of "st\<lparr>holders := holders st\<rparr>" st K]
  by (simp add: heldWithout_def split: option.split)

lemma heldWithout_map_of:
  "map_of (heldWithout K other st) k =
     (if other \<noteq> None \<and> K (the other) = Some k then None else map_of (holders st) k)"
  by (auto simp: heldWithout_def delete_conv' split: option.split)

lemma otherHold_frees:
  assumes "good_key K" "reg_wf K st" "K n = Some key"
    and "map_of (heldWithout K (otherHold n c st) st) k = Some h" and "h_callerKey h = c_key c"
  shows "k = key"
proof -
  have m: "map_of (holders st) k = Some h"
    using assms(4) by (simp add: heldWithout_map_of split: if_splits)
  then obtain p where p: "heldBy (c_key c) st = Some p"
    using assms(5) heldBy_None by (cases "heldBy (c_key c) st") blast+
  obtain k' h' where h': "map_of (holders st) k' = Some h'" "h_callerKey h' = c_key c" "K p = Some k'"
    using heldBy_Some [OF assms(2) p] by metis
  have "k = k'" using assms(2,5) m h'(1,2) unfolding reg_wf_def by metis
  moreover have "p \<noteq> ''''" using h'(3) assms(1) by (auto simp: good_key_def)
  ultimately have "otherHold n c st = None" using assms(4) h'(3) p
    by (auto simp: otherHold_def heldWithout_map_of split: if_splits)
  then have "p = n" using p \<open>p \<noteq> ''''\<close> by (auto simp: otherHold_def split: if_splits)
  with h'(3) assms(3) \<open>k = k'\<close> show "k = key" by simp
qed

text \<open>What the body of \<open>take\<close> leaves behind.\<close>

lemma takeBody_eq:
  assumes "snd (takeBody K now key n c ch current other st) = st'"
  obtains h where "holders st' = AList.update key h (heldWithout K other st)" "listeners st' = listeners st"
    "reports st' = reports st" "h_callerKey h = c_key c"
    "h_agentName h = n \<or> (\<exists>g. current = Some g \<and> h_agentName h = h_agentName g)"
    "ch = None \<and> current = None \<longrightarrow> h_channels h = [] \<and> h_waits h = []"
proof -
  let ?new = "\<lparr>h_agentName = n, h_callerKey = c_key c, h_label = c_label c,
               h_since = now, h_lastActive = now, h_channels = [], h_waits = []\<rparr>"
  let ?h = "case current of Some h \<Rightarrow> if h_callerKey h = c_key c then h else ?new | None \<Rightarrow> ?new"
  let ?g = "?h\<lparr>h_lastActive := now, h_channels := (case ch of None \<Rightarrow> h_channels ?h | Some x \<Rightarrow> add_last x (h_channels ?h))\<rparr>"
  have "holders st' = AList.update key ?g (heldWithout K other st)" "listeners st' = listeners st" "reports st' = reports st"
    using assms by (auto simp: takeBody_def heldWithout_def Let_def)
  moreover have "h_callerKey ?g = c_key c" by (simp split: option.split)
  moreover have "h_agentName ?g = n \<or> (\<exists>g. current = Some g \<and> h_agentName ?g = h_agentName g)"
    by (simp split: option.split)
  moreover have "ch = None \<and> current = None \<longrightarrow> h_channels ?g = [] \<and> h_waits ?g = []" by simp
  ultimately show thesis by (rule that)
qed

lemma takeBody_sound:
  assumes "good_key K" "sound K st" "K n = Some key"
    and "other = otherHold n c st" and "current = map_of (holders st) key"
  shows "sound K (snd (mutate K (n # (case other of None \<Rightarrow> [] | Some p \<Rightarrow> [p]))
           (takeBody K now key n c ch current other) st))"
    (is "sound K (snd (mutate K ?ns ?body st))")
proof -
  have w: "reg_wf K st" using assms(2) by (rule sound_wf)
  obtain h where h: "holders (snd (?body st)) = AList.update key h (heldWithout K other st)"
      "listeners (snd (?body st)) = listeners st" "reports (snd (?body st)) = reports st"
      "h_callerKey h = c_key c" "h_agentName h = n \<or> (\<exists>g. current = Some g \<and> h_agentName h = h_agentName g)"
    by (rule takeBody_eq [OF refl])
  have name: "K (h_agentName h) = Some key"
    using h(5) assms(3,5) w unfolding reg_wf_def by auto
  have "reg_wf K ((st\<lparr>holders := heldWithout K other st\<rparr>)\<lparr>holders := AList.update key h (heldWithout K other st)\<rparr>)"
    using reg_wf_update_holder [OF heldWithout_wf [OF w], of h key other] name
      otherHold_frees [OF assms(1) w assms(3)] assms(4) h(4) by simp
  then have "reg_wf K (snd (mutate K ?ns ?body st))" using h(1,2) by (simp add: reg_wf_def)
  moreover have "told K (snd (mutate K ?ns ?body st))"
  proof (rule mutate_told)
    fix m assume m: "m \<notin> set ?ns"
    have k: "K m \<noteq> Some key" using m assms(1,3) good_keyD by fastforce
    have "other = Some p \<Longrightarrow> K m = Some k' \<Longrightarrow> K p \<noteq> Some k'" for p k'
      using m assms(1) good_keyD by fastforce
    then have "isReachable K m (snd (?body st)) = isReachable K m st"
      using k h(1,2)
      by (cases "K m"; cases other) (simp_all add: isReachable_def reachable_def update_conv' heldWithout_map_of)
    then show "lastReport m (reports (snd (?body st))) = isReachable K m (snd (?body st))"
      using assms(2) h(3) by (simp add: sound_def told_def)
  qed (use assms(2) h(3) in \<open>auto simp: sound_def\<close>)
  ultimately show ?thesis by (simp add: sound_def)
qed

lemma take_sound:
  assumes "good_key K" "sound K st"
  shows "sound K (snd (take_hold K now n c force ch st))"
proof (cases "K n")
  case (Some key)
  then show ?thesis
    using takeBody_sound [OF assms Some refl refl, where now = now and ch = ch and c = c] assms(2)
    by (auto simp: take_hold_def Let_def split: option.splits)
qed (use assms in \<open>simp add: take_hold_def\<close>)

lemma waitOn_wf: "reg_wf K st \<Longrightarrow> reg_wf K (waitOn now key conn st)"
  unfolding waitOn_def by (rule reg_wf_map_entry) simp_all

lemma waitOn_other:
  "k \<noteq> key \<Longrightarrow> map_of (holders (waitOn now key conn st)) k = map_of (holders st) k"
  "listeners (waitOn now key conn st) = listeners st"
  "reports (waitOn now key conn st) = reports st"
  by (simp_all add: waitOn_def AList.map_of_map_entry)

lemma fresh_take_reach:
  assumes "K n = Some key" "map_of (holders st) key = None"
  shows "reachable key (snd (take_hold K now n c False None st)) = reachable key st"
proof -
  let ?body = "takeBody K now key n c None None (otherHold n c st)"
  obtain h where "holders (snd (?body st)) = AList.update key h (heldWithout K (otherHold n c st) st)"
      "listeners (snd (?body st)) = listeners st" "h_channels h = []" "h_waits h = []"
    by (rule takeBody_eq [of K now key n c None None "otherHold n c st" st, OF refl]) simp
  then show ?thesis
    using assms by (simp add: take_hold_def Let_def reachable_def update_conv')
qed

lemma beginWait_sound:
  assumes "good_key K" "sound K st"
  shows "sound K (beginWait K now n c conn st)"
proof (cases "K n")
  case (Some key)
  show ?thesis
  proof (cases "map_of (holders st) key")
    case None
    let ?s = "snd (take_hold K now n c False None st)"
    let ?f = "\<lambda>s. waitOn now key conn (if map_of (holders s) key = None then snd (take_hold K now n c False None s) else s)"
    have s: "sound K ?s" using assms by (rule take_sound)
    have "told K (snd (mutate K [n] (\<lambda>s. ((), ?f s)) st))"
    proof (rule mutate_told)
      fix m assume "m \<in> set [n]"
      then show "lastReport m (reports (snd ((), ?f st))) = lastReport m (reports st)"
        using s assms(2) None fresh_take_reach [where K = K, OF Some None]
        by (simp add: waitOn_other sound_def told_def isReachable_def Some)
    next
      fix m assume m: "m \<notin> set [n]"
      then have "K m \<noteq> Some key" using assms(1) Some good_keyD by fastforce
      then have "isReachable K m (waitOn now key conn ?s) = isReachable K m ?s"
        by (cases "K m") (simp_all add: isReachable_def reachable_def waitOn_other)
      then show "lastReport m (reports (snd ((), ?f st))) = isReachable K m (snd ((), ?f st))"
        using s None by (simp add: waitOn_other sound_def told_def)
    qed (use assms(2) in \<open>simp add: sound_def\<close>)
    moreover have "reg_wf K (snd (mutate K [n] (\<lambda>s. ((), ?f s)) st)) = reg_wf K (waitOn now key conn ?s)"
      by (rule reg_wf_cong) (simp_all add: None)
    ultimately show ?thesis using waitOn_wf [OF sound_wf [OF s]]
      by (simp add: beginWait_def Some changed_def sound_def)
  next
    case (Some h)
    then show ?thesis
      using \<open>K n = Some key\<close> assms waitOn_wf [OF sound_wf [OF assms(2)]]
      by (auto simp: beginWait_def waitOn_other intro!: changed_sound)
  qed
qed (use assms in \<open>simp add: beginWait_def\<close>)

text \<open>A closed connection.\<close>

lemma map_of_pick:
  "distinct (map fst xs) \<Longrightarrow>
   map_of (map (\<lambda>(k, h). (k, f h)) (filter (\<lambda>(k, h). P h) xs)) k =
     (case map_of xs k of None \<Rightarrow> None | Some h \<Rightarrow> if P h then Some (f h) else None)"
proof (induction xs)
  case (Cons x xs)
  then have "map_of xs (fst x) = None" by (simp add: map_of_eq_None_iff)
  with Cons show ?case by (cases x; cases "k = fst x") simp_all
qed simp

lemma distinct_pick:
  "distinct (map fst xs) \<Longrightarrow> distinct (map fst (map (\<lambda>(k, h). (k, f h)) (filter (\<lambda>(k, h). P h) xs)))"
  by (simp add: comp_def split_beta distinct_map_filter)

lemma withoutConnection_holders:
  assumes "reg_wf K st"
  shows "map_of (holders (withoutConnection conn st)) k = (case map_of (holders st) k of None \<Rightarrow> None
     | Some h \<Rightarrow> if h_callerKey h \<noteq> socketOf conn
         then Some (h\<lparr>h_channels := removeAll conn (h_channels h), h_waits := AList.delete conn (h_waits h)\<rparr>) else None)"
  using assms by (simp add: withoutConnection_def map_of_pick reg_wf_def)

lemma withoutConnection_listeners:
  assumes "reg_wf K st"
  shows "map_of (listeners (withoutConnection conn st)) k = (case map_of (listeners st) k of None \<Rightarrow> None
     | Some l \<Rightarrow> if l_connection l \<noteq> conn then Some l else None)"
  using assms map_of_pick [of "listeners st" "\<lambda>l. l" "\<lambda>l. l_connection l \<noteq> conn" k]
  by (simp add: withoutConnection_def reg_wf_def)

lemma withoutConnection_wf:
  assumes "reg_wf K st"
  shows "reg_wf K (withoutConnection conn st)"
proof -
  have "distinct (map fst (holders (withoutConnection conn st)))"
    using assms by (simp add: withoutConnection_def reg_wf_def distinct_pick del: map_map)
  moreover have "distinct (map fst (listeners (withoutConnection conn st)))"
    using assms by (simp add: withoutConnection_def reg_wf_def distinct_map_filter)
  ultimately show ?thesis
    using assms unfolding reg_wf_def withoutConnection_holders [OF assms] withoutConnection_listeners [OF assms]
    by (auto split: option.splits if_splits)
qed

lemma affectedBy_set:
  "set (affectedBy conn st) =
     {h_agentName h | k h. (k, h) \<in> set (holders st) \<and> onConnection conn h} \<union>
     {l_agentName l | k l. (k, l) \<in> set (listeners st) \<and> l_connection l = conn}"
  by (force simp: affectedBy_def)

lemma withoutConnection_unaffected:
  assumes "good_key K" "reg_wf K st" "m \<notin> set (affectedBy conn st)"
  shows "isReachable K m (withoutConnection conn st) = isReachable K m st"
proof (cases "K m")
  case (Some k)
  have h: "\<not> onConnection conn h" if "map_of (holders st) k = Some h" for h
  proof -
    have "K (h_agentName h) = Some k" using assms(2) that by (simp add: reg_wf_def)
    then have "h_agentName h = m" using assms(1) Some good_keyD by blast
    then show ?thesis using assms(3) that by (auto simp: affectedBy_set dest: map_of_SomeD)
  qed
  have l: "l_connection l \<noteq> conn" if "map_of (listeners st) k = Some l" for l
  proof -
    have "K (l_agentName l) = Some k" using assms(2) that by (simp add: reg_wf_def)
    then have "l_agentName l = m" using assms(1) Some good_keyD by blast
    then show ?thesis using assms(3) map_of_SomeD [OF that] unfolding affectedBy_set by blast
  qed
  have "AList.delete conn (h_waits h) = h_waits h" if "map_of (holders st) k = Some h" for h
    using h [OF that] by (intro AList.delete_id) (simp add: onConnection_def map_of_eq_None_iff)
  then have "map_of (holders (withoutConnection conn st)) k = map_of (holders st) k"
    using h by (auto simp: withoutConnection_holders [OF assms(2)] onConnection_def split: option.split)
  moreover have "map_of (listeners (withoutConnection conn st)) k = map_of (listeners st) k"
    using l by (auto simp: withoutConnection_listeners [OF assms(2)] split: option.split)
  ultimately show ?thesis by (simp add: isReachable_def reachable_def Some)
qed (simp add: isReachable_def)

lemma dropConnection_sound:
  assumes "good_key K" "sound K st"
  shows "sound K (dropConnection K conn st)"
proof -
  have w: "reg_wf K st" using assms(2) by (rule sound_wf)
  have "told K (changed K (affectedBy conn st) (withoutConnection conn) st)"
    using withoutConnection_unaffected [OF assms(1) w] assms(2)
    by (intro changed_told) (auto simp: sound_def withoutConnection_def)
  moreover have "reg_wf K (changed K (affectedBy conn st) (withoutConnection conn) st) = reg_wf K (withoutConnection conn st)"
    by (rule reg_wf_cong) simp_all
  ultimately have "sound K (changed K (affectedBy conn st) (withoutConnection conn) st)"
    using withoutConnection_wf [OF w] by (simp add: sound_def)
  then show ?thesis using assms(2) by (simp add: dropConnection_def Let_def)
qed

section \<open>The registry as a machine\<close>

text \<open>
  One event per call; the environment's only duties are \<open>admin\<close>'s: a new agent has a new, non-empty
  name and a new key, and an agent is not removed while one of its waits runs (\<open>EndWait\<close> reads the
  key \<open>beginWait\<close> captured).
\<close>

datatype reg_event =
    Take string Caller bool "string option" nat
  | Release string Caller
  | SetListener string string
  | DropListener string string
  | BeginWait string Caller string nat
  | EndWait string Caller string
  | Touch string Caller nat
  | Check string Caller
  | DropConnection string
  | ClearAgent string
  | AddAgent string string
  | RemoveAgent string

type_synonym reg_state = "(string \<times> string) list \<times> HolderRegistry"

fun reg_step :: "reg_state \<Rightarrow> reg_event \<Rightarrow> reg_state" where
  "reg_step (ro, st) (Take n c force ch now) = (ro, snd (take_hold (map_of ro) now n c force ch st))"
| "reg_step (ro, st) (Release n c) = (ro, snd (release (map_of ro) n c st))"
| "reg_step (ro, st) (SetListener n conn) = (ro, setListener (map_of ro) n conn st)"
| "reg_step (ro, st) (DropListener n conn) = (ro, snd (dropListener (map_of ro) n conn st))"
| "reg_step (ro, st) (BeginWait n c conn now) = (ro, beginWait (map_of ro) now n c conn st)"
| "reg_step (ro, st) (EndWait n c conn) =
     (ro, case map_of ro n of None \<Rightarrow> st | Some key \<Rightarrow> endWait (map_of ro) key n c conn st)"
| "reg_step (ro, st) (Touch n c now) = (ro, touch (map_of ro) now n c st)"
| "reg_step (ro, st) (Check n c) = (ro, snd (check (map_of ro) n c st))"
| "reg_step (ro, st) (DropConnection conn) = (ro, dropConnection (map_of ro) conn st)"
| "reg_step (ro, st) (ClearAgent n) = (ro, clearAgent (map_of ro) n st)"
| "reg_step (ro, st) (AddAgent n k) =
     (if n = '''' \<or> n \<in> fst ` set ro \<or> k \<in> snd ` set ro then (ro, st) else (ro @ [(n, k)], st))"
| "reg_step (ro, st) (RemoveAgent n) = (AList.delete n ro, clearAgent (map_of ro) n st)"

definition reg_inv :: "reg_state \<Rightarrow> bool" where
  "reg_inv s \<longleftrightarrow> good_key (map_of (fst s)) \<and> sound (map_of (fst s)) (snd s)"

lemma clearAgent_gone:
  assumes "K n = Some key"
  shows "map_of (holders (clearAgent K n st)) key = None" "map_of (listeners (clearAgent K n st)) key = None"
  by (simp_all add: clearAgent_def assms Let_def delete_conv')

lemma reg_wf_mono: "reg_wf K st \<Longrightarrow> (\<And>m k. K m = Some k \<Longrightarrow> K' m = Some k) \<Longrightarrow> reg_wf K' st"
  unfolding reg_wf_def by blast

lemma addAgent_inv:
  assumes g: "good_key (map_of ro)" and s: "sound (map_of ro) st"
    and n: "n \<noteq> ''''" "n \<notin> fst ` set ro" and k: "k \<notin> snd ` set ro"
  shows "reg_inv (ro @ [(n, k)], st)"
proof -
  let ?K = "map_of (ro @ [(n, k)])"
  have none: "map_of ro n = None" using n(2) by (simp add: map_of_eq_None_iff)
  have fresh: "map_of ro m \<noteq> Some k" for m using k by (force dest: map_of_SomeD)
  have K: "?K m = (if m = n then Some k else map_of ro m)" for m
    using none by (simp add: map_add_def split: option.split)
  have "good_key ?K" using g n(1) fresh unfolding good_key_def K by metis
  moreover have w: "reg_wf (map_of ro) st" using s by (rule sound_wf)
  then have "reg_wf ?K st" by (rule reg_wf_mono) (use none in \<open>auto simp: K\<close>)
  moreover have "\<not> reachable k st"
  proof -
    have "map_of (holders st) k = None" "map_of (listeners st) k = None"
      using w fresh unfolding reg_wf_def by (metis not_Some_eq)+
    then show ?thesis by (simp add: reachable_def)
  qed
  then have "isReachable ?K m st = isReachable (map_of ro) m st" for m
    unfolding isReachable_def K using none by simp
  ultimately show ?thesis using s by (simp add: reg_inv_def sound_def told_def)
qed

lemma removeAgent_inv:
  assumes g: "good_key (map_of ro)" and s: "sound (map_of ro) st"
  shows "reg_inv (AList.delete n ro, clearAgent (map_of ro) n st)"
proof (cases "map_of ro n")
  case None
  then have "AList.delete n ro = ro" by (intro AList.delete_id) (simp add: map_of_eq_None_iff)
  with None show ?thesis using g s by (simp add: reg_inv_def clearAgent_def)
next
  case (Some key)
  let ?st = "clearAgent (map_of ro) n st" and ?K = "(map_of ro)(n := None)"
  have s': "sound (map_of ro) ?st" using g s by (rule clearAgent_sound)
  have gone: "map_of (holders ?st) key = None" "map_of (listeners ?st) key = None"
    using clearAgent_gone [where K = "map_of ro", OF Some] by simp_all
  have "good_key ?K" using g unfolding good_key_def by (simp add: fun_upd_def)
  moreover have "reg_wf ?K ?st"
  proof -
    have w: "reg_wf (map_of ro) ?st" using s' by (rule sound_wf)
    have "?K (h_agentName h) = Some k" if "map_of (holders ?st) k = Some h" for k h
      using w that gone(1) Some unfolding reg_wf_def by (cases "h_agentName h = n") auto
    moreover have "?K (l_agentName l) = Some k" if "map_of (listeners ?st) k = Some l" for k l
      using w that gone(2) Some unfolding reg_wf_def by (cases "l_agentName l = n") auto
    ultimately show ?thesis using w unfolding reg_wf_def by (intro conjI) simp_all
  qed
  moreover have "isReachable ?K m ?st = isReachable (map_of ro) m ?st" for m
    using gone Some by (simp add: isReachable_def reachable_def)
  ultimately show ?thesis using s' by (simp add: reg_inv_def delete_conv' sound_def told_def)
qed

interpretation registry: machine reg_step reg_inv
proof
  fix s e
  assume "reg_inv s"
  moreover obtain ro st where s: "s = (ro, st)" by (cases s)
  ultimately have i: "good_key (map_of ro)" "sound (map_of ro) st" by (simp_all add: reg_inv_def)
  have n: "reg_inv (ro, st')" if "sound (map_of ro) st'" for st' using i that by (simp add: reg_inv_def)
  note ops = take_sound [OF i] release_sound [OF i] setListener_sound [OF i] dropListener_sound [OF i]
    beginWait_sound [OF i] endWait_sound [OF i] touch_sound [OF i(2)] dropConnection_sound [OF i] clearAgent_sound [OF i]
  show "reg_inv (reg_step s e)"
    using addAgent_inv [OF i] removeAgent_inv [OF i] n [OF i(2)]
    by (cases e) (simp_all add: s n ops i(2) check_sound split: option.split)
qed

section \<open>Properties\<close>

definition emptyRegistry :: HolderRegistry where
  "emptyRegistry = \<lparr>holders = [], listeners = [], displaced = [], reports = []\<rparr>"

abbreviation reached_registry :: "reg_event list \<Rightarrow> reg_state" where
  "reached_registry es \<equiv> foldl reg_step ([], emptyRegistry) es"

lemma empty_inv: "reg_inv ([], emptyRegistry)"
  by (simp add: reg_inv_def good_key_def sound_def reg_wf_def told_def emptyRegistry_def isReachable_def)

lemmas reached_inv = registry.run_inv [OF empty_inv]

text \<open>A caller holds one agent at most: after any run of takes, releases, waits, disconnects and
  agents added and removed, if one caller is the holder of two agents they are the same agent, and
  \<open>heldBy\<close> answers with it.\<close>

theorem caller_holds_one_agent:
  assumes "reached_registry es = (ro, st)"
    and "holderAt (map_of ro) n st = Some h" and "holderAt (map_of ro) m st = Some h'"
    and "h_callerKey h = h_callerKey h'"
  shows "n = m \<and> heldBy (h_callerKey h) st = Some n"
proof -
  have i: "good_key (map_of ro)" "reg_wf (map_of ro) st"
    using reached_inv [of es] assms(1) by (simp_all add: reg_inv_def sound_def)
  obtain k k' where k: "map_of ro n = Some k" "map_of (holders st) k = Some h"
    "map_of ro m = Some k'" "map_of (holders st) k' = Some h'"
    using assms(2,3) by (auto simp: holderAt_def split: option.splits)
  then have "k = k'" using i(2) assms(4) unfolding reg_wf_def by blast
  then have "n = m" using i(1) k good_keyD by blast
  moreover have "heldBy (h_callerKey h) st = Some n"
  proof (cases "heldBy (h_callerKey h) st")
    case None
    with k(2) show ?thesis using heldBy_None by blast
  next
    case (Some p)
    then obtain j g where "map_of (holders st) j = Some g" "h_callerKey g = h_callerKey h" "map_of ro p = Some j"
      using heldBy_Some [OF i(2)] by metis
    moreover from this have "j = k" using i(2) k(2) unfolding reg_wf_def by metis
    ultimately show ?thesis using Some i(1) k(1) good_keyD by blast
  qed
  ultimately show ?thesis ..
qed

definition alice_reg :: Caller where "alice_reg = \<lparr>c_key = ''ka'', c_label = ''A''\<rparr>"
definition bob_reg :: Caller where "bob_reg = \<lparr>c_key = ''kb'', c_label = ''B''\<rparr>"

lemmas registry_eval = take_hold_def takeBody_def otherHold_def heldBy_def mutate_def changed_def report_def
  reachable_def emptyRegistry_def alice_reg_def bob_reg_def holderAt_def beginWait_def waitOn_def endWait_def
  check_def isReachable_def Let_def view_def

theorem caller_holds_one_agent_witness:
  "\<exists>ro st h. reached_registry [AddAgent ''a'' ''k'', AddAgent ''b'' ''l'', Take ''a'' alice_reg False None 1,
       Take ''b'' alice_reg False None 2] = (ro, st) \<and>
     holderAt (map_of ro) ''b'' st = Some h \<and> heldBy (h_callerKey h) st = Some ''b''"
proof -
  let ?es = "[AddAgent ''a'' ''k'', AddAgent ''b'' ''l'', Take ''a'' alice_reg False None 1, Take ''b'' alice_reg False None 2]"
  obtain ro st where r: "reached_registry ?es = (ro, st)" by (cases "reached_registry ?es")
  obtain h where h: "holderAt (map_of ro) ''b'' st = Some h"
    using r by (auto simp: registry_eval)
  show ?thesis using r h caller_holds_one_agent [OF r h h refl] by blast
qed

text \<open>The reports add up: after any run, for every agent, the last reachability reported through
  \<open>onReachability\<close> (unreachable when there was none) is its reachability now. No change goes
  unreported, whichever call causes it.\<close>

theorem reports_are_current:
  "case reached_registry es of (ro, st) \<Rightarrow> lastReport n (reports st) = isReachable (map_of ro) n st"
  using reached_inv [of es] by (cases "reached_registry es") (simp add: reg_inv_def sound_def told_def)

text \<open>A forced take replaces the holder and is told to it once: the taker may act and nobody else;
  the displaced caller's next guarded call is refused as displaced, naming the taker, and the one
  after it as held. Without force the take is refused and changes nothing.\<close>

theorem forced_take_displaces_once:
  assumes "K n = Some key" and "map_of (holders st) key = Some h"
    and "c_key c \<noteq> h_callerKey h" and "c_key old = h_callerKey h"
    and "take_hold K now n c True ch st = (r, st')"
  shows "take_hold K now n c False ch st = (TakeRefused (view h), st) \<and>
    (\<exists>d released. r = Taken (Some d) released \<and> d_callerKey d = h_callerKey h \<and> d_channels d = h_channels h) \<and>
    (\<forall>caller. mayAct K n caller st' = (c_key caller = c_key c)) \<and>
    (\<exists>v st''. check K n old st' = (AgentDisplaced v (c_label c), st'') \<and> fst (check K n old st'') = AgentHeld v)"
proof -
  let ?body = "takeBody K now key n c ch (Some h) (otherHold n c st)"
  have r: "r = fst (?body st)" "holders st' = holders (snd (?body st))" "displaced st' = displaced (snd (?body st))"
    using assms(1,2,5) by (auto simp: take_hold_def Let_def mutate_eq)
  obtain g where g: "holders st' = AList.update key g (heldWithout K (otherHold n c st) st)" "h_callerKey g = c_key c"
    using r(2) takeBody_eq [of K now key n c ch "Some h" "otherHold n c st" st, OF refl] by metis
  have at: "map_of (holders st') key = Some g" by (simp add: g(1) update_conv')
  obtain marks where m: "map_of (displaced st') (c_key old) = Some marks" "map_of marks key = Some (c_label c)"
    using assms(3,4) r(3) by (auto simp: takeBody_def Let_def AList.map_of_map_entry update_conv')
  have r': "\<exists>d released. r = Taken (Some d) released \<and> d_callerKey d = h_callerKey h \<and> d_channels d = h_channels h"
    using assms(3) r(1) by (simp add: takeBody_def Let_def)
  let ?marks = "AList.delete key marks"
  let ?d = "if ?marks = [] then AList.delete (c_key old) (displaced st') else AList.update (c_key old) ?marks (displaced st')"
  have c1: "check K n old st' = (AgentDisplaced (view g) (c_label c), st'\<lparr>displaced := ?d\<rparr>)"
    using assms(1,3,4) at g(2) m by (simp add: check_def Let_def)
  have "fst (check K n old (st'\<lparr>displaced := ?d\<rparr>)) = AgentHeld (view g)"
    using assms(1,3,4) at g(2) by (simp add: check_def delete_conv' update_conv' split: option.split)
  with c1 r' show ?thesis
    using assms(1-4) at g(2) by (auto simp: mayAct_def holderAt_def take_hold_def)
qed

theorem forced_take_displaces_once_witness:
  "\<exists>ro st r st'. reached_registry [AddAgent ''a'' ''k'', Take ''a'' alice_reg False None 1] = (ro, st) \<and>
     take_hold (map_of ro) 2 ''a'' bob_reg True None st = (r, st') \<and>
     mayAct (map_of ro) ''a'' bob_reg st' \<and> \<not> mayAct (map_of ro) ''a'' alice_reg st'"
proof -
  let ?es = "[AddAgent ''a'' ''k'', Take ''a'' alice_reg False None 1]"
  obtain ro st where s: "reached_registry ?es = (ro, st)" by (cases "reached_registry ?es")
  obtain r st' where t: "take_hold (map_of ro) 2 ''a'' bob_reg True None st = (r, st')"
    by (cases "take_hold (map_of ro) 2 ''a'' bob_reg True None st")
  obtain h where h: "map_of ro ''a'' = Some ''k''" "map_of (holders st) ''k'' = Some h" "h_callerKey h = ''ka''"
    using s by (auto simp: registry_eval)
  have "\<forall>caller. mayAct (map_of ro) ''a'' caller st' = (c_key caller = c_key bob_reg)"
    using forced_take_displaces_once [OF h(1,2) _ _ t, of alice_reg] h(3) by (simp add: alice_reg_def bob_reg_def)
  with s t show ?thesis by (auto simp: alice_reg_def bob_reg_def)
qed

text \<open>A wait that outlives its hold ends the next one: a caller waits, is displaced, takes the agent
  back and waits again on the same connection; when the first wait ends, it is counted against the
  new hold, and the agent is reported unreachable while the second wait is still running.\<close>

theorem stale_wait_ends_live_one:
  "case reached_registry [AddAgent ''a'' ''k'', BeginWait ''a'' alice_reg ''c'' 1, Take ''a'' bob_reg True None 2,
       Take ''a'' alice_reg True None 3, BeginWait ''a'' alice_reg ''c'' 4] of (ro, st) \<Rightarrow>
     isReachable (map_of ro) ''a'' st \<and>
     (case reg_step (ro, st) (EndWait ''a'' alice_reg ''c'') of (ro', st') \<Rightarrow>
        \<not> isReachable (map_of ro') ''a'' st' \<and> reports st' = reports st @ [(''a'', False)])"
  by (simp add: registry_eval)

end
