(* ===== verification/Nonce_Dedup.thy ===== *)
theory Nonce_Dedup
  imports Hex "HOL-Library.Product_Lexorder"
begin

text \<open>
  Duplicate suppression of incoming messages: \<open>core/daemon/src/nonce-dedup.ts\<close>. Each session keeps
  the nonces it has seen, in memory and in the table \<open>session_seen_nonces\<close>; the oldest go when there
  are too many. The flags \<open>selOk\<close>, \<open>delOk\<close> and \<open>insOk\<close> say whether the statement of that kind
  succeeds or throws (the code catches and logs it).
\<close>

section \<open>State\<close>

definition NONCE_DEDUP_CAP :: nat where "NONCE_DEDUP_CAP = 10000"

record NonceEntry =
  ne_nonceHex :: string
  ne_senderPubkey :: string
  ne_seenAt :: nat

text \<open>A row of the table, in the order of insertion (of the rowid).\<close>

record NonceRow =
  nr_session :: string
  nr_nonce :: string
  nr_pubkey :: string
  nr_seenAt :: nat

record NonceDedupStore =
  seen :: "(string \<times> (string \<times> NonceEntry) list) list"
  nonceRows :: "NonceRow list"

section \<open>Operations\<close>

definition entryOf :: "NonceRow \<Rightarrow> NonceEntry" where
  "entryOf r = \<lparr>ne_nonceHex = nr_nonce r, ne_senderPubkey = nr_pubkey r, ne_seenAt = nr_seenAt r\<rparr>"

definition sessionMap :: "string \<Rightarrow> (string \<times> (string \<times> NonceEntry) list) list \<Rightarrow> (string \<times> NonceEntry) list" where
  "sessionMap sid m = (case map_of m sid of None \<Rightarrow> [] | Some e \<Rightarrow> e)"

text \<open>\<open>loadFromDb\<close>; rows that tie on the \<open>ORDER BY\<close> come in rowid order, the order of the index.\<close>

definition loadNonces :: "NonceDedupStore \<Rightarrow> NonceDedupStore" where
  "loadNonces st =
     st\<lparr>seen := foldl (\<lambda>m r. AList.update (nr_session r)
          (AList.update (nr_nonce r) (entryOf r) (sessionMap (nr_session r) m)) m) []
        (sort_key (\<lambda>r. (nr_session r, nr_seenAt r)) (nonceRows st))\<rparr>"

definition has :: "string \<Rightarrow> bytes \<Rightarrow> NonceDedupStore \<Rightarrow> bool" where
  "has sessionId nonce st =
     (case map_of (seen st) sessionId of
        None \<Rightarrow> False
      | Some m \<Rightarrow> map_of m (bytesToHex nonce) \<noteq> None)"

text \<open>
  \<open>#evictOldest\<close> on the session's map \<open>m\<close>; the answer of the query is used unless it is empty, and the
  empty string counts as no answer.
\<close>

definition evictionChoice :: "bool \<Rightarrow> string \<Rightarrow> (string \<times> NonceEntry) list \<Rightarrow> NonceDedupStore \<Rightarrow> string option" where
  "evictionChoice selOk sessionId m st =
     (let fromDb = (if selOk then map_option nr_nonce (firstMin nr_seenAt (filter (\<lambda>r. nr_session r = sessionId) (nonceRows st)))
                    else None);
          fromMemory = map_option ne_nonceHex (firstMin ne_seenAt (map snd m))
      in case fromDb of
           None \<Rightarrow> fromMemory
         | Some h \<Rightarrow> if h = '''' then fromMemory else Some h)"

definition evictOldestNonce ::
  "bool \<Rightarrow> bool \<Rightarrow> string \<Rightarrow> (string \<times> NonceEntry) list \<Rightarrow> NonceDedupStore \<Rightarrow> (string \<times> NonceEntry) list \<times> NonceDedupStore" where
  "evictOldestNonce selOk delOk sessionId m st =
     (case evictionChoice selOk sessionId m st of
        None \<Rightarrow> (m, st)
      | Some h \<Rightarrow>
          (AList.delete h m,
           if delOk then st\<lparr>nonceRows := filter (\<lambda>r. \<not> (nr_session r = sessionId \<and> nr_nonce r = h)) (nonceRows st)\<rparr>
           else st))"

text \<open>The insertion throws on a failure of the table and on a duplicate primary key.\<close>

definition insertNonce :: "bool \<Rightarrow> NonceRow \<Rightarrow> NonceDedupStore \<Rightarrow> NonceDedupStore" where
  "insertNonce insOk r st =
     (if \<not> insOk \<or> (\<exists>q \<in> set (nonceRows st). nr_session q = nr_session r \<and> nr_nonce q = nr_nonce r) then st
      else st\<lparr>nonceRows := nonceRows st @ [r]\<rparr>)"

definition checkAndAdd ::
  "bool \<Rightarrow> bool \<Rightarrow> bool \<Rightarrow> nat \<Rightarrow> string \<Rightarrow> bytes \<Rightarrow> bytes \<Rightarrow> NonceDedupStore \<Rightarrow> bool \<times> NonceDedupStore" where
  "checkAndAdd selOk delOk insOk now sessionId nonce senderPubkey st =
     (let nonceHex = bytesToHex nonce; senderPubkeyHex = bytesToHex senderPubkey;
          st0 = (if map_of (seen st) sessionId = None then st\<lparr>seen := AList.update sessionId [] (seen st)\<rparr> else st);
          m = sessionMap sessionId (seen st0)
      in if map_of m nonceHex \<noteq> None then (True, st0)
         else case (if length m \<ge> NONCE_DEDUP_CAP then evictOldestNonce selOk delOk sessionId m st0 else (m, st0)) of
           (m', st1) \<Rightarrow>
             let entry = \<lparr>ne_nonceHex = nonceHex, ne_senderPubkey = senderPubkeyHex, ne_seenAt = now\<rparr>;
                 st2 = st1\<lparr>seen := AList.update sessionId (AList.update nonceHex entry m') (seen st1)\<rparr>
             in (False, insertNonce insOk \<lparr>nr_session = sessionId, nr_nonce = nonceHex, nr_pubkey = senderPubkeyHex,
                   nr_seenAt = now\<rparr> st2))"

section \<open>Runs\<close>

text \<open>
  The events of a session's life on a clock that does not run backwards (each event says how much
  later it is) and a table that works: a message arrives, or the daemon restarts.
\<close>

datatype nonce_event = Arrive nat string bytes bytes | Reload

type_synonym nonce_state = "nat \<times> NonceDedupStore"

fun nonce_step :: "nonce_state \<Rightarrow> nonce_event \<Rightarrow> bool option \<times> nonce_state" where
  "nonce_step (clock, st) (Arrive dt sid nonce pk) =
     (case checkAndAdd True True True (clock + dt) sid nonce pk st of (dup, st') \<Rightarrow> (Some dup, (clock + dt, st')))"
| "nonce_step (clock, st) Reload = (None, (clock, loadNonces st))"

definition emptyNonces :: NonceDedupStore where
  "emptyNonces = \<lparr>seen = [], nonceRows = []\<rparr>"

section \<open>The contract: a window of the most recent nonces\<close>

type_synonym windows = "string \<Rightarrow> string list"

definition slide :: "string \<Rightarrow> string list \<Rightarrow> string list" where
  "slide n w = (if length w \<ge> NONCE_DEDUP_CAP then tl w else w) @ [n]"

fun window_step :: "windows \<Rightarrow> nonce_event \<Rightarrow> bool option \<times> windows" where
  "window_step W (Arrive dt sid nonce pk) =
     (let n = bytesToHex nonce in
      if n \<in> set (W sid) then (Some True, W) else (Some False, W(sid := slide n (W sid))))"
| "window_step W Reload = (None, W)"

end
