(* ===== verification/Nonce_Dedup_Claims.thy ===== *)
theory Nonce_Dedup_Claims
  imports Nonce_Dedup
begin

text \<open>
  The store keeps exactly the most recent nonces of each session, through evictions and restarts: it
  simulates the window.
\<close>

definition rowsOf :: "string \<Rightarrow> NonceDedupStore \<Rightarrow> NonceRow list" where
  "rowsOf s st = filter (\<lambda>r. nr_session r = s) (nonceRows st)"

abbreviation asEntries :: "NonceRow list \<Rightarrow> (string \<times> NonceEntry) list" where
  "asEntries rs \<equiv> map (\<lambda>r. (nr_nonce r, entryOf r)) rs"

text \<open>A session's map, its rows and its window agree, oldest first.\<close>

definition windowed :: "nat \<Rightarrow> NonceDedupStore \<Rightarrow> windows \<Rightarrow> string \<Rightarrow> bool" where
  "windowed clock st W s \<longleftrightarrow>
     sessionMap s (seen st) = asEntries (rowsOf s st) \<and> map nr_nonce (rowsOf s st) = W s \<and>
     distinct (W s) \<and> length (W s) \<le> NONCE_DEDUP_CAP \<and>
     sorted (map nr_seenAt (rowsOf s st)) \<and> (\<forall>r \<in> set (rowsOf s st). nr_seenAt r \<le> clock)"

definition same_window :: "nonce_state \<Rightarrow> windows \<Rightarrow> bool" where
  "same_window c W \<longleftrightarrow> (\<forall>s. windowed (fst c) (snd c) W s)"

lemma sessionMap_update:
  "sessionMap s (AList.update k v m) = (if s = k then v else sessionMap s m)"
  by (simp add: sessionMap_def update_conv')

lemma map_of_asEntries: "map_of (asEntries rs) n = None \<longleftrightarrow> n \<notin> nr_nonce ` set rs"
  by (force simp: map_of_eq_None_iff)

section \<open>Eviction\<close>

lemma firstMin_entries:
  "firstMin ne_seenAt (map snd (asEntries rs)) = map_option entryOf (firstMin nr_seenAt rs)"
proof -
  have "foldl (\<lambda>best x. case best of None \<Rightarrow> Some x | Some y \<Rightarrow> if ne_seenAt x < ne_seenAt y then Some x else best)
        (map_option entryOf b) (map snd (asEntries rs)) =
      map_option entryOf (foldl (\<lambda>best x. case best of None \<Rightarrow> Some x
        | Some y \<Rightarrow> if nr_seenAt x < nr_seenAt y then Some x else best) b rs)" for b
  proof (induction rs arbitrary: b)
    case (Cons r rs)
    show ?case using Cons [of "case b of None \<Rightarrow> Some r | Some y \<Rightarrow> if nr_seenAt r < nr_seenAt y then Some r else b"]
      by (cases b) (auto simp: entryOf_def)
  qed simp
  from this [of None] show ?thesis by (simp add: firstMin_def)
qed

lemma evictionChoice_oldest:
  assumes "windowed clock st W s" and "rowsOf s st = r # rs"
  shows "evictionChoice True s (asEntries (rowsOf s st)) st = Some (nr_nonce r)"
proof -
  have "firstMin nr_seenAt (rowsOf s st) = Some r"
    using assms by (simp add: windowed_def firstMin_sorted)
  moreover from this have "firstMin ne_seenAt (map snd (asEntries (rowsOf s st))) = Some (entryOf r)"
    by (simp only: firstMin_entries option.map)
  moreover have "ne_nonceHex (entryOf r) = nr_nonce r" by (simp add: entryOf_def)
  ultimately show ?thesis
    by (simp add: evictionChoice_def Let_def rowsOf_def [symmetric] del: map_map)
qed

lemma delete_first: "r # rs = xs \<Longrightarrow> distinct (map nr_nonce xs) \<Longrightarrow> AList.delete (nr_nonce r) (asEntries xs) = asEntries rs"
  by (auto simp: AList.delete_eq filter_id_conv)

lemma evict_first:
  assumes "windowed clock st W s" and "rowsOf s st = r # rs"
  shows "evictOldestNonce True True s (asEntries (rowsOf s st)) st =
     (asEntries rs, st\<lparr>nonceRows := filter (\<lambda>q. \<not> (nr_session q = s \<and> nr_nonce q = nr_nonce r)) (nonceRows st)\<rparr>)"
  using evictionChoice_oldest [OF assms] delete_first [OF assms(2) [symmetric]] assms(1)
  by (simp add: evictOldestNonce_def windowed_def)

lemma rowsOf_drop:
  "rowsOf s' (st\<lparr>nonceRows := filter (\<lambda>q. nr_session q = s \<longrightarrow> nr_nonce q \<noteq> n) (nonceRows st)\<rparr>) =
     (if s' = s then filter (\<lambda>q. nr_nonce q \<noteq> n) (rowsOf s st) else rowsOf s' st)"
  by (auto simp: rowsOf_def intro: filter_cong)

lemma tl_rows:
  assumes "rowsOf s st = r # rs" "distinct (map nr_nonce (rowsOf s st))"
  shows "filter (\<lambda>q. nr_nonce q \<noteq> nr_nonce r) (rowsOf s st) = rs"
proof -
  have "filter (\<lambda>q. nr_nonce q \<noteq> nr_nonce r) rs = rs"
    using assms by (intro filter_True) (metis distinct.simps(2) image_eqI list.set_map list.simps(9))
  then show ?thesis by (simp add: assms(1))
qed

section \<open>Arrival\<close>

lemma insert_fresh:
  assumes "nr_nonce x \<notin> nr_nonce ` set (rowsOf (nr_session x) st)"
  shows "insertNonce True x st = st\<lparr>nonceRows := nonceRows st @ [x]\<rparr>"
proof -
  have "\<not> (\<exists>q \<in> set (nonceRows st). nr_session q = nr_session x \<and> nr_nonce q = nr_nonce x)"
  proof
    assume "\<exists>q \<in> set (nonceRows st). nr_session q = nr_session x \<and> nr_nonce q = nr_nonce x"
    then obtain q where "q \<in> set (rowsOf (nr_session x) st)" "nr_nonce x = nr_nonce q" by (auto simp: rowsOf_def)
    with assms show False by blast
  qed
  then show ?thesis by (simp only: insertNonce_def) simp
qed

lemma windowed_append:
  assumes "windowed clock st W s" and "length (W s) < NONCE_DEDUP_CAP" and "nr_session x = s" "nr_nonce x \<notin> set (W s)"
    and "clock \<le> nr_seenAt x"
    and "sessionMap s m = sessionMap s (seen st) @ [(nr_nonce x, entryOf x)]"
  shows "windowed (nr_seenAt x) (st\<lparr>seen := m, nonceRows := nonceRows st @ [x]\<rparr>) (W(s := W s @ [nr_nonce x])) s"
  using assms by (auto simp: windowed_def rowsOf_def sorted_append intro: order_trans)

lemma windowed_other:
  assumes "windowed clock st W s'" and "s' \<noteq> s" and "sessionMap s' (seen st') = sessionMap s' (seen st)"
    and "rowsOf s' st' = rowsOf s' st" and "clock \<le> clock'"
  shows "windowed clock' st' (W(s := w)) s'"
  using assms by (auto simp: windowed_def intro: order_trans)

lemma update_new: "map_of m k = None \<Longrightarrow> AList.update k v m = m @ [(k, v)]"
  by (induction m) (auto split: if_splits)

text \<open>One message, one step of the window.\<close>

lemma in_tl: "x \<in> set (tl xs) \<Longrightarrow> x \<in> set xs"
  by (cases xs) auto

abbreviation room :: "string list \<Rightarrow> string list" where
  "room w \<equiv> (if length w \<ge> NONCE_DEDUP_CAP then tl w else w)"

definition makeRoom :: "string \<Rightarrow> NonceDedupStore \<Rightarrow> (string \<times> NonceEntry) list \<times> NonceDedupStore" where
  "makeRoom sid st =
     (if length (sessionMap sid (seen st)) \<ge> NONCE_DEDUP_CAP
      then evictOldestNonce True True sid (sessionMap sid (seen st)) st else (sessionMap sid (seen st), st))"

lemma makeRoom_window:
  assumes W: "windowed clock st W sid" and e: "makeRoom sid st = (m, st1)"
  shows "seen st1 = seen st" "\<And>s. s \<noteq> sid \<Longrightarrow> rowsOf s st1 = rowsOf s st"
    "windowed clock (st1\<lparr>seen := AList.update sid m (seen st1)\<rparr>) (W(sid := room (W sid))) sid"
    "m = asEntries (rowsOf sid st1)"
proof -
  note w = W [unfolded windowed_def]
  have len: "length (sessionMap sid (seen st)) = length (W sid)" using w by (metis length_map)
  have "seen st1 = seen st \<and> (\<forall>s. s \<noteq> sid \<longrightarrow> rowsOf s st1 = rowsOf s st) \<and> m = asEntries (rowsOf sid st1) \<and>
    rowsOf sid st1 = (if length (W sid) \<ge> NONCE_DEDUP_CAP then tl (rowsOf sid st) else rowsOf sid st)"
  proof (cases "length (W sid) \<ge> NONCE_DEDUP_CAP")
    case True
    then obtain r rs where rs: "rowsOf sid st = r # rs"
      using w by (cases "rowsOf sid st") (auto simp: NONCE_DEDUP_CAP_def)
    have "(m, st1) = evictOldestNonce True True sid (asEntries (rowsOf sid st)) st"
      using e w True unfolding makeRoom_def len by simp
    with evict_first [OF W rs] have "m = asEntries rs"
      "st1 = st\<lparr>nonceRows := filter (\<lambda>q. \<not> (nr_session q = sid \<and> nr_nonce q = nr_nonce r)) (nonceRows st)\<rparr>"
      by simp_all
    moreover have "filter (\<lambda>q. nr_nonce q \<noteq> nr_nonce r) (rowsOf sid st) = rs"
      using w by (intro tl_rows [OF rs]) simp
    ultimately show ?thesis using True rs by (simp add: rowsOf_drop)
  next
    case False
    with e w show ?thesis unfolding makeRoom_def len by auto
  qed
  then show "seen st1 = seen st" "\<And>s. s \<noteq> sid \<Longrightarrow> rowsOf s st1 = rowsOf s st" "m = asEntries (rowsOf sid st1)"
    and "windowed clock (st1\<lparr>seen := AList.update sid m (seen st1)\<rparr>) (W(sid := room (W sid))) sid"
    using w by (auto simp: windowed_def rowsOf_def sessionMap_update map_tl sorted_tl distinct_tl dest: in_tl)
qed

definition opened :: "string \<Rightarrow> NonceDedupStore \<Rightarrow> NonceDedupStore" where
  "opened sid st = (if map_of (seen st) sid = None then st\<lparr>seen := AList.update sid [] (seen st)\<rparr> else st)"

lemma opened_simps [simp]:
  "sessionMap s (seen (opened sid st)) = sessionMap s (seen st)" "rowsOf s (opened sid st) = rowsOf s st"
  by (auto simp: opened_def sessionMap_def update_conv' rowsOf_def)

lemma opened_windowed [simp]: "windowed clock (opened sid st) W s = windowed clock st W s"
  by (simp add: windowed_def)

lemma checkAndAdd_eq:
  "checkAndAdd True True True now sid nonce pk st =
     (if map_of (sessionMap sid (seen st)) (bytesToHex nonce) \<noteq> None then (True, opened sid st)
      else case makeRoom sid (opened sid st) of (m, st1) \<Rightarrow>
        let x = \<lparr>nr_session = sid, nr_nonce = bytesToHex nonce, nr_pubkey = bytesToHex pk, nr_seenAt = now\<rparr> in
        (False, insertNonce True x (st1\<lparr>seen := AList.update sid (AList.update (nr_nonce x) (entryOf x) m) (seen st1)\<rparr>)))"
  unfolding checkAndAdd_def Let_def makeRoom_def opened_def [symmetric] by (simp add: entryOf_def)

lemma known_nonce:
  assumes "windowed clock st W sid"
  shows "map_of (sessionMap sid (seen st)) n \<noteq> None \<longleftrightarrow> n \<in> set (W sid)"
proof -
  from assms have "sessionMap sid (seen st) = asEntries (rowsOf sid st)" "set (W sid) = nr_nonce ` set (rowsOf sid st)"
    by (auto simp: windowed_def simp flip: set_map)
  then show ?thesis by (simp only: map_of_asEntries not_not)
qed

lemma arrive_duplicate:
  assumes "windowed clock st W sid" and "bytesToHex nonce \<in> set (W sid)"
  shows "checkAndAdd True True True now sid nonce pk st = (True, opened sid st)"
  using assms known_nonce by (simp add: checkAndAdd_eq)

lemma arrive_new:
  assumes R: "\<And>s. windowed clock st W s" and "clock \<le> now" and n: "bytesToHex nonce \<notin> set (W sid)"
  obtains st' where "checkAndAdd True True True now sid nonce pk st = (False, st')"
    "\<And>s. windowed now st' (W(sid := slide (bytesToHex nonce) (W sid))) s"
proof -
  obtain m st1 where e: "makeRoom sid (opened sid st) = (m, st1)" by (cases "makeRoom sid (opened sid st)")
  have room: "windowed clock (opened sid st) W sid" using R by simp
  note r = makeRoom_window [OF room e]
  let ?x = "\<lparr>nr_session = sid, nr_nonce = bytesToHex nonce, nr_pubkey = bytesToHex pk, nr_seenAt = now\<rparr>"
  let ?st1 = "st1\<lparr>seen := AList.update sid m (seen st1)\<rparr>"
  let ?seen = "AList.update sid (AList.update (nr_nonce ?x) (entryOf ?x) m) (seen st1)"
  let ?st' = "?st1\<lparr>seen := ?seen, nonceRows := nonceRows ?st1 @ [?x]\<rparr>"
  have out: "nr_nonce ?x \<notin> set ((W(sid := room (W sid))) sid)" using n by (auto dest: in_tl)
  have "map nr_nonce (rowsOf sid st1) = (W(sid := room (W sid))) sid"
    using r(3) unfolding windowed_def by (simp add: rowsOf_def)
  with out have fresh: "nr_nonce ?x \<notin> nr_nonce ` set (rowsOf sid st1)" by (metis set_map)
  then have free: "map_of m (nr_nonce ?x) = None" unfolding r(4) map_of_asEntries .
  have "insertNonce True ?x (st1\<lparr>seen := ?seen\<rparr>) = ?st'"
    using insert_fresh [of ?x "st1\<lparr>seen := ?seen\<rparr>"] fresh by (simp add: rowsOf_def)
  then have "checkAndAdd True True True now sid nonce pk st = (False, ?st')"
    using known_nonce [OF R] n by (simp add: checkAndAdd_eq e Let_def)
  moreover have "windowed now ?st' (W(sid := slide (bytesToHex nonce) (W sid))) s" for s
  proof (cases "s = sid")
    case True
    have "windowed (nr_seenAt ?x) ?st' ((W(sid := room (W sid)))(sid := (W(sid := room (W sid))) sid @ [nr_nonce ?x])) sid"
    proof (rule windowed_append [OF r(3) _ _ out])
      show "length ((W(sid := room (W sid))) sid) < NONCE_DEDUP_CAP"
        using R [of sid] by (auto simp: windowed_def NONCE_DEDUP_CAP_def)
      show "sessionMap sid ?seen = sessionMap sid (seen ?st1) @ [(nr_nonce ?x, entryOf ?x)]"
        unfolding update_new [OF free] by (simp add: sessionMap_update)
    qed (use assms(2) in simp_all)
    then show ?thesis using True by (simp add: slide_def)
  next
    case False
    have "sessionMap s (seen ?st') = sessionMap s (seen st)" "rowsOf s ?st' = rowsOf s st"
      using r(1,2) False by (simp_all add: sessionMap_update) (simp add: rowsOf_def)
    then show ?thesis using windowed_other [OF R False _ _ assms(2)] by simp
  qed
  ultimately show thesis by (rule that)
qed

section \<open>Restart\<close>

lemma loadNonces_fold:
  "distinct (map nr_nonce (filter (\<lambda>r. nr_session r = s) rs)) \<Longrightarrow>
   sessionMap s (foldl (\<lambda>m r. AList.update (nr_session r)
     (AList.update (nr_nonce r) (entryOf r) (sessionMap (nr_session r) m)) m) [] rs) =
   asEntries (filter (\<lambda>r. nr_session r = s) rs)"
proof (induction rs rule: rev_induct)
  case Nil
  then show ?case by (simp add: sessionMap_def)
next
  case (snoc r rs)
  show ?case
  proof (cases "nr_session r = s")
    case True
    then have "map_of (asEntries (filter (\<lambda>r. nr_session r = s) rs)) (nr_nonce r) = None"
      using snoc.prems by (auto simp: map_of_eq_None_iff)
    then show ?thesis using snoc True by (simp add: sessionMap_update update_new)
  next
    case False
    then show ?thesis using snoc by (simp add: sessionMap_update)
  qed
qed

lemma load_window:
  assumes "windowed clock st W s"
  shows "windowed clock (loadNonces st) W s"
proof -
  let ?rs = "sort_key (\<lambda>r. (nr_session r, nr_seenAt r)) (nonceRows st)"
  have "sorted (map (\<lambda>r. (nr_session r, nr_seenAt r)) (rowsOf s st))"
  proof -
    have "map (\<lambda>r. (nr_session r, nr_seenAt r)) (rowsOf s st) = map (\<lambda>r. (s, nr_seenAt r)) (rowsOf s st)"
      by (rule map_cong) (auto simp: rowsOf_def)
    moreover have "sorted (map (\<lambda>r. (s, nr_seenAt r)) (rowsOf s st))"
      using assms by (simp add: windowed_def sorted_iff_nth_mono)
    ultimately show ?thesis by (simp only:)
  qed
  then have "filter (\<lambda>r. nr_session r = s) ?rs = rowsOf s st"
    by (simp add: filter_sort sort_key_sorted rowsOf_def)
  then have "sessionMap s (seen (loadNonces st)) = asEntries (rowsOf s st)"
    using loadNonces_fold [of s ?rs] assms by (simp add: loadNonces_def windowed_def)
  then show ?thesis using assms by (simp add: windowed_def loadNonces_def rowsOf_def)
qed

section \<open>The refinement\<close>

lemma nonce_simulation:
  assumes "same_window c W"
  shows "fst (nonce_step c e) = fst (window_step W e) \<and> same_window (snd (nonce_step c e)) (snd (window_step W e))"
proof (cases e)
  case (Arrive dt sid nonce pk)
  obtain clock st where c: "c = (clock, st)" by (cases c)
  have W: "\<And>s. windowed clock st W s" using assms by (simp add: same_window_def c)
  show ?thesis
  proof (cases "bytesToHex nonce \<in> set (W sid)")
    case True
    then show ?thesis
      using arrive_duplicate [OF W True] W
      by (auto simp: Arrive c same_window_def windowed_def Let_def intro: trans_le_add1)
  next
    case False
    obtain st' where "checkAndAdd True True True (clock + dt) sid nonce pk st = (False, st')"
      "\<And>s. windowed (clock + dt) st' (W(sid := slide (bytesToHex nonce) (W sid))) s"
      using arrive_new [OF W _ False, of "clock + dt"] by auto
    then show ?thesis using False by (simp add: Arrive c same_window_def Let_def)
  qed
next
  case Reload
  then show ?thesis using assms load_window by (cases c) (simp add: same_window_def)
qed

interpretation nonces: simulation nonce_step window_step same_window
  by unfold_locales (simp_all add: nonce_simulation)

lemma empty_window: "same_window (0, emptyNonces) (\<lambda>_. [])"
  by (simp add: same_window_def windowed_def emptyNonces_def rowsOf_def sessionMap_def)

section \<open>Properties\<close>

text \<open>C36: A message is a duplicate exactly when its nonce is among the last 10,000 new nonces of its
  session: on a clock that does not run backwards and a table that works, every answer the store
  gives, over any run of arrivals in any sessions and of restarts, is the answer of that window.\<close>

theorem dedup_refines_window:
  "answers nonce_step (0, emptyNonces) es = answers window_step (\<lambda>_. []) es"
  by (rule nonces.run_answers [OF empty_window])

text \<open>The memory and the table stay bounded and agree: after any such run a session has at most
  10,000 nonces, the table holds the same ones, and no nonce twice.\<close>

theorem dedup_bounded:
  "case final nonce_step (0, emptyNonces) es of (clock, st) \<Rightarrow>
     map fst (sessionMap s (seen st)) = map nr_nonce (rowsOf s st) \<and>
     length (rowsOf s st) \<le> NONCE_DEDUP_CAP \<and> distinct (map nr_nonce (rowsOf s st))"
proof (cases "final nonce_step (0, emptyNonces) es")
  case (Pair clock st)
  have "windowed clock st (final window_step (\<lambda>_. []) es) s"
    using nonces.run_related [OF empty_window, of es] Pair by (simp add: same_window_def)
  moreover from this have "length (rowsOf s st) \<le> NONCE_DEDUP_CAP"
    unfolding windowed_def by (metis length_map)
  ultimately show ?thesis by (simp add: Pair windowed_def comp_def)
qed

end
