(* ===== verification/Line_LCS.thy ===== *)
theory Line_LCS
  imports Prelude "HOL-Library.Sublist"
begin

text \<open>
  The line diff of documents: \<open>core/daemon/src/line-lcs.ts\<close>. The table is built bottom up, a row from
  the row below it; the runs are read off it by two nested loops over the two positions.
\<close>

section \<open>The code\<close>

definition LCS_LINE_LIMIT :: nat where "LCS_LINE_LIMIT = 4000"

record LineRun =
  aStart :: nat
  aEnd :: nat
  bStart :: nat
  bEnd :: nat

text \<open>\<open>text.split("\n")\<close>.\<close>

fun splitLines :: "string \<Rightarrow> string list" where
  "splitLines [] = [[]]"
| "splitLines (c # cs) =
     (if c = CHR 0x0A then [] # splitLines cs
      else case splitLines cs of [] \<Rightarrow> [[c]] | l # ls \<Rightarrow> (c # l) # ls)"

definition toChunks :: "string \<Rightarrow> string list" where
  "toChunks text =
     (let lines = splitLines text in
      map (\<lambda>(index, line). if index < length lines - 1 then line @ [CHR 0x0A] else line) (enumerate 0 lines))"

text \<open>One row of the table, filled from its end; \<open>below\<close> is the row under it.\<close>

fun lcsRow :: "'a \<Rightarrow> 'a list \<Rightarrow> nat list \<Rightarrow> nat list" where
  "lcsRow x (y # ys) (d0 # d1 # ds) =
     (let right = lcsRow x ys (d1 # ds) in (if x = y then d1 + 1 else max d0 (hd right)) # right)"
| "lcsRow x _ _ = [0]"

fun lcsTable :: "'a list \<Rightarrow> 'a list \<Rightarrow> nat list list" where
  "lcsTable [] b = [replicate (length b + 1) 0]"
| "lcsTable (x # xs) b = (let t = lcsTable xs b in lcsRow x b (hd t) # t)"

definition cell :: "nat list list \<Rightarrow> nat \<Rightarrow> nat \<Rightarrow> nat" where
  "cell t i j = t ! i ! j"

definition atMatch :: "'a list \<Rightarrow> 'a list \<Rightarrow> nat \<Rightarrow> nat \<Rightarrow> bool" where
  "atMatch a b i j \<longleftrightarrow> i < length a \<and> j < length b \<and> a ! i = b ! j"

text \<open>
  The inner loop: leave the run at the next match or at the end. The position in \<open>a\<close> never passes
  its end, so \<open>i >= a.length\<close> is the code's \<open>i === a.length\<close>.
\<close>

function changeLoop :: "nat list list \<Rightarrow> 'a list \<Rightarrow> 'a list \<Rightarrow> nat \<Rightarrow> nat \<Rightarrow> nat \<times> nat" where
  "changeLoop t a b i j =
     (if (i < length a \<or> j < length b) \<and> \<not> atMatch a b i j then
        (if j < length b \<and> (i \<ge> length a \<or> cell t i (j + 1) \<ge> cell t (i + 1) j)
         then changeLoop t a b i (j + 1) else changeLoop t a b (i + 1) j)
      else (i, j))"
  by pat_completeness auto
termination
  by (relation "measure (\<lambda>(t, a, b, i, j). (length a - i) + (length b - j))") auto

declare changeLoop.simps [simp del]

lemma changeLoop_moves:
  "changeLoop t a b i j = (i', j') \<Longrightarrow> i \<le> i' \<and> j \<le> j' \<and>
     (i \<le> length a \<longrightarrow> i' \<le> length a) \<and> (j \<le> length b \<longrightarrow> j' \<le> length b) \<and>
     (length a - i') + (length b - j') \<le> (length a - i) + (length b - j)"
proof (induction t a b i j rule: changeLoop.induct)
  case (1 t a b i j)
  let ?on = "(i < length a \<or> j < length b) \<and> \<not> atMatch a b i j"
  let ?down = "j < length b \<and> (i \<ge> length a \<or> cell t i (j + 1) \<ge> cell t (i + 1) j)"
  consider "?on" "?down" | "?on" "\<not> ?down" | "\<not> ?on" by blast
  then show ?case
  proof cases
    case 1
    with "1.prems" have "changeLoop t a b i (j + 1) = (i', j')" by (subst (asm) changeLoop.simps) simp
    from "1.IH"(1) [OF 1 this] 1 show ?thesis by auto
  next
    case 2
    with "1.prems" have "changeLoop t a b (i + 1) j = (i', j')"
      by (subst (asm) changeLoop.simps) (simp only: if_True if_False simp_thms)
    from "1.IH"(2) [OF 2 this] 2 show ?thesis by auto
  next
    case 3
    with "1.prems" show ?thesis by (subst (asm) changeLoop.simps) (auto simp only: if_False prod.inject order.refl)
  qed
qed

lemma changeLoop_progress:
  assumes "i < length a \<or> j < length b" "\<not> atMatch a b i j" "changeLoop t a b i j = (i', j')"
  shows "(length a - i') + (length b - j') < (length a - i) + (length b - j)"
  using assms(3) unfolding changeLoop.simps [of t a b i j] using assms(1,2)
  by (auto split: if_splits dest!: changeLoop_moves)

function runLoop :: "nat list list \<Rightarrow> 'a list \<Rightarrow> 'a list \<Rightarrow> nat \<Rightarrow> nat \<Rightarrow> LineRun list \<Rightarrow> LineRun list" where
  "runLoop t a b i j runs =
     (if i < length a \<or> j < length b then
        (if atMatch a b i j then runLoop t a b (i + 1) (j + 1) runs
         else case changeLoop t a b i j of
           (i', j') \<Rightarrow> runLoop t a b i' j' (runs @ [\<lparr>aStart = i, aEnd = i', bStart = j, bEnd = j'\<rparr>]))
      else runs)"
  by pat_completeness auto
termination
proof (relation "measure (\<lambda>(t, a, b, i, j, runs). (length a - i) + (length b - j))", goal_cases)
  case (2 t a b i j runs)
  then show ?case by (auto simp: atMatch_def)
next
  case (3 t a b i j runs i' j')
  then show ?case using changeLoop_progress [of i a j b t i' j'] by auto
qed simp

declare runLoop.simps [simp del]

definition lineRuns :: "'a list \<Rightarrow> 'a list \<Rightarrow> LineRun list option" where
  "lineRuns a b =
     (if length a > LCS_LINE_LIMIT \<or> length b > LCS_LINE_LIMIT then None
      else Some (runLoop (lcsTable a b) a b 0 0 []))"

section \<open>The runs turn one side into the other\<close>

text \<open>Applying runs: copy what lies between them from \<open>a\<close>, take each run's lines from \<open>b\<close>.\<close>

fun patch :: "nat \<Rightarrow> 'a list \<Rightarrow> 'a list \<Rightarrow> LineRun list \<Rightarrow> 'a list" where
  "patch i a b [] = drop i a"
| "patch i a b (r # rs) =
     take (aStart r - i) (drop i a) @ take (bEnd r - bStart r) (drop (bStart r) b) @ patch (aEnd r) a b rs"

lemma runLoop_end: "\<not> (i < length a \<or> j < length b) \<Longrightarrow> runLoop t a b i j runs = runs"
  by (simp add: runLoop.simps [of t a b i j])

lemma runLoop_match: "atMatch a b i j \<Longrightarrow> runLoop t a b i j runs = runLoop t a b (i + 1) (j + 1) runs"
  by (simp add: runLoop.simps [of t a b i j] atMatch_def)

lemma runLoop_change:
  "i < length a \<or> j < length b \<Longrightarrow> \<not> atMatch a b i j \<Longrightarrow> changeLoop t a b i j = (i', j') \<Longrightarrow>
   runLoop t a b i j runs = runLoop t a b i' j' (runs @ [\<lparr>aStart = i, aEnd = i', bStart = j, bEnd = j'\<rparr>])"
  by (simp add: runLoop.simps [of t a b i j])

lemma runLoop_app: "runLoop t a b i j (xs @ runs) = xs @ runLoop t a b i j runs"
proof (induction t a b i j runs arbitrary: xs rule: runLoop.induct)
  case (1 t a b i j runs)
  consider "\<not> (i < length a \<or> j < length b)" | "i < length a \<or> j < length b" "atMatch a b i j"
    | "i < length a \<or> j < length b" "\<not> atMatch a b i j" by blast
  then show ?case
  proof cases
    case 2
    then show ?thesis using "1.IH"(1) [OF 2] by (simp add: runLoop_match)
  next
    case 3
    obtain i' j' where c: "changeLoop t a b i j = (i', j')" by (cases "changeLoop t a b i j")
    show ?thesis using "1.IH"(2) [OF 3 c [symmetric], of xs] by (simp add: runLoop_change [OF 3 c])
  qed (simp add: runLoop_end)
qed

lemma runLoop_cons:
  "i < length a \<or> j < length b \<Longrightarrow> \<not> atMatch a b i j \<Longrightarrow> changeLoop t a b i j = (i', j') \<Longrightarrow>
   runLoop t a b i j [] = \<lparr>aStart = i, aEnd = i', bStart = j, bEnd = j'\<rparr> # runLoop t a b i' j' []"
  using runLoop_app [of t a b i' j' "[\<lparr>aStart = i, aEnd = i', bStart = j, bEnd = j'\<rparr>]" "[]"]
  by (simp add: runLoop_change)

text \<open>Induction over the positions a diff visits.\<close>

lemma diff_induct [consumes 2, case_names finish match change]:
  assumes "i \<le> length a" and "j \<le> length b"
    and "P (length a) (length b)"
    and "\<And>i j. atMatch a b i j \<Longrightarrow> P (i + 1) (j + 1) \<Longrightarrow> P i j"
    and "\<And>i j i' j'. i \<le> length a \<Longrightarrow> j \<le> length b \<Longrightarrow> i < length a \<or> j < length b \<Longrightarrow> \<not> atMatch a b i j \<Longrightarrow>
      changeLoop t a b i j = (i', j') \<Longrightarrow> P i' j' \<Longrightarrow> P i j"
  shows "P i j"
  using assms(1,2)
proof (induction "(length a - i) + (length b - j)" arbitrary: i j rule: less_induct)
  case less
  consider "\<not> (i < length a \<or> j < length b)" | "atMatch a b i j"
    | "i < length a \<or> j < length b" "\<not> atMatch a b i j" by blast
  then show ?case
  proof cases
    case 1
    then show ?thesis using less.prems assms(3) by simp
  next
    case 2
    then show ?thesis using less.hyps [of "i + 1" "j + 1"] assms(4) by (auto simp: atMatch_def)
  next
    case 3
    obtain i' j' where c: "changeLoop t a b i j = (i', j')" by (cases "changeLoop t a b i j")
    then have "P i' j'"
      using changeLoop_progress [OF 3 c] changeLoop_moves [OF c] less.prems by (intro less.hyps) auto
    with 3 c less.prems show ?thesis using assms(5) by blast
  qed
qed

lemma runs_start:
  assumes "i \<le> length a" "j \<le> length b"
  shows "\<forall>r \<in> set (runLoop t a b i j []). i \<le> aStart r \<and> j \<le> bStart r"
  using assms
proof (induction i j rule: diff_induct [where t = t])
  case (change i j i' j')
  then show ?case using changeLoop_moves [OF change(5)] by (auto simp: runLoop_cons)
qed (auto simp: runLoop_end runLoop_match)

lemma patch_step:
  assumes "i < length a" "\<forall>r \<in> set rs. i < aStart r"
  shows "patch i a b rs = a ! i # patch (i + 1) a b rs"
proof (cases rs)
  case (Cons r rest)
  with assms(2) have "i < aStart r" by simp
  then have "aStart r - i = Suc (aStart r - (i + 1))" by arith
  then show ?thesis using assms(1) by (simp add: Cons Cons_nth_drop_Suc [symmetric])
qed (use assms in \<open>simp add: Cons_nth_drop_Suc\<close>)

lemma patch_runs:
  assumes "i \<le> length a" "j \<le> length b"
  shows "patch i a b (runLoop t a b i j []) = drop j b"
  using assms
proof (induction i j rule: diff_induct [where t = t])
  case (match i j)
  have m: "i < length a" "j < length b" "a ! i = b ! j" using match(1) by (auto simp: atMatch_def)
  have "\<forall>r \<in> set (runLoop t a b (i + 1) (j + 1) []). i < aStart r"
    using runs_start [of "i + 1" a "j + 1" b t] m by auto
  then show ?case using patch_step [OF m(1)] match(2) m
    by (simp add: runLoop_match [OF match(1)] Cons_nth_drop_Suc)
next
  case (change i j i' j')
  then show ?case using changeLoop_moves [OF change(5)]
    by (simp add: runLoop_cons [OF change(3-5)]) (metis append_take_drop_id drop_drop le_add_diff_inverse2)
qed (simp_all add: runLoop_end)

text \<open>Neighbouring runs are kept apart by a stretch of equal lines; no run is empty.\<close>

fun apart :: "'a list \<Rightarrow> 'a list \<Rightarrow> nat \<Rightarrow> nat \<Rightarrow> LineRun list \<Rightarrow> bool" where
  "apart a b i j [] \<longleftrightarrow> drop i a = drop j b"
| "apart a b i j (r # rs) \<longleftrightarrow>
     i \<le> aStart r \<and> aStart r - i = bStart r - j \<and> j \<le> bStart r \<and> aStart r \<le> aEnd r \<and> bStart r \<le> bEnd r \<and>
     take (aStart r - i) (drop i a) = take (bStart r - j) (drop j b) \<and>
     (aStart r < aEnd r \<or> bStart r < bEnd r) \<and>
     (\<forall>s \<in> set (take 1 rs). aEnd r < aStart s) \<and> apart a b (aEnd r) (bEnd r) rs"

lemma apart_step:
  assumes "atMatch a b i j" "apart a b (i + 1) (j + 1) rs"
  shows "apart a b i j rs"
proof (cases rs)
  case (Cons r rest)
  have m: "i < length a" "j < length b" "a ! i = b ! j" using assms(1) by (auto simp: atMatch_def)
  have "i < aStart r" "j < bStart r" using assms(2) by (simp_all add: Cons)
  then have "aStart r - i = Suc (aStart r - (i + 1))" "bStart r - j = Suc (bStart r - (j + 1))" by arith+
  then show ?thesis using assms(2) m
    by (simp add: Cons Cons_nth_drop_Suc [symmetric] del: take_drop drop_drop) auto
qed (use assms in \<open>auto simp: atMatch_def Cons_nth_drop_Suc [symmetric]\<close>)

lemma changeLoop_stops: "changeLoop t a b i j = (i', j') \<Longrightarrow> (i' < length a \<or> j' < length b) \<Longrightarrow> atMatch a b i' j'"
proof (induction t a b i j rule: changeLoop.induct)
  case (1 t a b i j)
  let ?on = "(i < length a \<or> j < length b) \<and> \<not> atMatch a b i j"
  let ?down = "j < length b \<and> (i \<ge> length a \<or> cell t i (j + 1) \<ge> cell t (i + 1) j)"
  consider "?on" "?down" | "?on" "\<not> ?down" | "\<not> ?on" by blast
  then show ?case
  proof cases
    case 1
    with "1.prems"(1) have "changeLoop t a b i (j + 1) = (i', j')" by (subst (asm) changeLoop.simps) simp
    from "1.IH"(1) [OF 1 this "1.prems"(2)] show ?thesis .
  next
    case 2
    with "1.prems"(1) have "changeLoop t a b (i + 1) j = (i', j')"
      by (subst (asm) changeLoop.simps) (simp only: if_True if_False simp_thms)
    from "1.IH"(2) [OF 2 this "1.prems"(2)] show ?thesis .
  next
    case 3
    with "1.prems"(1) have "(i, j) = (i', j')" by (subst (asm) changeLoop.simps) (simp only: if_False)
    with 3 "1.prems"(2) show ?thesis by auto
  qed
qed

lemma runs_apart:
  assumes "i \<le> length a" "j \<le> length b"
  shows "apart a b i j (runLoop t a b i j [])"
  using assms
proof (induction i j rule: diff_induct [where t = t])
  case (match i j)
  then show ?case using apart_step by (simp add: runLoop_match)
next
  case (change i j i' j')
  have "\<forall>s \<in> set (take 1 (runLoop t a b i' j' [])). i' < aStart s"
  proof (cases "i' < length a \<or> j' < length b")
    case True
    then have m: "atMatch a b i' j'" using changeLoop_stops [OF change(5)] by blast
    then have "\<forall>s \<in> set (runLoop t a b (i' + 1) (j' + 1) []). i' < aStart s"
      using runs_start [of "i' + 1" a "j' + 1" b t] by (auto simp: atMatch_def)
    then show ?thesis using m by (auto simp: runLoop_match dest: in_set_takeD)
  qed (simp add: runLoop_end)
  then show ?case using changeLoop_moves [OF change(5)] changeLoop_progress [OF change(3-5)] change(6)
    by (simp add: runLoop_cons [OF change(3-5)]) auto
qed (simp_all add: runLoop_end)

section \<open>The table holds longest common subsequences\<close>

fun lcsLen :: "'a list \<Rightarrow> 'a list \<Rightarrow> nat" where
  "lcsLen [] ys = 0"
| "lcsLen (x # xs) [] = 0"
| "lcsLen (x # xs) (y # ys) =
     (if x = y then Suc (lcsLen xs ys) else max (lcsLen xs (y # ys)) (lcsLen (x # xs) ys))"

lemma lcsLen_Nil [simp]: "lcsLen xs [] = 0"
  by (cases xs) simp_all

lemma lcsLen_upper: "subseq s xs \<Longrightarrow> subseq s ys \<Longrightarrow> length s \<le> lcsLen xs ys"
proof (induction xs ys arbitrary: s rule: lcsLen.induct)
  case (3 x xs y ys)
  show ?case
  proof (cases "x = y")
    case True
    show ?thesis
    proof (cases s)
      case (Cons z zs)
      show ?thesis
      proof (cases "z = x")
        case z: True
        then have "subseq zs xs" "subseq zs ys" using "3.prems" Cons True by simp_all
        then show ?thesis using "3.IH"(1) [OF True] Cons True by simp
      next
        case False
        then have "subseq s xs" "subseq s ys" using "3.prems" Cons True by simp_all
        then show ?thesis using "3.IH"(1) [OF True, of s] True by simp
      qed
    qed simp
  next
    case False
    then have "subseq s xs \<or> subseq s ys" using "3.prems" by (cases s) (auto split: if_splits)
    then show ?thesis using "3.IH"(2,3) [OF False, of s] "3.prems" False by auto
  qed
qed auto

lemma lcsLen_attained: "\<exists>s. subseq s xs \<and> subseq s ys \<and> length s = lcsLen xs ys"
proof (induction xs ys rule: lcsLen.induct)
  case (3 x xs y ys)
  show ?case
  proof (cases "x = y")
    case True
    then obtain s where "subseq s xs" "subseq s ys" "length s = lcsLen xs ys" using "3.IH"(1) by blast
    with True show ?thesis by (intro exI [of _ "x # s"]) simp
  next
    case False
    then obtain s t where "subseq s xs" "subseq s (y # ys)" "length s = lcsLen xs (y # ys)"
      "subseq t (x # xs)" "subseq t ys" "length t = lcsLen (x # xs) ys" using "3.IH"(2,3) by blast
    with False show ?thesis by (cases "lcsLen xs (y # ys) \<ge> lcsLen (x # xs) ys") (auto simp: max_def)
  qed
qed auto

lemma lcsRow_spec:
  "length d = length b + 1 \<Longrightarrow> (\<And>j. j \<le> length b \<Longrightarrow> d ! j = lcsLen xs (drop j b)) \<Longrightarrow>
   length (lcsRow x b d) = length b + 1 \<and> (\<forall>j \<le> length b. lcsRow x b d ! j = lcsLen (x # xs) (drop j b))"
proof (induction x b d rule: lcsRow.induct)
  case (1 x y ys d0 d1 ds)
  have d: "\<And>j. j \<le> length ys \<Longrightarrow> (d1 # ds) ! j = lcsLen xs (drop j ys)"
    using "1.prems"(2) [of "Suc j" for j] by simp
  have r: "length (lcsRow x ys (d1 # ds)) = length ys + 1"
    "\<forall>j \<le> length ys. lcsRow x ys (d1 # ds) ! j = lcsLen (x # xs) (drop j ys)"
    using "1.IH" d "1.prems"(1) by auto
  have h: "hd (lcsRow x ys (d1 # ds)) = lcsLen (x # xs) ys"
    using r by (cases "lcsRow x ys (d1 # ds)") auto
  have "d0 = lcsLen xs (y # ys)" "d1 = lcsLen xs ys"
    using "1.prems"(2) [of 0] d [of 0] by auto
  then show ?case using r h by (auto simp: Let_def nth_Cons split: nat.splits)
qed auto

lemma lcsTable_spec:
  "length (lcsTable a b) = length a + 1 \<and>
   (\<forall>i \<le> length a. length (lcsTable a b ! i) = length b + 1 \<and>
     (\<forall>j \<le> length b. cell (lcsTable a b) i j = lcsLen (drop i a) (drop j b)))"
proof (induction a)
  case (Cons x xs)
  have h: "hd (lcsTable xs b) = lcsTable xs b ! 0" using Cons by (simp add: hd_conv_nth flip: length_greater_0_conv)
  then have "length (lcsRow x b (hd (lcsTable xs b))) = length b + 1 \<and>
      (\<forall>j \<le> length b. lcsRow x b (hd (lcsTable xs b)) ! j = lcsLen (x # xs) (drop j b))"
    using Cons by (intro lcsRow_spec) (auto simp: cell_def)
  then show ?case using Cons by (auto simp: Let_def cell_def nth_Cons split: nat.splits)
qed (auto simp: cell_def nth_Cons split: nat.splits)

lemmas lcsTable_cell = lcsTable_spec [THEN conjunct2, rule_format, THEN conjunct2, rule_format]

section \<open>The runs remove as little as possible\<close>

lemma lcsLen_drop:
  assumes "i < length a" "j < length b"
  shows "lcsLen (drop i a) (drop j b) =
    (if atMatch a b i j then Suc (lcsLen (drop (i + 1) a) (drop (j + 1) b))
     else max (lcsLen (drop (i + 1) a) (drop j b)) (lcsLen (drop i a) (drop (j + 1) b)))"
  using assms by (simp add: atMatch_def Cons_nth_drop_Suc [symmetric])

lemma changeLoop_keeps_lcs:
  "changeLoop t a b i j = (i', j') \<Longrightarrow> t = lcsTable a b \<Longrightarrow> i \<le> length a \<Longrightarrow> j \<le> length b \<Longrightarrow>
   lcsLen (drop i' a) (drop j' b) = lcsLen (drop i a) (drop j b)"
proof (induction t a b i j rule: changeLoop.induct)
  case (1 t a b i j)
  let ?on = "(i < length a \<or> j < length b) \<and> \<not> atMatch a b i j"
  let ?down = "j < length b \<and> (i \<ge> length a \<or> cell t i (j + 1) \<ge> cell t (i + 1) j)"
  consider "?on" "?down" | "?on" "\<not> ?down" | "\<not> ?on" by blast
  then show ?case
  proof cases
    case 1
    with "1.prems"(1) have "changeLoop t a b i (j + 1) = (i', j')" by (subst (asm) changeLoop.simps) simp
    from "1.IH"(1) [OF 1 this "1.prems"(2,3)] 1 
    have "lcsLen (drop i' a) (drop j' b) = lcsLen (drop i a) (drop (j + 1) b)" by simp
    also have "\<dots> = lcsLen (drop i a) (drop j b)"
      using 1 "1.prems"(2-4) lcsTable_cell [of i a "j + 1" b] lcsTable_cell [of "i + 1" a j b]
      by (cases "i < length a") (auto simp: lcsLen_drop)
    finally show ?thesis .
  next
    case 2
    with "1.prems"(1) have "changeLoop t a b (i + 1) j = (i', j')"
      by (subst (asm) changeLoop.simps) (simp only: if_True if_False simp_thms)
    moreover have i: "i < length a" using 2 "1.prems"(3) by auto
    ultimately have "lcsLen (drop i' a) (drop j' b) = lcsLen (drop (i + 1) a) (drop j b)"
      using "1.IH"(2) [OF 2 _ "1.prems"(2)] "1.prems"(4) by simp
    also have "\<dots> = lcsLen (drop i a) (drop j b)"
      using 2 i "1.prems"(2-4) lcsTable_cell [of i a "j + 1" b] lcsTable_cell [of "i + 1" a j b]
      by (cases "j < length b") (auto simp: lcsLen_drop)
    finally show ?thesis .
  next
    case 3
    with "1.prems"(1) have "(i, j) = (i', j')" by (subst (asm) changeLoop.simps) (simp only: if_False)
    then show ?thesis by simp
  qed
qed

definition removedLines :: "LineRun list \<Rightarrow> nat" where
  "removedLines runs = sum_list (map (\<lambda>r. aEnd r - aStart r) runs)"

lemma runs_removed:
  assumes "i \<le> length a" "j \<le> length b"
  shows "removedLines (runLoop (lcsTable a b) a b i j []) + lcsLen (drop i a) (drop j b) = length a - i"
  using assms
proof (induction i j rule: diff_induct [where t = "lcsTable a b"])
  case (match i j)
  have "i < length a" "j < length b" using match(1) by (simp_all add: atMatch_def)
  then show ?case using match by (simp add: runLoop_match lcsLen_drop)
next
  case (change i j i' j')
  then show ?case
    using changeLoop_moves [OF change(5)] changeLoop_keeps_lcs [OF change(5) refl change(1,2)]
    by (simp add: runLoop_cons [OF change(3-5)] removedLines_def, arith)
qed (simp add: runLoop_end removedLines_def)

section \<open>Lines and text\<close>

lemma splitLines_nonempty [simp]: "splitLines t \<noteq> []"
  by (induction t) (auto split: list.splits)

fun unlines :: "string list \<Rightarrow> string" where
  "unlines [] = []"
| "unlines [l] = l"
| "unlines (l # ls) = l @ CHR 0x0A # unlines ls"

lemma unlines_splitLines: "unlines (splitLines t) = t"
proof (induction t)
  case (Cons c cs)
  then show ?case using splitLines_nonempty [of cs]
    by (cases "splitLines cs"; cases "tl (splitLines cs)") auto
qed simp

lemma chunks_unlines:
  "concat (map (\<lambda>(k, l). if k < n + length ls - 1 then l @ [CHR 0x0A] else l) (enumerate n ls)) = unlines ls"
proof (induction ls arbitrary: n rule: unlines.induct)
  case (3 l l' ls)
  then show ?case using "3.IH" [of "Suc n"] by simp
qed simp_all

lemma concat_toChunks: "concat (toChunks t) = t"
  using chunks_unlines [of 0 "splitLines t"] by (simp add: toChunks_def Let_def unlines_splitLines)

section \<open>Properties\<close>

text \<open>C37: A diff is a recipe: for two texts of at most 4,000 lines the runs are reported, replacing
  each run's lines of the old text by its lines of the new one gives the new text, byte for byte,
  and the runs are non-empty, in order and kept apart by stretches of equal lines.\<close>

theorem diff_recreates_text:
  assumes "length (toChunks old) \<le> LCS_LINE_LIMIT" and "length (toChunks new) \<le> LCS_LINE_LIMIT"
  shows "\<exists>runs. lineRuns (toChunks old) (toChunks new) = Some runs \<and>
    concat (patch 0 (toChunks old) (toChunks new) runs) = new \<and>
    apart (toChunks old) (toChunks new) 0 0 runs"
  using assms patch_runs [of 0 "toChunks old" 0 "toChunks new" "lcsTable (toChunks old) (toChunks new)"]
    runs_apart [of 0 "toChunks old" 0 "toChunks new" "lcsTable (toChunks old) (toChunks new)"]
  by (simp add: lineRuns_def concat_toChunks)

theorem diff_recreates_text_witness:
  "\<exists>runs. lineRuns (toChunks ''ab'') (toChunks ''b'') = Some runs \<and>
    concat (patch 0 (toChunks ''ab'') (toChunks ''b'') runs) = ''b''"
  using diff_recreates_text [of "''ab''" "''b''"] by (auto simp: toChunks_def LCS_LINE_LIMIT_def)

text \<open>A diff is minimal: the lines it removes are as few as possible. What the runs leave standing
  is as long as the longest common subsequence of the two sides, so no way of turning the one into
  the other by removing and inserting lines keeps more of them.\<close>

theorem diff_is_minimal:
  assumes "lineRuns a b = Some runs"
  shows "(\<exists>s. subseq s a \<and> subseq s b \<and> length s + removedLines runs = length a) \<and>
    (\<forall>s. subseq s a \<longrightarrow> subseq s b \<longrightarrow> length s + removedLines runs \<le> length a)"
proof -
  have r: "removedLines runs + lcsLen a b = length a"
    using assms runs_removed [of 0 a 0 b] by (simp add: lineRuns_def split: if_splits)
  obtain s where "subseq s a" "subseq s b" "length s = lcsLen a b" using lcsLen_attained by blast
  then have "\<exists>s. subseq s a \<and> subseq s b \<and> length s + removedLines runs = length a" using r by auto
  moreover have "\<forall>s. subseq s a \<longrightarrow> subseq s b \<longrightarrow> length s + removedLines runs \<le> length a"
    using r lcsLen_upper [of _ a b] by fastforce
  ultimately show ?thesis ..
qed

theorem diff_is_minimal_witness:
  "\<exists>runs. lineRuns [1::nat, 2, 3] [2, 3, 4] = Some runs \<and>
    (\<forall>s. subseq s [1::nat, 2, 3] \<longrightarrow> subseq s [2, 3, 4] \<longrightarrow> length s + removedLines runs \<le> 3)"
proof -
  obtain runs where r: "lineRuns [1::nat, 2, 3] [2, 3, 4] = Some runs" by (auto simp: lineRuns_def LCS_LINE_LIMIT_def)
  then show ?thesis using diff_is_minimal [OF r] by (simp add: numeral_3_eq_3)
qed

end
