(* ===== verification/Injection_Windows.thy ===== *)
theory Injection_Windows
  imports Prelude
begin

text \<open>
  Overlapping windows for the injection classifier: \<open>core/gateway/src/detect/injection-windows.ts\<close>.
  The tokenizer and the classifier are third-party packages: parameters. Scores are the elements of
  a linear order, which floating point numbers are as long as none is \<open>NaN\<close>.
\<close>

section \<open>The code\<close>

text \<open>The loop over \<open>start\<close>; the stride is positive once the two checks have passed.\<close>

function windowLoop :: "'t list \<Rightarrow> nat \<Rightarrow> nat \<Rightarrow> nat \<Rightarrow> 't list list" where
  "windowLoop tokens width stride start =
     (if 0 < stride \<and> start < length tokens then
        take width (drop start tokens) #
          (if start + width \<ge> length tokens then [] else windowLoop tokens width stride (start + stride))
      else [])"
  by pat_completeness auto
termination
  by (relation "measure (\<lambda>(tokens, width, stride, start). length tokens - start)") auto

declare windowLoop.simps [simp del]

definition buildWindows :: "'t list \<Rightarrow> int \<Rightarrow> int \<Rightarrow> 't list list js" where
  "buildWindows tokens width overlap =
     (if width \<le> 0 then Inl (Error ''window size must be positive'')
      else if overlap \<ge> width then Inl (Error ''window overlap must be smaller than the window size'')
      else if int (length tokens) \<le> width then Inr [tokens]
      else Inr (windowLoop tokens (nat width) (nat (width - overlap)) 0))"

definition aggregateWindowScores :: "('a :: linorder) list \<Rightarrow> 'a js" where
  "aggregateWindowScores scores =
     (case scores of
        [] \<Rightarrow> Inl (Error ''cannot score a message with no windows'')
      | s # rest \<Rightarrow> Inr (foldl max s rest))"

text \<open>\<open>encode\<close> may throw, which the code catches: \<open>None\<close>. No tokenizer at all: \<open>None\<close>.\<close>

record 't WindowTokenizer =
  tok_encode :: "string \<Rightarrow> 't list option"
  tok_decode :: "'t list \<Rightarrow> string"

definition textWindows :: "string \<Rightarrow> 't WindowTokenizer option \<Rightarrow> int \<Rightarrow> int \<Rightarrow> string list js" where
  "textWindows text tok width overlap =
     (case tok of
        None \<Rightarrow> Inr [text]
      | Some t \<Rightarrow>
        (case tok_encode t text of
           None \<Rightarrow> Inr [text]
         | Some ids \<Rightarrow>
             if int (length ids) \<le> width then Inr [text]
             else rbind (buildWindows ids width overlap) (\<lambda>ws. Inr (map (tok_decode t) ws))))"

section \<open>Lemmas\<close>

text \<open>The window that starts at or before a position, and reaches past the span that starts there.\<close>

lemma windowLoop_covers:
  assumes "start \<le> p" and "p + len \<le> length tokens" and "0 < len" and "0 < stride" and "len + stride \<le> width + 1"
  shows "\<exists>w \<in> set (windowLoop tokens width stride start). \<exists>k. k + len \<le> length w \<and>
    take len (drop k w) = take len (drop p tokens)"
  using assms
proof (induction tokens width stride start rule: windowLoop.induct)
  case (1 tokens width stride start)
  have s: "start < length tokens" using 1(2-4) by simp
  show ?case
  proof (cases "p + len \<le> start + width")
    case True
    let ?w = "take width (drop start tokens)"
    have "take len (drop (p - start) ?w) = take len (drop p tokens)"
      using True 1(2) by (simp add: drop_take min_absorb1)
    moreover have "p - start + len \<le> length ?w" using True 1(2,3) by auto
    ultimately have "\<exists>k. k + len \<le> length ?w \<and> take len (drop k ?w) = take len (drop p tokens)" by blast
    then show ?thesis using s 1(5) by (simp add: windowLoop.simps [of tokens width stride start])
  next
    case False
    then have more: "\<not> start + width \<ge> length tokens" and "start + stride \<le> p" using 1(3,6) by auto
    from "1.IH" [OF _ more this(2) 1(3-6)] s 1(5) show ?thesis
      by (simp add: windowLoop.simps [of tokens width stride start] more del: Bex_def)
  qed
qed

lemma windowLoop_size: "w \<in> set (windowLoop tokens width stride start) \<Longrightarrow> length w \<le> width"
proof (induction tokens width stride start rule: windowLoop.induct)
  case (1 tokens width stride start)
  then show ?case by (subst (asm) windowLoop.simps) (auto split: if_splits)
qed

lemma foldl_max_upper: "foldl max (a :: 'a :: linorder) xs \<ge> a \<and> (\<forall>x \<in> set xs. x \<le> foldl max a xs)"
  by (induction xs rule: rev_induct) (auto simp: max_def)

lemma aggregate_upper: "aggregateWindowScores ss = Inr m \<Longrightarrow> s \<in> set ss \<Longrightarrow> s \<le> m"
  using foldl_max_upper by (cases ss) (auto simp: aggregateWindowScores_def)

lemma buildWindows_covers:
  assumes "0 \<le> overlap" and "overlap < width" and "buildWindows tokens width overlap = Inr ws"
    and "p + len \<le> length tokens" and "0 < len" and "int len \<le> overlap + 1"
  shows "\<exists>w \<in> set ws. \<exists>k. k + len \<le> length w \<and> take len (drop k w) = take len (drop p tokens)"
proof (cases "int (length tokens) \<le> width")
  case True
  then have "ws = [tokens]" using assms(1-3) by (simp add: buildWindows_def)
  then show ?thesis using assms(4) by auto
next
  case False
  then have "ws = windowLoop tokens (nat width) (nat (width - overlap)) 0"
    using assms(1-3) by (simp add: buildWindows_def)
  then show ?thesis using assms windowLoop_covers [of 0 p len tokens "nat (width - overlap)" "nat width"]
    by (simp add: nat_diff_distrib)
qed

section \<open>Properties\<close>

text \<open>No phrase escapes between windows: with an overlap between zero and the window size, building
  the windows succeeds, every window fits the classifier, and every run of up to overlap + 1
  consecutive tokens of the message lies whole inside some window, whose score the message's score
  is not below.\<close>

theorem windows_leave_no_gap:
  assumes "0 \<le> overlap" and "overlap < width" and "p + len \<le> length tokens" and "0 < len" and "int len \<le> overlap + 1"
  shows "\<exists>ws. buildWindows tokens width overlap = Inr ws \<and> (\<forall>w \<in> set ws. int (length w) \<le> width) \<and>
    (\<exists>w \<in> set ws. (\<exists>k. k + len \<le> length w \<and> take len (drop k w) = take len (drop p tokens)) \<and>
      (\<exists>m. aggregateWindowScores (map score ws) = Inr m \<and> score w \<le> m))"
proof -
  obtain ws where ws: "buildWindows tokens width overlap = Inr ws"
    using assms(1,2) by (cases "int (length tokens) \<le> width") (auto simp: buildWindows_def)
  have small: "\<forall>w \<in> set ws. int (length w) \<le> width"
    using ws assms(1,2) windowLoop_size [of _ tokens "nat width" "nat (width - overlap)" 0]
    by (fastforce simp: buildWindows_def split: if_splits)
  obtain w where w: "w \<in> set ws" "\<exists>k. k + len \<le> length w \<and> take len (drop k w) = take len (drop p tokens)"
    using buildWindows_covers [OF assms(1,2) ws assms(3-5)] by blast
  obtain m where "aggregateWindowScores (map score ws) = Inr m"
    using w(1) by (cases ws) (auto simp: aggregateWindowScores_def)
  with aggregate_upper [OF this, of "score w"] w(1) show ?thesis using ws small w(2) by auto
qed

theorem windows_leave_no_gap_witness:
  "\<exists>ws. buildWindows [1, 2, 3, 4, 5, 6, 7 :: nat] 4 2 = Inr ws \<and>
    (\<exists>w \<in> set ws. \<exists>k. k + 3 \<le> length w \<and> take 3 (drop k w) = take 3 (drop 3 [1, 2, 3, 4, 5, 6, 7]))"
  using windows_leave_no_gap [of 2 4 3 3 "[1, 2, 3, 4, 5, 6, 7 :: nat]" "sum_list :: nat list \<Rightarrow> nat"] by auto

end
