(* ===== verification/Outbound_Scan.thy ===== *)
theory Outbound_Scan
  imports Hashing Hex "HOL-Library.Product_Lexorder"
begin

text \<open>
  The scanners of an outgoing message: secrets (\<open>core/gateway/src/detect/secrets.ts\<close>), exfiltration
  (\<open>exfil.ts\<close>), personal data (\<open>pii.ts\<close>) and the shield for known public keys (\<open>outbound.ts\<close>).
  Compiled regular expressions are arguments, given by what \<open>matchAll\<close>, \<open>exec\<close> or \<open>test\<close> answers;
  so are the Unicode tables of \<open>sanitize.ts\<close> and the entropy of a string. Texts are strings.
\<close>

section \<open>Text\<close>

text \<open>\<open>text.split(v).join(r)\<close> for a non-empty \<open>v\<close>.\<close>

function replaceAll :: "string \<Rightarrow> string \<Rightarrow> string \<Rightarrow> string" where
  "replaceAll v r text =
     (if v = [] \<or> text = [] then text
      else if take (length v) text = v then r @ replaceAll v r (drop (length v) text)
      else hd text # replaceAll v r (tl text))"
  by pat_completeness auto
termination
  by (relation "measure (\<lambda>(v, r, text). length text)") (auto simp: length_greater_0_conv)

declare replaceAll.simps [simp del]

text \<open>\<open>text.replace(re, f)\<close> with a global pattern: \<open>ms\<close> are its matches, ascending and disjoint.\<close>

fun replaceMatches :: "nat \<Rightarrow> (nat \<times> string) list \<Rightarrow> (string \<Rightarrow> string) \<Rightarrow> string \<Rightarrow> string" where
  "replaceMatches pos [] f text = drop pos text"
| "replaceMatches pos ((i, m) # ms) f text =
     take (i - pos) (drop pos text) @ f m @ replaceMatches (i + length m) ms f text"

fun hasSub :: "string \<Rightarrow> string \<Rightarrow> bool" where
  "hasSub s text = (take (length s) text = s \<or> (case text of [] \<Rightarrow> False | c # cs \<Rightarrow> hasSub s cs))"

declare hasSub.simps [simp del]

definition isDigit :: "char \<Rightarrow> bool" where
  "isDigit c \<longleftrightarrow> (let n = of_char c :: nat in 48 \<le> n \<and> n \<le> 57)"

definition hexChar :: "char \<Rightarrow> bool" where
  "hexChar c \<longleftrightarrow> hexVal c \<noteq> None"

section \<open>Secrets\<close>

text \<open>
  A compiled rule: \<open>exec\<close> answers index, \<open>m[0]\<close> and \<open>m[1]\<close> of the first match; \<open>lowEntropy\<close> is
  \<open>entropy > 0 && shannonBits(value) < entropy\<close>.
\<close>

record SecretRule =
  sr_id :: string
  sr_keywords :: "string list"
  sr_exec :: "string \<Rightarrow> (nat \<times> string \<times> string option) option"
  sr_lowEntropy :: "string \<Rightarrow> bool"

record SecretRules =
  compiled :: "SecretRule list option"
  stopwords :: "string list"
  allow_tests :: "(string \<Rightarrow> bool) list"

definition isFalsePositive :: "SecretRules \<Rightarrow> SecretRule \<Rightarrow> string \<Rightarrow> bool" where
  "isFalsePositive R rule value \<longleftrightarrow>
     list_ex (\<lambda>sw. hasSub sw (toLower value)) (stopwords R) \<or>
     list_ex (\<lambda>test. test value) (allow_tests R) \<or> sr_lowEntropy rule value"

text \<open>The scan of one rule; \<open>n\<close> counts \<open>guard\<close> down from 1000.\<close>

fun findSecrets :: "nat \<Rightarrow> SecretRules \<Rightarrow> SecretRule \<Rightarrow> string \<Rightarrow> nat \<Rightarrow> string list \<Rightarrow> string list" where
  "findSecrets 0 R rule text offset secrets = secrets"
| "findSecrets (Suc n) R rule text offset secrets =
     (if offset < length text then
        (case sr_exec rule (drop offset text) of
           None \<Rightarrow> secrets
         | Some (index, m0, m1) \<Rightarrow>
             let value = (case m1 of None \<Rightarrow> m0 | Some g \<Rightarrow> g) in
             findSecrets n R rule text (offset + index + max 1 (length m0))
               (if value \<noteq> [] \<and> \<not> isFalsePositive R rule value then add_last value secrets else secrets))
      else secrets)"

definition redactRule :: "SecretRules \<Rightarrow> string \<Rightarrow> SecretRule \<Rightarrow> string \<times> string list \<Rightarrow> string \<times> string list" where
  "redactRule R lowerContent rule acc =
     (if sr_keywords rule \<noteq> [] \<and> \<not> list_ex (\<lambda>k. hasSub k lowerContent) (sr_keywords rule) then acc
      else foldl (\<lambda>(text, findings) value.
             (replaceAll value (''[REDACTED:'' @ sr_id rule @ '']'') text, findings @ [sr_id rule]))
           acc (findSecrets 1000 R rule (fst acc) 0 []))"

definition redactSecrets :: "SecretRules \<Rightarrow> string \<Rightarrow> string \<times> string list" where
  "redactSecrets R input =
     (case compiled R of
        None \<Rightarrow> (input, [])
      | Some rules \<Rightarrow> foldl (\<lambda>acc rule. redactRule R (toLower input) rule acc) (input, []) rules)"

section \<open>Exfiltration\<close>

datatype ExfilCategory = InjectionArtifact | Invisible | ImageUrl | Encoded

datatype ExfilDisposition = ExAllow | ExRedact | ExBlock

text \<open>
  \<open>x_artifacts\<close> are the \<open>exec\<close>s of \<open>ARTIFACT_PATTERNS\<close>; \<open>x_strip\<close> is \<open>stripInvisible\<close> with the number
  of code points removed; \<open>x_images\<close> lists the matches of \<open>MD_IMAGE\<close> with their URLs.
\<close>

record ExfilTools =
  x_artifacts :: "(string \<Rightarrow> string option) list"
  x_strip :: "string \<Rightarrow> string \<times> nat"
  x_images :: "string \<Rightarrow> (nat \<times> string \<times> string) list"
  x_tokens :: "string \<Rightarrow> string list"

definition findInjectionArtifact :: "ExfilTools \<Rightarrow> string \<Rightarrow> string option" where
  "findInjectionArtifact X text =
     (case filter (\<lambda>re. re text \<noteq> None) (x_artifacts X) of [] \<Rightarrow> None | re # _ \<Rightarrow> re text)"

definition dataUrl :: "nat \<times> string \<times> string \<Rightarrow> bool" where
  "dataUrl = (\<lambda>(i, whole, url). CHR ''?'' \<in> set url)"

definition screenOutboundExfil :: "ExfilTools \<Rightarrow> string \<Rightarrow> ExfilDisposition \<times> string \<times> ExfilCategory list" where
  "screenOutboundExfil X text =
     (if findInjectionArtifact X text \<noteq> None then (ExBlock, text, [InjectionArtifact])
      else
        let (stripped, removed) = x_strip X text;
            text1 = (if removed > 0 then stripped else text);
            images = filter dataUrl (x_images X text1);
            text2 = replaceMatches 0 (map (\<lambda>(i, whole, url). (i, whole)) images)
                      (\<lambda>_. ''[image removed: possible data-carrying URL]'') text1;
            tokens = x_tokens X text2;
            text3 = foldl (\<lambda>t token. replaceAll token ''[redacted: high-entropy data]'' t) text2 tokens;
            events = (if removed > 0 then [Invisible] else []) @ map (\<lambda>_. ImageUrl) images @ map (\<lambda>_. Encoded) tokens
        in (if events \<noteq> [] then ExRedact else ExAllow, text3, events))"

section \<open>Personal data\<close>

datatype PIICategory = PiiEmail | PiiIp | PiiSsn | PiiCreditCard | PiiPhone

fun categoryText :: "PIICategory \<Rightarrow> string" where
  "categoryText PiiEmail = ''pii:email''"
| "categoryText PiiIp = ''pii:ip''"
| "categoryText PiiSsn = ''pii:ssn''"
| "categoryText PiiCreditCard = ''pii:credit_card''"
| "categoryText PiiPhone = ''pii:phone''"

record PIIEvent =
  pe_category :: PIICategory
  pe_value :: string
  pe_flagId :: string

record PIIResult =
  pr_warn :: bool
  pr_bulk :: bool
  pr_events :: "PIIEvent list"

record PIIOptions =
  whitelist :: "string list"
  bulkThreshold :: int
  cumulativeThreshold :: int
  checkEmail :: bool
  checkPhone :: bool

text \<open>The matches of each pattern, with their indices; \<open>m_isoDate\<close> is the length of the date at the front.\<close>

record PIIMatchers =
  m_email :: "string \<Rightarrow> (nat \<times> string) list"
  m_ip :: "string \<Rightarrow> (nat \<times> string) list"
  m_ssn :: "string \<Rightarrow> (nat \<times> string) list"
  m_cc :: "string \<Rightarrow> (nat \<times> string) list"
  m_phone :: "string \<Rightarrow> (nat \<times> string) list"
  m_uuid :: "string \<Rightarrow> (nat \<times> string) list"
  m_longHex :: "string \<Rightarrow> (nat \<times> string) list"
  m_isoDate :: "string \<Rightarrow> nat"

record Candidate =
  cd_start :: nat
  cd_end :: nat
  cd_category :: PIICategory
  cd_value :: string
  cd_priority :: nat

definition space :: "char \<Rightarrow> bool" where
  "space c \<longleftrightarrow> (of_char c :: nat) \<in> {9, 10, 11, 12, 13, 32, 160}"

definition js_trim :: "string \<Rightarrow> string" where
  "js_trim s = rev (dropWhile space (rev (dropWhile space s)))"

definition isPlausiblePhone :: "PIIMatchers \<Rightarrow> string \<Rightarrow> bool" where
  "isPlausiblePhone M value =
     (let trimmed = js_trim value; remainder = drop (m_isoDate M trimmed) trimmed
      in length (filter isDigit remainder) \<ge> 7)"

definition maskRun :: "string \<Rightarrow> string" where
  "maskRun m = replicate (length m) (CHR ''_'')"

definition hexLetter :: "char \<Rightarrow> bool" where
  "hexLetter c \<longleftrightarrow> hexChar c \<and> \<not> isDigit c"

definition maskHashes :: "PIIMatchers \<Rightarrow> string \<Rightarrow> string" where
  "maskHashes M text =
     (let mask = (\<lambda>m. if list_ex hexLetter m then maskRun m else m);
          t = replaceMatches 0 (m_uuid M text) mask text
      in replaceMatches 0 (m_longHex M t) mask t)"

text \<open>The Luhn sum, over the digits from the last one back.\<close>

fun luhnSum :: "bool \<Rightarrow> nat \<Rightarrow> string \<Rightarrow> nat option" where
  "luhnSum alt acc [] = Some acc"
| "luhnSum alt acc (c # cs) =
     (if \<not> isDigit c then None
      else let d = of_char c - 48; d2 = (if alt then (if 2 * d > 9 then 2 * d - 9 else 2 * d) else d)
           in luhnSum (\<not> alt) (acc + d2) cs)"

definition luhnValid :: "string \<Rightarrow> bool" where
  "luhnValid digits = (case luhnSum False 0 (rev digits) of None \<Rightarrow> False | Some s \<Rightarrow> digits \<noteq> [] \<and> s mod 10 = 0)"

text \<open>\<open>Number(p)\<close> on a part between dots; \<open>None\<close> is \<open>NaN\<close>, which no comparison holds for.\<close>

fun splitDots :: "string \<Rightarrow> string list" where
  "splitDots [] = [[]]"
| "splitDots (c # cs) =
     (if c = CHR ''.'' then [] # splitDots cs
      else case splitDots cs of [] \<Rightarrow> [[c]] | p # ps \<Rightarrow> (c # p) # ps)"

definition numberOf :: "string \<Rightarrow> nat option" where
  "numberOf p = (if list_all isDigit p then Some (foldl (\<lambda>n c. 10 * n + (of_char c - 48)) 0 p) else None)"

definition parseIpv4Octets :: "string \<Rightarrow> nat option list option" where
  "parseIpv4Octets value =
     (let parts = splitDots value in
      if length parts \<noteq> 4 then None
      else if list_ex (\<lambda>p. p = [] \<or> (case numberOf p of None \<Rightarrow> False | Some n \<Rightarrow> n > 255)) parts then None
      else Some (map numberOf parts))"

definition isNonIdentifyingIpv4 :: "string \<Rightarrow> bool" where
  "isNonIdentifyingIpv4 value =
     (case parseIpv4Octets value of
        None \<Rightarrow> False
      | Some os \<Rightarrow> os ! 0 = Some 127 \<or> os = [Some 0, Some 0, Some 0, Some 0] \<or> os = [Some 255, Some 255, Some 255, Some 255])"

definition validIp :: "string \<Rightarrow> bool" where
  "validIp value \<longleftrightarrow> parseIpv4Octets value \<noteq> None \<and> \<not> isNonIdentifyingIpv4 value"

definition normalizePhone :: "string \<Rightarrow> string" where
  "normalizePhone v = filter isDigit v"

fun normalizeForWhitelist :: "PIICategory \<Rightarrow> string \<Rightarrow> string" where
  "normalizeForWhitelist PiiEmail v = toLower v"
| "normalizeForWhitelist PiiPhone v = normalizePhone v"
| "normalizeForWhitelist _ v = v"

definition whitelisted :: "PIIOptions \<Rightarrow> PIICategory \<Rightarrow> string \<Rightarrow> bool" where
  "whitelisted opts cat v \<longleftrightarrow> normalizeForWhitelist cat v \<in>
     set (map toLower (whitelist opts)) \<union> set (filter (\<lambda>p. p \<noteq> []) (map normalizePhone (whitelist opts)))"

definition collect :: "(nat \<times> string) list \<Rightarrow> PIICategory \<Rightarrow> nat \<Rightarrow> (string \<Rightarrow> bool) \<Rightarrow> Candidate list" where
  "collect ms cat priority accept =
     map (\<lambda>(i, v). \<lparr>cd_start = i, cd_end = i + length v, cd_category = cat, cd_value = v, cd_priority = priority\<rparr>)
       (filter (\<lambda>(i, v). accept v) ms)"

definition phoneText :: "PIIMatchers \<Rightarrow> string \<Rightarrow> string" where
  "phoneText M text =
     maskHashes M (replaceMatches 0 (m_ip M text) (\<lambda>m. if parseIpv4Octets m \<noteq> None then maskRun m else m) text)"

definition candidates :: "PIIOptions \<Rightarrow> PIIMatchers \<Rightarrow> string \<Rightarrow> Candidate list" where
  "candidates opts M text =
     (if checkEmail opts then collect (m_email M text) PiiEmail 0 (\<lambda>_. True) else []) @
     collect (m_ip M text) PiiIp 1 validIp @
     collect (m_ssn M text) PiiSsn 2 (\<lambda>_. True) @
     collect (m_cc M text) PiiCreditCard 3 (\<lambda>v. luhnValid (filter isDigit v)) @
     (if checkPhone opts then collect (m_phone M (phoneText M text)) PiiPhone 4 (isPlausiblePhone M) else [])"

definition overlaps :: "Candidate \<Rightarrow> Candidate \<Rightarrow> bool" where
  "overlaps c d \<longleftrightarrow> cd_start c < cd_end d \<and> cd_end c > cd_start d"

definition acceptCandidates :: "Candidate list \<Rightarrow> Candidate list" where
  "acceptCandidates cs =
     foldl (\<lambda>taken c. if list_ex (overlaps c) taken then taken else taken @ [c]) []
       (sort_key (\<lambda>c. (cd_priority c, cd_start c)) cs)"

definition flagIdFor :: "hash_fn \<Rightarrow> PIICategory \<Rightarrow> string \<Rightarrow> string" where
  "flagIdFor sha cat value = take 12 (bytesToHex (sha (ascii (categoryText cat @ '':'' @ value))))"

definition piiKey :: "PIICategory \<Rightarrow> string \<Rightarrow> string" where
  "piiKey cat value = categoryText cat @ '':'' @ value"

definition piiEvents :: "hash_fn \<Rightarrow> PIIOptions \<Rightarrow> Candidate list \<Rightarrow> (string \<times> PIIEvent) list" where
  "piiEvents sha opts accepted =
     foldl (\<lambda>byKey c.
       if whitelisted opts (cd_category c) (cd_value c) then byKey
       else let key = piiKey (cd_category c) (cd_value c) in
         if map_of byKey key \<noteq> None then byKey
         else byKey @ [(key, \<lparr>pe_category = cd_category c, pe_value = cd_value c,
                             pe_flagId = flagIdFor sha (cd_category c) (cd_value c)\<rparr>)]) [] accepted"

text \<open>The screener's state: the distinct values of each session.\<close>

type_synonym distincts = "(string \<times> string list) list"

definition screenPII ::
  "hash_fn \<Rightarrow> PIIOptions \<Rightarrow> PIIMatchers \<Rightarrow> string \<Rightarrow> string \<Rightarrow> distincts \<Rightarrow> PIIResult \<times> distincts" where
  "screenPII sha opts M text sessionId st =
     (let byKey = piiEvents sha opts (acceptCandidates (candidates opts M text)); events = map snd byKey in
      if events = [] then (\<lparr>pr_warn = False, pr_bulk = False, pr_events = []\<rparr>, st)
      else let distinct = add_all (case map_of st sessionId of None \<Rightarrow> [] | Some d \<Rightarrow> d) (map fst byKey);
               bulk = (int (length events) \<ge> bulkThreshold opts \<or> int (length distinct) \<ge> cumulativeThreshold opts)
        in (\<lparr>pr_warn = True, pr_bulk = bulk, pr_events = events\<rparr>, AList.update sessionId distinct st))"

section \<open>Known public keys\<close>

text \<open>
  Bijective base 26: A, ..., Z, AA, ... The division loop ends because its argument shrinks.
\<close>

function letters :: "nat \<Rightarrow> string \<Rightarrow> string" where
  "letters n out =
     (let out' = char_of (65 + n mod 26) # out in if n div 26 = 0 then out' else letters (n div 26 - 1) out')"
  by pat_completeness auto
termination
  by (relation "measure fst") auto

declare letters.simps [simp del]

definition indexToLetters :: "nat \<Rightarrow> string" where
  "indexToLetters i = letters i []"

definition PLACEHOLDER_PREFIX :: string where "PLACEHOLDER_PREFIX = ''CELLOPUBKEY''"

text \<open>
  The pattern of the keys at one position: the first key, in the order of the alternation, that
  stands there in any case and is not flanked by a hex digit. The keys are hexadecimal, so they hold
  no pattern characters.
\<close>

definition keyAt :: "string list \<Rightarrow> bool \<Rightarrow> string \<Rightarrow> string option" where
  "keyAt canon flanked text =
     (if flanked then None
      else case filter (\<lambda>k. toLower (take (length k) text) = k \<and>
                (case drop (length k) text of [] \<Rightarrow> True | c # _ \<Rightarrow> \<not> hexChar c)) canon of
             [] \<Rightarrow> None
           | k # _ \<Rightarrow> Some (take (length k) text))"

text \<open>The replacement scan; \<open>acc\<close> is the restore map, \<open>flanked\<close> says the character before is a hex digit.\<close>

function shieldLoop :: "string list \<Rightarrow> bool \<Rightarrow> string \<Rightarrow> (string \<times> string) list \<Rightarrow> string \<times> (string \<times> string) list" where
  "shieldLoop canon flanked text acc =
     (if text = [] then ([], acc)
      else case keyAt canon flanked text of
        Some m \<Rightarrow>
          if m = [] then ([], acc)
          else let p = PLACEHOLDER_PREFIX @ indexToLetters (length acc);
                   (t, acc') = shieldLoop canon (hexChar (last m)) (drop (length m) text) (acc @ [(p, m)])
               in (p @ t, acc')
      | None \<Rightarrow>
          let (t, acc') = shieldLoop canon (hexChar (hd text)) (tl text) acc in (hd text # t, acc'))"
  by pat_completeness auto
termination
  by (relation "measure (\<lambda>(canon, flanked, text, acc). length text)") auto

declare shieldLoop.simps [simp del]

record Protection =
  pt_text :: string
  pt_restore :: "(string \<times> string) list"
  pt_count :: nat

text \<open>\<open>pt_restore\<close> is the restore map in the order it is applied, longest placeholder first.\<close>

definition protectKnownKeys :: "string \<Rightarrow> string list \<Rightarrow> Protection" where
  "protectKnownKeys text keys =
     (let identity = \<lparr>pt_text = text, pt_restore = [], pt_count = 0\<rparr>;
          canon = filter (\<lambda>k. k \<noteq> []) (add_all [] (map toLower keys))
      in if canon = [] then identity
         else let (t, acc) = shieldLoop canon False text [] in
           if acc = [] then identity
           else if list_ex (\<lambda>(p, m). hasSub p text) acc then identity
           else \<lparr>pt_text = t, pt_restore = rev (sort_key (\<lambda>(p, m). length p) (rev acc)), pt_count = length acc\<rparr>)"

definition restore :: "Protection \<Rightarrow> string \<Rightarrow> string" where
  "restore P t = foldl (\<lambda>out (p, m). replaceAll p m out) t (pt_restore P)"

end
