(* ===== verification/Rate_Limit.thy ===== *)
theory Rate_Limit
  imports Prelude
begin

text \<open>
  The outbound rate limiter: \<open>core/gateway/src/detect/rate-limit.ts\<close>. Times are milliseconds as
  integers; the guidance text is left out. A verdict that limits says how long to wait; with a cap of
  zero or less there is no oldest send and the number is \<open>NaN\<close>, here \<open>None\<close>.
\<close>

section \<open>The code\<close>

record RateLimitConfig =
  maxPerWindow :: int
  windowMs :: int

datatype RateLimitVerdict = Free | Limited "int option"

type_synonym sends = "(string \<times> int list) list"

definition live :: "RateLimitConfig \<Rightarrow> string \<Rightarrow> int \<Rightarrow> sends \<Rightarrow> int list" where
  "live cfg agentIdentity now st =
     (case map_of st agentIdentity of
        None \<Rightarrow> []
      | Some all \<Rightarrow> filter (\<lambda>t. t > now - windowMs cfg) all)"

definition peek :: "RateLimitConfig \<Rightarrow> string \<Rightarrow> int \<Rightarrow> sends \<Rightarrow> RateLimitVerdict" where
  "peek cfg agentIdentity now st =
     (let l = live cfg agentIdentity now st in
      if int (length l) \<ge> maxPerWindow cfg
      then Limited (case l of [] \<Rightarrow> None | oldest # _ \<Rightarrow> Some (max 1 (oldest + windowMs cfg - now)))
      else Free)"

definition record_send :: "RateLimitConfig \<Rightarrow> string \<Rightarrow> int \<Rightarrow> sends \<Rightarrow> sends" where
  "record_send cfg agentIdentity now st = AList.update agentIdentity (live cfg agentIdentity now st @ [now]) st"

text \<open>\<open>check\<close> reads the clock twice: \<open>now\<close> for the verdict, \<open>now'\<close> for the record.\<close>

definition check_rate :: "RateLimitConfig \<Rightarrow> string \<Rightarrow> int \<Rightarrow> int \<Rightarrow> sends \<Rightarrow> RateLimitVerdict \<times> sends" where
  "check_rate cfg agentIdentity now now' st =
     (let v = peek cfg agentIdentity now st in (v, if v = Free then record_send cfg agentIdentity now' st else st))"

section \<open>Runs\<close>

text \<open>
  One limiter over a clock that does not run backwards: each event says how much later it is, who
  sends, whether the send, once not limited, reaches the wire (the screener records only then;
  \<open>check\<close> is the case that it does), and how long after the verdict the send is recorded.
\<close>

type_synonym limiter = "int \<times> sends"

fun limiter_step :: "RateLimitConfig \<Rightarrow> limiter \<Rightarrow> nat \<times> string \<times> bool \<times> nat \<Rightarrow> RateLimitVerdict \<times> limiter" where
  "limiter_step cfg (clock, st) (dt, agent, sent, took) =
     (let now = clock + int dt; v = peek cfg agent now st in
      (v, (now + int took, if v = Free \<and> sent then record_send cfg agent (now + int took) st else st)))"

text \<open>The contract: the same answers from the full history of sends, never pruned.\<close>

type_synonym history = "int \<times> (string \<times> int) list"

definition sentIn :: "(string \<times> int) list \<Rightarrow> string \<Rightarrow> int \<Rightarrow> int \<Rightarrow> int list" where
  "sentIn log agent t0 t1 = map snd (filter (\<lambda>(a, t). a = agent \<and> t0 < t \<and> t \<le> t1) log)"

fun history_step :: "RateLimitConfig \<Rightarrow> history \<Rightarrow> nat \<times> string \<times> bool \<times> nat \<Rightarrow> RateLimitVerdict \<times> history" where
  "history_step cfg (clock, log) (dt, agent, sent, took) =
     (let now = clock + int dt; recent = sentIn log agent (now - windowMs cfg) now;
          limited = int (length recent) \<ge> maxPerWindow cfg in
      (if limited then Limited (case recent of [] \<Rightarrow> None | t # _ \<Rightarrow> Some (max 1 (t + windowMs cfg - now))) else Free,
       (now + int took, if \<not> limited \<and> sent then log @ [(agent, now + int took)] else log)))"

section \<open>The pruned lists answer like the history\<close>

definition pruned :: "RateLimitConfig \<Rightarrow> limiter \<Rightarrow> history \<Rightarrow> bool" where
  "pruned cfg c h \<longleftrightarrow> fst c = fst h \<and> (\<forall>(a, t) \<in> set (snd h). t \<le> fst h) \<and>
     (\<forall>agent now. now \<ge> fst c \<longrightarrow> live cfg agent now (snd c) = sentIn (snd h) agent (now - windowMs cfg) now)"

lemma sentIn_snoc:
  "sentIn (log @ [(a, t)]) agent t0 t1 = sentIn log agent t0 t1 @ (if a = agent \<and> t0 < t \<and> t \<le> t1 then [t] else [])"
  by (simp add: sentIn_def)

lemma live_record:
  "now \<le> now' \<Longrightarrow> live cfg agent now' (record_send cfg a now st) =
     (if agent = a then live cfg a now' st @ (if now > now' - windowMs cfg then [now] else []) else live cfg agent now' st)"
proof -
  assume "now \<le> now'"
  then have "filter (\<lambda>t. t > now' - windowMs cfg) (filter (\<lambda>t. t > now - windowMs cfg) all) =
      filter (\<lambda>t. t > now' - windowMs cfg) all" for all
    by (induction all) auto
  then show ?thesis
    by (simp add: live_def record_send_def update_conv' del: filter_filter split: option.split)
qed

lemma limiter_simulation:
  assumes "pruned cfg c h"
  shows "fst (limiter_step cfg c e) = fst (history_step cfg h e) \<and>
    pruned cfg (snd (limiter_step cfg c e)) (snd (history_step cfg h e))"
proof -
  obtain clock st where c: "c = (clock, st)" by (cases c)
  obtain log where h: "h = (clock, log)" using assms c by (cases h) (simp add: pruned_def)
  obtain dt agent sent took where e: "e = (dt, agent, sent, took)" by (cases e)
  let ?now = "clock + int dt"
  have l: "live cfg a now st = sentIn log a (now - windowMs cfg) now" if "now \<ge> clock" for a now
    using assms that by (simp add: pruned_def c h)
  have old: "t \<le> ?now + int took" if "(a, t) \<in> set log" for a t
    using assms that by (force simp: pruned_def h)
  show ?thesis
    using l old by (auto simp: c h e Let_def peek_def pruned_def live_record sentIn_snoc)
qed

interpretation limiter: simulation "limiter_step cfg" "history_step cfg" "pruned cfg" for cfg
  by unfold_locales (simp_all add: limiter_simulation)

section \<open>What the history guarantees\<close>

definition within_cap :: "RateLimitConfig \<Rightarrow> history \<Rightarrow> bool" where
  "within_cap cfg h \<longleftrightarrow> sorted (map snd (snd h)) \<and> (\<forall>(a, t) \<in> set (snd h). t \<le> fst h) \<and>
     (\<forall>agent t. int (length (sentIn (snd h) agent (t - windowMs cfg) t)) \<le> maxPerWindow cfg)"

lemma sentIn_mono:
  "t0 \<le> t0' \<Longrightarrow> t1' \<le> t1 \<Longrightarrow> length (sentIn log agent t0' t1') \<le> length (sentIn log agent t0 t1)"
  by (induction log) (auto simp: sentIn_def)

lemma sentIn_latest:
  "\<forall>(a, t) \<in> set log. t \<le> now \<Longrightarrow> now \<le> t1 \<Longrightarrow> sentIn log agent t0 t1 = sentIn log agent t0 now"
  unfolding sentIn_def by (intro arg_cong [where f = "map snd"] filter_cong) fastforce+

lemma history_within_cap:
  assumes "within_cap cfg h"
  shows "within_cap cfg (snd (history_step cfg h e))"
proof -
  obtain clock log where h: "h = (clock, log)" by (cases h)
  obtain dt agent sent took where e: "e = (dt, agent, sent, took)" by (cases e)
  let ?now = "clock + int dt" and ?done = "clock + int dt + int took"
  have w: "sorted (map snd log)" "\<forall>(a, t) \<in> set log. t \<le> ?now"
    "\<And>a t. int (length (sentIn log a (t - windowMs cfg) t)) \<le> maxPerWindow cfg"
    using assms by (force simp: within_cap_def h)+
  have new: "int (length (sentIn (log @ [(agent, ?done)]) a (t - windowMs cfg) t)) \<le> maxPerWindow cfg"
    if room: "int (length (sentIn log agent (?now - windowMs cfg) ?now)) < maxPerWindow cfg" for a t
  proof (cases "a = agent \<and> t - windowMs cfg < ?done \<and> ?done \<le> t")
    case True
    then have "length (sentIn log a (t - windowMs cfg) t) \<le> length (sentIn log agent (?now - windowMs cfg) ?now)"
      using sentIn_latest [OF w(2), of t] sentIn_mono [of "?now - windowMs cfg" "t - windowMs cfg" ?now ?now log agent] by simp
    with room True show ?thesis by (simp add: sentIn_snoc)
  next
    case False
    then show ?thesis using w(3) [of a t] by (auto simp: sentIn_snoc)
  qed
  have "\<forall>(a, t) \<in> set log. t \<le> ?done" using w(2) by fastforce
  then show ?thesis
    using w new by (auto simp: h e Let_def within_cap_def sorted_append not_le)
qed

interpretation history: machine "\<lambda>h e. snd (history_step cfg h e)" "within_cap cfg" for cfg
  by unfold_locales (rule history_within_cap)

lemma final_foldl: "final step s es = foldl (\<lambda>s e. snd (step s e)) s es"
  by (induction es arbitrary: s) simp_all

lemma reached_history:
  assumes "0 \<le> maxPerWindow cfg"
  shows "within_cap cfg (final (history_step cfg) (0, []) es)"
  unfolding final_foldl by (rule history.run_inv) (use assms in \<open>simp add: within_cap_def sentIn_def\<close>)

lemma empty_pruned: "pruned cfg (0, []) (0, [])"
  by (simp add: pruned_def live_def sentIn_def)

section \<open>Properties\<close>

text \<open>The sends the limiter let through to the wire, in order.\<close>

fun sent_log :: "RateLimitConfig \<Rightarrow> limiter \<Rightarrow> (nat \<times> string \<times> bool \<times> nat) list \<Rightarrow> (string \<times> int) list" where
  "sent_log cfg s [] = []"
| "sent_log cfg s ((dt, agent, sent, took) # es) =
     (case limiter_step cfg s (dt, agent, sent, took) of (v, s') \<Rightarrow>
       (if v = Free \<and> sent then [(agent, fst s')] else []) @ sent_log cfg s' es)"

lemma sent_log_history:
  "pruned cfg c h \<Longrightarrow> snd (final (history_step cfg) h es) = snd h @ sent_log cfg c es"
proof (induction es arbitrary: c h)
  case (Cons e es)
  obtain dt agent sent took where e: "e = (dt, agent, sent, took)" by (cases e)
  obtain clock st where c: "c = (clock, st)" by (cases c)
  obtain log where h: "h = (clock, log)" using Cons.prems c by (cases h) (simp add: pruned_def)
  have s: "fst (limiter_step cfg c e) = fst (history_step cfg h e)"
    "pruned cfg (snd (limiter_step cfg c e)) (snd (history_step cfg h e))"
    using limiter_simulation [OF Cons.prems] by simp_all
  show ?case using Cons.IH [OF s(2)] s(1) by (auto simp: e c h Let_def split: if_splits)
qed simp

lemma rate_cap:
  assumes "0 \<le> maxPerWindow cfg"
  shows "int (length (sentIn (sent_log cfg (0, []) es) agent (t - windowMs cfg) t)) \<le> maxPerWindow cfg"
  using reached_history [OF assms, of es] sent_log_history [OF empty_pruned, of cfg es]
  by (simp add: within_cap_def)

text \<open>The cap holds in every window: on a clock that does not run backwards, whatever the agents do
  and in whatever order, the sends of one agent that reach the wire in any window of \<open>windowMs\<close>
  milliseconds are never more than \<open>maxPerWindow\<close>.\<close>

theorem rate_cap_every_window:
  assumes "0 \<le> maxPerWindow cfg"
  shows "int (length (sentIn (sent_log cfg (0, []) es) agent (t - windowMs cfg) t)) \<le> maxPerWindow cfg"
  using assms by (rule rate_cap)

theorem rate_cap_every_window_witness:
  "int (length (sentIn (sent_log \<lparr>maxPerWindow = 1, windowMs = 10\<rparr> (0, []) [(1, ''a'', True, 0), (2, ''a'', True, 0)]) ''a'' (3 - 10) 3)) \<le> 1"
  using rate_cap_every_window [of "\<lparr>maxPerWindow = 1, windowMs = 10\<rparr>" "[(1, ''a'', True, 0), (2, ''a'', True, 0)]" "''a''" 3] by simp

text \<open>A throttled agent is told the truth about when to retry: if a send is limited, the reply names
  a wait of at least a millisecond; an attempt made that much later is let through if the agent sent
  nothing meanwhile, and every attempt made earlier is still limited.\<close>

theorem retry_after_is_exact:
  assumes "1 \<le> maxPerWindow cfg" and "final (limiter_step cfg) (0, []) es = (clock, st)" and "clock \<le> now"
    and "peek cfg agent now st = Limited r"
  shows "\<exists>d \<ge> 1. r = Some d \<and> peek cfg agent (now + d) st = Free \<and>
    (\<forall>d'. 0 \<le> d' \<longrightarrow> d' < d \<longrightarrow> peek cfg agent (now + d') st \<noteq> Free)"
proof -
  obtain log where log: "final (history_step cfg) (0, []) es = (clock, log)" and p: "pruned cfg (clock, st) (clock, log)"
    using limiter.run_related [OF empty_pruned, of cfg es] assms(2)
    by (cases "final (history_step cfg) (0, []) es") (simp add: pruned_def)
  have h: "within_cap cfg (clock, log)" using reached_history [of cfg es] assms(1) log by simp
  let ?recent = "\<lambda>now. sentIn log agent (now - windowMs cfg) now"
  have l: "live cfg agent t st = ?recent t" if "now \<le> t" for t
    using p assms(3) that by (simp add: pruned_def)
  have cap: "int (length (?recent now)) = maxPerWindow cfg"
    using h assms(4) l by (auto simp: peek_def Let_def within_cap_def split: if_splits intro: antisym)
  then obtain x xs where x: "?recent now = x # xs" using assms(1) by (cases "?recent now") auto
  have srt: "sorted (x # xs)" and mem: "now - windowMs cfg < x"
  proof -
    have "sorted (?recent now)" using h by (auto simp: within_cap_def sentIn_def intro: sorted_filter)
    then show "sorted (x # xs)" by (simp add: x)
    have "x \<in> set (?recent now)" by (simp add: x)
    then show "now - windowMs cfg < x" by (auto simp: sentIn_def)
  qed
  have later: "?recent (now + d) = filter (\<lambda>t. t > now + d - windowMs cfg) (?recent now)" if "0 \<le> d" for d
  proof -
    have "\<forall>(a, t) \<in> set log. t \<le> now" using h assms(3) by (force simp: within_cap_def)
    then have "?recent (now + d) = sentIn log agent (now + d - windowMs cfg) now"
      using that by (intro sentIn_latest) auto
    also have "\<dots> = filter (\<lambda>t. t > now + d - windowMs cfg) (?recent now)"
      using that unfolding sentIn_def by (induction log) auto
    finally show ?thesis .
  qed
  let ?d = "x + windowMs cfg - now"
  have r: "r = Some ?d" using assms(4) l [of now] x mem by (auto simp: peek_def Let_def split: if_splits)
  have "length (?recent (now + ?d)) < length (?recent now)"
    using later [of ?d] mem by (simp add: x less_Suc_eq_le)
  then have "peek cfg agent (now + ?d) st = Free" using l [of "now + ?d"] mem cap by (simp add: peek_def Let_def)
  moreover have "peek cfg agent (now + d') st \<noteq> Free" if d': "0 \<le> d'" "d' < ?d" for d'
  proof -
    have "filter (\<lambda>t. t > now + d' - windowMs cfg) (?recent now) = ?recent now"
      using srt d' by (intro filter_True) (auto simp: x)
    then show ?thesis using l [of "now + d'"] later [OF d'(1)] d'(1) cap by (simp add: peek_def Let_def)
  qed
  ultimately show ?thesis using r mem by (intro exI [of _ ?d]) simp
qed

theorem retry_after_is_exact_witness:
  "peek \<lparr>maxPerWindow = 1, windowMs = 10\<rparr> ''a'' (5 + 6) [(''a'', [1])] = Free"
proof -
  let ?cfg = "\<lparr>maxPerWindow = 1, windowMs = 10\<rparr>"
  have f: "final (limiter_step ?cfg) (0, []) [(1, ''a'', True, 0)] = (1, [(''a'', [1])])"
    by (simp add: Let_def peek_def live_def record_send_def)
  have p: "peek ?cfg ''a'' 5 [(''a'', [1])] = Limited (Some 6)" by (simp add: peek_def live_def)
  show ?thesis using retry_after_is_exact [OF _ f _ p] by auto
qed

end
