(* ===== verification/Outbound_Screen.thy ===== *)
theory Outbound_Screen
  imports Outbound_Scan Rate_Limit
begin

text \<open>
  The screening of an outgoing message, \<open>OutboundScreener\<close> of \<open>core/gateway/src/screen/outbound.ts\<close>:
  rate limit, secrets, exfiltration, personal data with the agent's decisions, accounting. The
  guidance and reason texts are left out. The UTF-8 codecs are arguments.
\<close>

section \<open>Configuration, state and verdict\<close>

record ScreenConfig =
  sc_rate :: "RateLimitConfig option"
  sc_override :: bool
  sc_pii :: PIIOptions

record ScreenTools =
  st_sha :: hash_fn
  st_secrets :: SecretRules
  st_exfil :: ExfilTools
  st_pii :: PIIMatchers
  st_decode :: "bytes \<Rightarrow> string"
  st_encode :: "string \<Rightarrow> bytes"

record ScreenState =
  ss_sends :: sends
  ss_distinct :: distincts

datatype Disposition = Allow | Redact | Block | Warn | Observe

datatype Stage = RateStage | SecretStage | ExfilStage | PiiStage

datatype Category = RateCategory | SecretCategory string | ExfilEventCategory ExfilCategory
  | PiiEventCategory PIICategory | WhitelistAddRequested

record GovernanceEvent =
  ge_stage :: Stage
  ge_disposition :: Disposition
  ge_category :: Category
  ge_flagId :: "string option"

datatype GovernanceDecision = DecideRedact | AllowOnce | AllowAlways

record OutboundContext =
  agentName :: string
  sessionId :: string
  governanceDecisions :: "(string \<times> GovernanceDecision) list option"
  knownPublicKeys :: "string list"

record OutboundVerdict =
  ov_disposition :: Disposition
  ov_content :: bytes
  ov_events :: "GovernanceEvent list"
  ov_keysProtected :: nat

section \<open>The agent's decisions\<close>

text \<open>\<open>#resolvePII\<close>: the flags to warn about again, or those to redact and those to add to the whitelist.\<close>

datatype Resolution = ReWarn "PIIEvent list" | Resolved "PIIEvent list" "PIIEvent list" "PIIEvent list"

type_synonym triage = "PIIEvent list \<times> PIIEvent list \<times> PIIEvent list \<times> PIIEvent list"

definition triageFlag :: "bool \<Rightarrow> (string \<times> GovernanceDecision) list \<Rightarrow> triage \<Rightarrow> PIIEvent \<Rightarrow> triage" where
  "triageFlag override decisions acc f =
     (case acc of (redact, allowOnce, whitelistAdd, rejected) \<Rightarrow>
       case (case map_of decisions (pe_flagId f) of None \<Rightarrow> DecideRedact | Some d \<Rightarrow> d) of
         DecideRedact \<Rightarrow> (redact @ [f], allowOnce, whitelistAdd, rejected)
       | AllowOnce \<Rightarrow>
           if \<not> override then (redact, allowOnce, whitelistAdd, rejected @ [f])
           else (redact, allowOnce @ [f], whitelistAdd, rejected)
       | AllowAlways \<Rightarrow>
           if \<not> override then (redact, allowOnce, whitelistAdd, rejected @ [f])
           else (redact, allowOnce @ [f], whitelistAdd @ [f], rejected))"

definition resolvePII ::
  "bool \<Rightarrow> PIIEvent list \<Rightarrow> (string \<times> GovernanceDecision) list option \<Rightarrow> Resolution" where
  "resolvePII override flags decisions =
     (case decisions of
        None \<Rightarrow> ReWarn flags
      | Some ds \<Rightarrow>
          (case foldl (triageFlag override ds) ([], [], [], []) flags of
             (redact, allowOnce, whitelistAdd, rejected) \<Rightarrow>
               if rejected \<noteq> [] then ReWarn rejected else Resolved redact allowOnce whitelistAdd))"

section \<open>Screening\<close>

definition secretEvent :: "string \<Rightarrow> GovernanceEvent" where
  "secretEvent rule = \<lparr>ge_stage = SecretStage, ge_disposition = Redact, ge_category = SecretCategory rule, ge_flagId = None\<rparr>"

definition exfilEvent :: "Disposition \<Rightarrow> ExfilCategory \<Rightarrow> GovernanceEvent" where
  "exfilEvent d c = \<lparr>ge_stage = ExfilStage, ge_disposition = d, ge_category = ExfilEventCategory c, ge_flagId = None\<rparr>"

definition piiEvent :: "Disposition \<Rightarrow> PIIEvent \<Rightarrow> GovernanceEvent" where
  "piiEvent d e = \<lparr>ge_stage = PiiStage, ge_disposition = d, ge_category = PiiEventCategory (pe_category e),
     ge_flagId = Some (pe_flagId e)\<rparr>"

definition whitelistEvent :: "PIIEvent \<Rightarrow> GovernanceEvent" where
  "whitelistEvent e = \<lparr>ge_stage = PiiStage, ge_disposition = Observe, ge_category = WhitelistAddRequested,
     ge_flagId = Some (pe_flagId e)\<rparr>"

definition redactFlag :: "string \<Rightarrow> PIIEvent \<Rightarrow> string" where
  "redactFlag text r = replaceAll (pe_value r) (''[REDACTED:'' @ categoryText (pe_category r) @ '']'') text"

definition verdict :: "Disposition \<Rightarrow> bytes \<Rightarrow> GovernanceEvent list \<Rightarrow> nat \<Rightarrow> OutboundVerdict" where
  "verdict d content events keys =
     \<lparr>ov_disposition = d, ov_content = content, ov_events = events, ov_keysProtected = keys\<rparr>"

text \<open>
  The end of \<open>screen\<close>: \<open>priorEvents\<close> are those of the secrets and exfiltration stages, \<open>redacted\<close> the
  flags replaced; the send is recorded at \<open>now'\<close>, a second reading of the clock.
\<close>

definition finish ::
  "ScreenConfig \<Rightarrow> ScreenTools \<Rightarrow> int \<Rightarrow> bytes \<Rightarrow> OutboundContext \<Rightarrow> Protection \<Rightarrow> bool \<Rightarrow> string \<Rightarrow>
   GovernanceEvent list \<Rightarrow> PIIEvent list \<Rightarrow> PIIEvent list \<Rightarrow> ScreenState \<Rightarrow> OutboundVerdict \<times> ScreenState" where
  "finish cfg T now' content ctx P priorTransform workingText priorEvents redacted whitelistAdd st =
     (let text = foldl redactFlag workingText redacted;
          events = priorEvents @ map (piiEvent Redact) redacted @ map whitelistEvent whitelistAdd;
          transformed = priorTransform \<or> redacted \<noteq> [];
          outContent = (if transformed then st_encode T (restore P text) else content);
          disposition = (if list_ex (\<lambda>e. ge_disposition e = Redact) events then Redact else Allow);
          st' = (case sc_rate cfg of None \<Rightarrow> st
                 | Some rl \<Rightarrow> st\<lparr>ss_sends := record_send rl (agentName ctx) now' (ss_sends st)\<rparr>)
      in (verdict disposition outContent events (pt_count P), st'))"

definition screenText ::
  "ScreenConfig \<Rightarrow> ScreenTools \<Rightarrow> int \<Rightarrow> bytes \<Rightarrow> OutboundContext \<Rightarrow> ScreenState \<Rightarrow> OutboundVerdict \<times> ScreenState" where
  "screenText cfg T now' content ctx st =
     (let P = protectKnownKeys (st_decode T content) (knownPublicKeys ctx);
          (secText, findings) = redactSecrets (st_secrets T) (pt_text P);
          (exDisposition, exText, exEvents) = screenOutboundExfil (st_exfil T) (st_decode T (st_encode T secText))
      in if exDisposition = ExBlock
         then (verdict Block content (map (exfilEvent Block) exEvents) (pt_count P), st)
         else
           let priorEvents = map secretEvent findings @ map (exfilEvent Redact) exEvents;
               priorTransform = (findings \<noteq> [] \<or> exEvents \<noteq> []);
               (pii, distinct) = screenPII (st_sha T) (sc_pii cfg) (st_pii T) (st_decode T (st_encode T exText))
                                   (sessionId ctx) (ss_distinct st);
               st1 = st\<lparr>ss_distinct := distinct\<rparr>
           in if pr_events pii = [] then finish cfg T now' content ctx P priorTransform exText priorEvents [] [] st1
              else case resolvePII (sc_override cfg) (pr_events pii) (governanceDecisions ctx) of
                ReWarn flags \<Rightarrow>
                  (verdict Warn (if priorTransform then st_encode T (restore P exText) else content)
                     (priorEvents @ map (piiEvent Warn) flags) (pt_count P), st1)
              | Resolved redacted allowOnce whitelistAdd \<Rightarrow>
                  finish cfg T now' content ctx P priorTransform exText priorEvents redacted whitelistAdd st1)"

definition screen ::
  "ScreenConfig \<Rightarrow> ScreenTools \<Rightarrow> int \<Rightarrow> int \<Rightarrow> bytes \<Rightarrow> OutboundContext \<Rightarrow> ScreenState \<Rightarrow> OutboundVerdict \<times> ScreenState" where
  "screen cfg T now now' content ctx st =
     (case sc_rate cfg of
        None \<Rightarrow> screenText cfg T now' content ctx st
      | Some rl \<Rightarrow>
          if peek rl (agentName ctx) now (ss_sends st) \<noteq> Free
          then (verdict Block content [\<lparr>ge_stage = RateStage, ge_disposition = Block, ge_category = RateCategory,
                  ge_flagId = None\<rparr>] 0, st)
          else screenText cfg T now' content ctx st)"

end
