(* ===== verification/Outbound_Claims.thy ===== *)
theory Outbound_Claims
  imports Outbound_Screen
begin

text \<open>
  What the outbound screener promises: the cap holds for what reaches the wire, a flag leaves only
  by a decision, an allowed message is not touched, and overlapping matches are settled by priority.
\<close>

section \<open>Overlapping matches\<close>

definition ordered_before :: "Candidate \<Rightarrow> Candidate \<Rightarrow> bool" where
  "ordered_before d c \<longleftrightarrow> (cd_priority d, cd_start d) \<le> (cd_priority c, cd_start c)"

definition settled :: "Candidate list \<Rightarrow> Candidate list \<Rightarrow> bool" where
  "settled seen taken \<longleftrightarrow> set taken \<subseteq> set seen \<and> sorted_wrt (\<lambda>d c. \<not> overlaps c d) taken \<and>
     (\<forall>c \<in> set seen. c \<in> set taken \<or> (\<exists>d \<in> set taken. overlaps c d \<and> ordered_before d c))"

lemma accept_settled:
  assumes "sorted (map (\<lambda>c. (cd_priority c, cd_start c)) cs)"
  shows "settled cs (foldl (\<lambda>taken c. if list_ex (overlaps c) taken then taken else taken @ [c]) [] cs)"
  using assms
proof (induction cs rule: rev_induct)
  case Nil
  then show ?case by (simp add: settled_def)
next
  case (snoc c cs)
  let ?taken = "foldl (\<lambda>taken c. if list_ex (overlaps c) taken then taken else taken @ [c]) [] cs"
  have s: "settled cs ?taken" using snoc by (simp add: sorted_append)
  have "\<forall>d \<in> set ?taken. ordered_before d c"
    using s snoc.prems by (auto simp: settled_def sorted_append ordered_before_def)
  then show ?case
    using s by (auto simp: settled_def sorted_wrt_append list_ex_iff)
qed

text \<open>Overlapping matches are settled by priority: the matches the personal data scan keeps do not
  overlap, and every match it drops overlaps a kept one that comes before it by priority, then by
  position, so a phone number inside an address or a card number is not flagged twice and nothing
  is dropped for another reason.\<close>

theorem pii_overlaps_settled:
  "sorted_wrt (\<lambda>d c. \<not> overlaps c d) (acceptCandidates cs) \<and> set (acceptCandidates cs) \<subseteq> set cs \<and>
   (\<forall>c \<in> set cs. c \<in> set (acceptCandidates cs) \<or> (\<exists>d \<in> set (acceptCandidates cs). overlaps c d \<and> ordered_before d c))"
  using accept_settled [of "sort_key (\<lambda>c. (cd_priority c, cd_start c)) cs"]
  by (auto simp: acceptCandidates_def settled_def)

theorem pii_overlaps_settled_witness:
  "\<exists>c. c \<in> set (acceptCandidates [\<lparr>cd_start = 0, cd_end = 3, cd_category = PiiSsn, cd_value = ''1'', cd_priority = 2\<rparr>])"
  using pii_overlaps_settled [of "[\<lparr>cd_start = 0, cd_end = 3, cd_category = PiiSsn, cd_value = ''1'', cd_priority = 2\<rparr>]"]
  by auto

section \<open>Decisions\<close>

lemma triage_spec:
  "foldl (triageFlag ov ds) ([], [], [], []) flags = (redact, allow, add, rejected) \<Longrightarrow>
   redact = filter (\<lambda>f. map_of ds (pe_flagId f) \<in> {None, Some DecideRedact}) flags \<and>
   allow = filter (\<lambda>f. ov \<and> map_of ds (pe_flagId f) \<in> {Some AllowOnce, Some AllowAlways}) flags \<and>
   rejected = filter (\<lambda>f. \<not> ov \<and> map_of ds (pe_flagId f) \<in> {Some AllowOnce, Some AllowAlways}) flags"
proof (induction flags arbitrary: redact allow add rejected rule: rev_induct)
  case (snoc f flags)
  obtain r a w j where e: "foldl (triageFlag ov ds) ([], [], [], []) flags = (r, a, w, j)"
    by (cases "foldl (triageFlag ov ds) ([], [], [], []) flags")
  have "triageFlag ov ds (r, a, w, j) f = (redact, allow, add, rejected)" using snoc.prems e by simp
  then show ?case
    using snoc.IH [OF e] unfolding triageFlag_def
    by (auto split: option.splits GovernanceDecision.splits if_splits)
qed simp

lemma resolved_flag:
  assumes "resolvePII ov flags decisions = Resolved redact allow add" and "f \<in> set flags"
  obtains ds where "decisions = Some ds"
    "map_of ds (pe_flagId f) \<in> {None, Some DecideRedact} \<and> f \<in> set redact \<or>
     ov \<and> map_of ds (pe_flagId f) \<in> {Some AllowOnce, Some AllowAlways}"
proof -
  obtain ds r a w where ds: "decisions = Some ds" "foldl (triageFlag ov ds) ([], [], [], []) flags = (r, a, w, [])" "redact = r"
    using assms(1) by (auto simp: resolvePII_def split: option.splits prod.splits if_splits)
  note t = triage_spec [OF ds(2)]
  then have "\<forall>f \<in> set flags. \<not> (\<not> ov \<and> map_of ds (pe_flagId f) \<in> {Some AllowOnce, Some AllowAlways})"
    by (metis (no_types, lifting) filter_empty_conv)
  then have "map_of ds (pe_flagId f) \<in> {None, Some DecideRedact} \<and> f \<in> set redact \<or>
     ov \<and> map_of ds (pe_flagId f) \<in> {Some AllowOnce, Some AllowAlways}"
    using t assms(2) ds(3) by (cases "map_of ds (pe_flagId f)"; cases "the (map_of ds (pe_flagId f))") auto
  then show thesis by (rule that [OF ds(1)])
qed

section \<open>The stages of a screening\<close>

text \<open>The flags of a message, after the stages before; what \<open>screenPII\<close> answers there.\<close>

definition textForPII :: "ScreenTools \<Rightarrow> bytes \<Rightarrow> OutboundContext \<Rightarrow> string" where
  "textForPII T content ctx =
     (let P = protectKnownKeys (st_decode T content) (knownPublicKeys ctx);
          secText = fst (redactSecrets (st_secrets T) (pt_text P));
          exText = fst (snd (screenOutboundExfil (st_exfil T) (st_decode T (st_encode T secText))))
      in st_decode T (st_encode T exText))"

definition flagsOf :: "ScreenConfig \<Rightarrow> ScreenTools \<Rightarrow> bytes \<Rightarrow> OutboundContext \<Rightarrow> ScreenState \<Rightarrow> PIIEvent list" where
  "flagsOf cfg T content ctx st =
     pr_events (fst (screenPII (st_sha T) (sc_pii cfg) (st_pii T) (textForPII T content ctx) (sessionId ctx) (ss_distinct st)))"

definition leaves :: "OutboundVerdict \<Rightarrow> bool" where
  "leaves v \<longleftrightarrow> ov_disposition v \<in> {Allow, Redact}"

text \<open>Everything a verdict can be, by the stage that gave it.\<close>

lemma screenText_cases:
  assumes "screenText cfg T now' content ctx st = (v, st')"
  obtains (blocked) keys events where "v = verdict Block content events keys" "st' = st"
  | (warned) c events keys st1 where "v = verdict Warn c events keys" "ss_sends st1 = ss_sends st" "st' = st1"
  | (finished) P prior body events redacted add st1 where
      "finish cfg T now' content ctx P prior body events redacted add st1 = (v, st')"
      "ss_sends st1 = ss_sends st" "prior \<longleftrightarrow> events \<noteq> []" "\<forall>e \<in> set events. ge_disposition e = Redact"
      "flagsOf cfg T content ctx st = [] \<and> redacted = [] \<and> add = [] \<or>
       (\<exists>allow. resolvePII (sc_override cfg) (flagsOf cfg T content ctx st) (governanceDecisions ctx) = Resolved redacted allow add)"
proof -
  let ?P = "protectKnownKeys (st_decode T content) (knownPublicKeys ctx)"
  obtain secText findings where sec: "redactSecrets (st_secrets T) (pt_text ?P) = (secText, findings)"
    by (cases "redactSecrets (st_secrets T) (pt_text ?P)")
  obtain d exText exEvents where ex: "screenOutboundExfil (st_exfil T) (st_decode T (st_encode T secText)) = (d, exText, exEvents)"
    by (cases "screenOutboundExfil (st_exfil T) (st_decode T (st_encode T secText))")
  let ?prior = "map secretEvent findings @ map (exfilEvent Redact) exEvents"
  obtain pii distinct where p: "screenPII (st_sha T) (sc_pii cfg) (st_pii T) (st_decode T (st_encode T exText))
      (sessionId ctx) (ss_distinct st) = (pii, distinct)"
    by (cases "screenPII (st_sha T) (sc_pii cfg) (st_pii T) (st_decode T (st_encode T exText)) (sessionId ctx) (ss_distinct st)")
  have flags: "flagsOf cfg T content ctx st = pr_events pii"
    by (simp add: flagsOf_def textForPII_def Let_def sec ex p)
  let ?st1 = "st\<lparr>ss_distinct := distinct\<rparr>"
  have prior: "(findings \<noteq> [] \<or> exEvents \<noteq> []) \<longleftrightarrow> ?prior \<noteq> []" "\<forall>e \<in> set ?prior. ge_disposition e = Redact"
    by (auto simp: secretEvent_def exfilEvent_def)
  consider "d = ExBlock" | "d \<noteq> ExBlock" "pr_events pii = []" | "d \<noteq> ExBlock" "pr_events pii \<noteq> []" by blast
  then show thesis
  proof cases
    case 1
    then have "v = verdict Block content (map (exfilEvent Block) exEvents) (pt_count ?P)" "st' = st"
      using assms by (simp_all add: screenText_def Let_def sec ex)
    then show thesis by (rule blocked)
  next
    case 2
    then have "finish cfg T now' content ctx ?P (findings \<noteq> [] \<or> exEvents \<noteq> []) exText ?prior [] [] ?st1 = (v, st')"
      using assms by (simp add: screenText_def Let_def sec ex p)
    then show thesis using finished prior 2 flags by fastforce
  next
    case 3
    show thesis
    proof (cases "resolvePII (sc_override cfg) (pr_events pii) (governanceDecisions ctx)")
      case (ReWarn fs)
      then have "v = verdict Warn (if findings \<noteq> [] \<or> exEvents \<noteq> [] then st_encode T (restore ?P exText) else content)
          (?prior @ map (piiEvent Warn) fs) (pt_count ?P)" "st' = ?st1"
        using assms 3 by (simp_all add: screenText_def Let_def sec ex p)
      then show thesis by (rule_tac warned [of _ _ _ ?st1]) simp_all
    next
      case (Resolved redacted allow add)
      then have "finish cfg T now' content ctx ?P (findings \<noteq> [] \<or> exEvents \<noteq> []) exText ?prior redacted add ?st1 = (v, st')"
        using assms 3 by (simp add: screenText_def Let_def sec ex p)
      then show thesis using finished prior Resolved flags by fastforce
    qed
  qed
qed

lemma verdict_simps [simp]:
  "ov_disposition (verdict d c es k) = d" "ov_content (verdict d c es k) = c" "ov_events (verdict d c es k) = es"
  by (simp_all add: verdict_def)

lemma event_dispositions [simp]:
  "ge_disposition (piiEvent d e) = d" "ge_disposition (whitelistEvent e) = Observe"
  by (simp_all add: piiEvent_def whitelistEvent_def)

lemma finish_verdict:
  assumes "finish cfg T now' content ctx P prior body events redacted add st = (v, st')"
  shows "leaves v" "ov_events v = events @ map (piiEvent Redact) redacted @ map whitelistEvent add"
    "ss_sends st' = (case sc_rate cfg of None \<Rightarrow> ss_sends st | Some rl \<Rightarrow> record_send rl (agentName ctx) now' (ss_sends st))"
  using assms by (auto simp: finish_def Let_def leaves_def split: option.splits if_splits)

lemma finish_allowed:
  assumes "finish cfg T now' content ctx P prior body events redacted add st = (v, st')"
    and "prior \<longleftrightarrow> events \<noteq> []" "\<forall>e \<in> set events. ge_disposition e = Redact" "ov_disposition v = Allow"
  shows "ov_content v = content" "\<forall>e \<in> set (ov_events v). ge_disposition e = Observe"
proof -
  have v: "v = fst (finish cfg T now' content ctx P prior body events redacted add st)" by (simp add: assms(1))
  have "\<not> list_ex (\<lambda>e. ge_disposition e = Redact) (events @ map (piiEvent Redact) redacted @ map whitelistEvent add)"
    using assms(4) unfolding v finish_def Let_def by (simp split: if_splits)
  then have none: "events = []" "redacted = []"
    using assms(3) by (cases events; simp; fail | cases redacted; simp; fail)+
  then have "\<not> prior" using assms(2) by simp
  then show "ov_content v = content" "\<forall>e \<in> set (ov_events v). ge_disposition e = Observe"
    using none by (auto simp: v finish_def Let_def)
qed

lemma screen_rate:
  assumes "screen cfg T now now' content ctx st = (v, st')" and "sc_rate cfg = Some rl"
  shows "ss_sends st' = (if leaves v then record_send rl (agentName ctx) now' (ss_sends st) else ss_sends st)"
    and "leaves v \<Longrightarrow> peek rl (agentName ctx) now (ss_sends st) = Free"
proof -
  have "ss_sends st' = (if leaves v then record_send rl (agentName ctx) now' (ss_sends st) else ss_sends st) \<and>
    (leaves v \<longrightarrow> peek rl (agentName ctx) now (ss_sends st) = Free)"
  proof (cases "peek rl (agentName ctx) now (ss_sends st) = Free")
    case True
    then have "screenText cfg T now' content ctx st = (v, st')" using assms by (simp add: screen_def)
    then show ?thesis
    proof (cases rule: screenText_cases)
      case (finished P prior body events redacted add st1)
      then show ?thesis using True assms(2) finish_verdict(1,3) [OF finished(1)] by simp
    qed (use True in \<open>simp_all add: leaves_def\<close>)
  next
    case False
    then show ?thesis using assms by (auto simp: screen_def leaves_def)
  qed
  then show "ss_sends st' = (if leaves v then record_send rl (agentName ctx) now' (ss_sends st) else ss_sends st)"
    and "leaves v \<Longrightarrow> peek rl (agentName ctx) now (ss_sends st) = Free" by simp_all
qed

section \<open>Properties\<close>

text \<open>A concrete set of tools for the examples: one social security number in a text of one letter.\<close>

definition sampleTools :: ScreenTools where
  "sampleTools = \<lparr>st_sha = (\<lambda>b. []), st_secrets = \<lparr>compiled = None, stopwords = [], allow_tests = []\<rparr>,
     st_exfil = \<lparr>x_artifacts = [], x_strip = (\<lambda>t. (t, 0)), x_images = (\<lambda>t. []), x_tokens = (\<lambda>t. [])\<rparr>,
     st_pii = \<lparr>m_email = (\<lambda>t. []), m_ip = (\<lambda>t. []), m_ssn = (\<lambda>t. if t = ''s'' then [(0, ''s'')] else []), m_cc = (\<lambda>t. []),
       m_phone = (\<lambda>t. []), m_uuid = (\<lambda>t. []), m_longHex = (\<lambda>t. []), m_isoDate = (\<lambda>t. 0)\<rparr>,
     st_decode = map (\<lambda>b. char_of (unat b)), st_encode = ascii\<rparr>"

definition sampleConfig :: ScreenConfig where
  "sampleConfig = \<lparr>sc_rate = Some \<lparr>maxPerWindow = 1, windowMs = 10\<rparr>, sc_override = False,
     sc_pii = \<lparr>whitelist = [], bulkThreshold = 5, cumulativeThreshold = 10, checkEmail = True, checkPhone = True\<rparr>\<rparr>"

definition sampleContext :: OutboundContext where
  "sampleContext = \<lparr>agentName = ''a'', sessionId = ''x'', governanceDecisions = Some [], knownPublicKeys = []\<rparr>"

abbreviation freshScreener :: ScreenState where
  "freshScreener \<equiv> \<lparr>ss_sends = [], ss_distinct = []\<rparr>"

text \<open>A run of screenings on one clock, and the messages that left.\<close>

fun screened_log ::
  "ScreenConfig \<Rightarrow> ScreenTools \<Rightarrow> int \<Rightarrow> ScreenState \<Rightarrow> (nat \<times> nat \<times> bytes \<times> OutboundContext) list \<Rightarrow> (string \<times> int) list" where
  "screened_log cfg T clock st [] = []"
| "screened_log cfg T clock st ((dt, took, content, ctx) # es) =
     (case screen cfg T (clock + int dt) (clock + int dt + int took) content ctx st of (v, st') \<Rightarrow>
       (if leaves v then [(agentName ctx, clock + int dt + int took)] else []) @
       screened_log cfg T (clock + int dt + int took) st' es)"

lemma screened_is_limited:
  assumes "sc_rate cfg = Some rl"
  shows "\<exists>ls. screened_log cfg T clock st es = sent_log rl (clock, ss_sends st) ls"
proof (induction es arbitrary: clock st)
  case Nil
  show ?case by (intro exI [of _ "[]"]) simp
next
  case (Cons e es)
  obtain dt took content ctx where e: "e = (dt, took, content, ctx)" by (cases e)
  let ?now = "clock + int dt" and ?done = "clock + int dt + int took"
  obtain v st' where s: "screen cfg T ?now ?done content ctx st = (v, st')" by (cases "screen cfg T ?now ?done content ctx st")
  obtain ls where ls: "screened_log cfg T ?done st' es = sent_log rl (?done, ss_sends st') ls" using Cons.IH by blast
  show ?case
    using ls screen_rate [OF s assms]
    by (intro exI [of _ "(dt, agentName ctx, leaves v, took) # ls"]) (auto simp: e s Let_def)
qed

text \<open>The screener's cap is a cap on the wire: over any run of screenings with a rate limit, the
  messages of one agent that leave (allowed or redacted) in any window of the configured length are
  never more than the cap; blocked messages and warnings do not count against it.\<close>

theorem outbound_cap:
  assumes "sc_rate cfg = Some rl" and "0 \<le> maxPerWindow rl"
  shows "int (length (sentIn (screened_log cfg T 0 \<lparr>ss_sends = [], ss_distinct = d\<rparr> es) agent (t - windowMs rl) t))
    \<le> maxPerWindow rl"
proof -
  obtain ls where "screened_log cfg T 0 \<lparr>ss_sends = [], ss_distinct = d\<rparr> es = sent_log rl (0, []) ls"
    using screened_is_limited [OF assms(1), of T 0 "\<lparr>ss_sends = [], ss_distinct = d\<rparr>" es] by auto
  then show ?thesis using rate_cap [OF assms(2)] by simp
qed

theorem outbound_cap_witness:
  "screened_log sampleConfig sampleTools 0 freshScreener
     [(1, 0, [115], sampleContext), (1, 0, [116], sampleContext), (9, 0, [116], sampleContext)] = [(''a'', 1), (''a'', 11)] \<and>
   int (length (sentIn (screened_log sampleConfig sampleTools 0 freshScreener
     [(1, 0, [115], sampleContext), (1, 0, [116], sampleContext), (9, 0, [116], sampleContext)]) ''a'' 1 11)) \<le> 1"
proof
  show "screened_log sampleConfig sampleTools 0 freshScreener
     [(1, 0, [115], sampleContext), (1, 0, [116], sampleContext), (9, 0, [116], sampleContext)] = [(''a'', 1), (''a'', 11)]"
    by code_simp
  show "int (length (sentIn (screened_log sampleConfig sampleTools 0 freshScreener
     [(1, 0, [115], sampleContext), (1, 0, [116], sampleContext), (9, 0, [116], sampleContext)]) ''a'' 1 11)) \<le> 1"
    using outbound_cap [of sampleConfig "\<lparr>maxPerWindow = 1, windowMs = 10\<rparr>" sampleTools "[]" _ "''a''" 11]
    by (simp add: sampleConfig_def del: screened_log.simps)
qed

text \<open>Nothing flagged leaves undecided: if a message with personal data leaves, the agent's decisions
  came with it, and every flag was either redacted (decided so, or not mentioned) or allowed by a
  decision while autonomous override is on. Without the override no flagged value passes.\<close>

theorem flags_need_decisions:
  assumes "screen cfg T now now' content ctx st = (v, st')" and "leaves v" and "f \<in> set (flagsOf cfg T content ctx st)"
  shows "\<exists>ds. governanceDecisions ctx = Some ds \<and>
    (map_of ds (pe_flagId f) \<in> {None, Some DecideRedact} \<and> piiEvent Redact f \<in> set (ov_events v) \<or>
     sc_override cfg \<and> map_of ds (pe_flagId f) \<in> {Some AllowOnce, Some AllowAlways})"
proof -
  have "screenText cfg T now' content ctx st = (v, st')"
    using assms(1,2) by (auto simp: screen_def leaves_def split: option.splits if_splits)
  then show ?thesis
  proof (cases rule: screenText_cases)
    case (finished P prior body events redacted add st1)
    then obtain allow where r: "resolvePII (sc_override cfg) (flagsOf cfg T content ctx st) (governanceDecisions ctx)
        = Resolved redacted allow add" using assms(3) by auto
    show ?thesis
      using finish_verdict(2) [OF finished(1)] by (rule_tac resolved_flag [OF r assms(3)]) auto
  qed (use assms(2) in \<open>auto simp: leaves_def\<close>)
qed

text \<open>What the sample screener answers for a number and for an innocent text.\<close>

lemma sample_number:
  "screen sampleConfig sampleTools 1 2 [115] sampleContext freshScreener =
    (\<lparr>ov_disposition = Redact, ov_content = ascii ''[REDACTED:pii:ssn]'',
      ov_events = [piiEvent Redact \<lparr>pe_category = PiiSsn, pe_value = ''s'', pe_flagId = []\<rparr>], ov_keysProtected = 0\<rparr>,
     \<lparr>ss_sends = [(''a'', [2])], ss_distinct = [(''x'', [''pii:ssn:s''])]\<rparr>)"
  "flagsOf sampleConfig sampleTools [115] sampleContext freshScreener = [\<lparr>pe_category = PiiSsn, pe_value = ''s'', pe_flagId = []\<rparr>]"
  by code_simp+

lemma sample_innocent:
  "screen sampleConfig sampleTools 1 2 [116] sampleContext freshScreener =
    (\<lparr>ov_disposition = Allow, ov_content = [116], ov_events = [], ov_keysProtected = 0\<rparr>,
     \<lparr>ss_sends = [(''a'', [2])], ss_distinct = []\<rparr>)"
  by code_simp

theorem flags_need_decisions_witness:
  "\<exists>ds. governanceDecisions sampleContext = Some ds \<and> map_of ds [] \<in> {None, Some DecideRedact}"
  using flags_need_decisions [OF sample_number(1)] sample_number(2)
  by (auto simp: leaves_def sampleConfig_def)

text \<open>An allowed message is sent as written and a blocked one is returned as written: the content of
  an allow or block verdict is the agent's bytes, and an allow verdict carries no redaction event.\<close>

theorem allowed_content_untouched:
  assumes "screen cfg T now now' content ctx st = (v, st')" and "ov_disposition v \<in> {Allow, Block}"
  shows "ov_content v = content \<and> (ov_disposition v = Allow \<longrightarrow> (\<forall>e \<in> set (ov_events v). ge_disposition e = Observe))"
proof (cases "\<exists>rl. sc_rate cfg = Some rl \<and> peek rl (agentName ctx) now (ss_sends st) \<noteq> Free")
  case True
  then show ?thesis using assms(1) by (auto simp: screen_def)
next
  case False
  then have "screenText cfg T now' content ctx st = (v, st')"
    using assms(1) by (auto simp: screen_def split: option.splits)
  then show ?thesis
  proof (cases rule: screenText_cases)
    case (finished P prior body events redacted add st1)
    then show ?thesis using finish_verdict(1) [OF finished(1)] finish_allowed [OF finished(1,3,4)] assms(2) by (auto simp: leaves_def)
  qed (use assms(2) in auto)
qed

theorem allowed_content_untouched_witness:
  "ov_content (fst (screen sampleConfig sampleTools 1 2 [116] sampleContext freshScreener)) = [116]"
  using allowed_content_untouched [OF sample_innocent] by (simp add: sample_innocent)

text \<open>The placeholders of the shield are not a prefix code: the first one before a \<open>G\<close> reads as the
  thirty-third, so with that many keys in a text \<open>restore\<close> may take the wrong one.\<close>

lemma placeholders_are_ambiguous:
  "PLACEHOLDER_PREFIX @ indexToLetters 0 @ ''G'' = PLACEHOLDER_PREFIX @ indexToLetters 32"
  "pt_text (protectKnownKeys ''aG'' [''a'']) = PLACEHOLDER_PREFIX @ indexToLetters 32"
  by code_simp+

end
