(* ===== verification/Structure_Frames.thy ===== *)
theory Structure_Frames
  imports Wire Hashing
begin

text \<open>
  The two structures a session leaf is made of: \<open>structure1.ts\<close> (what the sender signs) and
  \<open>structure2.ts\<close> (what the relay orders and hashes). \<open>dc\<close> is \<open>decodeCbor\<close>, \<open>None\<close> when it
  throws; \<open>ec\<close> is \<open>encodeCbor\<close>.
\<close>

type_synonym cbor_reader = "bytes \<Rightarrow> jsval option"

section \<open>Structure 1\<close>

definition STRUCTURE1_VERSION :: int where "STRUCTURE1_VERSION = 3"
definition STRUCTURE1_FIELD_COUNT :: nat where "STRUCTURE1_FIELD_COUNT = 8"
definition LAST_SEEN_HASH_BYTES :: nat where "LAST_SEEN_HASH_BYTES = 32"
definition PREV_OWN_HASH_BYTES :: nat where "PREV_OWN_HASH_BYTES = 32"

lemmas structure1_consts = STRUCTURE1_VERSION_def STRUCTURE1_FIELD_COUNT_def LAST_SEEN_HASH_BYTES_def
  PREV_OWN_HASH_BYTES_def

datatype Structure1DecodeReason =
    NOT_CBOR
  | NOT_ARRAY
  | UNKNOWN_LAYOUT
  | FIELD_MALFORMED
  | LAST_SEEN_HASH_MALFORMED
  | PREV_OWN_HASH_MALFORMED

text \<open>The numbers stay wire values: the decoder asks for their types only.\<close>

record Structure1Fields =
  s1_version :: int
  s1_contentHash :: bytes
  s1_senderPubkey :: bytes
  s1_sessionId :: bytes
  s1_lastSeenSeq :: jsval
  s1_timestamp :: jsval
  s1_lastSeenHash :: bytes
  s1_prevOwnHash :: bytes

record Structure1Input =
  in_contentHash :: bytes
  in_senderPubkey :: bytes
  in_sessionId :: bytes
  in_lastSeenSeq :: int
  in_timestamp :: int
  in_lastSeenHash :: bytes
  in_prevOwnHash :: bytes

text \<open>A timestamp beyond 32 bits is written as a bigint, so that it is encoded as an integer.\<close>

definition timestampVal :: "int \<Rightarrow> jsval" where
  "timestampVal t = (if t > 0xffffffff then JBigInt t else JInt t)"

definition encodeStructure1 :: "Structure1Input \<Rightarrow> jsval js" where
  "encodeStructure1 f =
     (if length (in_lastSeenHash f) \<noteq> LAST_SEEN_HASH_BYTES then Inl (Error ''structure1: last_seen_hash'')
      else if length (in_prevOwnHash f) \<noteq> PREV_OWN_HASH_BYTES then Inl (Error ''structure1: prev_own_hash'')
      else Inr (JArray
        [JInt STRUCTURE1_VERSION, JBytes (in_contentHash f), JBytes (in_senderPubkey f), JBytes (in_sessionId f),
         JInt (in_lastSeenSeq f), timestampVal (in_timestamp f), JBytes (in_lastSeenHash f), JBytes (in_prevOwnHash f)]))"

definition bytesAt :: "jsval list \<Rightarrow> nat \<Rightarrow> nat \<Rightarrow> bytes option" where
  "bytesAt arr i len = (case arr ! i of JBytes b \<Rightarrow> if length b = len then Some b else None | _ \<Rightarrow> None)"

definition anyBytesAt :: "jsval list \<Rightarrow> nat \<Rightarrow> bytes option" where
  "anyBytesAt arr i = (case arr ! i of JBytes b \<Rightarrow> Some b | _ \<Rightarrow> None)"

definition isTimestamp :: "jsval \<Rightarrow> bool" where
  "isTimestamp v \<longleftrightarrow> isNumber v \<or> (case v of JBigInt _ \<Rightarrow> True | _ \<Rightarrow> False)"

definition structure1Fields :: "jsval \<Rightarrow> Structure1DecodeReason + Structure1Fields" where
  "structure1Fields v =
     (case v of
        JArray arr \<Rightarrow>
          if length arr \<noteq> STRUCTURE1_FIELD_COUNT \<or> arr ! 0 \<noteq> JInt STRUCTURE1_VERSION then Inl UNKNOWN_LAYOUT
          else (case (bytesAt arr 1 32, bytesAt arr 2 32, anyBytesAt arr 3) of
            (Some contentHash, Some senderPubkey, Some sessionId) \<Rightarrow>
              if \<not> isNumber (arr ! 4) then Inl FIELD_MALFORMED
              else if \<not> isTimestamp (arr ! 5) then Inl FIELD_MALFORMED
              else (case bytesAt arr 6 LAST_SEEN_HASH_BYTES of
                None \<Rightarrow> Inl LAST_SEEN_HASH_MALFORMED
              | Some lastSeenHash \<Rightarrow>
                  (case bytesAt arr 7 PREV_OWN_HASH_BYTES of
                    None \<Rightarrow> Inl PREV_OWN_HASH_MALFORMED
                  | Some prevOwnHash \<Rightarrow> Inr
                      \<lparr>s1_version = STRUCTURE1_VERSION, s1_contentHash = contentHash, s1_senderPubkey = senderPubkey,
                       s1_sessionId = sessionId, s1_lastSeenSeq = arr ! 4, s1_timestamp = arr ! 5,
                       s1_lastSeenHash = lastSeenHash, s1_prevOwnHash = prevOwnHash\<rparr>))
          | _ \<Rightarrow> Inl FIELD_MALFORMED)
      | _ \<Rightarrow> Inl NOT_ARRAY)"

definition decodeStructure1 :: "cbor_reader \<Rightarrow> bytes \<Rightarrow> Structure1DecodeReason + Structure1Fields" where
  "decodeStructure1 dc cbor = (case dc cbor of None \<Rightarrow> Inl NOT_CBOR | Some v \<Rightarrow> structure1Fields v)"

definition structure1_wf :: "Structure1Input \<Rightarrow> bool" where
  "structure1_wf f \<longleftrightarrow> length (in_contentHash f) = 32 \<and> length (in_senderPubkey f) = 32 \<and>
     length (in_lastSeenHash f) = 32 \<and> length (in_prevOwnHash f) = 32"

text \<open>The frame an input becomes, and the input a frame came from.\<close>

definition fieldsOf :: "Structure1Input \<Rightarrow> Structure1Fields" where
  "fieldsOf f = \<lparr>s1_version = 3, s1_contentHash = in_contentHash f, s1_senderPubkey = in_senderPubkey f,
     s1_sessionId = in_sessionId f, s1_lastSeenSeq = JInt (in_lastSeenSeq f), s1_timestamp = timestampVal (in_timestamp f),
     s1_lastSeenHash = in_lastSeenHash f, s1_prevOwnHash = in_prevOwnHash f\<rparr>"

lemma structure1_back:
  assumes "structure1_wf f"
  obtains v where "encodeStructure1 f = Inr v" "structure1Fields v = Inr (fieldsOf f)"
proof
  let ?v = "JArray [JInt 3, JBytes (in_contentHash f), JBytes (in_senderPubkey f), JBytes (in_sessionId f),
    JInt (in_lastSeenSeq f), timestampVal (in_timestamp f), JBytes (in_lastSeenHash f), JBytes (in_prevOwnHash f)]"
  show "encodeStructure1 f = Inr ?v"
    using assms by (simp add: encodeStructure1_def structure1_wf_def structure1_consts)
  show "structure1Fields ?v = Inr (fieldsOf f)"
    using assms by (simp add: structure1Fields_def structure1_wf_def structure1_consts fieldsOf_def bytesAt_def
        anyBytesAt_def isTimestamp_def timestampVal_def nth_Cons')
qed

lemma timestampVal_inj: "timestampVal s = timestampVal t \<longleftrightarrow> s = t"
  by (auto simp: timestampVal_def split: if_splits)

lemma fieldsOf_inj: "fieldsOf f = fieldsOf g \<Longrightarrow> f = g"
  by (cases f; cases g) (simp add: fieldsOf_def timestampVal_inj)

lemma bytesAt_Some: "bytesAt arr i n = Some b \<longleftrightarrow> arr ! i = JBytes b \<and> length b = n"
  by (auto simp: bytesAt_def split: jsval.splits)

lemma decoded_structure1:
  assumes "decodeStructure1 dc cbor = Inr f"
  shows "length (s1_contentHash f) = 32" "length (s1_senderPubkey f) = 32" "length (s1_prevOwnHash f) = 32"
    "length (s1_lastSeenHash f) = 32" "s1_version f = 3"
  using assms by (auto simp: decodeStructure1_def structure1Fields_def structure1_consts bytesAt_Some
      split: option.splits jsval.splits if_splits)

section \<open>Structure 2\<close>

record Structure2 =
  s2_sequence_number :: nat
  s2_sender_pubkey :: bytes
  s2_content_hash :: bytes
  s2_sender_signature :: bytes
  s2_prev_root :: bytes

text \<open>The scan result is a constant, \<open>SCAN_RESULT_SENTINEL\<close>, so it is no field of the record.\<close>

definition buildStructure2 :: "nat \<Rightarrow> bytes \<Rightarrow> bytes \<Rightarrow> bytes \<Rightarrow> bytes \<Rightarrow> string + Structure2" where
  "buildStructure2 seq sender_pubkey content_hash sender_signature prev_root =
     (if length sender_pubkey \<noteq> 32 then Inl ''sender_pubkey''
      else if length content_hash \<noteq> 32 then Inl ''content_hash''
      else if length sender_signature \<noteq> 64 then Inl ''sender_signature''
      else if length prev_root \<noteq> 32 then Inl ''prev_root''
      else Inr \<lparr>s2_sequence_number = seq, s2_sender_pubkey = sender_pubkey, s2_content_hash = content_hash,
                s2_sender_signature = sender_signature, s2_prev_root = prev_root\<rparr>)"

definition encodeScanResultSentinel :: bytes where
  "encodeScanResultSentinel =
     [0xa3] @ [0x65] @ ascii ''score'' @ [0xf6] @ [0x67] @ ascii ''verdict'' @ [0x69] @ ascii ''unscanned'' @
     [0x6a] @ ascii ''model_hash'' @ [0x58, 0x20] @ replicate 32 0"

definition encodeStructure2 :: "(jsval \<Rightarrow> bytes) \<Rightarrow> Structure2 \<Rightarrow> bytes" where
  "encodeStructure2 ec s2 =
     [0x86] @ ec (JInt (int (s2_sequence_number s2))) @ ec (JBytes (s2_sender_pubkey s2)) @
     ec (JBytes (s2_content_hash s2)) @ ec (JBytes (s2_sender_signature s2)) @ encodeScanResultSentinel @
     ec (JBytes (s2_prev_root s2))"

section \<open>The encoding of RFC 8949\<close>

text \<open>
  The deterministic encoding of the standard on the values of a leaf: a head of the shortest length
  that holds the argument, then the content.
\<close>

datatype cbor =
    CNat nat
  | CBytes bytes
  | CText string
  | CNull
  | CArray "cbor list"
  | CMap "(string \<times> cbor) list"

definition cborHead :: "nat \<Rightarrow> nat \<Rightarrow> bytes" where
  "cborHead major n =
     (if n < 24 then [of_nat (32 * major + n)]
      else if n < 256 then of_nat (32 * major + 24) # be_bytes 1 n
      else if n < 256 ^ 2 then of_nat (32 * major + 25) # be_bytes 2 n
      else if n < 256 ^ 4 then of_nat (32 * major + 26) # be_bytes 4 n
      else of_nat (32 * major + 27) # be_bytes 8 n)"

fun cborBytes :: "cbor \<Rightarrow> bytes" where
  "cborBytes (CNat n) = cborHead 0 n"
| "cborBytes (CBytes b) = cborHead 2 (length b) @ b"
| "cborBytes (CText s) = cborHead 3 (length s) @ ascii s"
| "cborBytes CNull = [0xf6]"
| "cborBytes (CArray vs) = cborHead 4 (length vs) @ concat (map cborBytes vs)"
| "cborBytes (CMap kvs) = cborHead 5 (length kvs) @
     concat (map (\<lambda>(k, v). (cborHead 3 (length k) @ ascii k) @ cborBytes v) kvs)"

definition structure2Value :: "Structure2 \<Rightarrow> cbor" where
  "structure2Value s2 = CArray
     [CNat (s2_sequence_number s2), CBytes (s2_sender_pubkey s2), CBytes (s2_content_hash s2), CBytes (s2_sender_signature s2),
      CMap [(''score'', CNull), (''verdict'', CText ''unscanned''), (''model_hash'', CBytes (replicate 32 0))],
      CBytes (s2_prev_root s2)]"

lemma of_nat_byte_inj: "(of_nat a :: 8 word) = of_nat b \<Longrightarrow> a < 256 \<Longrightarrow> b < 256 \<Longrightarrow> a = b"
  by (metis unat8_of_nat)

text \<open>No head is a prefix of another: the first byte tells how many follow.\<close>

definition headInfo :: "nat \<Rightarrow> nat" where
  "headInfo n = (if n < 24 then n else if n < 256 then 24 else if n < 256 ^ 2 then 25 else 26)"

definition headWidth :: "nat \<Rightarrow> nat" where
  "headWidth info = (if info < 24 then 0 else if info = 24 then 1 else if info = 25 then 2 else 4)"

lemma cborHead_nat: "n < 2 ^ 32 \<Longrightarrow> cborHead 0 n = of_nat (headInfo n) # be_bytes (headWidth (headInfo n)) n"
  by (auto simp: cborHead_def headInfo_def headWidth_def)

lemma headInfo_bound: "headInfo n < 256"
  by (simp add: headInfo_def)

lemma headWidth_enough: "n < 2 ^ 32 \<Longrightarrow> 24 \<le> n \<Longrightarrow> n < 256 ^ headWidth (headInfo n)"
  by (auto simp: headInfo_def headWidth_def)

lemma headInfo_small: "headInfo m = headInfo n \<Longrightarrow> m < 24 \<Longrightarrow> m = n"
  by (auto simp: headInfo_def split: if_splits)

lemma cborHead_prefix_free:
  assumes "cborHead 0 m @ r = cborHead 0 n @ s" and "m < 2 ^ 32" and "n < 2 ^ 32"
  shows "m = n \<and> r = s"
proof -
  have i: "headInfo m = headInfo n"
    using assms by (intro of_nat_byte_inj) (simp_all add: cborHead_nat headInfo_bound)
  then have "be_bytes (headWidth (headInfo n)) m @ r = be_bytes (headWidth (headInfo n)) n @ s"
    using assms by (simp add: cborHead_nat)
  then have e: "be_bytes (headWidth (headInfo n)) m = be_bytes (headWidth (headInfo n)) n" "r = s"
    by (simp_all add: append_eq_append_conv)
  have "m = n"
  proof (cases "m < 24 \<or> n < 24")
    case True
    then show ?thesis using headInfo_small i by metis
  next
    case False
    then show ?thesis
      using be_bytes_inj [OF e(1)] headWidth_enough [OF assms(2)] headWidth_enough [OF assms(3)] i by simp
  qed
  with e(2) show ?thesis by simp
qed

section \<open>Properties\<close>

text \<open>Structure 1 survives its codec: what the sender builds is written and read back field by field,
  two different inputs never have the same signed value, and every other array is refused: a frame
  is accepted only with version 3, with the widths and types of its fields.\<close>

theorem structure1_round_trip:
  assumes "structure1_wf f" and "structure1_wf g"
  shows "\<exists>v. encodeStructure1 f = Inr v \<and> structure1Fields v = Inr (fieldsOf f) \<and> (encodeStructure1 g = Inr v \<longrightarrow> g = f)"
proof -
  obtain v w where v: "encodeStructure1 f = Inr v" "structure1Fields v = Inr (fieldsOf f)"
    and w: "encodeStructure1 g = Inr w" "structure1Fields w = Inr (fieldsOf g)"
    using structure1_back assms by metis
  have "w = v \<longrightarrow> g = f" using v(2) w(2) fieldsOf_inj by auto
  then show ?thesis using v w(1) by auto
qed

definition sampleInput :: Structure1Input where
  "sampleInput = \<lparr>in_contentHash = replicate 32 1, in_senderPubkey = replicate 32 2, in_sessionId = [3], in_lastSeenSeq = 4,
     in_timestamp = 0x100000000, in_lastSeenHash = replicate 32 5, in_prevOwnHash = replicate 32 6\<rparr>"

theorem structure1_round_trip_witness:
  "\<exists>v. encodeStructure1 sampleInput = Inr v \<and> structure1Fields v = Inr (fieldsOf sampleInput)"
  using structure1_round_trip [of sampleInput sampleInput] by (auto simp: structure1_wf_def sampleInput_def)

text \<open>The bytes of a relay leaf are the standard encoding of a six-element array, so any CBOR reader
  can read the hand-built bytes, and they determine the leaf: two built leaves with the same bytes
  agree on sequence number, sender, content hash, signature and previous root. \<open>encodeCbor\<close> is
  assumed to follow the standard on integers below 32 bits and on byte strings.\<close>

theorem structure2_bytes_bind:
  assumes "\<forall>n < 2 ^ 32. ec (JInt (int n)) = cborBytes (CNat n)" and "\<forall>b. ec (JBytes b) = cborBytes (CBytes b)"
    and "buildStructure2 n p c s r = Inr a" and "buildStructure2 n' p' c' s' r' = Inr b" and "n < 2 ^ 32" and "n' < 2 ^ 32"
  shows "encodeStructure2 ec a = cborBytes (structure2Value a) \<and> (encodeStructure2 ec a = encodeStructure2 ec b \<longrightarrow> a = b)"
proof (intro conjI impI)
  have a: "s2_sequence_number a = n" "length (s2_sender_pubkey a) = 32" "length (s2_content_hash a) = 32"
      "length (s2_sender_signature a) = 64" "length (s2_prev_root a) = 32"
    and b: "s2_sequence_number b = n'" "length (s2_sender_pubkey b) = 32" "length (s2_content_hash b) = 32"
      "length (s2_sender_signature b) = 64" "length (s2_prev_root b) = 32"
    using assms(3,4) by (auto simp: buildStructure2_def split: if_splits)
  show "encodeStructure2 ec a = cborBytes (structure2Value a)"
    using a assms(1,2,5) by (simp add: encodeStructure2_def structure2Value_def encodeScanResultSentinel_def cborHead_def)
  assume "encodeStructure2 ec a = encodeStructure2 ec b"
  then have "cborHead 0 n @ cborBytes (CBytes (s2_sender_pubkey a)) @ cborBytes (CBytes (s2_content_hash a)) @
      cborBytes (CBytes (s2_sender_signature a)) @ encodeScanResultSentinel @ cborBytes (CBytes (s2_prev_root a)) =
    cborHead 0 n' @ cborBytes (CBytes (s2_sender_pubkey b)) @ cborBytes (CBytes (s2_content_hash b)) @
      cborBytes (CBytes (s2_sender_signature b)) @ encodeScanResultSentinel @ cborBytes (CBytes (s2_prev_root b))"
    using assms(1,2,5,6) a(1) b(1) by (simp add: encodeStructure2_def del: cborBytes.simps(2))
  from cborHead_prefix_free [OF this assms(5,6)] show "a = b"
    using a b by (cases a; cases b) simp
qed

theorem structure2_bytes_bind_witness:
  "\<exists>a. buildStructure2 5 (replicate 32 1) (replicate 32 2) (replicate 64 3) (replicate 32 4) = Inr a \<and>
     encodeStructure2 (\<lambda>v. case v of JInt i \<Rightarrow> cborBytes (CNat (nat i)) | JBytes b \<Rightarrow> cborBytes (CBytes b) | _ \<Rightarrow> []) a =
       cborBytes (structure2Value a)"
proof -
  let ?ec = "\<lambda>v. case v of JInt i \<Rightarrow> cborBytes (CNat (nat i)) | JBytes b \<Rightarrow> cborBytes (CBytes b) | _ \<Rightarrow> []"
  let ?a = "\<lparr>s2_sequence_number = 5, s2_sender_pubkey = replicate 32 1, s2_content_hash = replicate 32 2,
    s2_sender_signature = replicate 64 3, s2_prev_root = replicate 32 4\<rparr>"
  have b: "buildStructure2 5 (replicate 32 1) (replicate 32 2) (replicate 64 3) (replicate 32 4) = Inr ?a"
    by (simp add: buildStructure2_def)
  show ?thesis using structure2_bytes_bind [of ?ec, OF _ _ b b] b by auto
qed

end
