(* ===== verification/Seal_Checks.thy ===== *)
theory Seal_Checks
  imports Structure_Frames Merkle
begin

text \<open>
  What a daemon checks before it co-signs a sealed root: the leaves it carries itself
  (\<open>session-seal-leaf-store.ts\<close>, \<open>seal-certified-root-check.ts\<close>) and the evidence in the request
  (\<open>seal-evidence-root-check.ts\<close>). \<open>vf\<close> is Ed25519 verification, \<open>dc\<close> is \<open>decodeCbor\<close>.
\<close>

type_synonym verifier = "bytes \<Rightarrow> bytes \<Rightarrow> bytes \<Rightarrow> bool"

section \<open>The leaves a daemon carries\<close>

record SealCarryLeaf =
  sequenceNumber :: int
  leafKind :: int
  senderPubkeyHex :: string
  structure2Cbor :: bytes
  structure1Cbor :: bytes
  relayId :: "string option"
  relayTimestamp :: "int option"
  relaySignatureHex :: "string option"
  relayRunningRootHex :: "string option"

definition LEAF_KIND_CTRL :: int where "LEAF_KIND_CTRL = 2"

record SealLeafRow =
  row_agent :: string
  row_session :: string
  row_leaf :: SealCarryLeaf
  stored_at :: int

text \<open>\<open>INSERT OR IGNORE\<close> on the key agent, session, sequence number.\<close>

definition store_leaf :: "string \<Rightarrow> string \<Rightarrow> SealCarryLeaf \<Rightarrow> int \<Rightarrow> SealLeafRow list \<Rightarrow> bool \<times> SealLeafRow list" where
  "store_leaf agent session leaf now rows =
     (if list_ex (\<lambda>r. row_agent r = agent \<and> row_session r = session \<and>
            sequenceNumber (row_leaf r) = sequenceNumber leaf) rows
      then (False, rows)
      else (True, rows @ [\<lparr>row_agent = agent, row_session = session, row_leaf = leaf, stored_at = now\<rparr>]))"

definition getCarry :: "string \<Rightarrow> string \<Rightarrow> SealLeafRow list \<Rightarrow> SealCarryLeaf list" where
  "getCarry agent session rows =
     sort_key sequenceNumber (map row_leaf (filter (\<lambda>r. row_agent r = agent \<and> row_session r = session) rows))"

text \<open>\<open>carryContentHashInputs\<close>: every content hash as a ready-made leaf hash.\<close>

fun carryContentHashInputs :: "cbor_reader \<Rightarrow> SealCarryLeaf list \<Rightarrow> LeafInput list option" where
  "carryContentHashInputs dc [] = Some []"
| "carryContentHashInputs dc (leaf # carry) =
     (case decodeStructure1 dc (structure1Cbor leaf) of
        Inl _ \<Rightarrow> None
      | Inr f \<Rightarrow> map_option ((#) (LHash (s1_contentHash f))) (carryContentHashInputs dc carry))"

section \<open>The certified root against the own leaves\<close>

datatype RootFault = LeafCountDisagrees nat int | RootDisagrees

datatype RootGap = NoCarry | CarryIncomplete nat | CarryNoncontiguous nat | ContentHashUnreadable

datatype RootVerdict = RootMatch | RootMismatch "string option" RootFault | RootCannotJudge RootGap

definition contiguousFromOne :: "SealCarryLeaf list \<Rightarrow> bool" where
  "contiguousFromOne carry \<longleftrightarrow>
     list_all (\<lambda>(i, n). n = int i + 1) (enumerate 0 (sort (map sequenceNumber carry)))"

definition ctrlSenders :: "SealCarryLeaf list \<Rightarrow> string list" where
  "ctrlSenders carry = add_all [] (map senderPubkeyHex (filter (\<lambda>l. leafKind l = LEAF_KIND_CTRL) carry))"

definition rootOfInputs :: "hash_fn \<Rightarrow> LeafInput list \<Rightarrow> bytes js" where
  "rootOfInputs sha inputs = rbind (buildMerkleTree sha inputs) (\<lambda>t. Inr (merkleRoot sha t))"

definition judgeOwnRoot ::
  "SealCarryLeaf list \<Rightarrow> bytes option \<Rightarrow> bytes \<Rightarrow> int \<Rightarrow> RootVerdict" where
  "judgeOwnRoot carry ownRoot certifiedRoot certifiedLeafCount =
     (let contiguous = contiguousFromOne carry; senders = length (ctrlSenders carry) in
      if ownRoot = Some certifiedRoot \<and> int (length carry) = certifiedLeafCount then RootMatch
      else if \<not> (contiguous \<and> senders = 2)
      then RootCannotJudge (if contiguous then CarryIncomplete senders else CarryNoncontiguous (length carry))
      else if int (length carry) \<noteq> certifiedLeafCount
      then RootMismatch None (LeafCountDisagrees (length carry) certifiedLeafCount)
      else (case ownRoot of
              None \<Rightarrow> RootCannotJudge ContentHashUnreadable
            | Some root \<Rightarrow> if root = certifiedRoot then RootMatch
                else RootMismatch (Some (bytesToHex root)) RootDisagrees))"

definition verifyCertifiedRoot ::
  "hash_fn \<Rightarrow> cbor_reader \<Rightarrow> SealCarryLeaf list \<Rightarrow> bytes \<Rightarrow> int \<Rightarrow> RootVerdict js" where
  "verifyCertifiedRoot sha dc carry certifiedRoot certifiedLeafCount =
     (if carry = [] then Inr (RootCannotJudge NoCarry)
      else case carryContentHashInputs dc carry of
        None \<Rightarrow> Inr (judgeOwnRoot carry None certifiedRoot certifiedLeafCount)
      | Some inputs \<Rightarrow> rbind (rootOfInputs sha inputs)
          (\<lambda>root. Inr (judgeOwnRoot carry (Some root) certifiedRoot certifiedLeafCount)))"

section \<open>The evidence in a co-sign request\<close>

record EvidenceLeaf =
  ev_structure1 :: bytes
  ev_sender :: bytes
  ev_signature :: bytes

text \<open>
  \<open>Uint8Array.from\<close> on a JSON array keeps integers modulo 256; \<open>other\<close> is what it makes of the
  other values.
\<close>

definition byteFrom :: "(jsval \<Rightarrow> 8 word) \<Rightarrow> jsval \<Rightarrow> 8 word" where
  "byteFrom other v = (case v of JInt i \<Rightarrow> of_int i | _ \<Rightarrow> other v)"

definition evidenceBytes :: "(jsval \<Rightarrow> 8 word) \<Rightarrow> jsval \<Rightarrow> bytes option" where
  "evidenceBytes other v =
     (case v of JBytes b \<Rightarrow> Some b | JArray vs \<Rightarrow> Some (map (byteFrom other) vs) | _ \<Rightarrow> None)"

definition parseEvidenceLeaf :: "(jsval \<Rightarrow> 8 word) \<Rightarrow> jsval \<Rightarrow> EvidenceLeaf option" where
  "parseEvidenceLeaf other raw =
     (case asObject raw of
        None \<Rightarrow> None
      | Some o' \<Rightarrow>
          (case (evidenceBytes other (getProp o' ''structure1_cbor''), evidenceBytes other (getProp o' ''sender_pubkey''),
                 evidenceBytes other (getProp o' ''sender_signature'')) of
             (Some s1, Some pk, Some sig) \<Rightarrow> Some \<lparr>ev_structure1 = s1, ev_sender = pk, ev_signature = sig\<rparr>
           | _ \<Rightarrow> None))"

text \<open>The faults name a position, counted from one.\<close>

datatype EvidenceFault =
    EvidenceSizeDisagrees nat int
  | SenderNotAParticipant nat
  | EvidenceSignatureInvalid nat
  | SignerIsNotTheNamedSender nat
  | LeafIsForAnotherSession nat
  | LeafRepeated nat
  | SelfChainBroken nat
  | ContradictsOwnLeaf int
  | EvidenceRootDisagrees

datatype EvidenceGap =
    ParticipantsUnknown
  | GenesisUnknown
  | NoEvidence
  | LeafMalformed nat
  | Structure1Undecodable nat
  | OwnLeafUndecodable int

datatype EvidenceVerdict = EvidenceMatch int | EvidenceMismatch EvidenceFault | EvidenceCannotJudge EvidenceGap

text \<open>The locals of the loop: \<open>hashes\<close>, \<open>seen\<close>, \<open>lastBySender\<close>.\<close>

record EvidenceScan =
  hashes :: "bytes list"
  seen :: "string list"
  lastBySender :: "(string \<times> bytes) list"

definition evidenceStep ::
  "(jsval \<Rightarrow> 8 word) \<Rightarrow> verifier \<Rightarrow> cbor_reader \<Rightarrow> string list \<Rightarrow> string \<Rightarrow> bytes \<Rightarrow>
   EvidenceScan \<Rightarrow> nat \<times> jsval \<Rightarrow> EvidenceVerdict + EvidenceScan" where
  "evidenceStep other vf dc participants sessionIdHex genesis st ev =
     (case ev of (position, raw) \<Rightarrow>
       case parseEvidenceLeaf other raw of
         None \<Rightarrow> Inl (EvidenceCannotJudge (LeafMalformed position))
       | Some leaf \<Rightarrow>
         let senderHex = bytesToHex (ev_sender leaf) in
         if senderHex \<notin> set participants then Inl (EvidenceMismatch (SenderNotAParticipant position))
         else if \<not> vf (ev_sender leaf) (ev_structure1 leaf) (ev_signature leaf)
         then Inl (EvidenceMismatch (EvidenceSignatureInvalid position))
         else (case decodeStructure1 dc (ev_structure1 leaf) of
           Inl _ \<Rightarrow> Inl (EvidenceCannotJudge (Structure1Undecodable position))
         | Inr f \<Rightarrow>
             if bytesToHex (s1_senderPubkey f) \<noteq> senderHex then Inl (EvidenceMismatch (SignerIsNotTheNamedSender position))
             else if bytesToHex (s1_sessionId f) \<noteq> toLower sessionIdHex
             then Inl (EvidenceMismatch (LeafIsForAnotherSession position))
             else if bytesToHex (ev_structure1 leaf) \<in> set (seen st) then Inl (EvidenceMismatch (LeafRepeated position))
             else if s1_prevOwnHash f \<noteq> (case map_of (lastBySender st) senderHex of None \<Rightarrow> genesis | Some h \<Rightarrow> h)
             then Inl (EvidenceMismatch (SelfChainBroken position))
             else Inr \<lparr>hashes = hashes st @ [s1_contentHash f], seen = add_last (bytesToHex (ev_structure1 leaf)) (seen st),
                       lastBySender = AList.update senderHex (s1_contentHash f) (lastBySender st)\<rparr>))"

text \<open>The second loop: each own leaf stands at its position; \<open>held\<close> counts them.\<close>

definition ownLeafStep :: "cbor_reader \<Rightarrow> bytes list \<Rightarrow> nat \<Rightarrow> SealCarryLeaf \<Rightarrow> EvidenceVerdict + nat" where
  "ownLeafStep dc hs held own =
     (case decodeStructure1 dc (structure1Cbor own) of
        Inl _ \<Rightarrow> Inl (EvidenceCannotJudge (OwnLeafUndecodable (sequenceNumber own)))
      | Inr f \<Rightarrow>
          if 1 \<le> sequenceNumber own \<and> sequenceNumber own \<le> int (length hs) \<and>
             hs ! nat (sequenceNumber own - 1) = s1_contentHash f
          then Inr (held + 1)
          else Inl (EvidenceMismatch (ContradictsOwnLeaf (sequenceNumber own))))"

definition verifyCertifiedRootFromEvidence ::
  "(jsval \<Rightarrow> 8 word) \<Rightarrow> hash_fn \<Rightarrow> verifier \<Rightarrow> cbor_reader \<Rightarrow> SealCarryLeaf list \<Rightarrow> jsval list \<Rightarrow> string \<Rightarrow>
   string list \<Rightarrow> bytes \<Rightarrow> int \<Rightarrow> bytes option \<Rightarrow> EvidenceVerdict js" where
  "verifyCertifiedRootFromEvidence other sha vf dc ownCarry evidence sessionIdHex participantsHex certifiedRoot
      certifiedLeafCount genesis =
     (if length participantsHex \<noteq> 2 then Inr (EvidenceCannotJudge ParticipantsUnknown)
      else case genesis of None \<Rightarrow> Inr (EvidenceCannotJudge GenesisUnknown) | Some anchor \<Rightarrow>
      if evidence = [] then Inr (EvidenceCannotJudge NoEvidence)
      else if int (length evidence) \<noteq> certifiedLeafCount
      then Inr (EvidenceMismatch (EvidenceSizeDisagrees (length evidence) certifiedLeafCount))
      else case rfold (evidenceStep other vf dc (add_all [] (map toLower participantsHex)) sessionIdHex anchor)
             \<lparr>hashes = [], seen = [], lastBySender = []\<rparr> (enumerate 1 evidence) of
        Inl v \<Rightarrow> Inr v
      | Inr scan \<Rightarrow> (case rfold (ownLeafStep dc (hashes scan)) 0 ownCarry of
          Inl v \<Rightarrow> Inr v
        | Inr held \<Rightarrow> rbind (rootOfInputs sha (map LHash (hashes scan))) (\<lambda>root.
            if root \<noteq> certifiedRoot then Inr (EvidenceMismatch EvidenceRootDisagrees)
            else Inr (EvidenceMatch (int (length evidence) - int held)))))"

text \<open>
  \<open>judgeFromEvidence\<close>: the session is read from the daemon's own record; \<open>db\<close> is \<open>None\<close> without
  a database, and the row is the counterparty's key and the genesis bytes.
\<close>

definition sessionFromRecord ::
  "(string \<Rightarrow> string \<Rightarrow> (string \<times> bytes option) option) option \<Rightarrow> string \<Rightarrow> string \<Rightarrow> (string list \<times> bytes option) option" where
  "sessionFromRecord db agentPubkeyHex sessionIdHex =
     (case db of None \<Rightarrow> None | Some query \<Rightarrow>
        (case query agentPubkeyHex sessionIdHex of None \<Rightarrow> None
         | Some (cp, g) \<Rightarrow> Some ([toLower agentPubkeyHex, toLower cp],
             case g of None \<Rightarrow> None | Some b \<Rightarrow> if length b = 32 then Some b else None)))"

datatype EvidenceJudgement = JudgedMatch | JudgedMismatch EvidenceFault | JudgedCannot RootGap EvidenceGap

definition judgeFromEvidence ::
  "(jsval \<Rightarrow> 8 word) \<Rightarrow> hash_fn \<Rightarrow> verifier \<Rightarrow> cbor_reader \<Rightarrow> (string \<Rightarrow> string \<Rightarrow> (string \<times> bytes option) option) option \<Rightarrow>
   SealCarryLeaf list \<Rightarrow> RootGap \<Rightarrow> string \<Rightarrow> string \<Rightarrow> bytes \<Rightarrow> int \<Rightarrow> jsval list \<Rightarrow> EvidenceJudgement js" where
  "judgeFromEvidence other sha vf dc db ownCarry ownReason agentPubkeyHex sessionIdHex certifiedRoot certifiedLeafCount evidence =
     (let (participantsHex, genesis) =
            (case sessionFromRecord db agentPubkeyHex sessionIdHex of None \<Rightarrow> ([], None) | Some r \<Rightarrow> r)
      in rbind (verifyCertifiedRootFromEvidence other sha vf dc ownCarry evidence sessionIdHex participantsHex
                  certifiedRoot certifiedLeafCount genesis)
           (\<lambda>checked. Inr (case checked of EvidenceMatch _ \<Rightarrow> JudgedMatch
              | EvidenceMismatch d \<Rightarrow> JudgedMismatch d | EvidenceCannotJudge g \<Rightarrow> JudgedCannot ownReason g)))"

section \<open>A sample session\<close>

text \<open>One sender, leaves of two bytes (content and predecessor), a digest of the length.\<close>

definition sampleReader :: cbor_reader where
  "sampleReader b = (case b of [c, p] \<Rightarrow> Some (JArray [JInt 3, JBytes (replicate 32 c), JBytes (replicate 32 9), JBytes [7],
     JInt 0, JInt 0, JBytes (replicate 32 0), JBytes (replicate 32 p)]) | _ \<Rightarrow> None)"

definition sampleFields :: "8 word \<Rightarrow> 8 word \<Rightarrow> Structure1Fields" where
  "sampleFields c p = \<lparr>s1_version = 3, s1_contentHash = replicate 32 c, s1_senderPubkey = replicate 32 9, s1_sessionId = [7],
     s1_lastSeenSeq = JInt 0, s1_timestamp = JInt 0, s1_lastSeenHash = replicate 32 0, s1_prevOwnHash = replicate 32 p\<rparr>"

abbreviation sampleSha :: hash_fn where
  "sampleSha \<equiv> \<lambda>d. replicate 32 (of_nat (length d))"

lemma sealSample_decoded: "decodeStructure1 sampleReader [c, p] = Inr (sampleFields c p)"
  by (simp add: decodeStructure1_def sampleReader_def structure1Fields_def structure1_consts bytesAt_def anyBytesAt_def
      isTimestamp_def sampleFields_def)

end
