(* ===== verification/Seal_Claims.thy ===== *)
theory Seal_Claims
  imports Seal_Checks "HOL-Library.Sublist"
begin

text \<open>
  What the co-sign checks promise: accepted evidence holds each sender's leaves as that sender signed
  them, and an honest certificate is never accused. One gap in the evidence check is a theorem too.
\<close>

section \<open>The evidence scan\<close>

text \<open>A leaf that passed, with its decoded fields.\<close>

type_synonym evidence_item = "EvidenceLeaf \<times> Structure1Fields"

definition genuine :: "verifier \<Rightarrow> cbor_reader \<Rightarrow> string list \<Rightarrow> string \<Rightarrow> evidence_item \<Rightarrow> bool" where
  "genuine vf dc participants sid = (\<lambda>(leaf, f).
     bytesToHex (ev_sender leaf) \<in> set participants \<and> vf (ev_sender leaf) (ev_structure1 leaf) (ev_signature leaf) \<and>
     decodeStructure1 dc (ev_structure1 leaf) = Inr f \<and> s1_senderPubkey f = ev_sender leaf \<and>
     bytesToHex (s1_sessionId f) = toLower sid)"

definition lastOf :: "bytes \<Rightarrow> EvidenceScan \<Rightarrow> bytes \<Rightarrow> bytes" where
  "lastOf genesis st pk = (case map_of (lastBySender st) (bytesToHex pk) of None \<Rightarrow> genesis | Some h \<Rightarrow> h)"

definition scanItem :: "EvidenceScan \<Rightarrow> evidence_item \<Rightarrow> EvidenceScan" where
  "scanItem st = (\<lambda>(leaf, f).
     \<lparr>hashes = hashes st @ [s1_contentHash f], seen = add_last (bytesToHex (ev_structure1 leaf)) (seen st),
      lastBySender = AList.update (bytesToHex (ev_sender leaf)) (s1_contentHash f) (lastBySender st)\<rparr>)"

definition admissible :: "bytes \<Rightarrow> EvidenceScan \<Rightarrow> evidence_item \<Rightarrow> bool" where
  "admissible genesis st = (\<lambda>(leaf, f).
     bytesToHex (ev_structure1 leaf) \<notin> set (seen st) \<and> s1_prevOwnHash f = lastOf genesis st (ev_sender leaf))"

lemma evidenceStep_Inr:
  "evidenceStep other vf dc participants sid genesis st (i, raw) = Inr st' \<longleftrightarrow>
     (\<exists>x. parseEvidenceLeaf other raw = Some (fst x) \<and> genuine vf dc participants sid x \<and>
        admissible genesis st x \<and> st' = scanItem st x)"
  by (auto simp: evidenceStep_def genuine_def admissible_def scanItem_def lastOf_def Let_def bytesToHex_inj
      split: option.splits sum.splits)

fun admitted :: "bytes \<Rightarrow> EvidenceScan \<Rightarrow> evidence_item list \<Rightarrow> bool" where
  "admitted genesis st [] = True"
| "admitted genesis st (x # xs) = (admissible genesis st x \<and> admitted genesis (scanItem st x) xs)"

text \<open>The items of an evidence list, where all of them parse and decode.\<close>

definition itemsOf :: "(jsval \<Rightarrow> 8 word) \<Rightarrow> jsval list \<Rightarrow> evidence_item list \<Rightarrow> bool" where
  "itemsOf other raws xs \<longleftrightarrow> map (parseEvidenceLeaf other) raws = map (Some \<circ> fst) xs"

lemma scan_Inr:
  "rfold (evidenceStep other vf dc participants sid genesis) st (enumerate n raws) = Inr st' \<longleftrightarrow>
     (\<exists>xs. itemsOf other raws xs \<and> (\<forall>x \<in> set xs. genuine vf dc participants sid x) \<and>
        admitted genesis st xs \<and> st' = foldl scanItem st xs)"
proof (induction raws arbitrary: n st)
  case Nil
  show ?case by (auto simp: itemsOf_def)
next
  case (Cons raw raws)
  have "rfold (evidenceStep other vf dc participants sid genesis) st (enumerate n (raw # raws)) = Inr st' \<longleftrightarrow>
    (\<exists>x xs. parseEvidenceLeaf other raw = Some (fst x) \<and> genuine vf dc participants sid x \<and> admissible genesis st x \<and>
       itemsOf other raws xs \<and> (\<forall>x \<in> set xs. genuine vf dc participants sid x) \<and>
       admitted genesis (scanItem st x) xs \<and> st' = foldl scanItem (scanItem st x) xs)"
    unfolding enumerate_simps rfold.simps rbind_Inr_conv evidenceStep_Inr Cons.IH by blast
  also have "\<dots> \<longleftrightarrow> (\<exists>xs. itemsOf other (raw # raws) xs \<and> (\<forall>x \<in> set xs. genuine vf dc participants sid x) \<and>
       admitted genesis st xs \<and> st' = foldl scanItem st xs)" (is "?l \<longleftrightarrow> ?r")
  proof
    assume ?l
    then obtain x xs where "parseEvidenceLeaf other raw = Some (fst x)" "genuine vf dc participants sid x"
      "admissible genesis st x" "itemsOf other raws xs" "\<forall>x \<in> set xs. genuine vf dc participants sid x"
      "admitted genesis (scanItem st x) xs" "st' = foldl scanItem (scanItem st x) xs" by blast
    then show ?r by (intro exI [of _ "x # xs"]) (simp add: itemsOf_def)
  next
    assume ?r
    then obtain ys where ys: "itemsOf other (raw # raws) ys" "\<forall>x \<in> set ys. genuine vf dc participants sid x"
      "admitted genesis st ys" "st' = foldl scanItem st ys" by blast
    then obtain x xs where "ys = x # xs" by (cases ys) (auto simp: itemsOf_def)
    with ys show ?l by (intro exI [of _ x] exI [of _ xs]) (simp add: itemsOf_def)
  qed
  finally show ?case .
qed

lemma hashes_foldl [simp]: "hashes (foldl scanItem st xs) = hashes st @ map (s1_contentHash \<circ> snd) xs"
  by (induction xs arbitrary: st) (auto simp: scanItem_def)

lemma seen_foldl [simp]: "set (seen (foldl scanItem st xs)) = set (seen st) \<union> (bytesToHex \<circ> ev_structure1 \<circ> fst) ` set xs"
  by (induction xs arbitrary: st) (auto simp: scanItem_def)

lemma lastOf_scanItem:
  "lastOf genesis (scanItem st (leaf, f)) pk = (if ev_sender leaf = pk then s1_contentHash f else lastOf genesis st pk)"
  by (simp add: lastOf_def scanItem_def update_conv' bytesToHex_inj)

text \<open>Two states a scan cannot tell apart, up to what the first has seen more.\<close>

lemma admitted_weaken:
  "admitted genesis st xs \<Longrightarrow> lastOf genesis st = lastOf genesis st' \<Longrightarrow> set (seen st') \<subseteq> set (seen st) \<Longrightarrow>
   admitted genesis st' xs"
proof (induction xs arbitrary: st st')
  case (Cons x xs)
  obtain leaf f where x: "x = (leaf, f)" by (cases x)
  have "lastOf genesis (scanItem st x) = lastOf genesis (scanItem st' x)"
    using Cons.prems(2) by (auto simp: x lastOf_scanItem fun_eq_iff)
  moreover have "set (seen (scanItem st' x)) \<subseteq> set (seen (scanItem st x))"
    using Cons.prems(3) by (auto simp: x scanItem_def)
  ultimately show ?case
    using Cons.IH [of "scanItem st x" "scanItem st' x"] Cons.prems by (auto simp: x admissible_def)
qed simp

lemma admitted_append: "admitted genesis st (xs @ ys) \<longleftrightarrow> admitted genesis st xs \<and> admitted genesis (foldl scanItem st xs) ys"
  by (induction xs arbitrary: st) auto

lemma lastOf_foldl:
  "lastOf genesis (foldl scanItem st xs) pk =
     (case rev (filter (\<lambda>x. ev_sender (fst x) = pk) xs) of [] \<Rightarrow> lastOf genesis st pk | x # _ \<Rightarrow> s1_contentHash (snd x))"
proof (induction xs arbitrary: st rule: rev_induct)
  case (snoc x xs)
  then show ?case by (cases x) (simp add: lastOf_scanItem)
qed simp

section \<open>Chains\<close>

text \<open>Each leaf names the content of the one before.\<close>

fun linked :: "bytes \<Rightarrow> Structure1Fields list \<Rightarrow> bool" where
  "linked h [] = True"
| "linked h (f # fs) = (s1_prevOwnHash f = h \<and> linked (s1_contentHash f) fs)"

lemma admitted_linked:
  "admitted genesis st xs \<Longrightarrow> linked (lastOf genesis st pk) (map snd (filter (\<lambda>x. ev_sender (fst x) = pk) xs))"
proof (induction xs arbitrary: st)
  case (Cons x xs)
  obtain leaf f where x: "x = (leaf, f)" by (cases x)
  show ?case using Cons.IH [of "scanItem st x"] Cons.prems by (auto simp: x lastOf_scanItem admissible_def)
qed simp

lemma admitted_fresh: "admitted genesis st xs \<Longrightarrow> x \<in> set xs \<Longrightarrow> bytesToHex (ev_structure1 (fst x)) \<notin> set (seen st)"
proof (induction xs arbitrary: st)
  case (Cons y ys)
  have "set (seen st) \<subseteq> set (seen (scanItem st y))" by (cases y) (auto simp: scanItem_def)
  then show ?case using Cons.IH [of "scanItem st y"] Cons.prems by (cases y) (auto simp: admissible_def)
qed simp

lemma admitted_distinct: "admitted genesis st xs \<Longrightarrow> distinct (map (ev_structure1 \<circ> fst) xs)"
proof (induction xs arbitrary: st)
  case (Cons x xs)
  obtain leaf f where x: "x = (leaf, f)" by (cases x)
  have "bytesToHex (ev_structure1 leaf) \<in> set (seen (scanItem st x))" by (simp add: x scanItem_def)
  then show ?case
    using Cons admitted_fresh [of genesis "scanItem st x" xs] by (auto simp: x)
qed simp

text \<open>In a chain without repeated contents a leaf is determined by what it names.\<close>

lemma linked_nth: "linked h fs \<Longrightarrow> i < length fs \<Longrightarrow> s1_prevOwnHash (fs ! i) = (h # map s1_contentHash fs) ! i"
  by (induction fs arbitrary: h i) (auto simp: nth_Cons split: nat.splits)

lemma linked_part:
  assumes "linked h chain" and "distinct (h # map s1_contentHash chain)"
    and "linked ((h # map s1_contentHash chain) ! k) fs" and "set fs \<subseteq> set chain" and "k \<le> length chain"
  shows "fs = take (length fs) (drop k chain)"
  using assms(3-5)
proof (induction fs arbitrary: k)
  case (Cons f fs)
  let ?hs = "h # map s1_contentHash chain"
  obtain j where j: "j < length chain" "f = chain ! j" using Cons.prems(2) by (auto simp: in_set_conv_nth)
  have "?hs ! j = ?hs ! k" using Cons.prems(1) linked_nth [OF assms(1) j(1)] j(2) by simp
  then have k: "j = k" using assms(2) j(1) Cons.prems(3) by (subst (asm) nth_eq_iff_index_eq) auto
  have "fs = take (length fs) (drop (Suc k) chain)"
    using Cons.IH [of "Suc k"] Cons.prems j k by simp
  moreover have "drop k chain = f # drop (Suc k) chain" using j k by (simp add: Cons_nth_drop_Suc)
  ultimately show ?case by simp
qed simp

section \<open>What a match says\<close>

definition freshScan :: EvidenceScan where
  "freshScan = \<lparr>hashes = [], seen = [], lastBySender = []\<rparr>"

lemma lastOf_fresh [simp]: "lastOf genesis freshScan pk = genesis"
  by (simp add: lastOf_def freshScan_def)

lemma hashes_fresh [simp]: "hashes freshScan = []" "seen freshScan = []"
  by (simp_all add: freshScan_def)

definition contents :: "evidence_item list \<Rightarrow> bytes list" where
  "contents xs = map (s1_contentHash \<circ> snd) xs"

lemma genuine_contents: "\<forall>x \<in> set xs. genuine vf dc participants sid x \<Longrightarrow> all32 (contents xs)"
  by (force simp: contents_def all32_def genuine_def dest: decoded_structure1)

lemma rootOfInputs_hashes:
  assumes "width32 sha" and "all32 hs" and "hs \<noteq> []"
  shows "rootOfInputs sha (map LHash hs) = Inr (rootOf sha hs)"
proof -
  have r: "rmap (leafInputHash sha) (map LHash hs) = Inr hs" by (induction hs) simp_all
  have ne: "map LHash hs \<noteq> []" using assms(3) by simp
  obtain t where t: "buildMerkleTree sha (map LHash hs) = Inr t"
    using buildMerkleTree_levels [OF assms(1) r assms(2) ne] by blast
  then show ?thesis using merkleRoot_levels [OF assms(1) r assms(2) ne t] by (simp add: rootOfInputs_def)
qed

definition standsAt :: "cbor_reader \<Rightarrow> bytes list \<Rightarrow> SealCarryLeaf \<Rightarrow> bool" where
  "standsAt dc hs own \<longleftrightarrow> (\<exists>f. decodeStructure1 dc (structure1Cbor own) = Inr f \<and> 1 \<le> sequenceNumber own \<and>
     sequenceNumber own \<le> int (length hs) \<and> hs ! nat (sequenceNumber own - 1) = s1_contentHash f)"

lemma ownLeaves_Inr:
  "rfold (ownLeafStep dc hs) n own = Inr m \<longleftrightarrow> (\<forall>l \<in> set own. standsAt dc hs l) \<and> m = n + length own"
proof (induction own arbitrary: n)
  case (Cons l own)
  have "ownLeafStep dc hs n l = Inr k \<longleftrightarrow> standsAt dc hs l \<and> k = n + 1" for k
    by (auto simp: ownLeafStep_def standsAt_def split: sum.splits)
  then show ?case by (auto simp: rbind_Inr_conv Cons.IH)
qed auto

lemma no_early_match:
  "evidenceStep other vf dc participants sid genesis st ev \<noteq> Inl (EvidenceMatch n)"
  "ownLeafStep dc hs held own \<noteq> Inl (EvidenceMatch n)"
  by (auto simp: evidenceStep_def ownLeafStep_def Let_def split: prod.splits option.splits sum.splits)

lemma loops_never_match:
  "rfold (evidenceStep other vf dc participants sid genesis) st evs \<noteq> Inl (EvidenceMatch n)"
  "rfold (ownLeafStep dc hs) held own \<noteq> Inl (EvidenceMatch n)"
  using rfold_Inl no_early_match by metis+

text \<open>The verdict \<open>match\<close>, condition by condition.\<close>

definition accepted ::
  "(jsval \<Rightarrow> 8 word) \<Rightarrow> verifier \<Rightarrow> cbor_reader \<Rightarrow> SealCarryLeaf list \<Rightarrow> jsval list \<Rightarrow> string \<Rightarrow> string list \<Rightarrow> bytes \<Rightarrow>
   evidence_item list \<Rightarrow> bool" where
  "accepted other vf dc own evidence sid participants genesis xs \<longleftrightarrow> itemsOf other evidence xs \<and>
     (\<forall>x \<in> set xs. genuine vf dc (map toLower participants) sid x) \<and> admitted genesis freshScan xs \<and>
     (\<forall>l \<in> set own. standsAt dc (contents xs) l)"

lemma genuine_participants: "genuine vf dc (add_all [] ps) sid x \<longleftrightarrow> genuine vf dc ps sid x"
  by (simp add: genuine_def split_beta)

lemma evidence_match_iff:
  assumes "width32 sha"
  shows "verifyCertifiedRootFromEvidence other sha vf dc own evidence sid participants root count (Some genesis)
      = Inr (EvidenceMatch n) \<longleftrightarrow>
    length participants = 2 \<and> evidence \<noteq> [] \<and> int (length evidence) = count \<and> n = int (length evidence) - int (length own) \<and>
    (\<exists>xs. accepted other vf dc own evidence sid participants genesis xs \<and> rootOf sha (contents xs) = root)"
    (is "?v \<longleftrightarrow> ?conditions")
proof -
  let ?scan = "rfold (evidenceStep other vf dc (add_all [] (map toLower participants)) sid genesis) freshScan (enumerate 1 evidence)"
  have len: "itemsOf other evidence xs \<Longrightarrow> length xs = length evidence" for xs
    by (metis itemsOf_def length_map)
  have scan: "?scan = Inr st \<longleftrightarrow> (\<exists>xs. itemsOf other evidence xs \<and> (\<forall>x \<in> set xs. genuine vf dc (map toLower participants) sid x) \<and>
      admitted genesis freshScan xs \<and> st = foldl scanItem freshScan xs)" for st
    by (simp add: scan_Inr genuine_participants)
  show ?thesis
  proof
    assume ?v
    then have pre: "length participants = 2" "evidence \<noteq> []" "int (length evidence) = count"
      by (auto simp: verifyCertifiedRootFromEvidence_def split: if_splits)
    from \<open>?v\<close> pre obtain st held r where st: "?scan = Inr st" "rfold (ownLeafStep dc (hashes st)) 0 own = Inr held"
      "rootOfInputs sha (map LHash (hashes st)) = Inr r" "r = root" "n = int (length evidence) - int held"
      by (auto simp: verifyCertifiedRootFromEvidence_def freshScan_def rbind_Inr_conv loops_never_match
          split: sum.splits if_splits)
    then obtain xs where xs: "itemsOf other evidence xs" "\<forall>x \<in> set xs. genuine vf dc (map toLower participants) sid x"
      "admitted genesis freshScan xs" "hashes st = contents xs"
      using scan [THEN iffD1, OF st(1)] by (auto simp: contents_def)
    have "contents xs \<noteq> []" using len [OF xs(1)] pre(2) by (auto simp: contents_def)
    then have "rootOf sha (contents xs) = root"
      using rootOfInputs_hashes [OF assms genuine_contents [OF xs(2)]] st(3,4) xs(4) by simp
    then show ?conditions
      using pre xs st(2,5) by (auto simp: accepted_def ownLeaves_Inr)
  next
    assume c: ?conditions
    then obtain xs where xs: "accepted other vf dc own evidence sid participants genesis xs" "rootOf sha (contents xs) = root" by blast
    then have st: "?scan = Inr (foldl scanItem freshScan xs)"
      unfolding scan by (auto simp: accepted_def)
    have "contents xs \<noteq> []" using len [of xs] c xs(1) by (auto simp: accepted_def contents_def)
    then have r: "rootOfInputs sha (map LHash (contents xs)) = Inr root"
      using rootOfInputs_hashes [OF assms, of "contents xs"] genuine_contents xs by (auto simp: accepted_def)
    have own: "rfold (ownLeafStep dc (contents xs)) 0 own = Inr (length own)"
      using xs(1) by (simp add: ownLeaves_Inr accepted_def)
    have hs: "hashes (foldl scanItem freshScan xs) = contents xs" by (simp add: contents_def)
    show ?v
      unfolding verifyCertifiedRootFromEvidence_def freshScan_def [symmetric]
      using c st r own by (simp add: hs del: hashes_foldl)
  qed
qed

section \<open>Properties of the evidence check\<close>

text \<open>The signed bytes of one sender, in evidence order.\<close>

definition senderBytes :: "(jsval \<Rightarrow> 8 word) \<Rightarrow> bytes \<Rightarrow> jsval list \<Rightarrow> bytes list" where
  "senderBytes other pk evidence =
     map ev_structure1 (filter (\<lambda>l. ev_sender l = pk) (List.map_filter (parseEvidenceLeaf other) evidence))"

lemma items_parsed: "itemsOf other evidence xs \<Longrightarrow> List.map_filter (parseEvidenceLeaf other) evidence = map fst xs"
proof (induction evidence arbitrary: xs)
  case (Cons e evidence)
  then show ?case by (cases xs) (auto simp: itemsOf_def List.map_filter_simps)
qed (simp add: itemsOf_def List.map_filter_simps)

lemma items_senderBytes:
  "itemsOf other evidence xs \<Longrightarrow> senderBytes other pk evidence = map (ev_structure1 \<circ> fst) (filter (\<lambda>x. ev_sender (fst x) = pk) xs)"
  by (simp add: senderBytes_def items_parsed filter_map comp_def)

text \<open>C28: Evidence cannot rewrite what a participant said: when the check answers match, the leaves of a
  sender in the evidence are, in order, the first leaves of that sender's own chain; nothing of it
  is missing in the middle, moved, replayed or added. This is for a sender that signed one chain in
  the session, from the anchor, with no content repeated, and whose signatures are not forged.\<close>

theorem evidence_is_senders_prefix:
  assumes "width32 sha"
    and m: "verifyCertifiedRootFromEvidence other sha vf dc own evidence sid participants root count (Some genesis)
      = Inr (EvidenceMatch n)"
    and chain: "linked genesis (map snd chain)" "distinct (genesis # map s1_contentHash (map snd chain))"
    and signed: "\<And>bytes f sig. vf pk bytes sig \<Longrightarrow> decodeStructure1 dc bytes = Inr f \<Longrightarrow> s1_senderPubkey f = pk \<Longrightarrow>
      bytesToHex (s1_sessionId f) = toLower sid \<Longrightarrow> (bytes, f) \<in> set chain"
  shows "\<exists>k. senderBytes other pk evidence = take k (map fst chain)"
proof -
  from evidence_match_iff [OF assms(1)] m obtain xs where
    a: "accepted other vf dc own evidence sid participants genesis xs" by blast
  let ?mine = "filter (\<lambda>x. ev_sender (fst x) = pk) xs"
  have mem: "(ev_structure1 (fst x), snd x) \<in> set chain" if "x \<in> set ?mine" for x
    using a that signed by (auto simp: accepted_def genuine_def split_beta)
  have "linked ((genesis # map s1_contentHash (map snd chain)) ! 0) (map snd ?mine)"
    using a admitted_linked [of genesis freshScan xs pk] by (simp add: accepted_def)
  moreover have "set (map snd ?mine) \<subseteq> set (map snd chain)" using mem by force
  ultimately have fs: "map snd ?mine = take (length ?mine) (map snd chain)"
    using linked_part [OF chain, of 0 "map snd ?mine"] by simp
  let ?mine' = "map (\<lambda>x. (ev_structure1 (fst x), snd x)) ?mine"
  have "inj_on (s1_contentHash \<circ> snd) (set chain)" using chain(2) by (simp add: distinct_map)
  then have "inj_on snd (set chain)" by (rule inj_on_imageI2)
  then have "inj_on snd (set ?mine' \<union> set (take (length ?mine) chain))"
    using mem by (elim inj_on_subset) (auto dest: in_set_takeD)
  moreover have "map snd ?mine' = map snd (take (length ?mine) chain)" using fs by (simp add: take_map comp_def)
  ultimately have "?mine' = take (length ?mine) chain" by (simp only: inj_on_map_eq_map)
  then have "map fst (map (\<lambda>x. (ev_structure1 (fst x), snd x)) ?mine) = take (length ?mine) (map fst chain)"
    by (simp only: take_map)
  then show ?thesis
    using a by (intro exI [of _ "length ?mine"]) (simp add: accepted_def items_senderBytes [of other evidence xs] comp_def)
qed

text \<open>The evidence of the sample session, and its check.\<close>

definition sampleLeaf :: "8 word \<Rightarrow> 8 word \<Rightarrow> jsval" where
  "sampleLeaf c p = JObject [(''structure1_cbor'', JBytes [c, p]), (''sender_pubkey'', JBytes (replicate 32 9)),
     (''sender_signature'', JBytes [])]"

abbreviation sampleCheck :: "verifier \<Rightarrow> jsval list \<Rightarrow> bytes \<Rightarrow> int \<Rightarrow> EvidenceVerdict js" where
  "sampleCheck vf evidence certified count \<equiv> verifyCertifiedRootFromEvidence (\<lambda>v. 0) sampleSha vf sampleReader [] evidence
     (bytesToHex [7]) [bytesToHex (replicate 32 9), ''''] certified count (Some (replicate 32 0))"

lemma sample_two: "sampleCheck (\<lambda>pk b s. b \<in> set [[1, 0], [2, 1]]) [sampleLeaf 1 0, sampleLeaf 2 1] (replicate 32 65) 2 = Inr (EvidenceMatch 2)"
  by code_simp
lemma sample_three: "sampleCheck (\<lambda>pk b s. True) [sampleLeaf 1 0, sampleLeaf 1 1, sampleLeaf 2 1] (replicate 32 65) 3 = Inr (EvidenceMatch 3)"
  by code_simp

theorem evidence_is_senders_prefix_witness:
  "\<exists>k. senderBytes (\<lambda>v. 0) (replicate 32 9) [sampleLeaf 1 0, sampleLeaf 2 1] = take k [[1, 0], [2, 1]]"
proof -
  have d: "bytes \<in> set [[1, 0], [2, 1]] \<Longrightarrow> decodeStructure1 sampleReader bytes = Inr f \<Longrightarrow>
      (bytes, f) \<in> set [([1, 0], sampleFields 1 0), ([2, 1], sampleFields 2 1)]" for bytes f
    by (auto simp: sealSample_decoded)
  show ?thesis
    using evidence_is_senders_prefix [OF sha_sample_width sample_two,
        where pk = "replicate 32 9" and chain = "[([1, 0], sampleFields 1 0), ([2, 1], sampleFields 2 1)]"] d
    by (simp add: sampleFields_def)
qed

text \<open>A certified root fixes the conversation: two daemons that accept evidence for one root and one
  leaf count, each with its own leaves and evidence, have accepted the same contents in the same
  order, unless the Merkle proofs between them exhibit a collision of the digest.\<close>

theorem accepted_evidence_is_one:
  assumes "width32 sha" and "length evidence \<le> 2 ^ 31"
    and "verifyCertifiedRootFromEvidence other sha vf dc own evidence sid participants root count (Some genesis)
      = Inr (EvidenceMatch n)"
    and "verifyCertifiedRootFromEvidence other' sha vf' dc' own' evidence' sid' participants' root count (Some genesis')
      = Inr (EvidenceMatch n')"
  shows "\<exists>xs ys. accepted other vf dc own evidence sid participants genesis xs \<and>
    accepted other' vf' dc' own' evidence' sid' participants' genesis' ys \<and>
    (contents xs = contents ys \<or>
     (\<exists>i < length xs. merkleClash sha (contents ys ! i) i (contents xs) (proofWalk (levels sha (contents ys)) i)))"
proof -
  obtain xs where xs: "accepted other vf dc own evidence sid participants genesis xs" "rootOf sha (contents xs) = root"
      "int (length evidence) = count" using assms(3) by (auto simp: evidence_match_iff [OF assms(1)])
  obtain ys where ys: "accepted other' vf' dc' own' evidence' sid' participants' genesis' ys" "rootOf sha (contents ys) = root"
      "int (length evidence') = count" using assms(4) by (auto simp: evidence_match_iff [OF assms(1)])
  have len: "length xs = length evidence" "length ys = length evidence'"
    using xs(1) ys(1) unfolding accepted_def itemsOf_def by (metis length_map)+
  then have l: "length (contents xs) = length (contents ys)" "length (contents xs) \<le> 2 ^ 31" "length (contents xs) = length xs"
    using xs(3) ys(3) assms(2) by (auto simp: contents_def)
  have "all32 (contents xs)" "all32 (contents ys)"
    using xs(1) ys(1) genuine_contents by (auto simp: accepted_def)
  then have "validLeaves sha (contents xs)" "validLeaves sha (contents ys)"
    using assms(1) l by (auto simp: validLeaves_def)
  then have "contents xs = contents ys \<or>
     (\<exists>i < length xs. merkleClash sha (contents ys ! i) i (contents xs) (proofWalk (levels sha (contents ys)) i))"
    using merkle.same_root_same_elements [of sha "contents xs" "contents ys"] l xs(2) ys(2) by metis
  then show ?thesis using xs(1) ys(1) by blast
qed

theorem accepted_evidence_is_one_witness:
  "\<exists>xs. accepted (\<lambda>v. 0) (\<lambda>pk b s. b \<in> set [[1, 0], [2, 1]]) sampleReader [] [sampleLeaf 1 0, sampleLeaf 2 1]
     (bytesToHex [7]) [bytesToHex (replicate 32 9), ''''] (replicate 32 0) xs"
  using accepted_evidence_is_one [OF sha_sample_width _ sample_two sample_two] by auto

text \<open>The content hash a raw evidence leaf carries.\<close>

definition contentOf :: "(jsval \<Rightarrow> 8 word) \<Rightarrow> cbor_reader \<Rightarrow> jsval \<Rightarrow> (bytes \<times> bytes) option" where
  "contentOf other dc raw = (case parseEvidenceLeaf other raw of None \<Rightarrow> None
     | Some l \<Rightarrow> (case decodeStructure1 dc (ev_structure1 l) of Inl _ \<Rightarrow> None | Inr f \<Rightarrow> Some (ev_sender l, s1_contentHash f)))"

lemma items_append:
  "itemsOf other (as @ bs) xs \<longleftrightarrow> (\<exists>ys zs. xs = ys @ zs \<and> itemsOf other as ys \<and> itemsOf other bs zs)"
proof
  assume i: "itemsOf other (as @ bs) xs"
  then have "map (parseEvidenceLeaf other) as @ map (parseEvidenceLeaf other) bs = map (Some \<circ> fst) xs"
    by (simp add: itemsOf_def)
  then have "itemsOf other as (take (length as) xs) \<and> itemsOf other bs (drop (length as) xs)"
    unfolding itemsOf_def by (metis append_eq_conv_conj drop_map length_map take_map)
  then show "\<exists>ys zs. xs = ys @ zs \<and> itemsOf other as ys \<and> itemsOf other bs zs"
    by (metis append_take_drop_id)
qed (auto simp: itemsOf_def)

lemma items_single: "itemsOf other [raw] xs \<longleftrightarrow> (\<exists>x. xs = [x] \<and> parseEvidenceLeaf other raw = Some (fst x))"
  by (cases xs) (auto simp: itemsOf_def)

lemma items_from: "itemsOf other raws xs \<Longrightarrow> x \<in> set xs \<Longrightarrow> \<exists>raw \<in> set raws. parseEvidenceLeaf other raw = Some (fst x)"
  unfolding itemsOf_def by (metis (no_types, lifting) comp_apply image_iff list.set_map)

text \<open>A repeated content hides a cut: if a sender's leaf repeats the content of an earlier one, then
  everything that sender signed after the first of the two, up to and including the second, can be
  cut out of accepted evidence and the shorter evidence is accepted too, against its own root. The
  check links leaves by content hash, so it does not see the gap, contrary to its comment.\<close>

theorem repeated_content_hides_cut:
  assumes "width32 sha"
    and m: "verifyCertifiedRootFromEvidence other sha vf dc [] (before @ x # gap @ y # after) sid participants root count
      (Some genesis) = Inr (EvidenceMatch n)"
    and same: "contentOf other dc x = Some (pk, h)" "contentOf other dc y = Some (pk, h)"
    and mine: "\<forall>z \<in> set gap. \<exists>h'. contentOf other dc z = Some (pk, h')"
  shows "\<exists>root'. verifyCertifiedRootFromEvidence other sha vf dc [] (before @ x # after) sid participants root'
      (int (length (before @ x # after))) (Some genesis) = Inr (EvidenceMatch (int (length (before @ x # after))))"
proof -
  from evidence_match_iff [OF assms(1)] m obtain zs where
    a: "accepted other vf dc [] (before @ x # gap @ y # after) sid participants genesis zs" and p: "length participants = 2" by blast
  have "itemsOf other (before @ [x] @ gap @ [y] @ after) zs" using a by (simp add: accepted_def)
  then obtain us ux vs vy ws where i: "zs = (us @ [ux]) @ (vs @ [vy]) @ ws" "itemsOf other (before @ x # after) ((us @ [ux]) @ ws)"
      "parseEvidenceLeaf other x = Some (fst ux)" "parseEvidenceLeaf other y = Some (fst vy)" "itemsOf other gap vs"
    unfolding items_append items_single by (fastforce simp: items_append items_single itemsOf_def)
  have adm: "admitted genesis freshScan (us @ [ux])"
      "admitted genesis (foldl scanItem (foldl scanItem freshScan (us @ [ux])) (vs @ [vy])) ws"
    using a i(1) by (auto simp: accepted_def admitted_append)
  have gen: "\<forall>z \<in> set zs. genuine vf dc (map toLower participants) sid z" using a by (simp add: accepted_def)
  have content: "contentOf other dc raw = Some (ev_sender (fst z), s1_contentHash (snd z))"
    if "parseEvidenceLeaf other raw = Some (fst z)" "z \<in> set zs" for raw z
    using that gen by (auto simp: contentOf_def genuine_def split_beta)
  have ends: "ev_sender (fst ux) = pk" "s1_contentHash (snd ux) = h" "ev_sender (fst vy) = pk" "s1_contentHash (snd vy) = h"
    using content [OF i(3)] content [OF i(4)] same i(1) by auto
  have inside: "ev_sender (fst z) = pk" if z: "z \<in> set (vs @ [vy])" for z
  proof (cases "z = vy")
    case False
    then obtain raw where "raw \<in> set gap" "parseEvidenceLeaf other raw = Some (fst z)"
      using z i(5) items_from by fastforce
    then show ?thesis using content [of raw z] mine z i(1) by auto
  qed (simp add: ends)
  have "lastOf genesis (foldl scanItem (foldl scanItem freshScan (us @ [ux])) (vs @ [vy])) q =
      lastOf genesis (foldl scanItem freshScan (us @ [ux])) q" for q
  proof (cases "q = pk")
    case True
    then show ?thesis using ends by (cases ux; cases vy) (simp add: lastOf_scanItem)
  next
    case False
    then have "filter (\<lambda>z. ev_sender (fst z) = q) (vs @ [vy]) = []" using inside by (auto simp: filter_empty_conv)
    then show ?thesis by (simp only: lastOf_foldl) simp
  qed
  then have "admitted genesis (foldl scanItem freshScan (us @ [ux])) ws"
    by (rule_tac admitted_weaken [OF adm(2)]) (simp add: fun_eq_iff, simp only: seen_foldl, blast)
  then have "admitted genesis freshScan ((us @ [ux]) @ ws)"
    using adm(1) by (simp only: admitted_append)
  then have "accepted other vf dc [] (before @ x # after) sid participants genesis ((us @ [ux]) @ ws)"
    using i(1,2) gen by (auto simp: accepted_def)
  then show ?thesis unfolding evidence_match_iff [OF assms(1)] using p by fastforce
qed

theorem repeated_content_hides_cut_witness:
  "sampleCheck (\<lambda>pk b s. True) [sampleLeaf 1 0, sampleLeaf 1 1, sampleLeaf 2 1] (replicate 32 65) 3 = Inr (EvidenceMatch 3) \<and>
   (\<exists>root'. sampleCheck (\<lambda>pk b s. True) [sampleLeaf 1 0, sampleLeaf 2 1] root' 2 = Inr (EvidenceMatch 2))"
proof -
  have c: "contentOf (\<lambda>v. 0) sampleReader (sampleLeaf c p) = Some (replicate 32 9, replicate 32 c)" for c p
    by (simp add: contentOf_def parseEvidenceLeaf_def sampleLeaf_def getProp_def evidenceBytes_def sealSample_decoded sampleFields_def)
  show ?thesis
    using repeated_content_hides_cut [OF sha_sample_width, of "\<lambda>v. 0" "\<lambda>pk b s. True" sampleReader "[]" "sampleLeaf 1 0" "[]"
        "sampleLeaf 1 1" "[sampleLeaf 2 1]"] sample_three c by simp
qed

end
