(* ===== verification/Seal_Root_Claims.thy ===== *)
theory Seal_Root_Claims
  imports Seal_Checks
begin

text \<open>
  The check of a certified root against the leaves a daemon stored itself: whatever it received of
  the session, in whatever order, an honest certificate is not accused.
\<close>

section \<open>The own leaves\<close>

type_synonym delivery = "string \<times> string \<times> SealCarryLeaf \<times> int"

definition stored :: "delivery list \<Rightarrow> SealLeafRow list" where
  "stored ds = foldl (\<lambda>rows (agent, session, leaf, now). snd (store_leaf agent session leaf now rows)) [] ds"

definition delivered :: "string \<Rightarrow> string \<Rightarrow> delivery list \<Rightarrow> SealCarryLeaf set" where
  "delivered agent session ds = {leaf. \<exists>now. (agent, session, leaf, now) \<in> set ds}"

text \<open>The relay numbers the leaves of a session from one.\<close>

definition numbered :: "SealCarryLeaf list \<Rightarrow> bool" where
  "numbered leaves \<longleftrightarrow> map sequenceNumber leaves = map (\<lambda>i. int i + 1) [0..<length leaves]"

lemma numbered_nth: "numbered leaves \<Longrightarrow> i < length leaves \<Longrightarrow> sequenceNumber (leaves ! i) = int i + 1"
  unfolding numbered_def by (drule arg_cong [of _ _ "\<lambda>l. l ! i"]) simp

lemma numbered_inj: "numbered leaves \<Longrightarrow> inj_on sequenceNumber (set leaves)"
  by (auto simp: inj_on_def in_set_conv_nth numbered_nth)

lemma numbered_sorted: "numbered leaves \<Longrightarrow> sorted (map sequenceNumber leaves) \<and> distinct (map sequenceNumber leaves)"
  by (auto simp: numbered_def sorted_iff_nth_mono distinct_map inj_on_def)

definition rowsFor :: "string \<Rightarrow> string \<Rightarrow> SealLeafRow list \<Rightarrow> SealCarryLeaf list" where
  "rowsFor agent session rows = map row_leaf (filter (\<lambda>r. row_agent r = agent \<and> row_session r = session) rows)"

lemma row_taken:
  "list_ex (\<lambda>r. row_agent r = a \<and> row_session r = s \<and> sequenceNumber (row_leaf r) = k) rows \<longleftrightarrow>
     k \<in> sequenceNumber ` set (rowsFor a s rows)"
  by (induction rows) (auto simp: rowsFor_def)

lemma rowsFor_snoc:
  "rowsFor agent session (rows @ [\<lparr>row_agent = a, row_session = s, row_leaf = leaf, stored_at = now\<rparr>]) =
     (if a = agent \<and> s = session then rowsFor agent session rows @ [leaf] else rowsFor agent session rows)"
  by (simp add: rowsFor_def)

lemma stored_rows:
  assumes "inj_on sequenceNumber (delivered agent session ds)"
  shows "set (rowsFor agent session (stored ds)) = delivered agent session ds \<and>
    distinct (map sequenceNumber (rowsFor agent session (stored ds)))"
  using assms
proof (induction ds rule: rev_induct)
  case Nil
  show ?case by (simp add: stored_def rowsFor_def delivered_def)
next
  case (snoc d ds)
  obtain a s leaf now where d: "d = (a, s, leaf, now)" by (cases d)
  let ?rows = "stored ds"
  have st: "stored (ds @ [d]) = snd (store_leaf a s leaf now ?rows)" by (simp add: stored_def d)
  have del: "delivered agent session (ds @ [d]) =
      (if a = agent \<and> s = session then insert leaf (delivered agent session ds) else delivered agent session ds)"
    by (auto simp: delivered_def d)
  have IH: "set (rowsFor agent session ?rows) = delivered agent session ds"
      "distinct (map sequenceNumber (rowsFor agent session ?rows))"
    using snoc.IH snoc.prems by (auto simp: del intro: inj_on_subset split: if_splits)
  have new: "rowsFor agent session (stored (ds @ [d])) =
      (if a = agent \<and> s = session \<and> sequenceNumber leaf \<notin> sequenceNumber ` delivered agent session ds
       then rowsFor agent session ?rows @ [leaf] else rowsFor agent session ?rows)"
    unfolding IH(1) [symmetric] by (simp add: st store_leaf_def row_taken rowsFor_snoc)
  show ?case
  proof (cases "a = agent \<and> s = session")
    case True
    have "sequenceNumber leaf \<in> sequenceNumber ` delivered agent session ds \<Longrightarrow> leaf \<in> delivered agent session ds"
      using snoc.prems True by (auto simp: del inj_on_def)
    then show ?thesis using IH True by (auto simp: new del)
  qed (use IH in \<open>auto simp: new del\<close>)
qed

lemma getCarry_honest:
  assumes "numbered leaves" and "delivered agent session ds \<subseteq> set leaves"
  shows "getCarry agent session (stored ds) = filter (\<lambda>l. l \<in> delivered agent session ds) leaves"
proof -
  note inj = inj_on_subset [OF numbered_inj [OF assms(1)] assms(2)]
  note rows = stored_rows [OF inj]
  have f: "sorted (map sequenceNumber (filter P leaves)) \<and> distinct (map sequenceNumber (filter P leaves))" for P
    using numbered_sorted [OF assms(1)] by (auto intro: sorted_filter distinct_map_filter)
  show ?thesis
  proof (rule map_sorted_distinct_set_unique [of sequenceNumber])
    show "inj_on sequenceNumber (set (getCarry agent session (stored ds)) \<union> set (filter (\<lambda>l. l \<in> delivered agent session ds) leaves))"
      using inj rows by (auto simp: getCarry_def rowsFor_def inj_on_def)
    show "distinct (map sequenceNumber (getCarry agent session (stored ds)))"
      using rows by (auto simp: getCarry_def rowsFor_def [symmetric] distinct_map)
    show "set (getCarry agent session (stored ds)) = set (filter (\<lambda>l. l \<in> delivered agent session ds) leaves)"
      using rows assms(2) by (auto simp: getCarry_def rowsFor_def)
  qed (use f in \<open>auto simp: getCarry_def\<close>)
qed

lemma contiguous_prefix:
  assumes "numbered leaves" and "contiguousFromOne (filter P leaves)"
  shows "filter P leaves = take (length (filter P leaves)) leaves"
proof (rule map_sorted_distinct_set_unique [of sequenceNumber])
  let ?carry = "filter P leaves" and ?n = "length (filter P leaves)"
  have srt: "sorted (map sequenceNumber ?carry)" "distinct (map sequenceNumber ?carry)"
    using numbered_sorted [OF assms(1)] by (auto intro: sorted_filter distinct_map_filter)
  have "sort (map sequenceNumber ?carry) ! i = int i + 1" if "i < ?n" for i
    using assms(2) that by (auto simp: contiguousFromOne_def list_all_length nth_enumerate_eq)
  then have nth: "sequenceNumber (?carry ! i) = int i + 1" if "i < ?n" for i
    using that srt(1) by (simp add: sorted_sort_id)
  have "?carry ! i = leaves ! i" if i: "i < ?n" for i
  proof -
    have "?carry ! i \<in> set leaves" using i nth_mem by fastforce
    moreover have "i < length leaves" using i length_filter_le [of P leaves] by linarith
    ultimately show ?thesis
      using nth [OF i] numbered_nth [OF assms(1), of i] numbered_inj [OF assms(1)] by (auto simp: inj_on_def)
  qed
  then show "set ?carry = set (take ?n leaves)"
    by (metis length_filter_le length_take min.absorb2 nth_equalityI nth_take)
  show "inj_on sequenceNumber (set ?carry \<union> set (take ?n leaves))"
    using numbered_inj [OF assms(1)] by (auto simp: inj_on_def dest: in_set_takeD)
  show "sorted (map sequenceNumber ?carry)" "distinct (map sequenceNumber ?carry)" by (rule srt)+
  show "sorted (map sequenceNumber (take ?n leaves))" "distinct (map sequenceNumber (take ?n leaves))"
    using numbered_sorted [OF assms(1)] by (simp_all add: take_map [symmetric] sorted_wrt_take distinct_take)
qed

section \<open>Honest certificates\<close>

text \<open>The leaf set of a bilateral seal ends with the control leaf of the second party.\<close>

definition closed_set :: "SealCarryLeaf list \<Rightarrow> bool" where
  "closed_set leaves \<longleftrightarrow> (\<forall>k < length leaves. length (ctrlSenders (take k leaves)) \<noteq> 2)"

lemma judge_honest:
  assumes "numbered leaves" and "closed_set leaves" and "carryContentHashInputs dc leaves = Some inputs"
    and "rootOfInputs sha inputs = Inr certified" and "carry = filter P leaves"
    and "carry \<noteq> leaves \<or> ownRoot = Some certified"
  shows "judgeOwnRoot carry ownRoot certified (int (length leaves)) \<noteq> RootMismatch o' d \<and>
    (carry = leaves \<longrightarrow> judgeOwnRoot carry ownRoot certified (int (length leaves)) = RootMatch)"
proof (cases "carry = leaves")
  case True
  then show ?thesis using assms(6) by (simp add: judgeOwnRoot_def)
next
  case False
  have "\<not> (contiguousFromOne carry \<and> length (ctrlSenders carry) = 2)"
  proof
    assume c: "contiguousFromOne carry \<and> length (ctrlSenders carry) = 2"
    then have "carry = take (length carry) leaves" using contiguous_prefix [OF assms(1)] assms(5) by simp
    then show False using False assms(2) c unfolding closed_set_def by (metis not_less take_all)
  qed
  then show ?thesis using False by (simp add: judgeOwnRoot_def Let_def)
qed

lemma inputs_of_part:
  "carryContentHashInputs dc leaves = Some inputs \<Longrightarrow> \<exists>part. carryContentHashInputs dc (filter P leaves) = Some part"
  by (induction leaves arbitrary: inputs) (auto split: sum.splits)

lemma inputs_root:
  assumes "width32 sha" and "carryContentHashInputs dc carry = Some inputs" and "carry \<noteq> []"
  shows "\<exists>r. rootOfInputs sha inputs = Inr r"
proof -
  obtain hs where hs: "inputs = map LHash hs" "all32 hs" "length hs = length carry"
    using assms(2)
  proof (induction carry arbitrary: inputs thesis)
    case Nil
    then show ?case by (metis all32_simps(1) carryContentHashInputs.simps(1) list.size(3) list.simps(8) option.inject)
  next
    case (Cons leaf carry)
    from Cons.prems(2) obtain f rest where f: "decodeStructure1 dc (structure1Cbor leaf) = Inr f"
      "carryContentHashInputs dc carry = Some rest" "inputs = LHash (s1_contentHash f) # rest" by (auto split: sum.splits)
    from Cons.IH [OF _ f(2)] obtain hs where "rest = map LHash hs" "all32 hs" "length hs = length carry" by blast
    then show ?case
      using Cons.prems(1) [of "s1_contentHash f # hs"] f decoded_structure1(1) [OF f(1)] by simp
  qed
  have r: "rmap (leafInputHash sha) inputs = Inr hs" unfolding hs(1) by (induction hs) simp_all
  have "inputs \<noteq> []" using hs assms(3) by auto
  then show ?thesis using buildMerkleTree_levels [OF assms(1) r hs(2)] by (simp add: rootOfInputs_def)
qed

text \<open>C29: An honest certificate is not accused: let the leaves of a session be numbered from one, decodable,
  and closed by the second party's control leaf, and let the certificate carry their root and number.
  Whatever part of them this daemon stored, in whatever order and however often each arrived, the
  check never answers mismatch, and it answers match once all of them are there.\<close>

theorem honest_certificate_not_accused:
  assumes "width32 sha" and "leaves \<noteq> []" and "numbered leaves" and "closed_set leaves"
    and "carryContentHashInputs dc leaves = Some inputs" and "rootOfInputs sha inputs = Inr certified"
    and "delivered agent session ds \<subseteq> set leaves"
  shows "\<exists>v. verifyCertifiedRoot sha dc (getCarry agent session (stored ds)) certified (int (length leaves)) = Inr v \<and>
    (\<forall>r d. v \<noteq> RootMismatch r d) \<and> (delivered agent session ds = set leaves \<longrightarrow> v = RootMatch)"
proof -
  let ?P = "\<lambda>l. l \<in> delivered agent session ds"
  have carry: "getCarry agent session (stored ds) = filter ?P leaves" by (rule getCarry_honest [OF assms(3,7)])
  obtain part where part: "carryContentHashInputs dc (filter ?P leaves) = Some part"
    using inputs_of_part [OF assms(5)] by blast
  show ?thesis
  proof (cases "filter ?P leaves = []")
    case True
    then have "delivered agent session ds \<noteq> set leaves" using assms(2) by (auto simp: filter_empty_conv)
    then show ?thesis using True carry by (simp add: verifyCertifiedRoot_def)
  next
    case False
    obtain own where own: "rootOfInputs sha part = Inr own"
      using inputs_root [OF assms(1) part False] by blast
    have "filter ?P leaves = leaves \<Longrightarrow> own = certified" using part own assms(5,6) by simp
    then have "judgeOwnRoot (filter ?P leaves) (Some own) certified (int (length leaves)) \<noteq> RootMismatch r d \<and>
        (filter ?P leaves = leaves \<longrightarrow> judgeOwnRoot (filter ?P leaves) (Some own) certified (int (length leaves)) = RootMatch)" for r d
      using judge_honest [OF assms(3-6) refl, of ?P "Some own" r d] by blast
    then show ?thesis
      using False own by (auto simp: carry verifyCertifiedRoot_def part filter_id_conv)
  qed
qed

definition sampleCarry :: "int \<Rightarrow> string \<Rightarrow> bytes \<Rightarrow> SealCarryLeaf" where
  "sampleCarry n sender s1 = \<lparr>sequenceNumber = n, leafKind = LEAF_KIND_CTRL, senderPubkeyHex = sender, structure2Cbor = [],
     structure1Cbor = s1, relayId = None, relayTimestamp = None, relaySignatureHex = None, relayRunningRootHex = None\<rparr>"

theorem honest_certificate_not_accused_witness:
  "verifyCertifiedRoot sampleSha sampleReader (getCarry ''me'' ''s'' (stored
     [(''me'', ''s'', sampleCarry 2 ''b'' [2, 1], 0), (''me'', ''s'', sampleCarry 1 ''a'' [1, 0], 5),
      (''me'', ''s'', sampleCarry 2 ''b'' [2, 1], 9)])) (replicate 32 65) 2 = Inr RootMatch"
proof -
  let ?leaves = "[sampleCarry 1 ''a'' [1, 0], sampleCarry 2 ''b'' [2, 1]]"
  let ?ds = "[(''me'', ''s'', sampleCarry 2 ''b'' [2, 1], 0), (''me'', ''s'', sampleCarry 1 ''a'' [1, 0], 5),
      (''me'', ''s'', sampleCarry 2 ''b'' [2, 1], 9)]"
  have n: "numbered ?leaves" by (simp add: numbered_def sampleCarry_def)
  have "length (ctrlSenders (take k ?leaves)) \<noteq> 2" if "k < length ?leaves" for k
    using that by (cases k) (simp_all add: ctrlSenders_def sampleCarry_def add_all_def add_last_def)
  then have c: "closed_set ?leaves" unfolding closed_set_def by blast
  have i: "carryContentHashInputs sampleReader ?leaves = Some [LHash (replicate 32 1), LHash (replicate 32 2)]"
    by (simp add: sampleCarry_def sealSample_decoded sampleFields_def)
  have r: "rootOfInputs sampleSha [LHash (replicate 32 1), LHash (replicate 32 2)] = Inr (replicate 32 65)"
    by code_simp
  have d: "delivered ''me'' ''s'' ?ds = set ?leaves" by (auto simp: delivered_def)
  show ?thesis
    using honest_certificate_not_accused [OF sha_sample_width _ n c i r, of "''me''" "''s''" ?ds] d by auto
qed

end
