(* ===== verification/Seal_Frontier.thy ===== *)
theory Seal_Frontier
  imports Complex_Main Structure_Frames
begin

text \<open>
  How far each party had read: \<open>seal-frontier-verify.ts\<close> derives it again from the signed leaves and
  corrects a receipt; \<open>frontier-mismatch.ts\<close> remembers disagreements. A number of the wire is a
  rational; \<open>reading\<close> reads the non-integers, \<open>None\<close> for infinities and NaN.
\<close>

section \<open>Deriving the frontiers\<close>

record SealFrontierLeaf =
  fl_structure1_cbor :: bytes
  fl_sender_pubkey :: bytes
  fl_sender_signature :: bytes

datatype ReDeriveReason = LEAF_SIGNATURE_INVALID | LEAF_MALFORMED | LEAF_SESSION_MISMATCH

type_synonym frontiers = "(string \<times> rat) list"

fun finiteNumber :: "(string \<Rightarrow> rat option) \<Rightarrow> jsval \<Rightarrow> rat option" where
  "finiteNumber reading (JInt i) = Some (of_int i)"
| "finiteNumber reading (JFraction s) = reading s"
| "finiteNumber reading _ = None"

definition frontierAt :: "frontiers \<Rightarrow> string \<Rightarrow> rat" where
  "frontierAt m k = (case map_of m k of None \<Rightarrow> 0 | Some d \<Rightarrow> d)"

text \<open>The body of the loop.\<close>

definition frontierStep ::
  "(string \<Rightarrow> rat option) \<Rightarrow> (bytes \<Rightarrow> bytes \<Rightarrow> bytes \<Rightarrow> bool) \<Rightarrow> cbor_reader \<Rightarrow> bytes \<Rightarrow> frontiers \<Rightarrow> SealFrontierLeaf \<Rightarrow>
   ReDeriveReason + frontiers" where
  "frontierStep reading vf dc expectedSessionId m leaf =
     (if \<not> vf (fl_sender_pubkey leaf) (fl_structure1_cbor leaf) (fl_sender_signature leaf) then Inl LEAF_SIGNATURE_INVALID
      else (case decodeStructure1 dc (fl_structure1_cbor leaf) of
        Inl _ \<Rightarrow> Inl LEAF_MALFORMED
      | Inr f \<Rightarrow>
          if s1_sessionId f \<noteq> expectedSessionId then Inl LEAF_SESSION_MISMATCH
          else (case finiteNumber reading (s1_lastSeenSeq f) of
            None \<Rightarrow> Inr m
          | Some lss \<Rightarrow>
              let senderHex = toLower (bytesToHex (fl_sender_pubkey leaf)) in
              if lss > frontierAt m senderHex then Inr (AList.update senderHex lss m) else Inr m)))"

definition reDeriveFrontiers ::
  "(string \<Rightarrow> rat option) \<Rightarrow> (bytes \<Rightarrow> bytes \<Rightarrow> bytes \<Rightarrow> bool) \<Rightarrow> cbor_reader \<Rightarrow> SealFrontierLeaf list \<Rightarrow> bytes \<Rightarrow>
   ReDeriveReason + frontiers" where
  "reDeriveFrontiers reading vf dc leaves expectedSessionId = rfold (frontierStep reading vf dc expectedSessionId) [] leaves"

section \<open>Checking a receipt\<close>

definition findInflatedFrontier :: "(string \<times> rat) list \<Rightarrow> frontiers \<Rightarrow> (string \<times> rat \<times> rat) option" where
  "findInflatedFrontier participants derived =
     (case filter (\<lambda>(pubkey, seq). seq > frontierAt derived (toLower pubkey)) participants of
        [] \<Rightarrow> None
      | (pubkey, seq) # _ \<Rightarrow> Some (pubkey, seq, frontierAt derived (toLower pubkey)))"

record UnilateralFrontierParticipant =
  uf_pubkey :: string
  uf_content_frontier_seq :: rat
  uf_attestation_mode :: string

datatype FrontierStatus = FrontierVerified | FrontierCorrected | DirectoryAttested | LeavesInvalid ReDeriveReason

definition LIVE :: string where "LIVE = ''live''"

definition correctParticipant :: "frontiers \<Rightarrow> frontiers \<Rightarrow> UnilateralFrontierParticipant \<Rightarrow> frontiers" where
  "correctParticipant derived corrections p =
     (if uf_attestation_mode p \<noteq> LIVE then corrections
      else let d = frontierAt derived (toLower (uf_pubkey p)) in
        if uf_content_frontier_seq p > d then AList.update (toLower (uf_pubkey p)) d corrections else corrections)"

definition checkUnilateralFrontier ::
  "(string \<Rightarrow> rat option) \<Rightarrow> (bytes \<Rightarrow> bytes \<Rightarrow> bytes \<Rightarrow> bool) \<Rightarrow> cbor_reader \<Rightarrow> UnilateralFrontierParticipant list \<Rightarrow>
   SealFrontierLeaf list option \<Rightarrow> bytes \<Rightarrow> FrontierStatus \<times> frontiers" where
  "checkUnilateralFrontier reading vf dc participants frontierLeaves sessionId =
     (case frontierLeaves of
        None \<Rightarrow> (DirectoryAttested, [])
      | Some leaves \<Rightarrow>
          if leaves = [] then (DirectoryAttested, [])
          else (case reDeriveFrontiers reading vf dc leaves sessionId of
            Inl reason \<Rightarrow> (LeavesInvalid reason, foldl (correctParticipant []) [] participants)
          | Inr derived \<Rightarrow>
              let corrections = foldl (correctParticipant derived) [] participants
              in (if corrections \<noteq> [] then FrontierCorrected else FrontierVerified, corrections)))"

section \<open>Remembered disagreements\<close>

record FrontierMismatch =
  fm_ours :: int
  fm_theirs :: int
  fm_divergingLeafIndex :: int
  fm_observedAtMs :: int

definition MAX_TRACKED_SESSIONS :: nat where "MAX_TRACKED_SESSIONS = 256"

type_synonym mismatches = "(string \<times> FrontierMismatch) list"

definition mismatchKey :: "string \<Rightarrow> string \<Rightarrow> string" where
  "mismatchKey agentName sessionId = agentName @ [CHR 0x00] @ sessionId"

text \<open>\<open>delete\<close> then \<open>set\<close> puts the key at the young end; the loop drops the oldest ones.\<close>

definition recordMismatch :: "string \<Rightarrow> string \<Rightarrow> FrontierMismatch \<Rightarrow> mismatches \<Rightarrow> mismatches" where
  "recordMismatch agentName sessionId m byKey =
     (let key = mismatchKey agentName sessionId; young = AList.delete key byKey @ [(key, m)]
      in drop (length young - MAX_TRACKED_SESSIONS) young)"

definition getMismatch :: "string \<Rightarrow> string \<Rightarrow> mismatches \<Rightarrow> FrontierMismatch option" where
  "getMismatch agentName sessionId byKey = map_of byKey (mismatchKey agentName sessionId)"

definition clearMismatch :: "string \<Rightarrow> string \<Rightarrow> mismatches \<Rightarrow> mismatches" where
  "clearMismatch agentName sessionId byKey = AList.delete (mismatchKey agentName sessionId) byKey"

section \<open>What a derived frontier is\<close>

text \<open>The last-seen numbers a party signed in these leaves.\<close>

definition signedSeen :: "(string \<Rightarrow> rat option) \<Rightarrow> cbor_reader \<Rightarrow> SealFrontierLeaf list \<Rightarrow> string \<Rightarrow> rat set" where
  "signedSeen reading dc leaves k =
     {lss. \<exists>leaf \<in> set leaves. \<exists>f. toLower (bytesToHex (fl_sender_pubkey leaf)) = k \<and>
        decodeStructure1 dc (fl_structure1_cbor leaf) = Inr f \<and> finiteNumber reading (s1_lastSeenSeq f) = Some lss}"

definition leafValid :: "(bytes \<Rightarrow> bytes \<Rightarrow> bytes \<Rightarrow> bool) \<Rightarrow> cbor_reader \<Rightarrow> bytes \<Rightarrow> SealFrontierLeaf \<Rightarrow> bool" where
  "leafValid vf dc sid leaf \<longleftrightarrow> vf (fl_sender_pubkey leaf) (fl_structure1_cbor leaf) (fl_sender_signature leaf) \<and>
     (\<exists>f. decodeStructure1 dc (fl_structure1_cbor leaf) = Inr f \<and> s1_sessionId f = sid)"

lemma signedSeen_Cons:
  assumes "decodeStructure1 dc (fl_structure1_cbor leaf) = Inr f"
  shows "signedSeen reading dc (leaf # leaves) k =
    (case finiteNumber reading (s1_lastSeenSeq f) of
       Some lss \<Rightarrow> if toLower (bytesToHex (fl_sender_pubkey leaf)) = k then insert lss (signedSeen reading dc leaves k)
         else signedSeen reading dc leaves k
     | None \<Rightarrow> signedSeen reading dc leaves k)"
  using assms by (auto simp: signedSeen_def split: option.splits)

lemma finite_signedSeen: "finite (signedSeen reading dc leaves k)"
proof -
  have "signedSeen reading dc leaves k \<subseteq> (\<lambda>leaf. the (finiteNumber reading
      (s1_lastSeenSeq (projr (decodeStructure1 dc (fl_structure1_cbor leaf)))))) ` set leaves"
    by (force simp: signedSeen_def)
  then show ?thesis by (rule finite_subset) simp
qed

lemma frontierStep_Inr:
  "frontierStep reading vf dc sid m leaf = Inr m' \<Longrightarrow> leafValid vf dc sid leaf \<and>
     (\<forall>k. frontierAt m' k = Max (insert (frontierAt m k) (signedSeen reading dc [leaf] k)))"
  by (auto simp: frontierStep_def leafValid_def Let_def signedSeen_Cons signedSeen_def [of _ _ "[]"] frontierAt_def
      update_conv' max_def split: if_splits sum.splits option.splits)

lemma Max_insert_Max:
  fixes x :: "'a :: linorder"
  assumes "finite A" and "finite B"
  shows "Max (insert (Max (insert x A)) B) = Max (insert x (A \<union> B))"
  using assms by (cases "B = {}") (simp_all flip: Un_insert_left add: Max_Un)

lemma derive_all:
  "rfold (frontierStep reading vf dc sid) m leaves = Inr m' \<Longrightarrow> (\<forall>leaf \<in> set leaves. leafValid vf dc sid leaf) \<and>
     (\<forall>k. frontierAt m' k = Max (insert (frontierAt m k) (signedSeen reading dc leaves k)))"
proof (induction leaves arbitrary: m)
  case Nil
  then show ?case by (simp add: signedSeen_def)
next
  case (Cons leaf leaves)
  then obtain n where n: "frontierStep reading vf dc sid m leaf = Inr n" "rfold (frontierStep reading vf dc sid) n leaves = Inr m'"
    by (auto simp: rbind_Inr_conv)
  have u: "signedSeen reading dc (leaf # leaves) k = signedSeen reading dc [leaf] k \<union> signedSeen reading dc leaves k" for k
    by (auto simp: signedSeen_def)
  show ?case
    using frontierStep_Inr [OF n(1)] Cons.IH [OF n(2)]
    by (simp add: u finite_signedSeen Max_insert_Max)
qed

text \<open>The frontier the leaves support: the largest last-seen number signed, zero without one.\<close>

definition supported :: "(string \<Rightarrow> rat option) \<Rightarrow> (bytes \<Rightarrow> bytes \<Rightarrow> bytes \<Rightarrow> bool) \<Rightarrow> cbor_reader \<Rightarrow> bytes \<Rightarrow>
   SealFrontierLeaf list \<Rightarrow> string \<Rightarrow> rat" where
  "supported reading vf dc sid leaves k =
     (if \<forall>leaf \<in> set leaves. leafValid vf dc sid leaf then Max (insert 0 (signedSeen reading dc leaves k)) else 0)"

lemma frontierStep_Inl: "frontierStep reading vf dc sid m leaf = Inl r \<Longrightarrow> \<not> leafValid vf dc sid leaf"
  by (auto simp: frontierStep_def leafValid_def Let_def split: if_splits sum.splits option.splits)

lemma reDerive_supported:
  "case reDeriveFrontiers reading vf dc leaves sid of
     Inr derived \<Rightarrow> frontierAt derived k = supported reading vf dc sid leaves k
   | Inl r \<Rightarrow> supported reading vf dc sid leaves k = 0"
proof (cases "reDeriveFrontiers reading vf dc leaves sid")
  case (Inl r)
  then obtain leaf where "leaf \<in> set leaves" "\<not> leafValid vf dc sid leaf"
    unfolding reDeriveFrontiers_def using rfold_Inl frontierStep_Inl by metis
  then show ?thesis using Inl by (auto simp: supported_def)
next
  case (Inr derived)
  then show ?thesis using derive_all [of reading vf dc sid "[]" leaves derived]
    by (simp add: reDeriveFrontiers_def supported_def frontierAt_def)
qed

text \<open>A correction is keyed by the lower-cased key alone: any live entry of the key that exceeds what is
  supported sets it.\<close>

definition overstated :: "frontiers \<Rightarrow> UnilateralFrontierParticipant list \<Rightarrow> string \<Rightarrow> bool" where
  "overstated derived ps k \<longleftrightarrow>
     (\<exists>q \<in> set ps. toLower (uf_pubkey q) = k \<and> uf_attestation_mode q = LIVE \<and> frontierAt derived k < uf_content_frontier_seq q)"

lemma corrections_of:
  "map_of (foldl (correctParticipant derived) c ps) k = (if overstated derived ps k then Some (frontierAt derived k) else map_of c k)"
proof (induction ps arbitrary: c)
  case (Cons q ps)
  then show ?case by (auto simp: overstated_def correctParticipant_def Let_def update_conv')
qed (simp add: overstated_def)

section \<open>Applying the corrections\<close>

text \<open>The loop of \<open>seal-coordinator.ts\<close> over the participants of the receipt: an entry takes the correction of its
  lower-cased key, whatever its attestation mode.\<close>

definition keptFrontier :: "frontiers \<Rightarrow> UnilateralFrontierParticipant \<Rightarrow> rat" where
  "keptFrontier corrections p =
     (case map_of corrections (toLower (uf_pubkey p)) of None \<Rightarrow> uf_content_frontier_seq p | Some d \<Rightarrow> d)"

section \<open>Properties\<close>

text \<open>C30: No receipt claims more reading for a live participant than was signed. With frontier leaves at hand and
  the published frontiers finite numbers, let the supported frontier of a party be the largest last-seen
  number among its signed leaves of the session, and zero when a leaf is forged, malformed or of another
  session. An entry of the receipt ends with the supported frontier of its key if some live entry of that
  key, compared without case, published more, and with what the directory published otherwise; so a live
  entry ends with at most the supported frontier. When no two entries have the same key, a live entry ends
  with the smaller of the two and every other entry keeps what the directory published. (The directory's
  list is not checked for repeated keys: then the correction of a live entry also replaces what an absent
  entry of the key published, and raises a smaller live one.)\<close>

theorem receipt_frontier_is_supported:
  assumes "p \<in> set participants" and "leaves \<noteq> []"
    and "checkUnilateralFrontier reading vf dc participants (Some leaves) sid = (status, corrections)"
  shows "let k = toLower (uf_pubkey p); s = supported reading vf dc sid leaves k in
    keptFrontier corrections p =
      (if \<exists>q \<in> set participants. toLower (uf_pubkey q) = k \<and> uf_attestation_mode q = LIVE \<and> s < uf_content_frontier_seq q
       then s else uf_content_frontier_seq p) \<and>
    (uf_attestation_mode p = LIVE \<longrightarrow> keptFrontier corrections p \<le> s) \<and>
    (distinct (map (toLower \<circ> uf_pubkey) participants) \<longrightarrow>
      keptFrontier corrections p = (if uf_attestation_mode p = LIVE then min (uf_content_frontier_seq p) s else uf_content_frontier_seq p))"
proof -
  let ?k = "toLower (uf_pubkey p)" and ?s = "supported reading vf dc sid leaves (toLower (uf_pubkey p))"
  let ?over = "\<exists>q \<in> set participants. toLower (uf_pubkey q) = ?k \<and> uf_attestation_mode q = LIVE \<and> ?s < uf_content_frontier_seq q"
  obtain derived where d: "corrections = foldl (correctParticipant derived) [] participants" "frontierAt derived ?k = ?s"
    using assms(2,3) reDerive_supported [where k = ?k and leaves = leaves and reading = reading and vf = vf and dc = dc and sid = sid]
    by (cases "reDeriveFrontiers reading vf dc leaves sid")
       (auto simp: checkUnilateralFrontier_def Let_def frontierAt_def)
  have kept: "keptFrontier corrections p = (if ?over then ?s else uf_content_frontier_seq p)"
  proof (cases ?over)
    case True
    then have "overstated derived participants ?k" unfolding overstated_def d(2) by blast
    then show ?thesis using True by (simp add: keptFrontier_def d corrections_of)
  next
    case False
    then have "\<not> overstated derived participants ?k" unfolding overstated_def d(2) by blast
    then show ?thesis unfolding if_not_P [OF False] by (simp add: keptFrontier_def d corrections_of)
  qed
  have live: "uf_attestation_mode p = LIVE \<longrightarrow> keptFrontier corrections p \<le> ?s"
    using assms(1) unfolding kept by (auto simp: not_less)
  have "keptFrontier corrections p = (if uf_attestation_mode p = LIVE then min (uf_content_frontier_seq p) ?s else uf_content_frontier_seq p)"
    if dist: "distinct (map (toLower \<circ> uf_pubkey) participants)"
  proof -
    have inj: "inj_on (toLower \<circ> uf_pubkey) (set participants)" using dist by (simp add: distinct_map)
    have same: "q = p" if "q \<in> set participants" "toLower (uf_pubkey q) = ?k" for q
      using inj_onD [OF inj, of q p] that assms(1) by simp
    have "?over \<longleftrightarrow> uf_attestation_mode p = LIVE \<and> ?s < uf_content_frontier_seq p"
      using same assms(1) by blast
    then show ?thesis unfolding kept by (auto simp: min_def)
  qed
  with kept live show ?thesis unfolding Let_def by blast
qed

theorem receipt_frontier_is_supported_witness:
  "let p = \<lparr>uf_pubkey = ''07'', uf_content_frontier_seq = 9, uf_attestation_mode = ''live''\<rparr>;
       leaf = \<lparr>fl_structure1_cbor = [], fl_sender_pubkey = [7], fl_sender_signature = []\<rparr>
   in keptFrontier (snd (checkUnilateralFrontier (\<lambda>_. None) (\<lambda>pk b s. False) (\<lambda>b. None) [p] (Some [leaf]) [])) p = 0"
proof -
  let ?p = "\<lparr>uf_pubkey = ''07'', uf_content_frontier_seq = 9, uf_attestation_mode = ''live''\<rparr>"
  let ?leaf = "\<lparr>fl_structure1_cbor = [], fl_sender_pubkey = [7], fl_sender_signature = []\<rparr>"
  show ?thesis
    using receipt_frontier_is_supported [of ?p "[?p]" "[?leaf]" "\<lambda>_. None" "\<lambda>pk b s. False" "\<lambda>b. None" "[]", OF _ _ prod.collapse [symmetric]]
    by (simp add: LIVE_def supported_def leafValid_def Let_def)
qed

text \<open>The store of disagreements holds at most 256 of them, and always the newest.\<close>

lemma mismatch_store:
  assumes "length byKey \<le> MAX_TRACKED_SESSIONS"
  shows "length (recordMismatch a s m byKey) \<le> MAX_TRACKED_SESSIONS"
    and "getMismatch a s (recordMismatch a s m byKey) = Some m"
proof -
  have "length (AList.delete (mismatchKey a s) byKey) \<le> length byKey" by (simp add: AList.delete_eq)
  then have n: "length (AList.delete (mismatchKey a s) byKey @ [(mismatchKey a s, m)]) - MAX_TRACKED_SESSIONS
      \<le> length (AList.delete (mismatchKey a s) byKey)" using assms by (simp add: MAX_TRACKED_SESSIONS_def)
  show "length (recordMismatch a s m byKey) \<le> MAX_TRACKED_SESSIONS"
    by (simp add: recordMismatch_def Let_def)
  have "mismatchKey a s \<notin> fst ` set (drop k (AList.delete (mismatchKey a s) byKey))" for k
    by (auto simp: AList.delete_eq dest!: in_set_dropD)
  then have "map_of (drop k (AList.delete (mismatchKey a s) byKey)) (mismatchKey a s) = None" for k
    by (simp add: map_of_eq_None_iff)
  then show "getMismatch a s (recordMismatch a s m byKey) = Some m"
    using n by (simp add: getMismatch_def recordMismatch_def Let_def map_add_def)
qed

end
