(* ===== verification/Channel_Formats.thy ===== *)
theory Channel_Formats
  imports Structure_Frames
begin

text \<open>
  The signed objects of a channel: posting passes (\<open>channel-poster-pass.ts\<close>), posts
  (\<open>broadcast-artifact.ts\<close>) and the receipts of relays (\<open>relay-post-receipt.ts\<close>), each a CBOR
  array with its domain in slot 0. \<open>cb_enc\<close>, \<open>cb_dec\<close> and \<open>cb_verify\<close> are \<open>encodeCbor\<close>,
  \<open>decodeCbor\<close> and Ed25519 verification; \<open>cb_surrogate\<close> tests a title for an unpaired surrogate.
\<close>

record Primitives =
  cb_enc :: "jsval \<Rightarrow> bytes"
  cb_dec :: cbor_reader
  cb_verify :: "bytes \<Rightarrow> bytes \<Rightarrow> bytes \<Rightarrow> bool"
  cb_hash :: hash_fn
  cb_surrogate :: "string \<Rightarrow> bool"

section \<open>Field checks\<close>

definition MAX_SAFE_INTEGER :: int where "MAX_SAFE_INTEGER = 2 ^ 53 - 1"

fun safeInteger :: "jsval \<Rightarrow> int option" where
  "safeInteger (JInt i) = (if \<bar>i\<bar> \<le> MAX_SAFE_INTEGER then Some i else None)"
| "safeInteger _ = None"

fun isBytes :: "nat \<Rightarrow> jsval \<Rightarrow> bool" where
  "isBytes n (JBytes b) = (length b = n)"
| "isBytes n _ = False"

fun bytesIn :: "jsval \<Rightarrow> bytes" where
  "bytesIn (JBytes b) = b"
| "bytesIn _ = []"

definition safeAtLeast :: "int \<Rightarrow> jsval \<Rightarrow> bool" where
  "safeAtLeast n v = (case safeInteger v of None \<Rightarrow> False | Some i \<Rightarrow> n \<le> i)"

fun intIn :: "jsval \<Rightarrow> int" where
  "intIn (JInt i) = i"
| "intIn _ = 0"

definition PUBKEY_BYTES :: nat where "PUBKEY_BYTES = 32"
definition SIGNATURE_BYTES :: nat where "SIGNATURE_BYTES = 64"
definition HASH_BYTES :: nat where "HASH_BYTES = 32"

lemmas width_consts = PUBKEY_BYTES_def SIGNATURE_BYTES_def HASH_BYTES_def

lemma isBytes_iff: "isBytes n v \<longleftrightarrow> (\<exists>b. v = JBytes b \<and> length b = n)"
  by (cases v) auto

lemma safeAtLeast_iff: "safeAtLeast n v \<longleftrightarrow> (\<exists>i. v = JInt i \<and> \<bar>i\<bar> \<le> MAX_SAFE_INTEGER \<and> n \<le> i)"
  by (cases v) (auto simp: safeAtLeast_def)

section \<open>Posting passes\<close>

definition CHANNEL_POSTER_PASS_DOMAIN :: string where "CHANNEL_POSTER_PASS_DOMAIN = ''cello-channel-poster-pass-v1''"

record ChannelPosterPass =
  pp_channel_pubkey :: bytes
  pp_poster_pubkey :: bytes
  pp_issued_at :: int
  pp_expires_at :: int
  pp_signature :: bytes

datatype PassDecodeReason =
    PassNotCbor | PassWrongShape | PassWrongDomain | PassBadChannel | PassBadPoster | PassBadIssued | PassBadExpires
  | PassBadSignature

definition checkPassFields :: "jsval \<Rightarrow> jsval \<Rightarrow> jsval \<Rightarrow> jsval \<Rightarrow> PassDecodeReason option" where
  "checkPassFields channel poster issued expires =
     (if \<not> isBytes PUBKEY_BYTES channel then Some PassBadChannel
      else if \<not> isBytes PUBKEY_BYTES poster then Some PassBadPoster
      else if \<not> safeAtLeast 1 issued then Some PassBadIssued
      else if \<not> safeAtLeast (intIn issued + 1) expires then Some PassBadExpires
      else None)"

definition passTbsSlots :: "ChannelPosterPass \<Rightarrow> jsval list" where
  "passTbsSlots p =
     [JText CHANNEL_POSTER_PASS_DOMAIN, JBytes (pp_channel_pubkey p), JBytes (pp_poster_pubkey p), JInt (pp_issued_at p),
      JInt (pp_expires_at p)]"

definition buildChannelPosterPassTbs :: "Primitives \<Rightarrow> ChannelPosterPass \<Rightarrow> bytes" where
  "buildChannelPosterPassTbs X p = cb_enc X (JArray (passTbsSlots p))"

text \<open>A key provider is its public key and its signing function.\<close>

type_synonym key_provider = "bytes \<times> (bytes \<Rightarrow> bytes)"

definition signChannelPosterPass :: "Primitives \<Rightarrow> key_provider \<Rightarrow> bytes \<Rightarrow> int \<Rightarrow> int \<Rightarrow> ChannelPosterPass js" where
  "signChannelPosterPass X key poster issued expires =
     (let unsigned = \<lparr>pp_channel_pubkey = fst key, pp_poster_pubkey = poster, pp_issued_at = issued, pp_expires_at = expires,
                      pp_signature = []\<rparr> in
      if checkPassFields (JBytes (fst key)) (JBytes poster) (JInt issued) (JInt expires) \<noteq> None
      then Inl (RangeError ''poster pass'')
      else Inr (unsigned\<lparr>pp_signature := snd key (buildChannelPosterPassTbs X unsigned)\<rparr>))"

definition encodeChannelPosterPass :: "Primitives \<Rightarrow> ChannelPosterPass \<Rightarrow> bytes" where
  "encodeChannelPosterPass X p = cb_enc X (JArray (passTbsSlots p @ [JBytes (pp_signature p)]))"

text \<open>The decoders accept exactly the canonical bytes: the last step encodes again and compares.\<close>

definition decodeChannelPosterPass :: "Primitives \<Rightarrow> bytes \<Rightarrow> PassDecodeReason + ChannelPosterPass" where
  "decodeChannelPosterPass X bytes =
     (case cb_dec X bytes of
        None \<Rightarrow> Inl PassNotCbor
      | Some (JArray [domain, channel, poster, issued, expires, signature]) \<Rightarrow>
          if domain \<noteq> JText CHANNEL_POSTER_PASS_DOMAIN then Inl PassWrongDomain
          else (case checkPassFields channel poster issued expires of
            Some failure \<Rightarrow> Inl failure
          | None \<Rightarrow>
              if \<not> isBytes SIGNATURE_BYTES signature then Inl PassBadSignature
              else let pass = \<lparr>pp_channel_pubkey = bytesIn channel, pp_poster_pubkey = bytesIn poster,
                              pp_issued_at = intIn issued, pp_expires_at = intIn expires, pp_signature = bytesIn signature\<rparr>
                in if encodeChannelPosterPass X pass \<noteq> bytes then Inl PassWrongShape else Inr pass)
      | Some _ \<Rightarrow> Inl PassWrongShape)"

definition verifyPosterPass :: "Primitives \<Rightarrow> ChannelPosterPass \<Rightarrow> bytes \<Rightarrow> bool" where
  "verifyPosterPass X p channelPubkey \<longleftrightarrow>
     pp_channel_pubkey p = channelPubkey \<and> cb_verify X channelPubkey (buildChannelPosterPassTbs X p) (pp_signature p)"

section \<open>Posts\<close>

definition BROADCAST_ARTIFACT_DOMAIN :: string where "BROADCAST_ARTIFACT_DOMAIN = ''cello-broadcast-artifact-v1''"
definition MAX_BROADCAST_TITLE_CHARS :: nat where "MAX_BROADCAST_TITLE_CHARS = 200"
definition MAX_BROADCAST_BODY_BYTES :: nat where "MAX_BROADCAST_BODY_BYTES = 1048576"
definition EXT_POSTER_PASS :: int where "EXT_POSTER_PASS = 1"

record BroadcastArtifact =
  ba_channel_pubkey :: bytes
  ba_agent_pubkey :: bytes
  ba_seq :: int
  ba_published_at :: int
  ba_title :: string
  ba_body :: bytes
  ba_supersedes :: "int option"
  ba_ext :: "bytes option"
  ba_channel_signature :: bytes
  ba_agent_signature :: bytes

datatype BroadcastDecodeReason =
    PostNotCbor | PostWrongShape | PostWrongDomain | PostBadChannel | PostBadAgent | PostBadSeq | PostBadPublished
  | PostBadTitle | PostBodyTooLarge | PostBadSupersedes | PostBadExt | PostBadSignature

datatype BroadcastVerifyReason =
    ChannelSignatureInvalid | AgentSignatureInvalid | PassInvalid | PassNotForThisAgent | PassExpired

definition controlChar :: "char \<Rightarrow> bool" where
  "controlChar c \<longleftrightarrow> (let n = of_char c :: nat in n < 32 \<or> n = 127)"

definition validateBroadcastTitle :: "Primitives \<Rightarrow> jsval \<Rightarrow> bool" where
  "validateBroadcastTitle X title =
     (case title of
        JText s \<Rightarrow> s \<noteq> [] \<and> length s \<le> MAX_BROADCAST_TITLE_CHARS \<and> \<not> list_ex controlChar s \<and> \<not> cb_surrogate X s
      | _ \<Rightarrow> False)"

definition checkPostFields ::
  "Primitives \<Rightarrow> jsval \<Rightarrow> jsval \<Rightarrow> jsval \<Rightarrow> jsval \<Rightarrow> jsval \<Rightarrow> jsval \<Rightarrow> jsval \<Rightarrow> BroadcastDecodeReason option" where
  "checkPostFields X channel agent seq published title body supersedes =
     (if \<not> isBytes PUBKEY_BYTES channel then Some PostBadChannel
      else if \<not> isBytes PUBKEY_BYTES agent then Some PostBadAgent
      else if \<not> safeAtLeast 1 seq then Some PostBadSeq
      else if \<not> safeAtLeast 1 published then Some PostBadPublished
      else if \<not> validateBroadcastTitle X title then Some PostBadTitle
      else if \<not> (case body of JBytes b \<Rightarrow> length b \<le> MAX_BROADCAST_BODY_BYTES | _ \<Rightarrow> False) then Some PostBodyTooLarge
      else if supersedes \<noteq> JNull \<and> \<not> (safeAtLeast 1 supersedes \<and> intIn supersedes < intIn seq) then Some PostBadSupersedes
      else None)"

definition extToWire :: "bytes option \<Rightarrow> jsval" where
  "extToWire ext = (case ext of None \<Rightarrow> JNull | Some pass \<Rightarrow> JMap [(JInt EXT_POSTER_PASS, JBytes pass)])"

definition extFromWire :: "jsval \<Rightarrow> bytes option option" where
  "extFromWire v =
     (case v of
        JNull \<Rightarrow> Some None
      | JMap [(k, pass)] \<Rightarrow> if k = JInt EXT_POSTER_PASS then (case pass of JBytes b \<Rightarrow> Some (Some b) | _ \<Rightarrow> None) else None
      | _ \<Rightarrow> None)"

definition supersedesVal :: "int option \<Rightarrow> jsval" where
  "supersedesVal s = (case s of None \<Rightarrow> JNull | Some i \<Rightarrow> JInt i)"

definition postTbsSlots :: "BroadcastArtifact \<Rightarrow> jsval list" where
  "postTbsSlots a =
     [JText BROADCAST_ARTIFACT_DOMAIN, JBytes (ba_channel_pubkey a), JBytes (ba_agent_pubkey a), JInt (ba_seq a),
      JInt (ba_published_at a), JText (ba_title a), JBytes (ba_body a), supersedesVal (ba_supersedes a), extToWire (ba_ext a)]"

definition buildBroadcastArtifactTbs :: "Primitives \<Rightarrow> BroadcastArtifact \<Rightarrow> bytes" where
  "buildBroadcastArtifactTbs X a = cb_enc X (JArray (postTbsSlots a))"

definition checkPost :: "Primitives \<Rightarrow> BroadcastArtifact \<Rightarrow> BroadcastDecodeReason option" where
  "checkPost X a = checkPostFields X (JBytes (ba_channel_pubkey a)) (JBytes (ba_agent_pubkey a)) (JInt (ba_seq a))
     (JInt (ba_published_at a)) (JText (ba_title a)) (JBytes (ba_body a)) (supersedesVal (ba_supersedes a))"

text \<open>\<open>draft\<close> carries the fields to sign; its keys and signatures are replaced.\<close>

definition signBroadcastArtifact :: "Primitives \<Rightarrow> key_provider \<Rightarrow> key_provider \<Rightarrow> BroadcastArtifact \<Rightarrow> BroadcastArtifact js" where
  "signBroadcastArtifact X channelKey agentKey draft =
     (let unsigned = draft\<lparr>ba_channel_pubkey := fst channelKey, ba_agent_pubkey := fst agentKey\<rparr>;
          tbs = buildBroadcastArtifactTbs X unsigned in
      if checkPost X unsigned \<noteq> None then Inl (RangeError ''post'')
      else Inr (unsigned\<lparr>ba_channel_signature := snd channelKey tbs, ba_agent_signature := snd agentKey tbs\<rparr>))"

definition signPosterPost :: "Primitives \<Rightarrow> key_provider \<Rightarrow> BroadcastArtifact \<Rightarrow> bytes \<Rightarrow> BroadcastArtifact js" where
  "signPosterPost X agentKey draft passBytes =
     (let unsigned = draft\<lparr>ba_agent_pubkey := fst agentKey, ba_ext := Some passBytes\<rparr> in
      if checkPost X unsigned \<noteq> None then Inl (RangeError ''post'')
      else Inr (unsigned\<lparr>ba_channel_signature := [],
                         ba_agent_signature := snd agentKey (buildBroadcastArtifactTbs X unsigned)\<rparr>))"

definition encodeBroadcastArtifact :: "Primitives \<Rightarrow> BroadcastArtifact \<Rightarrow> bytes" where
  "encodeBroadcastArtifact X a =
     cb_enc X (JArray (postTbsSlots a @ [JBytes (ba_channel_signature a), JBytes (ba_agent_signature a)]))"

definition decodeBroadcastArtifact :: "Primitives \<Rightarrow> bytes \<Rightarrow> BroadcastDecodeReason + BroadcastArtifact" where
  "decodeBroadcastArtifact X bytes =
     (case cb_dec X bytes of
        None \<Rightarrow> Inl PostNotCbor
      | Some (JArray [domain, channel, agent, seq, published, title, body, supersedes, wireExt, channelSig, agentSig]) \<Rightarrow>
          if domain \<noteq> JText BROADCAST_ARTIFACT_DOMAIN then Inl PostWrongDomain
          else (case extFromWire wireExt of
            None \<Rightarrow> Inl PostBadExt
          | Some ext \<Rightarrow> (case checkPostFields X channel agent seq published title body supersedes of
              Some failure \<Rightarrow> Inl failure
            | None \<Rightarrow>
                if \<not> isBytes (if ext = None then SIGNATURE_BYTES else 0) channelSig \<or> \<not> isBytes SIGNATURE_BYTES agentSig
                then Inl PostBadSignature
                else let artifact = \<lparr>ba_channel_pubkey = bytesIn channel, ba_agent_pubkey = bytesIn agent, ba_seq = intIn seq,
                       ba_published_at = intIn published, ba_title = (case title of JText s \<Rightarrow> s | _ \<Rightarrow> []),
                       ba_body = bytesIn body, ba_supersedes = (if supersedes = JNull then None else Some (intIn supersedes)),
                       ba_ext = ext, ba_channel_signature = bytesIn channelSig, ba_agent_signature = bytesIn agentSig\<rparr>
                  in if encodeBroadcastArtifact X artifact \<noteq> bytes then Inl PostWrongShape else Inr artifact))
      | Some _ \<Rightarrow> Inl PostWrongShape)"

definition verifyBroadcastArtifact :: "Primitives \<Rightarrow> BroadcastArtifact \<Rightarrow> BroadcastVerifyReason option" where
  "verifyBroadcastArtifact X a =
     (let tbs = buildBroadcastArtifactTbs X a;
          agent = (if \<not> cb_verify X (ba_agent_pubkey a) tbs (ba_agent_signature a) then Some AgentSignatureInvalid else None)
      in case ba_ext a of
        None \<Rightarrow> if \<not> cb_verify X (ba_channel_pubkey a) tbs (ba_channel_signature a) then Some ChannelSignatureInvalid else agent
      | Some passBytes \<Rightarrow>
          (case decodeChannelPosterPass X passBytes of
             Inl _ \<Rightarrow> Some PassInvalid
           | Inr pass \<Rightarrow>
               if \<not> verifyPosterPass X pass (ba_channel_pubkey a) then Some PassInvalid
               else if pp_poster_pubkey pass \<noteq> ba_agent_pubkey a then Some PassNotForThisAgent
               else if ba_published_at a > pp_expires_at pass then Some PassExpired
               else agent))"

section \<open>Receipts\<close>

definition RELAY_POST_RECEIPT_DOMAIN :: string where "RELAY_POST_RECEIPT_DOMAIN = ''cello-relay-post-receipt-v1''"

record RelayPostReceipt =
  rr_relay_pubkey :: bytes
  rr_channel_pubkey :: bytes
  rr_seq :: int
  rr_post_hash :: bytes
  rr_received_at :: int
  rr_signature :: bytes

datatype ReceiptDecodeReason =
    ReceiptNotCbor | ReceiptWrongShape | ReceiptWrongDomain | ReceiptBadRelay | ReceiptBadChannel | ReceiptBadSeq
  | ReceiptBadHash | ReceiptBadReceived | ReceiptBadSignature

definition checkReceiptFields :: "jsval \<Rightarrow> jsval \<Rightarrow> jsval \<Rightarrow> jsval \<Rightarrow> jsval \<Rightarrow> ReceiptDecodeReason option" where
  "checkReceiptFields relay channel seq postHash received =
     (if \<not> isBytes PUBKEY_BYTES relay then Some ReceiptBadRelay
      else if \<not> isBytes PUBKEY_BYTES channel then Some ReceiptBadChannel
      else if \<not> safeAtLeast 1 seq then Some ReceiptBadSeq
      else if \<not> isBytes HASH_BYTES postHash then Some ReceiptBadHash
      else if \<not> safeAtLeast 1 received then Some ReceiptBadReceived
      else None)"

definition broadcastPostHash :: "Primitives \<Rightarrow> BroadcastArtifact \<Rightarrow> bytes" where
  "broadcastPostHash X post = hash (cb_hash X) (encodeBroadcastArtifact X post)"

definition receiptTbsSlots :: "RelayPostReceipt \<Rightarrow> jsval list" where
  "receiptTbsSlots r =
     [JText RELAY_POST_RECEIPT_DOMAIN, JBytes (rr_relay_pubkey r), JBytes (rr_channel_pubkey r), JInt (rr_seq r),
      JBytes (rr_post_hash r), JInt (rr_received_at r)]"

definition buildRelayPostReceiptTbs :: "Primitives \<Rightarrow> RelayPostReceipt \<Rightarrow> bytes" where
  "buildRelayPostReceiptTbs X r = cb_enc X (JArray (receiptTbsSlots r))"

definition signRelayPostReceipt :: "Primitives \<Rightarrow> key_provider \<Rightarrow> BroadcastArtifact \<Rightarrow> int \<Rightarrow> RelayPostReceipt js" where
  "signRelayPostReceipt X relayKey post receivedAtMs =
     (let unsigned = \<lparr>rr_relay_pubkey = fst relayKey, rr_channel_pubkey = ba_channel_pubkey post, rr_seq = ba_seq post,
                      rr_post_hash = broadcastPostHash X post, rr_received_at = receivedAtMs, rr_signature = []\<rparr> in
      if checkReceiptFields (JBytes (rr_relay_pubkey unsigned)) (JBytes (rr_channel_pubkey unsigned)) (JInt (rr_seq unsigned))
           (JBytes (rr_post_hash unsigned)) (JInt (rr_received_at unsigned)) \<noteq> None
      then Inl (RangeError ''receipt'')
      else Inr (unsigned\<lparr>rr_signature := snd relayKey (buildRelayPostReceiptTbs X unsigned)\<rparr>))"

definition encodeRelayPostReceipt :: "Primitives \<Rightarrow> RelayPostReceipt \<Rightarrow> bytes" where
  "encodeRelayPostReceipt X r = cb_enc X (JArray (receiptTbsSlots r @ [JBytes (rr_signature r)]))"

definition decodeRelayPostReceipt :: "Primitives \<Rightarrow> bytes \<Rightarrow> ReceiptDecodeReason + RelayPostReceipt" where
  "decodeRelayPostReceipt X bytes =
     (case cb_dec X bytes of
        None \<Rightarrow> Inl ReceiptNotCbor
      | Some (JArray [domain, relay, channel, seq, postHash, received, signature]) \<Rightarrow>
          if domain \<noteq> JText RELAY_POST_RECEIPT_DOMAIN then Inl ReceiptWrongDomain
          else (case checkReceiptFields relay channel seq postHash received of
            Some failure \<Rightarrow> Inl failure
          | None \<Rightarrow>
              if \<not> isBytes SIGNATURE_BYTES signature then Inl ReceiptBadSignature
              else let receipt = \<lparr>rr_relay_pubkey = bytesIn relay, rr_channel_pubkey = bytesIn channel, rr_seq = intIn seq,
                     rr_post_hash = bytesIn postHash, rr_received_at = intIn received, rr_signature = bytesIn signature\<rparr>
                in if encodeRelayPostReceipt X receipt \<noteq> bytes then Inl ReceiptWrongShape else Inr receipt)
      | Some _ \<Rightarrow> Inl ReceiptWrongShape)"

definition verifyRelayPostReceipt :: "Primitives \<Rightarrow> RelayPostReceipt \<Rightarrow> BroadcastArtifact \<Rightarrow> bool" where
  "verifyRelayPostReceipt X receipt post \<longleftrightarrow>
     rr_post_hash receipt = broadcastPostHash X post \<and> rr_seq receipt = ba_seq post \<and>
     rr_channel_pubkey receipt = ba_channel_pubkey post \<and>
     cb_verify X (rr_relay_pubkey receipt) (buildRelayPostReceiptTbs X receipt) (rr_signature receipt)"

end
