(* ===== verification/Channel_Log.thy ===== *)
theory Channel_Log
  imports Channel_Formats
begin

text \<open>
  The publisher's append-only log, \<open>ChannelLogStore\<close> of \<open>core/daemon/src/channel-log-store.ts\<close>: three
  tables, each a list of rows. A statement that throws rolls back, so an operation answers either an
  error, with the state as it was, or its result and the new state.
\<close>

section \<open>Tables and errors\<close>

record LogRow =
  lr_channel :: string
  lr_seq :: int
  lr_published_at :: int
  lr_title :: string
  lr_post_cbor :: bytes

record ReceiptRow =
  rc_channel :: string
  rc_seq :: int
  rc_relay :: string
  rc_received_at :: int
  rc_receipt_cbor :: bytes

record StateRow =
  sr_channel :: string
  next_seq :: int
  pruned_through :: int

record ChannelLog =
  channel_log :: "LogRow list"
  channel_log_receipts :: "ReceiptRow list"
  channel_state :: "StateRow list"

datatype ChannelLogErrorCode =
    ChannelUnknown | SeqNotNext | PositionTaken | PostInvalid | ReceiptInvalid | PostPruned | PruneRegression | LogRowCorrupt

type_synonym 'a log_result = "ChannelLogErrorCode + 'a"

record ChannelHead =
  first_seq :: "int option"
  last_seq :: "int option"
  head_pruned_through :: int

section \<open>Lanes\<close>

definition laneKeyOf :: "BroadcastArtifact \<Rightarrow> string" where
  "laneKeyOf post =
     (let channelHex = bytesToHex (ba_channel_pubkey post) in
      if ba_ext post = None then channelHex else channelHex @ ''/'' @ bytesToHex (ba_agent_pubkey post))"

definition channelOfKey :: "string \<Rightarrow> string" where
  "channelOfKey key = takeWhile (\<lambda>c. c \<noteq> CHR ''/'') key"

section \<open>Reading\<close>

definition stateOf :: "string \<Rightarrow> ChannelLog \<Rightarrow> StateRow log_result" where
  "stateOf key st =
     (case find (\<lambda>s. sr_channel s = key) (channel_state st) of None \<Rightarrow> Inl ChannelUnknown | Some s \<Rightarrow> Inr s)"

definition decodeRow :: "Primitives \<Rightarrow> bytes \<Rightarrow> BroadcastArtifact log_result" where
  "decodeRow X cbor =
     (case decodeBroadcastArtifact X cbor of
        Inl _ \<Rightarrow> Inl LogRowCorrupt
      | Inr a \<Rightarrow> if verifyBroadcastArtifact X a \<noteq> None then Inl LogRowCorrupt else Inr a)"

definition rowAt :: "string \<Rightarrow> int \<Rightarrow> ChannelLog \<Rightarrow> LogRow option" where
  "rowAt key seq st = find (\<lambda>r. lr_channel r = key \<and> lr_seq r = seq) (channel_log st)"

definition postAt :: "Primitives \<Rightarrow> string \<Rightarrow> int \<Rightarrow> ChannelLog \<Rightarrow> BroadcastArtifact option log_result" where
  "postAt X key seq st =
     (case rowAt key seq st of None \<Rightarrow> Inr None | Some r \<Rightarrow> rbind (decodeRow X (lr_post_cbor r)) (\<lambda>a. Inr (Some a)))"

definition readRange :: "Primitives \<Rightarrow> string \<Rightarrow> int \<Rightarrow> int \<Rightarrow> ChannelLog \<Rightarrow> BroadcastArtifact list log_result" where
  "readRange X key fromSeq toSeq st =
     rbind (stateOf key st) (\<lambda>_.
       rmap (decodeRow X \<circ> lr_post_cbor)
         (sort_key lr_seq (filter (\<lambda>r. lr_channel r = key \<and> fromSeq \<le> lr_seq r \<and> lr_seq r \<le> toSeq) (channel_log st))))"

definition receiptsFor :: "Primitives \<Rightarrow> string \<Rightarrow> int \<Rightarrow> ChannelLog \<Rightarrow> RelayPostReceipt list log_result" where
  "receiptsFor X key seq st =
     rbind (stateOf key st) (\<lambda>_.
       rmap (\<lambda>r. case decodeRelayPostReceipt X (rc_receipt_cbor r) of Inl _ \<Rightarrow> Inl LogRowCorrupt | Inr c \<Rightarrow> Inr c)
         (sort_key rc_relay (filter (\<lambda>r. rc_channel r = key \<and> rc_seq r = seq) (channel_log_receipts st))))"

definition head :: "string \<Rightarrow> ChannelLog \<Rightarrow> ChannelHead log_result" where
  "head key st =
     rbind (stateOf key st) (\<lambda>s.
       let seqs = map lr_seq (filter (\<lambda>r. lr_channel r = key) (channel_log st)) in
       Inr \<lparr>first_seq = (if seqs = [] then None else Some (Min (set seqs))),
            last_seq = (if seqs = [] then None else Some (Max (set seqs))), head_pruned_through = pruned_through s\<rparr>)"

definition nextPosition :: "string \<Rightarrow> ChannelLog \<Rightarrow> int log_result" where
  "nextPosition key st = rbind (stateOf key st) (\<lambda>s. Inr (next_seq s))"

section \<open>Writing\<close>

definition ensureChannel :: "string \<Rightarrow> ChannelLog \<Rightarrow> ChannelLog" where
  "ensureChannel key st =
     (if list_ex (\<lambda>s. sr_channel s = key) (channel_state st) then st
      else st\<lparr>channel_state := channel_state st @ [\<lparr>sr_channel = key, next_seq = 1, pruned_through = 0\<rparr>]\<rparr>)"

definition updateState :: "string \<Rightarrow> (StateRow \<Rightarrow> StateRow) \<Rightarrow> ChannelLog \<Rightarrow> ChannelLog" where
  "updateState key f st = st\<lparr>channel_state := map (\<lambda>s. if sr_channel s = key then f s else s) (channel_state st)\<rparr>"

text \<open>The checks \<open>append\<close> and \<open>replaceUnreceipted\<close> share: the bytes to store, or \<open>post_invalid\<close>.\<close>

definition checkedBytes :: "Primitives \<Rightarrow> string \<Rightarrow> BroadcastArtifact \<Rightarrow> bytes log_result" where
  "checkedBytes X key post =
     (let cbor = encodeBroadcastArtifact X post in
      case decodeBroadcastArtifact X cbor of
        Inl _ \<Rightarrow> Inl PostInvalid
      | Inr decoded \<Rightarrow>
          if verifyBroadcastArtifact X decoded \<noteq> None then Inl PostInvalid
          else if laneKeyOf post \<noteq> key then Inl PostInvalid
          else Inr cbor)"

definition append_post :: "Primitives \<Rightarrow> string \<Rightarrow> BroadcastArtifact \<Rightarrow> ChannelLog \<Rightarrow> (int \<times> ChannelLog) log_result" where
  "append_post X key post st =
     rbind (stateOf key st) (\<lambda>s.
       if ba_seq post \<noteq> next_seq s then Inl SeqNotNext
       else rbind (checkedBytes X key post) (\<lambda>cbor.
         if rowAt key (ba_seq post) st \<noteq> None then Inl PositionTaken
         else Inr (ba_seq post, updateState key (\<lambda>s'. s'\<lparr>next_seq := next_seq s + 1\<rparr>)
           (st\<lparr>channel_log := channel_log st @ [\<lparr>lr_channel = key, lr_seq = ba_seq post, lr_published_at = ba_published_at post,
              lr_title = ba_title post, lr_post_cbor = cbor\<rparr>]\<rparr>))))"

definition replaceUnreceipted :: "Primitives \<Rightarrow> string \<Rightarrow> BroadcastArtifact \<Rightarrow> ChannelLog \<Rightarrow> ChannelLog log_result" where
  "replaceUnreceipted X key post st =
     (if list_ex (\<lambda>r. rc_channel r = key \<and> rc_seq r = ba_seq post) (channel_log_receipts st) then Inl PositionTaken
      else rbind (checkedBytes X key post) (\<lambda>cbor.
        if rowAt key (ba_seq post) st = None then Inl SeqNotNext
        else Inr (st\<lparr>channel_log := map (\<lambda>r. if lr_channel r = key \<and> lr_seq r = ba_seq post
                 then r\<lparr>lr_published_at := ba_published_at post, lr_title := ba_title post, lr_post_cbor := cbor\<rparr> else r)
               (channel_log st)\<rparr>)))"

definition recordReceipt :: "Primitives \<Rightarrow> string \<Rightarrow> RelayPostReceipt \<Rightarrow> ChannelLog \<Rightarrow> ChannelLog log_result" where
  "recordReceipt X key receipt st =
     rbind (stateOf key st) (\<lambda>s.
       if bytesToHex (rr_channel_pubkey receipt) \<noteq> channelOfKey key then Inl ReceiptInvalid
       else rbind (postAt X key (rr_seq receipt) st) (\<lambda>found. case found of
         None \<Rightarrow> Inl (if rr_seq receipt \<le> pruned_through s then PostPruned else ReceiptInvalid)
       | Some post \<Rightarrow>
           if \<not> verifyRelayPostReceipt X receipt post then Inl ReceiptInvalid
           else let relay = bytesToHex (rr_relay_pubkey receipt) in
             if list_ex (\<lambda>r. rc_channel r = key \<and> rc_seq r = rr_seq receipt \<and> rc_relay r = relay) (channel_log_receipts st)
             then rbind (receiptsFor X key (rr_seq receipt) st) (\<lambda>_. Inr st)
             else Inr (st\<lparr>channel_log_receipts := channel_log_receipts st @
                    [\<lparr>rc_channel = key, rc_seq = rr_seq receipt, rc_relay = relay, rc_received_at = rr_received_at receipt,
                      rc_receipt_cbor = encodeRelayPostReceipt X receipt\<rparr>]\<rparr>)))"

definition pruneThrough :: "string \<Rightarrow> int \<Rightarrow> ChannelLog \<Rightarrow> (nat \<times> ChannelLog) log_result" where
  "pruneThrough key throughSeq st =
     rbind (stateOf key st) (\<lambda>s.
       if \<bar>throughSeq\<bar> > MAX_SAFE_INTEGER \<or> throughSeq < 0 then Inl PruneRegression
       else if throughSeq < pruned_through s then Inl PruneRegression
       else Inr (length (filter (\<lambda>r. lr_channel r = key \<and> lr_seq r \<le> throughSeq) (channel_log st)),
         updateState key (\<lambda>s'. s'\<lparr>pruned_through := throughSeq\<rparr>)
           (st\<lparr>channel_log := filter (\<lambda>r. \<not> (lr_channel r = key \<and> lr_seq r \<le> throughSeq)) (channel_log st),
               channel_log_receipts := filter (\<lambda>r. \<not> (rc_channel r = key \<and> rc_seq r \<le> throughSeq)) (channel_log_receipts st)\<rparr>)))"

section \<open>Runs\<close>

datatype log_event =
    Ensure string | Append string BroadcastArtifact | Replace string BroadcastArtifact | Receive string RelayPostReceipt
  | Prune string int

text \<open>A thrown error leaves the state.\<close>

definition kept :: "ChannelLog \<Rightarrow> ChannelLog log_result \<Rightarrow> ChannelLog" where
  "kept st r = (case r of Inl _ \<Rightarrow> st | Inr st' \<Rightarrow> st')"

fun log_step :: "Primitives \<Rightarrow> ChannelLog \<Rightarrow> log_event \<Rightarrow> ChannelLog" where
  "log_step X st (Ensure key) = ensureChannel key st"
| "log_step X st (Append key post) = kept st (map_sum id snd (append_post X key post st))"
| "log_step X st (Replace key post) = kept st (replaceUnreceipted X key post st)"
| "log_step X st (Receive key receipt) = kept st (recordReceipt X key receipt st)"
| "log_step X st (Prune key n) = kept st (map_sum id snd (pruneThrough key n st))"

definition emptyLog :: ChannelLog where
  "emptyLog = \<lparr>channel_log = [], channel_log_receipts = [], channel_state = []\<rparr>"

end
