(* ===== verification/Channel_Format_Claims.thy ===== *)
theory Channel_Format_Claims
  imports Channel_Formats
begin

text \<open>
  The signed objects of a channel: what is signed is read back and accepted by every reader, a
  decoder accepts one byte string per object, and a signature binds its fields and its kind.
\<close>

definition works :: "Primitives \<Rightarrow> key_provider \<Rightarrow> bool" where
  "works X key \<longleftrightarrow> length (fst key) = 32 \<and> (\<forall>m. length (snd key m) = 64 \<and> cb_verify X (fst key) m (snd key m))"

definition readsBack :: "Primitives \<Rightarrow> jsval list \<Rightarrow> bool" where
  "readsBack X slots \<longleftrightarrow> cb_dec X (cb_enc X (JArray slots)) = Some (JArray slots)"

section \<open>Decoders are canonical\<close>

lemma decoded_pass: "decodeChannelPosterPass X bytes = Inr p \<Longrightarrow> encodeChannelPosterPass X p = bytes"
  by (auto simp: decodeChannelPosterPass_def Let_def split: option.splits jsval.splits list.splits if_splits)

lemma decoded_post: "decodeBroadcastArtifact X bytes = Inr a \<Longrightarrow> encodeBroadcastArtifact X a = bytes"
  unfolding decodeBroadcastArtifact_def Let_def
  by (simp split: option.splits jsval.splits list.splits if_split_asm)

lemma decoded_receipt: "decodeRelayPostReceipt X bytes = Inr r \<Longrightarrow> encodeRelayPostReceipt X r = bytes"
  by (auto simp: decodeRelayPostReceipt_def Let_def split: option.splits jsval.splits list.splits if_splits)

section \<open>Round trips\<close>

lemma extFromWire_extToWire [simp]: "extFromWire (extToWire e) = Some e"
  by (cases e) (simp_all add: extToWire_def extFromWire_def)

lemma pass_round_trip:
  assumes "readsBack X (passTbsSlots p @ [JBytes (pp_signature p)])" and "length (pp_signature p) = 64"
    and "checkPassFields (JBytes (pp_channel_pubkey p)) (JBytes (pp_poster_pubkey p)) (JInt (pp_issued_at p)) (JInt (pp_expires_at p)) = None"
  shows "decodeChannelPosterPass X (encodeChannelPosterPass X p) = Inr p"
  using assms by (simp add: decodeChannelPosterPass_def encodeChannelPosterPass_def readsBack_def passTbsSlots_def
      SIGNATURE_BYTES_def)

lemma post_round_trip:
  assumes "readsBack X (postTbsSlots a @ [JBytes (ba_channel_signature a), JBytes (ba_agent_signature a)])"
    and "checkPost X a = None" and "length (ba_agent_signature a) = 64"
    and "length (ba_channel_signature a) = (if ba_ext a = None then 64 else 0)"
  shows "decodeBroadcastArtifact X (encodeBroadcastArtifact X a) = Inr a"
proof -
  have "ba_supersedes a = (if supersedesVal (ba_supersedes a) = JNull then None else Some (intIn (supersedesVal (ba_supersedes a))))"
    by (cases "ba_supersedes a") (simp_all add: supersedesVal_def)
  then show ?thesis
    using assms by (simp add: decodeBroadcastArtifact_def encodeBroadcastArtifact_def readsBack_def postTbsSlots_def
        checkPost_def SIGNATURE_BYTES_def)
qed

lemma receipt_round_trip:
  assumes "readsBack X (receiptTbsSlots r @ [JBytes (rr_signature r)])" and "length (rr_signature r) = 64"
    and "checkReceiptFields (JBytes (rr_relay_pubkey r)) (JBytes (rr_channel_pubkey r)) (JInt (rr_seq r))
           (JBytes (rr_post_hash r)) (JInt (rr_received_at r)) = None"
  shows "decodeRelayPostReceipt X (encodeRelayPostReceipt X r) = Inr r"
  using assms by (simp add: decodeRelayPostReceipt_def encodeRelayPostReceipt_def readsBack_def receiptTbsSlots_def
      SIGNATURE_BYTES_def)

lemma tbs_without_signatures:
  "buildBroadcastArtifactTbs X (a\<lparr>ba_channel_signature := s, ba_agent_signature := t\<rparr>) = buildBroadcastArtifactTbs X a"
  "checkPost X (a\<lparr>ba_channel_signature := s, ba_agent_signature := t\<rparr>) = checkPost X a"
  "buildChannelPosterPassTbs X (p\<lparr>pp_signature := s\<rparr>) = buildChannelPosterPassTbs X p"
  "buildRelayPostReceiptTbs X (r\<lparr>rr_signature := s\<rparr>) = buildRelayPostReceiptTbs X r"
  by (simp_all add: buildBroadcastArtifactTbs_def postTbsSlots_def checkPost_def buildChannelPosterPassTbs_def
      passTbsSlots_def buildRelayPostReceiptTbs_def receiptTbsSlots_def)

section \<open>Properties\<close>

text \<open>C38: A channel's own post reaches its readers: what an admin signs with the two keys decodes to the
  same post from its bytes and verifies, and so does what a member signs under a pass of the channel
  that has not expired at the time of the post; a relay's receipt for it decodes and verifies too.
  CBOR is assumed to read back the three arrays.\<close>

theorem signed_posts_are_accepted:
  assumes keys: "works X channel" "works X agent" "works X relay"
    and pass: "signChannelPosterPass X channel (fst agent) issued expires = Inr p"
      "readsBack X (passTbsSlots p @ [JBytes (pp_signature p)])"
    and post: "ba_ext draft = None \<and> signBroadcastArtifact X channel agent draft = Inr a \<or>
      ba_channel_pubkey draft = fst channel \<and> ba_published_at draft \<le> expires \<and>
      signPosterPost X agent draft (encodeChannelPosterPass X p) = Inr a"
      "readsBack X (postTbsSlots a @ [JBytes (ba_channel_signature a), JBytes (ba_agent_signature a)])"
    and receipt: "signRelayPostReceipt X relay a now = Inr r" "readsBack X (receiptTbsSlots r @ [JBytes (rr_signature r)])"
  shows "decodeBroadcastArtifact X (encodeBroadcastArtifact X a) = Inr a \<and> verifyBroadcastArtifact X a = None \<and>
    decodeRelayPostReceipt X (encodeRelayPostReceipt X r) = Inr r \<and> verifyRelayPostReceipt X r a"
proof -
  have p: "pp_channel_pubkey p = fst channel" "pp_poster_pubkey p = fst agent" "pp_expires_at p = expires"
      "pp_issued_at p = issued" "length (pp_signature p) = 64" "verifyPosterPass X p (fst channel)"
      "checkPassFields (JBytes (pp_channel_pubkey p)) (JBytes (pp_poster_pubkey p)) (JInt (pp_issued_at p)) (JInt (pp_expires_at p)) = None"
    using pass(1) keys(1) by (auto simp: signChannelPosterPass_def Let_def works_def verifyPosterPass_def
        buildChannelPosterPassTbs_def passTbsSlots_def split: if_splits)
  note pd = pass_round_trip [OF pass(2) p(5,7)]
  have a: "checkPost X a = None" "length (ba_agent_signature a) = 64"
      "length (ba_channel_signature a) = (if ba_ext a = None then 64 else 0)"
    using post(1) keys by (auto simp: signBroadcastArtifact_def signPosterPost_def Let_def works_def
        tbs_without_signatures split: if_splits)
  have v: "verifyBroadcastArtifact X a = None"
    using post(1)
  proof
    assume "ba_ext draft = None \<and> signBroadcastArtifact X channel agent draft = Inr a"
    then show ?thesis using keys by (auto simp: signBroadcastArtifact_def verifyBroadcastArtifact_def Let_def works_def
        tbs_without_signatures split: if_splits)
  next
    assume "ba_channel_pubkey draft = fst channel \<and> ba_published_at draft \<le> expires \<and>
      signPosterPost X agent draft (encodeChannelPosterPass X p) = Inr a"
    then show ?thesis using keys pd p by (auto simp: signPosterPost_def verifyBroadcastArtifact_def Let_def works_def
        tbs_without_signatures split: if_splits)
  qed
  have r: "length (rr_signature r) = 64" "verifyRelayPostReceipt X r a"
      "checkReceiptFields (JBytes (rr_relay_pubkey r)) (JBytes (rr_channel_pubkey r)) (JInt (rr_seq r))
           (JBytes (rr_post_hash r)) (JInt (rr_received_at r)) = None"
    using receipt(1) keys(3) by (auto simp: signRelayPostReceipt_def Let_def works_def verifyRelayPostReceipt_def
        buildRelayPostReceiptTbs_def receiptTbsSlots_def split: if_splits)
  show ?thesis using post_round_trip [OF post(2) a] v receipt_round_trip [OF receipt(2) r(1,3)] r(2) by simp
qed

text \<open>A sample channel: encodings are the number of slots, every signature is 64 zeros.\<close>

definition sampleKey :: "8 word \<Rightarrow> key_provider" where
  "sampleKey n = (replicate 32 n, \<lambda>m. replicate 64 0)"

definition samplePass :: ChannelPosterPass where
  "samplePass = \<lparr>pp_channel_pubkey = replicate 32 1, pp_poster_pubkey = replicate 32 2, pp_issued_at = 5, pp_expires_at = 9,
     pp_signature = replicate 64 0\<rparr>"

definition samplePost :: BroadcastArtifact where
  "samplePost = \<lparr>ba_channel_pubkey = replicate 32 1, ba_agent_pubkey = replicate 32 2, ba_seq = 1, ba_published_at = 7,
     ba_title = ''t'', ba_body = [], ba_supersedes = None, ba_ext = Some [6], ba_channel_signature = [],
     ba_agent_signature = replicate 64 0\<rparr>"

definition sampleReceipt :: RelayPostReceipt where
  "sampleReceipt = \<lparr>rr_relay_pubkey = replicate 32 3, rr_channel_pubkey = replicate 32 1, rr_seq = 1, rr_post_hash = replicate 32 0,
     rr_received_at = 8, rr_signature = replicate 64 0\<rparr>"

definition samplePrims :: Primitives where
  "samplePrims = \<lparr>cb_enc = (\<lambda>v. case v of JArray xs \<Rightarrow> [of_nat (length xs)] | _ \<Rightarrow> []),
     cb_dec = (\<lambda>b. if b = [6] then Some (JArray (passTbsSlots samplePass @ [JBytes (replicate 64 0)]))
       else if b = [11] then Some (JArray (postTbsSlots samplePost @ [JBytes [], JBytes (replicate 64 0)]))
       else if b = [7] then Some (JArray (receiptTbsSlots sampleReceipt @ [JBytes (replicate 64 0)])) else None),
     cb_verify = (\<lambda>pk m s. True), cb_hash = (\<lambda>d. replicate 32 0), cb_surrogate = (\<lambda>s. False)\<rparr>"

lemma sample_keys: "works samplePrims (sampleKey n)"
  by (simp add: works_def sampleKey_def samplePrims_def)

lemma channelSample_signed:
  "signChannelPosterPass samplePrims (sampleKey 1) (fst (sampleKey 2)) 5 9 = Inr samplePass"
  "signPosterPost samplePrims (sampleKey 2) samplePost (encodeChannelPosterPass samplePrims samplePass) = Inr samplePost"
  "signRelayPostReceipt samplePrims (sampleKey 3) samplePost 8 = Inr sampleReceipt"
  by (simp_all add: signChannelPosterPass_def signPosterPost_def signRelayPostReceipt_def checkPassFields_def checkPost_def
      checkPostFields_def checkReceiptFields_def samplePass_def samplePost_def sampleReceipt_def sampleKey_def samplePrims_def
      validateBroadcastTitle_def controlChar_def safeAtLeast_iff MAX_SAFE_INTEGER_def width_consts Let_def
      MAX_BROADCAST_TITLE_CHARS_def MAX_BROADCAST_BODY_BYTES_def supersedesVal_def broadcastPostHash_def hash_def
      encodeChannelPosterPass_def passTbsSlots_def)

lemma sample_reads:
  "readsBack samplePrims (passTbsSlots samplePass @ [JBytes (pp_signature samplePass)])"
  "readsBack samplePrims (postTbsSlots samplePost @ [JBytes (ba_channel_signature samplePost), JBytes (ba_agent_signature samplePost)])"
  "readsBack samplePrims (receiptTbsSlots sampleReceipt @ [JBytes (rr_signature sampleReceipt)])"
  by (simp_all add: readsBack_def samplePrims_def passTbsSlots_def postTbsSlots_def receiptTbsSlots_def samplePass_def
      samplePost_def sampleReceipt_def)

theorem signed_posts_are_accepted_witness:
  "decodeBroadcastArtifact samplePrims [11] = Inr samplePost \<and> verifyBroadcastArtifact samplePrims samplePost = None \<and>
   verifyRelayPostReceipt samplePrims sampleReceipt samplePost"
proof -
  have e: "encodeBroadcastArtifact samplePrims samplePost = [11]"
    by (simp add: encodeBroadcastArtifact_def samplePrims_def postTbsSlots_def)
  have d: "ba_channel_pubkey samplePost = fst (sampleKey 1) \<and> ba_published_at samplePost \<le> 9 \<and>
      signPosterPost samplePrims (sampleKey 2) samplePost (encodeChannelPosterPass samplePrims samplePass) = Inr samplePost"
    using channelSample_signed(2) by (simp add: samplePost_def sampleKey_def)
  show ?thesis
    using signed_posts_are_accepted [OF sample_keys sample_keys sample_keys channelSample_signed(1) sample_reads(1) disjI2 [OF d]
        sample_reads(2) channelSample_signed(3) sample_reads(3)] by (simp add: e)
qed

text \<open>A signature is for one thing: two posts with the same signed bytes agree in every field but the
  signatures, and the signed bytes of a post, of a pass and of a receipt are never the same, so a key
  that signed one of them has not signed another. CBOR is assumed to read back the signed arrays.\<close>

theorem signed_bytes_bind:
  assumes "readsBack X (postTbsSlots a)" and "readsBack X (postTbsSlots b)" and "readsBack X (passTbsSlots p)"
    and "readsBack X (receiptTbsSlots r)"
  shows "(buildBroadcastArtifactTbs X a = buildBroadcastArtifactTbs X b \<longrightarrow>
      b = a\<lparr>ba_channel_signature := ba_channel_signature b, ba_agent_signature := ba_agent_signature b\<rparr>) \<and>
    buildBroadcastArtifactTbs X a \<noteq> buildChannelPosterPassTbs X p \<and>
    buildBroadcastArtifactTbs X a \<noteq> buildRelayPostReceiptTbs X r \<and>
    buildChannelPosterPassTbs X p \<noteq> buildRelayPostReceiptTbs X r"
proof -
  have same: "cb_enc X (JArray xs) = cb_enc X (JArray ys) \<Longrightarrow> xs = ys" if "readsBack X xs" "readsBack X ys" for xs ys
    using that by (auto simp: readsBack_def)
  have ext: "extToWire e = extToWire f \<longleftrightarrow> e = f" for e f
    by (metis extFromWire_extToWire option.inject)
  have sup: "supersedesVal s = supersedesVal t \<longleftrightarrow> s = t" for s t
    by (cases s; cases t) (simp_all add: supersedesVal_def)
  have "postTbsSlots a = postTbsSlots b \<Longrightarrow>
      b = a\<lparr>ba_channel_signature := ba_channel_signature b, ba_agent_signature := ba_agent_signature b\<rparr>"
    by (cases a; cases b) (simp add: postTbsSlots_def ext sup)
  moreover have "postTbsSlots a \<noteq> passTbsSlots p" "postTbsSlots a \<noteq> receiptTbsSlots r" "passTbsSlots p \<noteq> receiptTbsSlots r"
    by (simp_all add: postTbsSlots_def passTbsSlots_def receiptTbsSlots_def)
  ultimately show ?thesis
    using same assms unfolding buildBroadcastArtifactTbs_def buildChannelPosterPassTbs_def buildRelayPostReceiptTbs_def
    by blast
qed

theorem signed_bytes_bind_witness:
  "buildBroadcastArtifactTbs
     (samplePrims\<lparr>cb_dec := \<lambda>b. if b = [9] then Some (JArray (postTbsSlots samplePost))
        else if b = [5] then Some (JArray (passTbsSlots samplePass)) else Some (JArray (receiptTbsSlots sampleReceipt))\<rparr>) samplePost
   \<noteq> buildChannelPosterPassTbs samplePrims samplePass"
proof -
  let ?X = "samplePrims\<lparr>cb_dec := \<lambda>b. if b = [9] then Some (JArray (postTbsSlots samplePost))
        else if b = [5] then Some (JArray (passTbsSlots samplePass)) else Some (JArray (receiptTbsSlots sampleReceipt))\<rparr>"
  have "readsBack ?X (postTbsSlots samplePost)" "readsBack ?X (passTbsSlots samplePass)" "readsBack ?X (receiptTbsSlots sampleReceipt)"
    by (simp_all add: readsBack_def samplePrims_def postTbsSlots_def passTbsSlots_def receiptTbsSlots_def)
  then show ?thesis
    using signed_bytes_bind [of ?X samplePost samplePost samplePass sampleReceipt]
    by (simp add: buildChannelPosterPassTbs_def)
qed

end
