(* ===== verification/Ideal_Codec.thy ===== *)
theory Ideal_Codec
  imports Wire "HOL-Library.Countable"
begin

text \<open>
  A codec that reads back every value: the values off the wire are countable, and a number is written
  as that many zero bytes. It shows that the assumptions on CBOR can all hold at once.
\<close>

instance jsval :: countable
  by countable_datatype

definition idealEncode :: "jsval \<Rightarrow> bytes" where
  "idealEncode v = replicate (to_nat v) 0"

definition idealDecode :: "bytes \<Rightarrow> jsval option" where
  "idealDecode b = Some (from_nat (length b))"

lemma ideal_reads_back [simp]: "idealDecode (idealEncode v) = Some v"
  by (simp add: idealDecode_def idealEncode_def)

end
