(* ===== verification/Channel_Log_Claims.thy ===== *)
theory Channel_Log_Claims
  imports Channel_Log Channel_Format_Claims Ideal_Codec
begin

text \<open>
  The publisher's log is gap-free and readable in every state it reaches, and a post a relay has
  acknowledged never changes.
\<close>

section \<open>The codec\<close>

definition codec_ok :: "Primitives \<Rightarrow> bool" where
  "codec_ok X \<longleftrightarrow> (\<forall>slots. cb_dec X (cb_enc X (JArray slots)) = Some (JArray slots))"

lemma enc_inj: "codec_ok X \<Longrightarrow> cb_enc X (JArray xs) = cb_enc X (JArray ys) \<longleftrightarrow> xs = ys"
  by (metis codec_ok_def jsval.inject(7) option.inject)

lemma encode_post_inj:
  assumes "codec_ok X" and "encodeBroadcastArtifact X a = encodeBroadcastArtifact X b"
  shows "a = b"
proof -
  have ext: "extToWire e = extToWire f \<longleftrightarrow> e = f" for e f by (metis extFromWire_extToWire option.inject)
  have sup: "supersedesVal s = supersedesVal t \<longleftrightarrow> s = t" for s t
    by (cases s; cases t) (simp_all add: supersedesVal_def)
  show ?thesis
    using assms by (cases a; cases b) (simp add: encodeBroadcastArtifact_def enc_inj postTbsSlots_def ext sup)
qed

lemma decode_encode_post:
  "codec_ok X \<Longrightarrow> decodeBroadcastArtifact X (encodeBroadcastArtifact X a) = Inr b \<Longrightarrow> b = a"
  using decoded_post encode_post_inj by metis

text \<open>The posts of a lane, as the log holds them.\<close>

definition post_in_lane :: "Primitives \<Rightarrow> LogRow \<Rightarrow> BroadcastArtifact \<Rightarrow> bool" where
  "post_in_lane X r a \<longleftrightarrow> decodeBroadcastArtifact X (lr_post_cbor r) = Inr a \<and> verifyBroadcastArtifact X a = None \<and>
     laneKeyOf a = lr_channel r \<and> ba_seq a = lr_seq r"

lemma checkedBytes_ok:
  assumes "codec_ok X" and "checkedBytes X key post = Inr cbor"
  shows "decodeBroadcastArtifact X cbor = Inr post \<and> verifyBroadcastArtifact X post = None \<and> laneKeyOf post = key"
  using assms decode_encode_post [OF assms(1), of post]
  by (auto simp: checkedBytes_def Let_def split: sum.splits if_splits)

section \<open>The invariant\<close>

definition seqs :: "string \<Rightarrow> ChannelLog \<Rightarrow> int set" where
  "seqs key st = {q. \<exists>r \<in> set (channel_log st). lr_channel r = key \<and> lr_seq r = q}"

lemma seqs_keys: "seqs key st = {q. (key, q) \<in> set (map (\<lambda>r. (lr_channel r, lr_seq r)) (channel_log st))}"
  by (auto simp: seqs_def)

definition rows_ok :: "Primitives \<Rightarrow> ChannelLog \<Rightarrow> bool" where
  "rows_ok X st \<longleftrightarrow> distinct (map (\<lambda>r. (lr_channel r, lr_seq r)) (channel_log st)) \<and>
     (\<forall>r \<in> set (channel_log st). \<exists>a. post_in_lane X r a)"

definition states_ok :: "ChannelLog \<Rightarrow> bool" where
  "states_ok st \<longleftrightarrow> distinct (map sr_channel (channel_state st)) \<and>
     (\<forall>s \<in> set (channel_state st). 1 \<le> next_seq s \<and> (\<exists>f \<ge> 1. seqs (sr_channel s) st = {f..<next_seq s})) \<and>
     (\<forall>r \<in> set (channel_log st). lr_channel r \<in> sr_channel ` set (channel_state st))"

lemma states_okD:
  "states_ok st \<Longrightarrow> s \<in> set (channel_state st) \<Longrightarrow> 1 \<le> next_seq s \<and> (\<exists>f \<ge> 1. seqs (sr_channel s) st = {f..<next_seq s})"
  by (simp add: states_ok_def)

definition receipt_backed :: "Primitives \<Rightarrow> ChannelLog \<Rightarrow> ReceiptRow \<Rightarrow> bool" where
  "receipt_backed X st c \<longleftrightarrow> (\<exists>r \<in> set (channel_log st). \<exists>a receipt. lr_channel r = rc_channel c \<and> lr_seq r = rc_seq c \<and>
     decodeBroadcastArtifact X (lr_post_cbor r) = Inr a \<and> rc_receipt_cbor c = encodeRelayPostReceipt X receipt \<and>
     verifyRelayPostReceipt X receipt a)"

definition receipts_ok :: "Primitives \<Rightarrow> ChannelLog \<Rightarrow> bool" where
  "receipts_ok X st \<longleftrightarrow> (\<forall>c \<in> set (channel_log_receipts st). receipt_backed X st c)"

definition log_ok :: "Primitives \<Rightarrow> ChannelLog \<Rightarrow> bool" where
  "log_ok X st \<longleftrightarrow> rows_ok X st \<and> states_ok st \<and> receipts_ok X st"

lemma stateOf_Inr: "stateOf key st = Inr s \<Longrightarrow> s \<in> set (channel_state st) \<and> sr_channel s = key"
  by (auto simp: stateOf_def find_Some_iff split: option.splits)

lemma stateOf_unique:
  assumes "states_ok st" and "s \<in> set (channel_state st)"
  shows "stateOf (sr_channel s) st = Inr s"
proof -
  obtain t where t: "find (\<lambda>t. sr_channel t = sr_channel s) (channel_state st) = Some t"
    using assms(2) by (cases "find (\<lambda>t. sr_channel t = sr_channel s) (channel_state st)") (auto simp: find_None_iff)
  then have "t \<in> set (channel_state st)" "sr_channel t = sr_channel s" by (auto simp: find_Some_iff)
  then have "t = s" using assms by (auto simp: states_ok_def distinct_map inj_on_def)
  then show ?thesis using t by (simp add: stateOf_def)
qed

lemma rowAt_None: "rowAt key q st = None \<longleftrightarrow> q \<notin> seqs key st"
  by (auto simp: rowAt_def seqs_def find_None_iff)

lemma rowAt_Some: "rowAt key q st = Some r \<Longrightarrow> r \<in> set (channel_log st) \<and> lr_channel r = key \<and> lr_seq r = q"
  by (auto simp: rowAt_def find_Some_iff)

lemma rowAt_unique:
  assumes "rows_ok X st" and "r \<in> set (channel_log st)"
  shows "rowAt (lr_channel r) (lr_seq r) st = Some r"
proof -
  obtain t where t: "rowAt (lr_channel r) (lr_seq r) st = Some t"
    using assms(2) rowAt_None [of "lr_channel r" "lr_seq r" st] by (fastforce simp: seqs_def)
  then show ?thesis
    using rowAt_Some [OF t] assms by (auto simp: rows_ok_def distinct_map inj_on_def)
qed

lemma updateState_simps [simp]:
  "channel_log (updateState key f st) = channel_log st"
  "channel_log_receipts (updateState key f st) = channel_log_receipts st"
  "channel_state (updateState key f st) = map (\<lambda>s. if sr_channel s = key then f s else s) (channel_state st)"
  by (simp_all add: updateState_def)

text \<open>What each operation does when it does not throw.\<close>

lemma appendE:
  assumes "append_post X key post st = Inr (q, st')"
  obtains s cbor where "stateOf key st = Inr s" "ba_seq post = next_seq s" "checkedBytes X key post = Inr cbor"
      "rowAt key (ba_seq post) st = None"
    "st' = updateState key (\<lambda>s'. s'\<lparr>next_seq := next_seq s + 1\<rparr>)
      (st\<lparr>channel_log := channel_log st @ [\<lparr>lr_channel = key, lr_seq = ba_seq post, lr_published_at = ba_published_at post,
         lr_title = ba_title post, lr_post_cbor = cbor\<rparr>]\<rparr>)"
  using assms by (auto simp: append_post_def rbind_Inr_conv split: if_splits)

lemma replaceE:
  assumes "replaceUnreceipted X key post st = Inr st'"
  obtains cbor where "checkedBytes X key post = Inr cbor" "rowAt key (ba_seq post) st \<noteq> None"
      "\<not> list_ex (\<lambda>r. rc_channel r = key \<and> rc_seq r = ba_seq post) (channel_log_receipts st)"
    "st' = st\<lparr>channel_log := map (\<lambda>r. if lr_channel r = key \<and> lr_seq r = ba_seq post
         then r\<lparr>lr_published_at := ba_published_at post, lr_title := ba_title post, lr_post_cbor := cbor\<rparr> else r) (channel_log st)\<rparr>"
  using assms by (auto simp: replaceUnreceipted_def rbind_Inr_conv split: if_splits)

lemma pruneE:
  assumes "pruneThrough key n st = Inr (m, st')"
  obtains s where "stateOf key st = Inr s" "0 \<le> n"
    "st' = updateState key (\<lambda>s'. s'\<lparr>pruned_through := n\<rparr>)
      (st\<lparr>channel_log := filter (\<lambda>r. \<not> (lr_channel r = key \<and> lr_seq r \<le> n)) (channel_log st),
          channel_log_receipts := filter (\<lambda>r. \<not> (rc_channel r = key \<and> rc_seq r \<le> n)) (channel_log_receipts st)\<rparr>)"
  using assms by (auto simp: pruneThrough_def rbind_Inr_conv split: if_splits)

lemma receiveE:
  assumes "recordReceipt X key receipt st = Inr st'" and "st' \<noteq> st"
  obtains post where "postAt X key (rr_seq receipt) st = Inr (Some post)" "verifyRelayPostReceipt X receipt post"
    "st' = st\<lparr>channel_log_receipts := channel_log_receipts st @
        [\<lparr>rc_channel = key, rc_seq = rr_seq receipt, rc_relay = bytesToHex (rr_relay_pubkey receipt),
          rc_received_at = rr_received_at receipt, rc_receipt_cbor = encodeRelayPostReceipt X receipt\<rparr>]\<rparr>"
  using assms by (auto simp: recordReceipt_def rbind_Inr_conv Let_def split: option.splits if_splits)

section \<open>Every operation keeps it\<close>

lemma ensure_ok: "log_ok X st \<Longrightarrow> log_ok X (ensureChannel key st)"
proof (cases "list_ex (\<lambda>s. sr_channel s = key) (channel_state st)")
  case False
  assume ok: "log_ok X st"
  have none: "key \<notin> sr_channel ` set (channel_state st)" using False by (auto simp: list_ex_iff)
  then have "seqs key st = {}" using ok by (force simp: log_ok_def states_ok_def seqs_def)
  then have "\<exists>f \<ge> 1. seqs key st = {f..<1}" by (intro exI [of _ 1]) simp
  then show ?thesis
    using ok False none by (auto simp: ensureChannel_def log_ok_def rows_ok_def states_ok_def receipts_ok_def receipt_backed_def seqs_def)
qed (simp add: ensureChannel_def)

lemma append_ok:
  assumes "codec_ok X" and "log_ok X st" and "append_post X key post st = Inr (q, st')"
  shows "log_ok X st'"
proof -
  obtain s cbor where s: "stateOf key st = Inr s" "ba_seq post = next_seq s" "checkedBytes X key post = Inr cbor"
      "rowAt key (ba_seq post) st = None"
    and st': "st' = updateState key (\<lambda>s'. s'\<lparr>next_seq := next_seq s + 1\<rparr>)
      (st\<lparr>channel_log := channel_log st @ [\<lparr>lr_channel = key, lr_seq = ba_seq post, lr_published_at = ba_published_at post,
         lr_title = ba_title post, lr_post_cbor = cbor\<rparr>]\<rparr>)"
    by (rule appendE [OF assms(3)]) (rule that)
  note st = assms(2) [unfolded log_ok_def]
  have new: "post_in_lane X \<lparr>lr_channel = key, lr_seq = ba_seq post, lr_published_at = ba_published_at post,
         lr_title = ba_title post, lr_post_cbor = cbor\<rparr> post"
    using checkedBytes_ok [OF assms(1) s(3)] by (simp add: post_in_lane_def)
  have sq: "seqs k st' = (if k = key then insert (next_seq s) (seqs k st) else seqs k st)" for k
    by (auto simp: st' seqs_def s(2))
  have "rows_ok X st'"
    using st s(4) new by (auto simp: rows_ok_def st' rowAt_None seqs_def)
  moreover have "states_ok st'"
  proof -
    have range: "1 \<le> next_seq s + 1 \<and> (\<exists>f \<ge> 1. seqs key st' = {f..<next_seq s + 1})"
    proof -
      obtain f where f: "1 \<le> next_seq s" "f \<ge> 1" "seqs key st = {f..<next_seq s}"
        using st stateOf_Inr [OF s(1)] by (auto simp: states_ok_def)
      then have "insert (next_seq s) (seqs key st) = {min f (next_seq s)..<next_seq s + 1}" by auto
      then show ?thesis using f by (intro conjI exI [of _ "min f (next_seq s)"]) (auto simp: sq)
    qed
    have names: "map sr_channel (channel_state st') = map sr_channel (channel_state st)" by (simp add: st')
    have chan: "sr_channel ` set (channel_state st') = sr_channel ` set (channel_state st)"
      by (metis names list.set_map)
    have "1 \<le> next_seq t \<and> (\<exists>f \<ge> 1. seqs (sr_channel t) st' = {f..<next_seq t})" if "t \<in> set (channel_state st')" for t
    proof -
      from that obtain t0 where t0: "t0 \<in> set (channel_state st)"
          "t = (if sr_channel t0 = key then t0\<lparr>next_seq := next_seq s + 1\<rparr> else t0)" by (auto simp: st')
      show ?thesis
      proof (cases "sr_channel t0 = key")
        case True
        then show ?thesis using range t0(2) by simp
      next
        case False
        then show ?thesis using st t0 unfolding states_ok_def by (simp add: sq)
      qed
    qed
    moreover have "\<forall>r \<in> set (channel_log st'). lr_channel r \<in> sr_channel ` set (channel_state st')"
      unfolding chan using st stateOf_Inr [OF s(1)] by (auto simp: st' states_ok_def)
    ultimately show ?thesis using st unfolding states_ok_def names by blast
  qed
  moreover have "receipts_ok X st'"
    using st by (fastforce simp: receipts_ok_def receipt_backed_def st')
  ultimately show ?thesis by (simp add: log_ok_def)
qed

lemma replace_ok:
  assumes "codec_ok X" and "log_ok X st" and "replaceUnreceipted X key post st = Inr st'"
  shows "log_ok X st'"
proof -
  obtain cbor where c: "checkedBytes X key post = Inr cbor" "rowAt key (ba_seq post) st \<noteq> None"
      "\<not> list_ex (\<lambda>r. rc_channel r = key \<and> rc_seq r = ba_seq post) (channel_log_receipts st)"
    and st': "st' = st\<lparr>channel_log := map (\<lambda>r. if lr_channel r = key \<and> lr_seq r = ba_seq post
         then r\<lparr>lr_published_at := ba_published_at post, lr_title := ba_title post, lr_post_cbor := cbor\<rparr> else r) (channel_log st)\<rparr>"
    by (rule replaceE [OF assms(3)]) (rule that)
  note st = assms(2) [unfolded log_ok_def]
  have keys: "map (\<lambda>r. (lr_channel r, lr_seq r)) (channel_log st') = map (\<lambda>r. (lr_channel r, lr_seq r)) (channel_log st)"
    by (simp add: st')
  have sq: "seqs k st' = seqs k st" for k by (simp only: seqs_keys keys)
  have "rows_ok X st'"
    unfolding rows_ok_def keys
  proof (intro conjI ballI)
    show "distinct (map (\<lambda>r. (lr_channel r, lr_seq r)) (channel_log st))" using st by (simp add: rows_ok_def)
    fix r assume "r \<in> set (channel_log st')"
    then obtain r0 where r0: "r0 \<in> set (channel_log st)" "r = (if lr_channel r0 = key \<and> lr_seq r0 = ba_seq post
         then r0\<lparr>lr_published_at := ba_published_at post, lr_title := ba_title post, lr_post_cbor := cbor\<rparr> else r0)"
      by (auto simp: st')
    show "\<exists>a. post_in_lane X r a"
    proof (cases "lr_channel r0 = key \<and> lr_seq r0 = ba_seq post")
      case True
      then have "post_in_lane X r post" using r0(2) checkedBytes_ok [OF assms(1) c(1)] by (simp add: post_in_lane_def)
      then show ?thesis ..
    next
      case False
      then have "r = r0" using r0(2) by auto
      then show ?thesis using st r0(1) by (auto simp: rows_ok_def)
    qed
  qed
  moreover have "states_ok st'"
    using st sq unfolding states_ok_def by (auto simp: st')
  moreover have "receipts_ok X st'"
    unfolding receipts_ok_def
  proof
    fix c' assume c': "c' \<in> set (channel_log_receipts st')"
    then have "receipt_backed X st c'" using st by (simp add: st' receipts_ok_def)
    moreover have "\<not> (rc_channel c' = key \<and> rc_seq c' = ba_seq post)" using c' c(3) by (auto simp: st' list_ex_iff)
    ultimately show "receipt_backed X st' c'" by (fastforce simp: receipt_backed_def st')
  qed
  ultimately show ?thesis by (simp add: log_ok_def)
qed

lemma receive_ok:
  assumes "log_ok X st" and "recordReceipt X key receipt st = Inr st'"
  shows "log_ok X st'"
proof (cases "st' = st")
  case False
  obtain post where p: "postAt X key (rr_seq receipt) st = Inr (Some post)" "verifyRelayPostReceipt X receipt post"
    and st': "st' = st\<lparr>channel_log_receipts := channel_log_receipts st @
        [\<lparr>rc_channel = key, rc_seq = rr_seq receipt, rc_relay = bytesToHex (rr_relay_pubkey receipt),
          rc_received_at = rr_received_at receipt, rc_receipt_cbor = encodeRelayPostReceipt X receipt\<rparr>]\<rparr>"
    by (rule receiveE [OF assms(2) False]) (rule that)
  obtain r where "rowAt key (rr_seq receipt) st = Some r" "decodeBroadcastArtifact X (lr_post_cbor r) = Inr post"
    using p(1) by (auto simp: postAt_def rbind_Inr_conv decodeRow_def split: option.splits sum.splits if_splits)
  then show ?thesis
    using assms(1) p(2) rowAt_Some [of key "rr_seq receipt" st r]
    by (fastforce simp: log_ok_def rows_ok_def states_ok_def receipts_ok_def receipt_backed_def seqs_def st')
qed (use assms in simp)

lemma prune_ok:
  assumes "log_ok X st" and "pruneThrough key n st = Inr (m, st')"
  shows "log_ok X st'"
proof -
  obtain s where s: "stateOf key st = Inr s" "0 \<le> n"
    and st': "st' = updateState key (\<lambda>s'. s'\<lparr>pruned_through := n\<rparr>)
      (st\<lparr>channel_log := filter (\<lambda>r. \<not> (lr_channel r = key \<and> lr_seq r \<le> n)) (channel_log st),
          channel_log_receipts := filter (\<lambda>r. \<not> (rc_channel r = key \<and> rc_seq r \<le> n)) (channel_log_receipts st)\<rparr>)"
    by (rule pruneE [OF assms(2)]) (rule that)
  note st = assms(1) [unfolded log_ok_def]
  have sq: "seqs k st' = (if k = key then seqs k st - {..n} else seqs k st)" for k
    by (auto simp: st' seqs_def)
  have range: "1 \<le> next_seq t \<and> (\<exists>f \<ge> 1. seqs (sr_channel t) st' = {f..<next_seq t})" if row: "t \<in> set (channel_state st)" for t
  proof -
    obtain f where f: "1 \<le> next_seq t" "f \<ge> 1" "seqs (sr_channel t) st = {f..<next_seq t}"
      using states_okD [OF _ row] st by auto
    have "{f..<next_seq t} - {..n} = {max f (n + 1)..<next_seq t}" by auto
    then have "seqs (sr_channel t) st' = {if sr_channel t = key then max f (n + 1) else f..<next_seq t}"
      using f(3) by (auto simp: sq)
    moreover have "1 \<le> (if sr_channel t = key then max f (n + 1) else f)" using f(2) by (auto simp: max_def)
    ultimately show ?thesis using f(1) by blast
  qed
  have "rows_ok X st'" using st by (auto simp: rows_ok_def st' distinct_map_filter)
  moreover have "states_ok st'"
  proof -
    have names: "map sr_channel (channel_state st') = map sr_channel (channel_state st)" by (simp add: st')
    have chan: "sr_channel ` set (channel_state st') = sr_channel ` set (channel_state st)"
      by (metis names list.set_map)
    have "1 \<le> next_seq t \<and> (\<exists>f \<ge> 1. seqs (sr_channel t) st' = {f..<next_seq t})" if "t \<in> set (channel_state st')" for t
    proof -
      from that obtain t0 where t0: "t0 \<in> set (channel_state st)"
          "t = (if sr_channel t0 = key then t0\<lparr>pruned_through := n\<rparr> else t0)" by (auto simp: st')
      then have "sr_channel t = sr_channel t0" "next_seq t = next_seq t0" by simp_all
      with range [OF t0(1)] show ?thesis by simp
    qed
    moreover have "\<forall>r \<in> set (channel_log st'). lr_channel r \<in> sr_channel ` set (channel_state st')"
      unfolding chan using st by (auto simp: st' states_ok_def)
    ultimately show ?thesis using st unfolding states_ok_def names by blast
  qed
  moreover have "receipts_ok X st'" using st by (fastforce simp: receipts_ok_def receipt_backed_def st')
  ultimately show ?thesis by (simp add: log_ok_def)
qed

lemma kept_cases: "P st \<Longrightarrow> (\<And>st'. r = Inr st' \<Longrightarrow> P st') \<Longrightarrow> P (kept st r)"
  by (cases r) (simp_all add: kept_def)

lemma map_sum_Inr: "map_sum f g r = Inr y \<longleftrightarrow> (\<exists>x. r = Inr x \<and> y = g x)"
  by (cases r) auto

lemma log_step_ok: "codec_ok X \<Longrightarrow> log_ok X st \<Longrightarrow> log_ok X (log_step X st e)"
  by (cases e) (auto intro!: kept_cases [where P = "log_ok X"] dest: append_ok replace_ok receive_ok prune_ok
      simp: ensure_ok map_sum_Inr)

lemma empty_ok: "log_ok X emptyLog"
  by (simp add: log_ok_def rows_ok_def states_ok_def receipts_ok_def emptyLog_def)

interpretation channel: machine "log_step X" "\<lambda>st. codec_ok X \<and> log_ok X st" for X
  by unfold_locales (simp add: log_step_ok)

section \<open>Reading a range\<close>

lemma decodeRow_stored: "post_in_lane X r a \<Longrightarrow> decodeRow X (lr_post_cbor r) = Inr a"
  by (simp add: post_in_lane_def decodeRow_def)

definition laneRows :: "string \<Rightarrow> int \<Rightarrow> int \<Rightarrow> ChannelLog \<Rightarrow> LogRow list" where
  "laneRows key a b st = filter (\<lambda>r. lr_channel r = key \<and> a \<le> lr_seq r \<and> lr_seq r \<le> b) (channel_log st)"

lemma laneRows_seqs:
  assumes "rows_ok X st" and "seqs key st = {f..<n}"
  shows "map lr_seq (sort_key lr_seq (laneRows key a b st)) = [max a f..min b (n - 1)]"
proof (rule sorted_distinct_set_unique)
  have "distinct (map (\<lambda>r. (lr_channel r, lr_seq r)) (laneRows key a b st))"
    using assms(1) by (simp add: laneRows_def rows_ok_def distinct_map_filter)
  moreover have "\<forall>r \<in> set (laneRows key a b st). lr_channel r = key" by (simp add: laneRows_def)
  ultimately have "distinct (map lr_seq (laneRows key a b st))" by (auto simp: distinct_map inj_on_def)
  then show "distinct (map lr_seq (sort_key lr_seq (laneRows key a b st)))"
    by (simp add: distinct_map)
  have "set (map lr_seq (laneRows key a b st)) = seqs key st \<inter> {a..b}" by (auto simp: laneRows_def seqs_def)
  then show "set (map lr_seq (sort_key lr_seq (laneRows key a b st))) = set [max a f..min b (n - 1)]"
    using assms(2) by auto
qed (simp_all)

lemma laneRows_posts:
  assumes "rows_ok X st"
  shows "\<exists>g. \<forall>r \<in> set (laneRows key a b st). post_in_lane X r (g r)"
  using assms by (intro bchoice) (auto simp: laneRows_def rows_ok_def)

lemma readRange_rows:
  "stateOf key st = Inr s \<Longrightarrow>
   readRange X key a b st = rmap (decodeRow X \<circ> lr_post_cbor) (sort_key lr_seq (laneRows key a b st))"
  by (simp add: readRange_def laneRows_def)

lemma readRange_ok:
  assumes "log_ok X st" and "stateOf key st = Inr s"
  shows "\<exists>f \<ge> 1. seqs key st = {f..<next_seq s} \<and> (\<forall>a b. \<exists>posts. readRange X key a b st = Inr posts \<and>
    map ba_seq posts = [max a f..min b (next_seq s - 1)] \<and>
    (\<forall>p \<in> set posts. verifyBroadcastArtifact X p = None \<and> laneKeyOf p = key \<and>
      decodeBroadcastArtifact X (encodeBroadcastArtifact X p) = Inr p))"
proof -
  obtain f where f: "f \<ge> 1" "seqs key st = {f..<next_seq s}"
    using states_okD [of st s] stateOf_Inr [OF assms(2)] assms(1) by (auto simp: log_ok_def)
  have rows: "rows_ok X st" using assms(1) by (simp add: log_ok_def)
  have "\<exists>posts. readRange X key a b st = Inr posts \<and> map ba_seq posts = [max a f..min b (next_seq s - 1)] \<and>
      (\<forall>p \<in> set posts. verifyBroadcastArtifact X p = None \<and> laneKeyOf p = key \<and>
         decodeBroadcastArtifact X (encodeBroadcastArtifact X p) = Inr p)" for a b
  proof -
    obtain g where g: "\<And>r. r \<in> set (laneRows key a b st) \<Longrightarrow> post_in_lane X r (g r)"
      using laneRows_posts [OF rows, of key a b] by auto
    let ?rows = "sort_key lr_seq (laneRows key a b st)"
    have "readRange X key a b st = Inr (map g ?rows)"
      unfolding readRange_rows [OF assms(2)]
      by (rule rmap_pure) (use g decodeRow_stored in auto)
    moreover have "map ba_seq (map g ?rows) = map lr_seq ?rows" using g by (auto simp: post_in_lane_def)
    moreover have "\<forall>p \<in> set (map g ?rows). verifyBroadcastArtifact X p = None \<and> laneKeyOf p = key \<and>
        decodeBroadcastArtifact X (encodeBroadcastArtifact X p) = Inr p"
    proof
      fix p assume "p \<in> set (map g ?rows)"
      then obtain r where r: "r \<in> set (laneRows key a b st)" "p = g r" by auto
      have d: "decodeBroadcastArtifact X (lr_post_cbor r) = Inr p" using g [OF r(1)] r(2) by (simp add: post_in_lane_def)
      show "verifyBroadcastArtifact X p = None \<and> laneKeyOf p = key \<and>
          decodeBroadcastArtifact X (encodeBroadcastArtifact X p) = Inr p"
        using g [OF r(1)] r d decoded_post [OF d] by (auto simp: post_in_lane_def laneRows_def)
    qed
    ultimately show ?thesis unfolding laneRows_seqs [OF rows f(2)] by blast
  qed
  then show ?thesis using f by blast
qed

lemma run_ok: "codec_ok X \<Longrightarrow> log_ok X (foldl (log_step X) emptyLog es)"
  using channel.run_inv [of X emptyLog es] empty_ok by blast

section \<open>Pruning\<close>

lemma find_other_state:
  "k \<noteq> key \<Longrightarrow> (\<And>s. sr_channel (g s) = sr_channel s) \<Longrightarrow>
   find (\<lambda>s. sr_channel s = k) (map (\<lambda>s. if sr_channel s = key then g s else s) ss) = find (\<lambda>s. sr_channel s = k) ss"
  by (induction ss) auto

lemma prune_moves_start:
  assumes "log_ok X st" and "stateOf key st = Inr s" and "seqs key st = {f..<next_seq s}"
    and "pruneThrough key n st = Inr (m, st')"
  shows "stateOf key st' = Inr (s\<lparr>pruned_through := n\<rparr>)"
    and "readRange X key a b st' = readRange X key (max a (n + 1)) b st"
    and "k \<noteq> key \<Longrightarrow> stateOf k st' = stateOf k st \<and> readRange X k a b st' = readRange X k a b st"
    and "m = length [f..min n (next_seq s - 1)]"
proof -
  have st': "st' = updateState key (\<lambda>s'. s'\<lparr>pruned_through := n\<rparr>)
      (st\<lparr>channel_log := filter (\<lambda>r. \<not> (lr_channel r = key \<and> lr_seq r \<le> n)) (channel_log st),
          channel_log_receipts := filter (\<lambda>r. \<not> (rc_channel r = key \<and> rc_seq r \<le> n)) (channel_log_receipts st)\<rparr>)"
    by (rule pruneE [OF assms(4)])
  have m: "m = length (filter (\<lambda>r. lr_channel r = key \<and> lr_seq r \<le> n) (channel_log st))"
    using assms(4) by (auto simp: pruneThrough_def rbind_Inr_conv split: if_splits)
  have s: "s \<in> set (channel_state st)" "sr_channel s = key" using stateOf_Inr [OF assms(2)] by simp_all
  have ok: "states_ok st'" using prune_ok [OF assms(1,4)] by (simp add: log_ok_def)
  have "s\<lparr>pruned_through := n\<rparr> \<in> set (channel_state st')" using s by (force simp: st')
  from stateOf_unique [OF ok this] s(2) show state: "stateOf key st' = Inr (s\<lparr>pruned_through := n\<rparr>)" by simp
  have "filter (\<lambda>r. lr_channel r = key \<and> a \<le> lr_seq r \<and> lr_seq r \<le> b) (channel_log st') =
      filter (\<lambda>r. lr_channel r = key \<and> max a (n + 1) \<le> lr_seq r \<and> lr_seq r \<le> b) (channel_log st)"
    by (auto simp: st' intro!: filter_cong)
  then show "readRange X key a b st' = readRange X key (max a (n + 1)) b st"
    by (simp add: readRange_def state assms(2))
  show "stateOf k st' = stateOf k st \<and> readRange X k a b st' = readRange X k a b st" if "k \<noteq> key"
  proof -
    have rows: "filter (\<lambda>r. lr_channel r = k \<and> a \<le> lr_seq r \<and> lr_seq r \<le> b) (channel_log st') =
        filter (\<lambda>r. lr_channel r = k \<and> a \<le> lr_seq r \<and> lr_seq r \<le> b) (channel_log st)"
      using that by (auto simp: st' intro!: filter_cong)
    have other: "stateOf k st' = stateOf k st" using that by (simp add: stateOf_def st' find_other_state)
    then show ?thesis by (simp add: readRange_def rows)
  qed
  have "f \<le> lr_seq r" if "r \<in> set (channel_log st)" "lr_channel r = key" for r
    using that assms(3) by (fastforce simp: seqs_def)
  then have "filter (\<lambda>r. lr_channel r = key \<and> lr_seq r \<le> n) (channel_log st) = laneRows key f n st"
    by (auto simp: laneRows_def intro!: filter_cong)
  then have count: "m = length (map lr_seq (sort_key lr_seq (laneRows key f n st)))" by (simp add: m)
  have "map lr_seq (sort_key lr_seq (laneRows key f n st)) = [f..min n (next_seq s - 1)]"
    using laneRows_seqs [of X st key f "next_seq s" f n] assms(1,3) by (simp add: log_ok_def)
  then show "m = length [f..min n (next_seq s - 1)]" unfolding count by (rule arg_cong)
qed

text \<open>C31: The log has no holes and every row in it can be read: in any state the store reaches, the
  positions of a lane are an unbroken run ending just before the next position to be written, and a
  range read returns exactly the posts of the run that lie in the range, in order, each of them
  verified and of this lane. Pruning only moves the start of the run: when it does not throw, it deletes
  exactly the posts of the lane up to the position named and says how many, reads above are answered as
  before, the next position to be written stays, and no other lane is touched.\<close>

theorem log_reads_without_gaps:
  assumes "codec_ok X" and "stateOf key (foldl (log_step X) emptyLog es) = Inr s"
  shows "\<exists>f \<ge> 1. (\<forall>a b. \<exists>posts.
      readRange X key a b (foldl (log_step X) emptyLog es) = Inr posts \<and>
      map ba_seq posts = [max a f..min b (next_seq s - 1)] \<and>
      (\<forall>p \<in> set posts. verifyBroadcastArtifact X p = None \<and> laneKeyOf p = key)) \<and>
    (\<forall>n m st'. pruneThrough key n (foldl (log_step X) emptyLog es) = Inr (m, st') \<longrightarrow>
      m = length [f..min n (next_seq s - 1)] \<and> stateOf key st' = Inr (s\<lparr>pruned_through := n\<rparr>) \<and>
      (\<forall>a b. readRange X key a b st' = readRange X key (max a (n + 1)) b (foldl (log_step X) emptyLog es)) \<and>
      (\<forall>k a b. k \<noteq> key \<longrightarrow> stateOf k st' = stateOf k (foldl (log_step X) emptyLog es) \<and>
        readRange X k a b st' = readRange X k a b (foldl (log_step X) emptyLog es)))"
proof -
  let ?st = "foldl (log_step X) emptyLog es"
  have ok: "log_ok X ?st" by (rule run_ok [OF assms(1)])
  obtain f where f: "1 \<le> f" "seqs key ?st = {f..<next_seq s}" and reads: "\<forall>a b. \<exists>posts. readRange X key a b ?st = Inr posts \<and>
      map ba_seq posts = [max a f..min b (next_seq s - 1)] \<and>
      (\<forall>p \<in> set posts. verifyBroadcastArtifact X p = None \<and> laneKeyOf p = key)"
    using readRange_ok [OF ok assms(2)] by blast
  note prune = prune_moves_start [OF ok assms(2) f(2)]
  show ?thesis
  proof (intro exI [of _ f] conjI allI impI)
    show "1 \<le> f" by (rule f)
    show "\<exists>posts. readRange X key a b ?st = Inr posts \<and> map ba_seq posts = [max a f..min b (next_seq s - 1)] \<and>
      (\<forall>p \<in> set posts. verifyBroadcastArtifact X p = None \<and> laneKeyOf p = key)" for a b
      using reads by blast
    fix n m st' assume p: "pruneThrough key n ?st = Inr (m, st')"
    show "m = length [f..min n (next_seq s - 1)]" by (rule prune(4) [OF p])
    show "stateOf key st' = Inr (s\<lparr>pruned_through := n\<rparr>)" by (rule prune(1) [OF p])
    show "readRange X key a b st' = readRange X key (max a (n + 1)) b ?st" for a b by (rule prune(2) [OF p])
    show "stateOf k st' = stateOf k ?st" if "k \<noteq> key" for k using prune(3) [OF p that] by blast
    show "readRange X k a b st' = readRange X k a b ?st" if "k \<noteq> key" for k a b using prune(3) [OF p that] by blast
  qed
qed

text \<open>A channel with one post, signed by the channel and an agent, under the ideal codec.\<close>

definition idealPrims :: Primitives where
  "idealPrims = samplePrims\<lparr>cb_enc := idealEncode, cb_dec := idealDecode\<rparr>"

definition ownPost :: BroadcastArtifact where
  "ownPost = samplePost\<lparr>ba_ext := None, ba_channel_signature := replicate 64 0\<rparr>"

definition ownKey :: string where
  "ownKey = laneKeyOf ownPost"

lemma ideal_ok: "codec_ok idealPrims"
  by (simp add: codec_ok_def idealPrims_def)

lemma ownPost_checked: "checkedBytes idealPrims ownKey ownPost = Inr (encodeBroadcastArtifact idealPrims ownPost)"
proof -
  have "decodeBroadcastArtifact idealPrims (encodeBroadcastArtifact idealPrims ownPost) = Inr ownPost"
    by (rule post_round_trip) (simp_all add: readsBack_def idealPrims_def ownPost_def samplePost_def samplePrims_def
        checkPost_def checkPostFields_def validateBroadcastTitle_def controlChar_def safeAtLeast_iff MAX_SAFE_INTEGER_def
        width_consts MAX_BROADCAST_TITLE_CHARS_def MAX_BROADCAST_BODY_BYTES_def supersedesVal_def)
  moreover have "verifyBroadcastArtifact idealPrims ownPost = None"
    by (simp add: verifyBroadcastArtifact_def idealPrims_def samplePrims_def ownPost_def samplePost_def)
  ultimately show ?thesis by (simp add: checkedBytes_def ownKey_def)
qed

definition ownRow :: LogRow where
  "ownRow = \<lparr>lr_channel = ownKey, lr_seq = 1, lr_published_at = 7, lr_title = ''t'',
     lr_post_cbor = encodeBroadcastArtifact idealPrims ownPost\<rparr>"

lemma ownPost_log:
  "foldl (log_step idealPrims) emptyLog [Ensure ownKey, Append ownKey ownPost] =
     \<lparr>channel_log = [ownRow], channel_log_receipts = [],
      channel_state = [\<lparr>sr_channel = ownKey, next_seq = 2, pruned_through = 0\<rparr>]\<rparr>"
proof -
  have f: "ba_seq ownPost = 1" "ba_published_at ownPost = 7" "ba_title ownPost = ''t''"
    by (simp_all add: ownPost_def samplePost_def)
  show ?thesis
    by (simp add: emptyLog_def ensureChannel_def append_post_def stateOf_def f ownPost_checked rowAt_def updateState_def
        kept_def ownRow_def)
qed

theorem log_reads_without_gaps_witness:
  "\<exists>f \<ge> 1. \<forall>a b. \<exists>posts.
    readRange idealPrims ownKey a b (foldl (log_step idealPrims) emptyLog [Ensure ownKey, Append ownKey ownPost]) = Inr posts \<and>
    map ba_seq posts = [max a f..min b 1] \<and> (\<forall>p \<in> set posts. verifyBroadcastArtifact idealPrims p = None \<and> laneKeyOf p = ownKey)"
proof -
  have "stateOf ownKey (foldl (log_step idealPrims) emptyLog [Ensure ownKey, Append ownKey ownPost]) =
      Inr \<lparr>sr_channel = ownKey, next_seq = 2, pruned_through = 0\<rparr>"
    unfolding ownPost_log by (simp add: stateOf_def)
  from log_reads_without_gaps [OF ideal_ok this] show ?thesis by (elim exE conjE) (intro exI conjI, assumption, simp)
qed

end
