(* ===== verification/Channel_Log_Receipts.thy ===== *)
theory Channel_Log_Receipts
  imports Channel_Log_Claims
begin

text \<open>A receipt settles its post: the row is never written again, only pruned.\<close>

section \<open>Settled positions\<close>

definition settled :: "string \<Rightarrow> int \<Rightarrow> bytes \<Rightarrow> ChannelLog \<Rightarrow> bool" where
  "settled key q cbor st \<longleftrightarrow>
     (\<exists>s \<in> set (channel_state st). sr_channel s = key \<and> q < next_seq s) \<and>
     (\<forall>r \<in> set (channel_log st). lr_channel r = key \<and> lr_seq r = q \<longrightarrow>
        lr_post_cbor r = cbor \<and> (\<exists>c \<in> set (channel_log_receipts st). rc_channel c = key \<and> rc_seq c = q))"

lemma ensure_settled: "settled key q cbor st \<Longrightarrow> settled key q cbor (ensureChannel k st)"
  by (auto simp: settled_def ensureChannel_def)

lemma append_settled:
  assumes "log_ok X st" and "settled key q cbor st" and "append_post X k post st = Inr (p, st')"
  shows "settled key q cbor st'"
proof -
  obtain s bytes where s: "stateOf k st = Inr s" "ba_seq post = next_seq s"
    and st': "st' = updateState k (\<lambda>s'. s'\<lparr>next_seq := next_seq s + 1\<rparr>)
      (st\<lparr>channel_log := channel_log st @ [\<lparr>lr_channel = k, lr_seq = ba_seq post, lr_published_at = ba_published_at post,
         lr_title = ba_title post, lr_post_cbor = bytes\<rparr>]\<rparr>)"
    by (rule appendE [OF assms(3)]) (rule that)
  obtain t where t: "t \<in> set (channel_state st)" "sr_channel t = key" "q < next_seq t"
    using assms(2) by (auto simp: settled_def)
  have same: "t = s" if "k = key"
    using stateOf_unique [of st t] s(1) t(1,2) that assms(1) by (simp add: log_ok_def)
  have "\<exists>s \<in> set (channel_state st'). sr_channel s = key \<and> q < next_seq s"
  proof (intro bexI conjI)
    let ?t = "if sr_channel t = k then t\<lparr>next_seq := next_seq s + 1\<rparr> else t"
    show "sr_channel ?t = key" "q < next_seq ?t" using t same by auto
    show "?t \<in> set (channel_state st')" using t(1) by (simp add: st')
  qed
  moreover have "\<not> (k = key \<and> ba_seq post = q)" using same t(3) s(2) by auto
  ultimately show ?thesis using assms(2) by (auto simp: settled_def st')
qed

lemma replace_settled:
  assumes "settled key q cbor st" and "replaceUnreceipted X k post st = Inr st'"
  shows "settled key q cbor st'"
proof -
  obtain bytes where c: "rowAt k (ba_seq post) st \<noteq> None"
      "\<not> list_ex (\<lambda>r. rc_channel r = k \<and> rc_seq r = ba_seq post) (channel_log_receipts st)"
    and st': "st' = st\<lparr>channel_log := map (\<lambda>r. if lr_channel r = k \<and> lr_seq r = ba_seq post
         then r\<lparr>lr_published_at := ba_published_at post, lr_title := ba_title post, lr_post_cbor := bytes\<rparr> else r) (channel_log st)\<rparr>"
    by (rule replaceE [OF assms(2)]) (rule that)
  have "\<not> (k = key \<and> ba_seq post = q)"
    using c assms(1) rowAt_Some by (fastforce simp: settled_def list_ex_iff)
  then show ?thesis using assms(1) by (auto simp: settled_def st')
qed

lemma receive_settled:
  assumes "settled key q cbor st" and "recordReceipt X k receipt st = Inr st'"
  shows "settled key q cbor st'"
proof (cases "st' = st")
  case False
  then show ?thesis
    by (rule receiveE [OF assms(2)]) (use assms(1) in \<open>fastforce simp: settled_def\<close>)
qed (use assms in simp)

lemma prune_settled:
  assumes "settled key q cbor st" and "pruneThrough k n st = Inr (m, st')"
  shows "settled key q cbor st'"
proof -
  obtain s where st': "st' = updateState k (\<lambda>s'. s'\<lparr>pruned_through := n\<rparr>)
      (st\<lparr>channel_log := filter (\<lambda>r. \<not> (lr_channel r = k \<and> lr_seq r \<le> n)) (channel_log st),
          channel_log_receipts := filter (\<lambda>r. \<not> (rc_channel r = k \<and> rc_seq r \<le> n)) (channel_log_receipts st)\<rparr>)"
    by (rule pruneE [OF assms(2)]) (rule that)
  obtain t where t: "t \<in> set (channel_state st)" "sr_channel t = key" "q < next_seq t"
    using assms(1) by (auto simp: settled_def)
  have "\<exists>s \<in> set (channel_state st'). sr_channel s = key \<and> q < next_seq s"
    using t by (intro bexI [of _ "if sr_channel t = k then t\<lparr>pruned_through := n\<rparr> else t"]) (auto simp: st')
  moreover have "lr_post_cbor r = cbor \<and> (\<exists>c \<in> set (channel_log_receipts st'). rc_channel c = key \<and> rc_seq c = q)"
    if r: "r \<in> set (channel_log st')" "lr_channel r = key" "lr_seq r = q" for r
  proof -
    have kept: "\<not> (key = k \<and> q \<le> n)" "r \<in> set (channel_log st)" using r by (auto simp: st')
    then obtain c where "lr_post_cbor r = cbor" "c \<in> set (channel_log_receipts st)" "rc_channel c = key" "rc_seq c = q"
      using assms(1) r(2,3) by (auto simp: settled_def)
    then show ?thesis using kept(1) by (auto simp: st' intro!: bexI [of _ c])
  qed
  ultimately show ?thesis by (simp add: settled_def)
qed

lemma log_step_settled: 
  assumes "log_ok X st" and "settled key q cbor st"
  shows "settled key q cbor (log_step X st e)"
proof (cases e)
  case (Ensure k)
  then show ?thesis using ensure_settled [OF assms(2)] by simp
next
  case (Append k post)
  show ?thesis unfolding Append log_step.simps
    by (rule kept_cases [where P = "settled key q cbor", OF assms(2)]) (use append_settled [OF assms] in \<open>auto simp: map_sum_Inr\<close>)
next
  case (Replace k post)
  show ?thesis unfolding Replace log_step.simps by (rule kept_cases [where P = "settled key q cbor", OF assms(2)]) (rule replace_settled [OF assms(2)])
next
  case (Receive k receipt)
  show ?thesis unfolding Receive log_step.simps by (rule kept_cases [where P = "settled key q cbor", OF assms(2)]) (rule receive_settled [OF assms(2)])
next
  case (Prune k n)
  show ?thesis unfolding Prune log_step.simps
    by (rule kept_cases [where P = "settled key q cbor", OF assms(2)]) (use prune_settled [OF assms(2)] in \<open>auto simp: map_sum_Inr\<close>)
qed

interpretation settled: machine "log_step X" "\<lambda>st. (codec_ok X \<and> log_ok X st) \<and> settled key q cbor st" for X key q cbor
  by unfold_locales (simp add: log_step_ok log_step_settled)

section \<open>What a receipt proves\<close>

lemma receipt_inj:
  assumes "codec_ok X" and "encodeRelayPostReceipt X a = encodeRelayPostReceipt X b"
  shows "a = b"
  using assms by (cases a; cases b) (simp add: encodeRelayPostReceipt_def enc_inj receiptTbsSlots_def)

lemma receiptsFor_row:
  assumes "codec_ok X" and "receiptsFor X key q st = Inr receipts" and "receipt \<in> set receipts"
  obtains c where "c \<in> set (channel_log_receipts st)" "rc_channel c = key" "rc_seq c = q"
    "rc_receipt_cbor c = encodeRelayPostReceipt X receipt"
proof -
  obtain c where c: "c \<in> set (channel_log_receipts st)" "rc_channel c = key" "rc_seq c = q"
      "decodeRelayPostReceipt X (rc_receipt_cbor c) = Inr receipt"
    using assms(2,3) by (auto simp: receiptsFor_def rbind_Inr_conv dest!: rmap_all split: sum.splits)
  then show ?thesis using that decoded_receipt by metis
qed

text \<open>C32: A receipt settles its post: a receipt the log gives out was checked against the post that the log
  holds at that position, and from then on, whatever is appended, replaced, receipted or pruned, the
  position holds this very post or, once pruned, nothing; it is never written again.\<close>

theorem receipted_post_is_final:
  assumes "codec_ok X" and "receiptsFor X key q (foldl (log_step X) emptyLog es) = Inr receipts" and "receipt \<in> set receipts"
  shows "\<exists>post. postAt X key q (foldl (log_step X) emptyLog es) = Inr (Some post) \<and> ba_seq post = q \<and>
    verifyRelayPostReceipt X receipt post \<and>
    (\<forall>later. postAt X key q (foldl (log_step X) emptyLog (es @ later)) \<in> {Inr (Some post), Inr None})"
proof -
  let ?st = "foldl (log_step X) emptyLog es"
  have ok: "log_ok X ?st" using channel.run_inv [of X emptyLog es] assms(1) empty_ok by blast
  obtain c where c: "c \<in> set (channel_log_receipts ?st)" "rc_channel c = key" "rc_seq c = q"
      "rc_receipt_cbor c = encodeRelayPostReceipt X receipt"
    by (rule receiptsFor_row [OF assms]) (rule that)
  have "receipt_backed X ?st c" using ok c(1) by (simp add: log_ok_def receipts_ok_def)
  then obtain r post where r: "r \<in> set (channel_log ?st)" "lr_channel r = key" "lr_seq r = q"
      "decodeBroadcastArtifact X (lr_post_cbor r) = Inr post" "verifyRelayPostReceipt X receipt post"
    using c receipt_inj [OF assms(1)] by (fastforce simp: receipt_backed_def)
  have rows: "rows_ok X ?st" using ok by (simp add: log_ok_def)
  then have p: "post_in_lane X r post" using r(1,4) by (fastforce simp: rows_ok_def post_in_lane_def)
  have at: "rowAt key q ?st = Some r" using rowAt_unique [OF rows r(1)] r(2,3) by simp
  have one: "x = r" if "x \<in> set (channel_log ?st)" "lr_channel x = key" "lr_seq x = q" for x
    using rowAt_unique [OF rows that(1)] at that(2,3) by simp
  obtain s where s: "s \<in> set (channel_state ?st)" "sr_channel s = key"
    using ok r(1,2) by (fastforce simp: log_ok_def states_ok_def)
  have "q \<in> seqs key ?st" using r(1-3) by (auto simp: seqs_def)
  then have "q < next_seq s" using states_okD [OF _ s(1)] s(2) ok by (auto simp: log_ok_def)
  then have set: "settled key q (lr_post_cbor r) ?st" using s one c(1-3) by (auto simp: settled_def)
  have later: "postAt X key q (foldl (log_step X) emptyLog (es @ later)) \<in> {Inr (Some post), Inr None}" for later
  proof (cases "rowAt key q (foldl (log_step X) ?st later)")
    case (Some x)
    have "settled key q (lr_post_cbor r) (foldl (log_step X) ?st later)"
      using settled.run_inv [of X ?st key q "lr_post_cbor r" later] assms(1) ok set by blast
    then have "lr_post_cbor x = lr_post_cbor r" using rowAt_Some [OF Some] by (auto simp: settled_def)
    then show ?thesis using Some decodeRow_stored [OF p] by (simp add: postAt_def)
  qed (simp add: postAt_def)
  have "postAt X key q ?st = Inr (Some post)" using at decodeRow_stored [OF p] by (simp add: postAt_def)
  then show ?thesis using later r(5) p r(3) by (auto simp: post_in_lane_def)
qed

text \<open>The post of the sample channel, acknowledged and then pruned.\<close>

definition ownReceipt :: RelayPostReceipt where
  "ownReceipt = sampleReceipt"

lemma ownReceipt_log:
  "foldl (log_step idealPrims) emptyLog [Ensure ownKey, Append ownKey ownPost, Receive ownKey ownReceipt] =
     \<lparr>channel_log = [ownRow],
      channel_log_receipts = [\<lparr>rc_channel = ownKey, rc_seq = 1, rc_relay = bytesToHex (replicate 32 3), rc_received_at = 8,
        rc_receipt_cbor = encodeRelayPostReceipt idealPrims ownReceipt\<rparr>],
      channel_state = [\<lparr>sr_channel = ownKey, next_seq = 2, pruned_through = 0\<rparr>]\<rparr>"
proof -
  let ?st = "\<lparr>channel_log = [ownRow], channel_log_receipts = [],
      channel_state = [\<lparr>sr_channel = ownKey, next_seq = 2, pruned_through = 0\<rparr>]\<rparr>"
  have key: "ownKey = bytesToHex (replicate 32 1)"
    by (simp add: ownKey_def laneKeyOf_def ownPost_def samplePost_def)
  have one: "byteHex 1 = ''01''" by code_simp
  have slash: "channelOfKey ownKey = ownKey"
    unfolding key channelOfKey_def bytesToHex_def by (simp add: numeral_eq_Suc one)
  have "decodeRow idealPrims (encodeBroadcastArtifact idealPrims ownPost) = Inr ownPost"
    using ownPost_checked by (auto simp: checkedBytes_def decodeRow_def Let_def split: sum.splits if_splits
        dest: decode_encode_post [OF ideal_ok])
  then have at: "postAt idealPrims ownKey 1 ?st = Inr (Some ownPost)"
    by (simp add: postAt_def rowAt_def ownRow_def)
  have "verifyRelayPostReceipt idealPrims ownReceipt ownPost"
    by (simp add: verifyRelayPostReceipt_def ownReceipt_def sampleReceipt_def ownPost_def samplePost_def idealPrims_def
        samplePrims_def broadcastPostHash_def hash_def)
  then have "recordReceipt idealPrims ownKey ownReceipt ?st = Inr (?st\<lparr>channel_log_receipts :=
      [\<lparr>rc_channel = ownKey, rc_seq = 1, rc_relay = bytesToHex (replicate 32 3), rc_received_at = 8,
        rc_receipt_cbor = encodeRelayPostReceipt idealPrims ownReceipt\<rparr>]\<rparr>)"
    using at slash key by (simp add: recordReceipt_def stateOf_def ownReceipt_def sampleReceipt_def)
  moreover have "foldl (log_step idealPrims) emptyLog [Ensure ownKey, Append ownKey ownPost, Receive ownKey ownReceipt] =
      kept ?st (recordReceipt idealPrims ownKey ownReceipt ?st)"
    using ownPost_log by (simp add: foldl_append [of _ _ "[Ensure ownKey, Append ownKey ownPost]", simplified])
  ultimately show ?thesis by (simp add: kept_def)
qed

theorem receipted_post_is_final_witness:
  "\<forall>later. postAt idealPrims ownKey 1 (foldl (log_step idealPrims) emptyLog
      ([Ensure ownKey, Append ownKey ownPost, Receive ownKey ownReceipt] @ later)) \<in> {Inr (Some ownPost), Inr None}"
proof -
  let ?es = "[Ensure ownKey, Append ownKey ownPost, Receive ownKey ownReceipt]"
  have "decodeRelayPostReceipt idealPrims (encodeRelayPostReceipt idealPrims ownReceipt) = Inr ownReceipt"
    by (rule receipt_round_trip) (simp_all add: readsBack_def idealPrims_def ownReceipt_def sampleReceipt_def samplePrims_def
        checkReceiptFields_def safeAtLeast_iff MAX_SAFE_INTEGER_def width_consts)
  then have "receiptsFor idealPrims ownKey 1 (foldl (log_step idealPrims) emptyLog ?es) = Inr [ownReceipt]"
    unfolding ownReceipt_log by (simp add: receiptsFor_def stateOf_def)
  from receipted_post_is_final [OF ideal_ok this, of ownReceipt]
  obtain post where post: "postAt idealPrims ownKey 1 (foldl (log_step idealPrims) emptyLog ?es) = Inr (Some post)"
    "\<forall>later. postAt idealPrims ownKey 1 (foldl (log_step idealPrims) emptyLog (?es @ later)) \<in> {Inr (Some post), Inr None}"
    by auto
  have "post = ownPost"
    using post(1) unfolding ownReceipt_log
    by (auto simp: postAt_def rowAt_def ownRow_def decodeRow_def rbind_Inr_conv split: sum.splits if_splits
        dest: decode_encode_post [OF ideal_ok])
  with post(2) show ?thesis by simp
qed

end
