(* ===== verification/Channel_Inbox.thy ===== *)
theory Channel_Inbox
  imports Channel_Log "HOL-Library.Product_Lexorder"
begin

text \<open>
  The subscriber's tables: \<open>channel-inbox-store.ts\<close> (collected posts, a fork keeps both rows),
  \<open>channel-subscription-store.ts\<close> and \<open>channel-lane-position-store.ts\<close>. Each table is a list of
  rows. The relays column, JSON text of an array of strings, is that array; \<open>joined_at\<close>, which no query reads, is left out.
\<close>

section \<open>Collected posts\<close>

record InboxRow =
  in_agent :: string
  in_channel :: string
  in_seq :: int
  in_hash :: string
  in_cbor :: bytes
  in_receipt :: "bytes option"
  in_relay :: string
  in_at :: int

datatype ChannelInboxErrorCode = InboxPostInvalid | InboxRowCorrupt

definition postHashHex :: "Primitives \<Rightarrow> BroadcastArtifact \<Rightarrow> string" where
  "postHashHex X post = bytesToHex (broadcastPostHash X post)"

definition storePost ::
  "Primitives \<Rightarrow> string \<Rightarrow> string \<Rightarrow> BroadcastArtifact \<Rightarrow> bytes option \<Rightarrow> string \<Rightarrow> int \<Rightarrow> InboxRow list \<Rightarrow> bool \<times> InboxRow list" where
  "storePost X agentId channelHex post receiptCbor fromRelay collectedAt rows =
     (let key = toLower channelHex; hashHex = postHashHex X post in
      if list_ex (\<lambda>r. in_agent r = agentId \<and> in_channel r = key \<and> in_seq r = ba_seq post \<and> in_hash r = hashHex) rows
      then (False, rows)
      else (True, rows @ [\<lparr>in_agent = agentId, in_channel = key, in_seq = ba_seq post, in_hash = hashHex,
        in_cbor = encodeBroadcastArtifact X post, in_receipt = receiptCbor, in_relay = fromRelay, in_at = collectedAt\<rparr>]))"

definition inboxRows :: "string \<Rightarrow> string \<Rightarrow> InboxRow list \<Rightarrow> InboxRow list" where
  "inboxRows agentId channelHex rows = filter (\<lambda>r. in_agent r = agentId \<and> in_channel r = toLower channelHex) rows"

definition inboxBetween :: "string \<Rightarrow> string \<Rightarrow> int \<Rightarrow> int \<Rightarrow> InboxRow list \<Rightarrow> InboxRow list" where
  "inboxBetween agentId channelHex fromSeq toSeq rows =
     sort_key (\<lambda>r. (in_seq r, in_hash r)) (filter (\<lambda>r. fromSeq \<le> in_seq r \<and> in_seq r \<le> toSeq) (inboxRows agentId channelHex rows))"

definition inboxDecode :: "Primitives \<Rightarrow> InboxRow \<Rightarrow> ChannelInboxErrorCode + BroadcastArtifact" where
  "inboxDecode X r = (case decodeBroadcastArtifact X (in_cbor r) of Inl _ \<Rightarrow> Inl InboxRowCorrupt | Inr a \<Rightarrow> Inr a)"

definition inboxRange ::
  "Primitives \<Rightarrow> string \<Rightarrow> string \<Rightarrow> int \<Rightarrow> int \<Rightarrow> InboxRow list \<Rightarrow> ChannelInboxErrorCode + BroadcastArtifact list" where
  "inboxRange X agentId channelHex fromSeq toSeq rows = rmap (inboxDecode X) (inboxBetween agentId channelHex fromSeq toSeq rows)"

text \<open>With the time the relay's receipt names, or the time of collection.\<close>

definition inboxRangeTimed ::
  "Primitives \<Rightarrow> string \<Rightarrow> string \<Rightarrow> int \<Rightarrow> int \<Rightarrow> InboxRow list \<Rightarrow> ChannelInboxErrorCode + (BroadcastArtifact \<times> int) list" where
  "inboxRangeTimed X agentId channelHex fromSeq toSeq rows =
     rmap (\<lambda>r. rbind (inboxDecode X r) (\<lambda>post. Inr (post,
         case in_receipt r of
           None \<Rightarrow> in_at r
         | Some c \<Rightarrow> (case decodeRelayPostReceipt X c of Inl _ \<Rightarrow> in_at r | Inr receipt \<Rightarrow> rr_received_at receipt))))
       (inboxBetween agentId channelHex fromSeq toSeq rows)"

definition forksFor :: "Primitives \<Rightarrow> string \<Rightarrow> string \<Rightarrow> int \<Rightarrow> InboxRow list \<Rightarrow> ChannelInboxErrorCode + BroadcastArtifact list" where
  "forksFor X agentId channelHex seq rows = inboxRange X agentId channelHex seq seq rows"

definition heldSeqs :: "string \<Rightarrow> string \<Rightarrow> InboxRow list \<Rightarrow> int list" where
  "heldSeqs agentId channelHex rows = sort (remdups (map in_seq (inboxRows agentId channelHex rows)))"

definition forkedSeqs :: "string \<Rightarrow> string \<Rightarrow> InboxRow list \<Rightarrow> int list" where
  "forkedSeqs agentId channelHex rows =
     filter (\<lambda>q. 1 < card (in_hash ` set (filter (\<lambda>r. in_seq r = q) (inboxRows agentId channelHex rows))))
       (heldSeqs agentId channelHex rows)"

section \<open>Subscriptions\<close>

datatype SubscriptionStatus = SubActive | SubLeft | SubEjected | SubClosed

datatype ChannelNotifyMode = NotifyPush | NotifyPull

record ChannelSubscription =
  su_agent :: string
  su_channel :: string
  admin_pubkey :: string
  access :: string
  relays :: "string list"
  moniker :: string
  guidance :: string
  guidance_updated_at :: int
  retention_seconds :: int
  delivered_through :: int
  processed_through :: int
  status :: SubscriptionStatus
  notify :: ChannelNotifyMode

record SubscriptionKey =
  sk_agent :: string
  sk_channel :: string
  generation :: int
  group_key :: bytes

record SubscriptionTables =
  channel_subscriptions :: "ChannelSubscription list"
  channel_subscription_keys :: "SubscriptionKey list"

datatype ChannelSubscriptionErrorCode = SubscriptionUnknown | PositionRegression

type_synonym 'a sub_result = "ChannelSubscriptionErrorCode + 'a"

definition isRow :: "string \<Rightarrow> string \<Rightarrow> ChannelSubscription \<Rightarrow> bool" where
  "isRow agentId channelHex s \<longleftrightarrow> su_agent s = agentId \<and> su_channel s = toLower channelHex"

definition getSubscription :: "string \<Rightarrow> string \<Rightarrow> SubscriptionTables \<Rightarrow> ChannelSubscription option" where
  "getSubscription agentId channelHex T = find (isRow agentId channelHex) (channel_subscriptions T)"

definition updateRows ::
  "string \<Rightarrow> string \<Rightarrow> (ChannelSubscription \<Rightarrow> ChannelSubscription) \<Rightarrow> SubscriptionTables \<Rightarrow> SubscriptionTables" where
  "updateRows agentId channelHex f T =
     T\<lparr>channel_subscriptions := map (\<lambda>s. if isRow agentId channelHex s then f s else s) (channel_subscriptions T)\<rparr>"

text \<open>A new subscription pushes and starts at position 0; a repeated one keeps its positions.\<close>

definition upsertSubscription ::
  "string \<Rightarrow> string \<Rightarrow> string \<Rightarrow> string \<Rightarrow> string list \<Rightarrow> string option \<Rightarrow> int option \<Rightarrow> SubscriptionTables \<Rightarrow> SubscriptionTables" where
  "upsertSubscription agentId channelHex adminHex acc rs guide retention T =
     (let set = (\<lambda>s. s\<lparr>admin_pubkey := toLower adminHex, access := acc, relays := rs, guidance := (case guide of None \<Rightarrow> [] | Some g \<Rightarrow> g),
              retention_seconds := (case retention of None \<Rightarrow> 7 * 24 * 60 * 60 | Some n \<Rightarrow> n), status := SubActive\<rparr>) in
      if getSubscription agentId channelHex T \<noteq> None then updateRows agentId channelHex set T
      else T\<lparr>channel_subscriptions := channel_subscriptions T @ [set
        \<lparr>su_agent = agentId, su_channel = toLower channelHex, admin_pubkey = [], access = [], relays = [], moniker = [], guidance = [],
         guidance_updated_at = 0, retention_seconds = 0, delivered_through = 0, processed_through = 0, status = SubActive,
         notify = NotifyPush\<rparr>]\<rparr>)"

definition activeSubscriptions :: "SubscriptionTables \<Rightarrow> ChannelSubscription list" where
  "activeSubscriptions T =
     sort_key (\<lambda>s. (su_channel s, su_agent s)) (filter (\<lambda>s. status s = SubActive) (channel_subscriptions T))"

definition listedFor :: "string \<Rightarrow> SubscriptionTables \<Rightarrow> ChannelSubscription list" where
  "listedFor agentId T =
     sort_key su_channel (filter (\<lambda>s. su_agent s = agentId \<and> status s \<noteq> SubLeft) (channel_subscriptions T))"

definition setDeliveredThrough :: "string \<Rightarrow> string \<Rightarrow> int \<Rightarrow> SubscriptionTables \<Rightarrow> SubscriptionTables sub_result" where
  "setDeliveredThrough agentId channelHex seq T =
     (case getSubscription agentId channelHex T of
        None \<Rightarrow> Inl SubscriptionUnknown
      | Some current \<Rightarrow>
          if seq < delivered_through current then Inl PositionRegression
          else if seq = delivered_through current then Inr T
          else Inr (updateRows agentId channelHex (\<lambda>s. s\<lparr>delivered_through := seq\<rparr>) T))"

definition advanceProcessed :: "string \<Rightarrow> string \<Rightarrow> int \<Rightarrow> SubscriptionTables \<Rightarrow> SubscriptionTables sub_result" where
  "advanceProcessed agentId channelHex seq T =
     (case getSubscription agentId channelHex T of
        None \<Rightarrow> Inl SubscriptionUnknown
      | Some current \<Rightarrow>
          if seq < processed_through current then Inl PositionRegression
          else if seq = processed_through current then Inr T
          else Inr (updateRows agentId channelHex (\<lambda>s. s\<lparr>processed_through := seq\<rparr>) T))"

definition setStatus :: "SubscriptionStatus \<Rightarrow> string \<Rightarrow> string \<Rightarrow> SubscriptionTables \<Rightarrow> SubscriptionTables sub_result" where
  "setStatus st agentId channelHex T =
     (if getSubscription agentId channelHex T = None then Inl SubscriptionUnknown
      else Inr (updateRows agentId channelHex (\<lambda>s. s\<lparr>status := st\<rparr>) T))"

definition markLeft :: "string \<Rightarrow> string \<Rightarrow> SubscriptionTables \<Rightarrow> SubscriptionTables sub_result" where
  "markLeft = setStatus SubLeft"

definition markEjected :: "string \<Rightarrow> string \<Rightarrow> SubscriptionTables \<Rightarrow> SubscriptionTables sub_result" where
  "markEjected = setStatus SubEjected"

definition markClosed :: "string \<Rightarrow> string \<Rightarrow> SubscriptionTables \<Rightarrow> SubscriptionTables sub_result" where
  "markClosed = setStatus SubClosed"

definition setGuidance :: "string \<Rightarrow> string \<Rightarrow> string \<Rightarrow> int \<Rightarrow> SubscriptionTables \<Rightarrow> SubscriptionTables" where
  "setGuidance agentId channelHex g updatedAt =
     updateRows agentId channelHex (\<lambda>s. s\<lparr>guidance := g, guidance_updated_at := updatedAt\<rparr>)"

definition setMoniker :: "string \<Rightarrow> string \<Rightarrow> string \<Rightarrow> SubscriptionTables \<Rightarrow> SubscriptionTables" where
  "setMoniker agentId channelHex m = updateRows agentId channelHex (\<lambda>s. s\<lparr>moniker := m\<rparr>)"

definition setNotify :: "string \<Rightarrow> string \<Rightarrow> ChannelNotifyMode \<Rightarrow> SubscriptionTables \<Rightarrow> SubscriptionTables" where
  "setNotify agentId channelHex mode = updateRows agentId channelHex (\<lambda>s. s\<lparr>notify := mode\<rparr>)"

definition notifyFor :: "string \<Rightarrow> string \<Rightarrow> SubscriptionTables \<Rightarrow> ChannelNotifyMode" where
  "notifyFor agentId channelHex T = (case getSubscription agentId channelHex T of None \<Rightarrow> NotifyPush | Some s \<Rightarrow> notify s)"

definition isSubscribedChannel :: "string \<Rightarrow> string \<Rightarrow> SubscriptionTables \<Rightarrow> bool" where
  "isSubscribedChannel agentId pubkeyHex T \<longleftrightarrow> getSubscription agentId pubkeyHex T \<noteq> None"

definition addKey :: "string \<Rightarrow> string \<Rightarrow> int \<Rightarrow> bytes \<Rightarrow> SubscriptionTables \<Rightarrow> SubscriptionTables" where
  "addKey agentId channelHex gen key T =
     (if list_ex (\<lambda>k. sk_agent k = agentId \<and> sk_channel k = toLower channelHex \<and> generation k = gen) (channel_subscription_keys T)
      then T
      else T\<lparr>channel_subscription_keys := channel_subscription_keys T @
        [\<lparr>sk_agent = agentId, sk_channel = toLower channelHex, generation = gen, group_key = key\<rparr>]\<rparr>)"

definition keysFor :: "string \<Rightarrow> string \<Rightarrow> SubscriptionTables \<Rightarrow> (int \<times> bytes) list" where
  "keysFor agentId channelHex T =
     map (\<lambda>k. (generation k, group_key k))
       (sort_key (\<lambda>k. - generation k)
          (filter (\<lambda>k. sk_agent k = agentId \<and> sk_channel k = toLower channelHex) (channel_subscription_keys T)))"

section \<open>Positions in posters' lanes\<close>

record LaneRow =
  ln_agent :: string
  ln_channel :: string
  lane_poster :: string
  lane_delivered :: int
  lane_processed :: int

record LanePosition =
  lp_poster :: string
  lp_delivered :: int
  lp_processed :: int

definition lanesOf :: "string \<Rightarrow> string \<Rightarrow> LaneRow list \<Rightarrow> LanePosition list" where
  "lanesOf agentId channelHex rows =
     map (\<lambda>l. \<lparr>lp_poster = lane_poster l, lp_delivered = lane_delivered l, lp_processed = lane_processed l\<rparr>)
       (sort_key lane_poster (filter (\<lambda>l. ln_agent l = agentId \<and> ln_channel l = channelHex) rows))"

definition getLane :: "string \<Rightarrow> string \<Rightarrow> string \<Rightarrow> LaneRow list \<Rightarrow> LanePosition" where
  "getLane agentId channelHex posterHex rows =
     (case find (\<lambda>l. lp_poster l = posterHex) (lanesOf agentId channelHex rows) of
        None \<Rightarrow> \<lparr>lp_poster = posterHex, lp_delivered = 0, lp_processed = 0\<rparr>
      | Some l \<Rightarrow> l)"

definition isLane :: "string \<Rightarrow> string \<Rightarrow> string \<Rightarrow> LaneRow \<Rightarrow> bool" where
  "isLane agentId channelHex posterHex l \<longleftrightarrow>
     ln_agent l = agentId \<and> ln_channel l = channelHex \<and> lane_poster l = posterHex"

definition setDelivered :: "string \<Rightarrow> string \<Rightarrow> string \<Rightarrow> int \<Rightarrow> LaneRow list \<Rightarrow> LaneRow list" where
  "setDelivered agentId channelHex posterHex seq rows =
     (if list_ex (isLane agentId channelHex posterHex) rows
      then map (\<lambda>l. if isLane agentId channelHex posterHex l then l\<lparr>lane_delivered := max (lane_delivered l) seq\<rparr> else l) rows
      else rows @ [\<lparr>ln_agent = agentId, ln_channel = channelHex, lane_poster = posterHex, lane_delivered = seq, lane_processed = 0\<rparr>])"

definition advanceLaneProcessed :: "string \<Rightarrow> string \<Rightarrow> string \<Rightarrow> int \<Rightarrow> LaneRow list \<Rightarrow> LaneRow list" where
  "advanceLaneProcessed agentId channelHex posterHex seq rows =
     map (\<lambda>l. if isLane agentId channelHex posterHex l
            then l\<lparr>lane_processed := min (lane_delivered l) (max (lane_processed l) seq)\<rparr> else l) rows"

definition unread :: "string \<Rightarrow> string \<Rightarrow> LaneRow list \<Rightarrow> int" where
  "unread agentId channelHex rows =
     sum_list (map (\<lambda>l. max 0 (lp_delivered l - lp_processed l)) (lanesOf agentId channelHex rows))"

end
