(* ===== verification/Channel_Collector.thy ===== *)
theory Channel_Collector
  imports Channel_Inbox
begin

text \<open>
  The subscriber's collector, \<open>channel-collector.ts\<close>: fetch from every relay, verify, store, advance
  the delivered position over what is held, report gaps, ask for repairs. A function that awaits is
  the composition of the steps between its awaits; the relays' answers are arguments. What a store
  throws leaves the function at that point, with the state as it is then. Log lines are left out; the
  loop that logs forks reads and decodes every version of a forked post, and throws on one that does not
  decode.
\<close>

section \<open>Answers of relays\<close>

text \<open>An entry of an answer, with the clock's reading when it is stored.\<close>

record RelayEntry =
  re_cbor :: bytes
  re_receipt :: "bytes option"
  re_clock :: int

record FetchRequest =
  fq_since :: int
  fq_max_bytes :: int
  fq_auth :: "(bytes \<times> int) option"
  fq_agents :: "bytes list"
  fq_lane :: "string option"

datatype FetchAnswer = FetchOk (fa_posts: "RelayEntry list") (fa_first_held: "int option") | FetchRefused string | FetchThrew string

record PosterRevocation =
  rv_poster :: bytes
  rv_at :: int

datatype DropCheck = DropDecode | DropChannel | DropSignature | DropTitle | DropAdmin | DropPoster | DropRevoked

section \<open>Verification before storing\<close>

definition revokedBy :: "string \<Rightarrow> int \<Rightarrow> PosterRevocation \<Rightarrow> bool" where
  "revokedBy agentHex issuedAt r \<longleftrightarrow> bytesToHex (rv_poster r) = agentHex \<and> issuedAt \<le> rv_at r"

definition verifyPost ::
  "Primitives \<Rightarrow> string \<Rightarrow> string \<Rightarrow> string option \<Rightarrow> PosterRevocation list \<Rightarrow> bytes \<Rightarrow> DropCheck + BroadcastArtifact" where
  "verifyPost X channelHex adminPubkeyHex lanePosterHex revoked cbor =
     (case decodeBroadcastArtifact X cbor of
        Inl _ \<Rightarrow> Inl DropDecode
      | Inr post \<Rightarrow>
          if bytesToHex (ba_channel_pubkey post) \<noteq> toLower channelHex then Inl DropChannel
          else if verifyBroadcastArtifact X post \<noteq> None then Inl DropSignature
          else if \<not> validateBroadcastTitle X (JText (ba_title post)) then Inl DropTitle
          else let agentHex = bytesToHex (ba_agent_pubkey post) in
            case lanePosterHex of
              None \<Rightarrow> if agentHex \<noteq> toLower adminPubkeyHex then Inl DropAdmin else Inr post
            | Some posterHex \<Rightarrow>
                (case ba_ext post of
                   None \<Rightarrow> Inl DropPoster
                 | Some pass \<Rightarrow>
                     if agentHex \<noteq> posterHex then Inl DropPoster
                     else (case decodeChannelPosterPass X pass of
                             Inl _ \<Rightarrow> Inl DropRevoked
                           | Inr p \<Rightarrow> if list_ex (revokedBy agentHex (pp_issued_at p)) revoked then Inl DropRevoked else Inr post)))"

section \<open>State\<close>

text \<open>\<open>notified\<close> is the sequence of calls of \<open>onDelivered\<close>: agent, channel, count, position, posters.\<close>

record Collector =
  subs :: SubscriptionTables
  inbox :: "InboxRow list"
  lanePositions :: "LaneRow list"
  firstHeld :: "string \<Rightarrow> int option"
  repairRequested :: "string \<Rightarrow> int list"
  notified :: "(string \<times> string \<times> nat \<times> int \<times> string list) list"

definition laneKey :: "string \<Rightarrow> string \<Rightarrow> string" where
  "laneKey channelHex posterHex = channelHex @ ''/'' @ posterHex"

definition keyFor :: "string \<Rightarrow> string option \<Rightarrow> string" where
  "keyFor channelHex lane = (case lane of None \<Rightarrow> channelHex | Some posterHex \<Rightarrow> laneKey channelHex posterHex)"

section \<open>Taking an answer\<close>

definition ingestEntry ::
  "Primitives \<Rightarrow> string \<Rightarrow> string \<Rightarrow> string \<Rightarrow> string option \<Rightarrow> string \<Rightarrow> PosterRevocation list \<Rightarrow> InboxRow list \<Rightarrow> RelayEntry \<Rightarrow> InboxRow list" where
  "ingestEntry X agentId channelHex adminHex lane relay revoked rows entry =
     (case verifyPost X channelHex adminHex lane revoked (re_cbor entry) of
        Inl _ \<Rightarrow> rows
      | Inr post \<Rightarrow>
          snd (storePost X agentId (keyFor channelHex lane) post (re_receipt entry) relay (re_clock entry) rows))"

definition ingest ::
  "Primitives \<Rightarrow> string \<Rightarrow> string \<Rightarrow> string \<Rightarrow> string option \<Rightarrow> string \<Rightarrow> PosterRevocation list \<Rightarrow> FetchAnswer \<Rightarrow> Collector \<Rightarrow> Collector" where
  "ingest X agentId channelHex adminHex lane relay revoked answer st =
     (case answer of
        FetchOk posts _ \<Rightarrow> st\<lparr>inbox := foldl (ingestEntry X agentId channelHex adminHex lane relay revoked) (inbox st) posts\<rparr>
      | _ \<Rightarrow> st)"

definition lowerFirst :: "int option \<Rightarrow> FetchAnswer \<Rightarrow> int option" where
  "lowerFirst lowest answer =
     (case answer of
        FetchOk _ (Some f) \<Rightarrow> Some (case lowest of None \<Rightarrow> f | Some l \<Rightarrow> min l f)
      | _ \<Rightarrow> lowest)"

definition setFirstHeld :: "string \<Rightarrow> int option \<Rightarrow> Collector \<Rightarrow> Collector" where
  "setFirstHeld key lowest st = (case lowest of None \<Rightarrow> st | Some f \<Rightarrow> st\<lparr>firstHeld := (firstHeld st)(key \<mapsto> f)\<rparr>)"

section \<open>Advancing\<close>

function runFrom :: "int list \<Rightarrow> int list \<Rightarrow> int \<Rightarrow> int \<Rightarrow> nat \<Rightarrow> int \<times> nat" where
  "runFrom held forked nxt advanced delivered =
     (if nxt \<in> set held \<and> nxt \<notin> set forked then runFrom held forked (nxt + 1) nxt (delivered + 1)
      else (advanced, delivered))"
  by pat_completeness auto
termination
proof (relation "measure (\<lambda>(held, forked, nxt, advanced, delivered). card {q \<in> set held. nxt \<le> q})")
  fix held forked :: "int list" and nxt advanced :: int and delivered :: nat
  assume "nxt \<in> set held \<and> nxt \<notin> set forked"
  then have "nxt \<in> {q \<in> set held. nxt \<le> q} - {q \<in> set held. nxt + 1 \<le> q}" by simp
  then have "{q \<in> set held. nxt + 1 \<le> q} \<subset> {q \<in> set held. nxt \<le> q}" by fastforce
  then show "((held, forked, nxt + 1, nxt, delivered + 1), held, forked, nxt, advanced, delivered)
      \<in> measure (\<lambda>(held, forked, nxt, advanced, delivered). card {q \<in> set held. nxt \<le> q})"
    by (simp add: psubset_card_mono)
qed simp

declare runFrom.simps [simp del]

definition startOf :: "int option \<Rightarrow> int list \<Rightarrow> int \<Rightarrow> int" where
  "startOf floor held deliveredThrough =
     (let nxt = deliveredThrough + 1 in
      case floor of None \<Rightarrow> nxt | Some f \<Rightarrow> if nxt < f \<and> nxt \<notin> set held then f else nxt)"

datatype CollectError = InboxThrew ChannelInboxErrorCode | SubscriptionThrew ChannelSubscriptionErrorCode

type_synonym 'a collected = "(CollectError + 'a) \<times> Collector"

definition readForks :: "Primitives \<Rightarrow> string \<Rightarrow> string \<Rightarrow> InboxRow list \<Rightarrow> ChannelInboxErrorCode + BroadcastArtifact list list" where
  "readForks X agentId key rows = rmap (\<lambda>seq. forksFor X agentId key seq rows) (forkedSeqs agentId key rows)"

definition contiguousRun :: "Primitives \<Rightarrow> string \<Rightarrow> string \<Rightarrow> int \<Rightarrow> Collector \<Rightarrow> ChannelInboxErrorCode + int \<times> nat" where
  "contiguousRun X agentId key deliveredThrough st =
     (let held = heldSeqs agentId key (inbox st); forked = forkedSeqs agentId key (inbox st) in
      case readForks X agentId key (inbox st) of
        Inl e \<Rightarrow> Inl e
      | Inr _ \<Rightarrow> Inr (runFrom held forked (startOf (firstHeld st key) held deliveredThrough) deliveredThrough 0))"

definition advance :: "Primitives \<Rightarrow> string \<Rightarrow> string \<Rightarrow> Collector \<Rightarrow> unit collected" where
  "advance X agentId channelHex st =
     (case getSubscription agentId channelHex (subs st) of
        None \<Rightarrow> (Inr (), st)
      | Some sub \<Rightarrow>
          (case contiguousRun X agentId channelHex (delivered_through sub) st of
             Inl e \<Rightarrow> (Inl (InboxThrew e), st)
           | Inr (advanced, delivered) \<Rightarrow>
               if delivered_through sub < advanced
               then (case setDeliveredThrough agentId channelHex advanced (subs st) of
                       Inl e \<Rightarrow> (Inl (SubscriptionThrew e), st)
                     | Inr T \<Rightarrow> (Inr (), st\<lparr>subs := T, notified := notified st @ [(agentId, channelHex, delivered, advanced, [])]\<rparr>))
               else (Inr (), st)))"

section \<open>Gaps\<close>

record GapReport =
  missing :: "int list"
  first_held_seq :: int

definition gapStart :: "int option \<Rightarrow> int list \<Rightarrow> int \<Rightarrow> int" where
  "gapStart reported held deliveredThrough =
     (let candidates = filter (\<lambda>n. 0 < n) (take 1 held @ [deliveredThrough + 1]);
          fallback = (if candidates = [] then 1 else Min (set candidates)) in
      case reported of None \<Rightarrow> fallback | Some f \<Rightarrow> if 0 < f then f else fallback)"

definition gapsForKey :: "string \<Rightarrow> string \<Rightarrow> int \<Rightarrow> Collector \<Rightarrow> GapReport" where
  "gapsForKey agentId key deliveredThrough st =
     (let held = heldSeqs agentId key (inbox st); first = gapStart (firstHeld st key) held deliveredThrough in
      if held = [] then \<lparr>missing = [], first_held_seq = first\<rparr>
      else \<lparr>missing = filter (\<lambda>q. q \<notin> set held) [first..last held - 1], first_held_seq = first\<rparr>)"

definition gapsFor :: "string \<Rightarrow> string \<Rightarrow> Collector \<Rightarrow> GapReport" where
  "gapsFor agentId channelHex st =
     gapsForKey agentId channelHex
       (case getSubscription agentId channelHex (subs st) of None \<Rightarrow> 0 | Some sub \<Rightarrow> delivered_through sub) st"

section \<open>Collecting\<close>

text \<open>
  A relay of the list is named by its position: the list may name one twice. \<open>fetch\<close> answers a
  request, \<open>lanes\<close> names the posters of the channel.
\<close>

definition MAX_AGENT_KEYS_PER_FETCH :: nat where "MAX_AGENT_KEYS_PER_FETCH = 32"
definition MAX_BYTES_PER_FETCH :: int where "MAX_BYTES_PER_FETCH = 4 * 1024 * 1024"

type_synonym fetch_fn = "nat \<Rightarrow> string \<Rightarrow> FetchRequest \<Rightarrow> FetchAnswer"

definition fetchAll ::
  "Primitives \<Rightarrow> fetch_fn \<Rightarrow> FetchRequest \<Rightarrow> string \<Rightarrow> string \<Rightarrow> string \<Rightarrow> string option \<Rightarrow> PosterRevocation list \<Rightarrow> string list \<Rightarrow> Collector \<Rightarrow> Collector \<times> int option" where
  "fetchAll X fetch req agentId channelHex adminHex lane revoked rs st =
     foldl (\<lambda>(st, lowest) (i, relay). let answer = fetch i relay req in
         (ingest X agentId channelHex adminHex lane relay revoked answer st, lowerFirst lowest answer))
       (st, None) (enumerate 0 rs)"

definition collectMain ::
  "Primitives \<Rightarrow> fetch_fn \<Rightarrow> (int \<Rightarrow> (bytes \<times> int) option) \<Rightarrow> bytes list \<Rightarrow> string \<Rightarrow> string \<Rightarrow> ChannelSubscription \<Rightarrow> Collector \<Rightarrow> unit collected" where
  "collectMain X fetch auth agents agentId channelHex sub st =
     (case fetchAll X fetch
        \<lparr>fq_since = delivered_through sub + 1, fq_max_bytes = MAX_BYTES_PER_FETCH, fq_auth = auth (delivered_through sub + 1),
         fq_agents = take MAX_AGENT_KEYS_PER_FETCH agents, fq_lane = None\<rparr>
        agentId channelHex (admin_pubkey sub) None [] (relays sub) st of
      (st', lowest) \<Rightarrow> advance X agentId channelHex (setFirstHeld channelHex lowest st'))"

definition posterName :: "(string \<Rightarrow> string option) \<Rightarrow> string \<Rightarrow> string" where
  "posterName names posterHex = (case names posterHex of None \<Rightarrow> take 8 posterHex | Some n \<Rightarrow> n)"

text \<open>One poster's lane, after the posts delivered and the posters named so far.\<close>

definition finishLane ::
  "Primitives \<Rightarrow> (string \<Rightarrow> string option) \<Rightarrow> string \<Rightarrow> string \<Rightarrow> string \<Rightarrow> int \<Rightarrow> int option \<Rightarrow> nat \<Rightarrow> string list \<Rightarrow> Collector \<Rightarrow>
   (nat \<times> string list) collected" where
  "finishLane X names agentId channelHex posterHex from lowest count wrote st =
     (let key = laneKey channelHex posterHex; st' = setFirstHeld key lowest st in
      case contiguousRun X agentId key from st' of
        Inl e \<Rightarrow> (Inl (InboxThrew e), st')
      | Inr (advanced, delivered) \<Rightarrow>
          if from < advanced
          then (Inr (count + delivered, wrote @ [posterName names posterHex]),
                st'\<lparr>lanePositions := setDelivered agentId channelHex posterHex advanced (lanePositions st')\<rparr>)
          else (Inr (count, wrote), st'))"

definition collectLane ::
  "Primitives \<Rightarrow> fetch_fn \<Rightarrow> (int \<Rightarrow> (bytes \<times> int) option) \<Rightarrow> (string \<Rightarrow> string option) \<Rightarrow> PosterRevocation list \<Rightarrow> string \<Rightarrow> string \<Rightarrow> ChannelSubscription \<Rightarrow>
   string \<Rightarrow> nat \<Rightarrow> string list \<Rightarrow> Collector \<Rightarrow> (nat \<times> string list) collected" where
  "collectLane X fetch auth names revoked agentId channelHex sub posterHex count wrote st =
     (let from = lp_delivered (getLane agentId channelHex posterHex (lanePositions st)) in
      case fetchAll X fetch
          \<lparr>fq_since = from + 1, fq_max_bytes = MAX_BYTES_PER_FETCH, fq_auth = auth (from + 1), fq_agents = [], fq_lane = Some posterHex\<rparr>
          agentId channelHex (admin_pubkey sub) (Some posterHex) revoked (relays sub) st of
        (st', lowest) \<Rightarrow> finishLane X names agentId channelHex posterHex from lowest count wrote st')"

text \<open>The lanes one after the other; a throw ends the pass.\<close>

fun posterLanesPass ::
  "(string \<Rightarrow> nat \<Rightarrow> string list \<Rightarrow> Collector \<Rightarrow> (nat \<times> string list) collected) \<Rightarrow> string list \<Rightarrow> nat \<Rightarrow> string list \<Rightarrow> Collector \<Rightarrow>
   (nat \<times> string list) collected" where
  "posterLanesPass collect [] count wrote st = (Inr (count, wrote), st)"
| "posterLanesPass collect (posterHex # posters) count wrote st =
     (case collect posterHex count wrote st of
        (Inl e, st') \<Rightarrow> (Inl e, st')
      | (Inr (count', wrote'), st') \<Rightarrow> posterLanesPass collect posters count' wrote' st')"

definition postersOf :: "(nat \<Rightarrow> string \<Rightarrow> bytes list option) \<Rightarrow> string list \<Rightarrow> string list" where
  "postersOf lanes rs = foldl (\<lambda>acc (i, relay). case lanes i relay of None \<Rightarrow> acc | Some ps \<Rightarrow> add_all acc (map bytesToHex ps)) [] (enumerate 0 rs)"

record Seams =
  sm_fetch :: fetch_fn
  sm_auth :: "int \<Rightarrow> (bytes \<times> int) option"
  sm_agents :: "bytes list"
  sm_lanes :: "nat \<Rightarrow> string \<Rightarrow> bytes list option"
  sm_revocations :: "PosterRevocation list"
  sm_names :: "string \<Rightarrow> string option"

definition collectPosterLanes :: "Primitives \<Rightarrow> Seams \<Rightarrow> string \<Rightarrow> string \<Rightarrow> Collector \<Rightarrow> unit collected" where
  "collectPosterLanes X S agentId channelHex st =
     (case getSubscription agentId channelHex (subs st) of
        None \<Rightarrow> (Inr (), st)
      | Some sub \<Rightarrow>
          if status sub \<noteq> SubActive then (Inr (), st)
          else let posters = postersOf (sm_lanes S) (relays sub);
                   revoked = (if posters = [] then [] else sm_revocations S) in
            case posterLanesPass (collectLane X (sm_fetch S) (sm_auth S) (sm_names S) revoked agentId channelHex sub) posters 0 [] st of
              (Inl e, st') \<Rightarrow> (Inl e, st')
            | (Inr (count, wrote), st') \<Rightarrow>
                (Inr (), if 0 < count
                 then st'\<lparr>notified := notified st' @ [(agentId, channelHex, count, delivered_through sub, wrote)]\<rparr>
                 else st'))"

definition collectOnce :: "Primitives \<Rightarrow> Seams \<Rightarrow> string \<Rightarrow> string \<Rightarrow> Collector \<Rightarrow> unit collected" where
  "collectOnce X S agentId channelHex st =
     (case getSubscription agentId channelHex (subs st) of
        None \<Rightarrow> (Inr (), st)
      | Some sub \<Rightarrow>
          if status sub \<noteq> SubActive then (Inr (), st)
          else case collectMain X (sm_fetch S) (sm_auth S) (sm_agents S) agentId channelHex sub st of
              (Inl e, st') \<Rightarrow> (Inl e, st')
            | (Inr _, st') \<Rightarrow> collectPosterLanes X S agentId channelHex st')"

text \<open>The repair request, after a collection: each missing position is asked for once.\<close>

definition repairKey :: "string \<Rightarrow> string \<Rightarrow> string" where
  "repairKey agentId channelHex = agentId @ '':'' @ channelHex"

definition repairGaps :: "Primitives \<Rightarrow> Seams \<Rightarrow> string \<Rightarrow> string \<Rightarrow> Collector \<Rightarrow> (int \<times> int) option collected" where
  "repairGaps X S agentId channelHex st =
     (case getSubscription agentId channelHex (subs st) of
        None \<Rightarrow> (Inr None, st)
      | Some sub \<Rightarrow>
          if status sub \<noteq> SubActive then (Inr None, st)
          else case collectOnce X S agentId channelHex st of
              (Inl e, st') \<Rightarrow> (Inl e, st')
            | (Inr _, st') \<Rightarrow>
                let key = repairKey agentId channelHex;
                    asked = repairRequested st' key;
                    fresh = filter (\<lambda>q. q \<notin> set asked) (missing (gapsFor agentId channelHex st')) in
                if fresh = [] then (Inr None, st')
                else (Inr (Some (Min (set fresh), Max (set fresh))),
                      st'\<lparr>repairRequested := (repairRequested st')(key := add_all asked fresh)\<rparr>))"

end
