(* ===== verification/Channel_Collector_Claims.thy ===== *)
theory Channel_Collector_Claims
  imports Channel_Collector Channel_Log_Receipts
begin

text \<open>
  What the subscriber delivers: whatever the relays answer, and however collections interleave, the
  inbox holds only verified posts of its channel, and the delivered position moves over held,
  unforked posts.
\<close>

section \<open>The run\<close>

definition runs :: "int list \<Rightarrow> int list \<Rightarrow> int \<Rightarrow> nat \<Rightarrow> bool" where
  "runs held forked start n \<longleftrightarrow>
     (\<forall>q \<in> {start..<start + int n}. q \<in> set held \<and> q \<notin> set forked) \<and>
     \<not> (start + int n \<in> set held \<and> start + int n \<notin> set forked)"

lemma runFrom_runs:
  "\<exists>n. runFrom held forked nxt advanced delivered = (if n = 0 then advanced else nxt + int n - 1, delivered + n) \<and>
     runs held forked nxt n"
proof (induction held forked nxt advanced delivered rule: runFrom.induct)
  case (1 held forked nxt advanced delivered)
  show ?case
  proof (cases "nxt \<in> set held \<and> nxt \<notin> set forked")
    case True
    obtain n where n: "runFrom held forked (nxt + 1) nxt (delivered + 1) =
        (if n = 0 then nxt else nxt + 1 + int n - 1, delivered + 1 + n)" "runs held forked (nxt + 1) n"
      using 1 [OF True] by blast
    have "{nxt..<nxt + int (Suc n)} = insert nxt {nxt + 1..<nxt + 1 + int n}" by auto
    then have "runs held forked nxt (Suc n)" using n(2) True by (auto simp: runs_def ac_simps)
    then show ?thesis using n(1) True by (intro exI [of _ "Suc n"]) (auto simp: runFrom.simps [of _ _ nxt])
  next
    case False
    then show ?thesis by (intro exI [of _ 0]) (auto simp: runs_def runFrom.simps [of _ _ nxt])
  qed
qed

lemma getSubscription_update:
  assumes "getSubscription agentId channelHex T = Some sub"
    and "isRow agentId channelHex (f sub) = isRow agentId channelHex sub"
  shows "getSubscription agentId channelHex (updateRows agentId channelHex f T) = Some (f sub)"
proof -
  have "find (isRow agentId channelHex) (map (\<lambda>s. if isRow agentId channelHex s then f s else s) xs) = Some (f sub)"
    if "find (isRow agentId channelHex) xs = Some sub" for xs
    using that by (induction xs) (use assms(2) in \<open>auto split: if_splits\<close>)
  then show ?thesis using assms(1) by (simp add: getSubscription_def updateRows_def)
qed

lemma startOf_cases:
  "d + 1 \<le> startOf fl held d \<and> (d + 1 < startOf fl held d \<longrightarrow> fl = Some (startOf fl held d) \<and> d + 1 \<notin> set held)"
  by (auto simp: startOf_def Let_def split: option.splits)

lemma rmap_error: "rmap f xs = Inl e \<Longrightarrow> \<exists>x \<in> set xs. f x = Inl e"
proof (induction xs)
  case (Cons x xs)
  then show ?case by (cases "f x"; cases "rmap f xs") auto
qed simp

lemma rmap_fails: "f x = Inl e \<Longrightarrow> x \<in> set xs \<Longrightarrow> \<exists>e. rmap f xs = Inl e"
proof (induction xs)
  case (Cons y xs)
  then show ?case by (cases "f y"; cases "rmap f xs") auto
qed simp

lemma inboxDecode_error: "inboxDecode X r = Inl e \<Longrightarrow> e = InboxRowCorrupt"
  by (auto simp: inboxDecode_def split: sum.splits)

lemma readForks_error: "readForks X agentId key rows = Inl e \<Longrightarrow> e = InboxRowCorrupt"
  unfolding readForks_def forksFor_def inboxRange_def by (blast dest: rmap_error inboxDecode_error)

lemma contiguousRun_runs:
  assumes "contiguousRun X agentId key d st = Inr run"
  shows "\<exists>n. run = (if n = 0 then d else startOf (firstHeld st key) (heldSeqs agentId key (inbox st)) d + int n - 1, n) \<and>
    runs (heldSeqs agentId key (inbox st)) (forkedSeqs agentId key (inbox st)) (startOf (firstHeld st key) (heldSeqs agentId key (inbox st)) d) n"
proof -
  let ?r = "runFrom (heldSeqs agentId key (inbox st)) (forkedSeqs agentId key (inbox st))
      (startOf (firstHeld st key) (heldSeqs agentId key (inbox st)) d) d 0"
  have "run = ?r"
  proof (cases "readForks X agentId key (inbox st)")
    case (Inl e)
    then show ?thesis using assms by (simp add: contiguousRun_def Let_def)
  next
    case (Inr vs)
    then show ?thesis using assms by (simp add: contiguousRun_def Let_def)
  qed
  then show ?thesis
    using runFrom_runs [of "heldSeqs agentId key (inbox st)" "forkedSeqs agentId key (inbox st)"
      "startOf (firstHeld st key) (heldSeqs agentId key (inbox st)) d" d 0] by simp
qed

lemma contiguousRun_readable: "readForks X agentId key (inbox st) = Inr vs \<Longrightarrow> \<exists>run. contiguousRun X agentId key d st = Inr run"
  by (simp add: contiguousRun_def Let_def)

text \<open>C22: What a subscriber is told to read is exactly the longest unbroken run it holds: the delivered
  position of a subscription moves from where it is over consecutive positions that are each held in
  one version only, to the last one before the first position that is missing or forked. It starts
  at the next position, or, if that one is missing, at the oldest position the relays still have.
  One notification names the number of posts delivered and the position reached, and none is sent
  when nothing is delivered. When a version held of a forked position, delivered or not, does not
  decode, the advance throws instead and nothing changes.\<close>

theorem advance_delivers_longest_run:
  assumes "getSubscription agentId channelHex (subs st) = Some sub"
  shows "if \<exists>q \<in> set (forkedSeqs agentId channelHex (inbox st)). \<exists>e. forksFor X agentId channelHex q (inbox st) = Inl e
    then advance X agentId channelHex st = (Inl (InboxThrew InboxRowCorrupt), st)
    else \<exists>n. let held = heldSeqs agentId channelHex (inbox st); forked = forkedSeqs agentId channelHex (inbox st);
        nxt = delivered_through sub + 1; st' = snd (advance X agentId channelHex st);
        start = (case firstHeld st channelHex of None \<Rightarrow> nxt | Some f \<Rightarrow> if nxt < f \<and> nxt \<notin> set held then f else nxt) in
      fst (advance X agentId channelHex st) = Inr () \<and>
      (\<forall>q \<in> {start..<start + int n}. q \<in> set held \<and> q \<notin> set forked) \<and>
      \<not> (start + int n \<in> set held \<and> start + int n \<notin> set forked) \<and>
      getSubscription agentId channelHex (subs st') =
        Some (sub\<lparr>delivered_through := if n = 0 then delivered_through sub else start + int n - 1\<rparr>) \<and>
      notified st' = notified st @ (if n = 0 then [] else [(agentId, channelHex, n, start + int n - 1, [])])"
proof (cases "readForks X agentId channelHex (inbox st)")
  case (Inl e)
  then have "\<exists>q \<in> set (forkedSeqs agentId channelHex (inbox st)). \<exists>e. forksFor X agentId channelHex q (inbox st) = Inl e"
    unfolding readForks_def by (blast dest: rmap_error)
  then show ?thesis using Inl readForks_error [OF Inl] assms by (simp add: advance_def contiguousRun_def)
next
  case (Inr vs)
  then have readable: "\<not> (\<exists>q \<in> set (forkedSeqs agentId channelHex (inbox st)). \<exists>e. forksFor X agentId channelHex q (inbox st) = Inl e)"
  proof -
    have "forksFor X agentId channelHex q (inbox st) \<noteq> Inl e" if "q \<in> set (forkedSeqs agentId channelHex (inbox st))" for q e
      using rmap_fails [of "\<lambda>q. forksFor X agentId channelHex q (inbox st)" q e, OF _ that] Inr by (auto simp: readForks_def)
    then show ?thesis by blast
  qed
  let ?held = "heldSeqs agentId channelHex (inbox st)" and ?forked = "forkedSeqs agentId channelHex (inbox st)"
  let ?d = "delivered_through sub" and ?st' = "snd (advance X agentId channelHex st)"
  let ?start = "startOf (firstHeld st channelHex) ?held ?d"
  obtain n where n: "contiguousRun X agentId channelHex ?d st = Inr (if n = 0 then ?d else ?start + int n - 1, n)"
      "runs ?held ?forked ?start n"
    using contiguousRun_runs contiguousRun_readable [OF Inr, of ?d] by metis
  note start = startOf_cases [of ?d "firstHeld st channelHex" ?held]
  have row: "isRow agentId channelHex (sub\<lparr>delivered_through := q\<rparr>) = isRow agentId channelHex sub" for q
    by (simp add: isRow_def)
  have "fst (advance X agentId channelHex st) = Inr () \<and> getSubscription agentId channelHex (subs ?st') =
      Some (sub\<lparr>delivered_through := if n = 0 then ?d else ?start + int n - 1\<rparr>) \<and>
    notified ?st' = notified st @ (if n = 0 then [] else [(agentId, channelHex, n, ?start + int n - 1, [])])"
  proof (cases "n = 0")
    case True
    then show ?thesis using assms n(1) by (simp add: advance_def)
  next
    case False
    then have "?d < ?start + int n - 1" using start by linarith
    then show ?thesis
      using assms n(1) False row
        getSubscription_update [OF assms, of "\<lambda>s. s\<lparr>delivered_through := ?start + int n - 1\<rparr>"]
      by (simp add: advance_def setDeliveredThrough_def)
  qed
  then show ?thesis
    using n(2) unfolding if_not_P [OF readable] runs_def startOf_def Let_def by (intro exI [of _ n]) blast
qed

text \<open>A subscriber with the positions 3, 4 and a forked 5, and nothing below 3 left at the relays.\<close>

definition postAtSeq :: "int \<Rightarrow> BroadcastArtifact" where
  "postAtSeq q = ownPost\<lparr>ba_seq := q\<rparr>"

lemma postAtSeq_decodes:
  assumes "1 \<le> q" and "q \<le> 9"
  shows "decodeBroadcastArtifact idealPrims (encodeBroadcastArtifact idealPrims (postAtSeq q)) = Inr (postAtSeq q)"
  by (rule post_round_trip) (use assms in \<open>simp_all add: readsBack_def idealPrims_def postAtSeq_def ownPost_def samplePost_def samplePrims_def
        checkPost_def checkPostFields_def validateBroadcastTitle_def controlChar_def safeAtLeast_iff MAX_SAFE_INTEGER_def
        width_consts MAX_BROADCAST_TITLE_CHARS_def MAX_BROADCAST_BODY_BYTES_def supersedesVal_def\<close>)

definition sampleRow :: "int \<Rightarrow> string \<Rightarrow> InboxRow" where
  "sampleRow q h = \<lparr>in_agent = ''a'', in_channel = ''c'', in_seq = q, in_hash = h,
     in_cbor = encodeBroadcastArtifact idealPrims (postAtSeq q), in_receipt = None, in_relay = ''r'', in_at = 1\<rparr>"

definition sampleSub :: ChannelSubscription where
  "sampleSub = \<lparr>su_agent = ''a'', su_channel = ''c'', admin_pubkey = ''d'', access = ''open'', relays = [''r''], moniker = [],
     guidance = [], guidance_updated_at = 0, retention_seconds = 604800, delivered_through = 0, processed_through = 0,
     status = SubActive, notify = NotifyPush\<rparr>"

definition sampleCollector :: Collector where
  "sampleCollector = \<lparr>subs = \<lparr>channel_subscriptions = [sampleSub], channel_subscription_keys = []\<rparr>,
     inbox = [sampleRow 4 ''h'', sampleRow 3 ''h'', sampleRow 5 ''h'', sampleRow 5 ''k''], lanePositions = [],
     firstHeld = (\<lambda>_. None)(''c'' \<mapsto> 3), repairRequested = (\<lambda>_. []), notified = []\<rparr>"

theorem advance_delivers_longest_run_witness:
  "fst (advance idealPrims ''a'' ''c'' sampleCollector) = Inr () \<and>
    delivered_through (the (getSubscription ''a'' ''c'' (subs (snd (advance idealPrims ''a'' ''c'' sampleCollector))))) = 4"
proof -
  have c: "toLower ''c'' = ''c''" by (simp add: toLower_def)
  have sub: "getSubscription ''a'' ''c'' (subs sampleCollector) = Some sampleSub"
    by (simp add: getSubscription_def sampleCollector_def sampleSub_def isRow_def c)
  have held: "heldSeqs ''a'' ''c'' (inbox sampleCollector) = [3, 4, 5]"
    by (simp add: heldSeqs_def inboxRows_def sampleCollector_def sampleRow_def c)
  have forked: "forkedSeqs ''a'' ''c'' (inbox sampleCollector) = [5]"
    unfolding forkedSeqs_def held by (simp add: inboxRows_def sampleCollector_def sampleRow_def c)
  have readable: "forksFor idealPrims ''a'' ''c'' 5 (inbox sampleCollector) = Inr [postAtSeq 5, postAtSeq 5]"
    using postAtSeq_decodes [of 5]
    by (simp add: forksFor_def inboxRange_def inboxBetween_def inboxRows_def sampleCollector_def sampleRow_def c inboxDecode_def)
  have first: "firstHeld sampleCollector ''c'' = Some 3" "delivered_through sampleSub = 0"
    by (simp_all add: sampleCollector_def sampleSub_def)
  obtain n where n: "\<forall>q \<in> {3..<3 + int n}. q \<in> {3, 4, 5} \<and> q \<noteq> 5" "\<not> (3 + int n \<in> {3, 4, 5} \<and> 3 + int n \<noteq> 5)"
      "getSubscription ''a'' ''c'' (subs (snd (advance idealPrims ''a'' ''c'' sampleCollector))) =
         Some (sampleSub\<lparr>delivered_through := if n = 0 then 0 else 3 + int n - 1\<rparr>)"
      "fst (advance idealPrims ''a'' ''c'' sampleCollector) = Inr ()"
    using advance_delivers_longest_run [OF sub, of idealPrims] by (auto simp: held forked first readable Let_def)
  have "n < 3" using bspec [OF n(1), of 5] by (cases "n < 3") auto
  then have "n = 2" using n(2) by auto
  then show ?thesis using n(3,4) by simp
qed

end
