(* ===== verification/Channel_Collector_Runs.thy ===== *)
theory Channel_Collector_Runs
  imports Channel_Collector_Claims
begin

text \<open>
  The collector as a transition system: the steps between the awaits of all collections that run at
  once, with any relay answers, in any order.
\<close>

section \<open>Steps\<close>

inductive collector_step :: "Primitives \<Rightarrow> Collector \<Rightarrow> Collector \<Rightarrow> bool" for X where
  answer: "collector_step X st (ingest X agentId channelHex adminHex lane relay revoked ans st)"
| floor: "collector_step X st (setFirstHeld key lowest st)"
| deliver: "collector_step X st (snd (advance X agentId channelHex st))"
| lane: "collector_step X st (snd (finishLane X names agentId channelHex posterHex from lowest count wrote st))"
| subscribe: "collector_step X st (st\<lparr>subs := upsertSubscription agentId channelHex adminHex acc rs guide retention (subs st)\<rparr>)"
| status: "setStatus s agentId channelHex (subs st) = Inr T \<Longrightarrow> collector_step X st (st\<lparr>subs := T\<rparr>)"
| processed: "Channel_Inbox.advanceProcessed agentId channelHex q (subs st) = Inr T \<Longrightarrow> collector_step X st (st\<lparr>subs := T\<rparr>)"
| notify: "collector_step X st (st\<lparr>notified := notified st @ [n]\<rparr>)"
| repair: "collector_step X st (st\<lparr>repairRequested := (repairRequested st)(key := asked)\<rparr>)"

inductive_cases collector_stepE: "collector_step X st st'"

definition emptyCollector :: Collector where
  "emptyCollector = \<lparr>subs = \<lparr>channel_subscriptions = [], channel_subscription_keys = []\<rparr>, inbox = [], lanePositions = [],
     firstHeld = (\<lambda>_. None), repairRequested = (\<lambda>_. []), notified = []\<rparr>"

text \<open>Every collection is a sequence of such steps.\<close>

lemma fetchAll_steps:
  "(collector_step X)\<^sup>*\<^sup>* st (fst (fetchAll X fetch req agentId channelHex adminHex lane revoked rs st))"
proof -
  have "(collector_step X)\<^sup>*\<^sup>* st (fst (foldl (\<lambda>(st, lowest) (i, relay). let answer = fetch i relay req in
         (ingest X agentId channelHex adminHex lane relay revoked answer st, lowerFirst lowest answer)) (st, lowest) rs))"
    for lowest and rs :: "(nat \<times> string) list" and st
  proof (induction rs arbitrary: st lowest)
    case (Cons r rs)
    have "collector_step X st (ingest X agentId channelHex adminHex lane (snd r) revoked (fetch (fst r) (snd r) req) st)"
      by (rule answer)
    then show ?case using Cons.IH by (auto simp: Let_def split_beta intro: converse_rtranclp_into_rtranclp)
  qed simp
  then show ?thesis by (simp add: fetchAll_def)
qed

lemma collectMain_steps: "(collector_step X)\<^sup>*\<^sup>* st (snd (collectMain X fetch auth agents agentId channelHex sub st))"
proof -
  let ?f = "fetchAll X fetch \<lparr>fq_since = delivered_through sub + 1, fq_max_bytes = MAX_BYTES_PER_FETCH,
     fq_auth = auth (delivered_through sub + 1), fq_agents = take MAX_AGENT_KEYS_PER_FETCH agents, fq_lane = None\<rparr>
     agentId channelHex (admin_pubkey sub) None [] (relays sub) st"
  have "(collector_step X)\<^sup>*\<^sup>* st (fst ?f)" by (rule fetchAll_steps)
  moreover have "collector_step X (fst ?f) (setFirstHeld channelHex (snd ?f) (fst ?f))" by (rule floor)
  moreover have "collector_step X (setFirstHeld channelHex (snd ?f) (fst ?f))
      (snd (advance X agentId channelHex (setFirstHeld channelHex (snd ?f) (fst ?f))))" by (rule deliver)
  ultimately show ?thesis unfolding collectMain_def split_beta by (meson rtranclp.rtrancl_into_rtrancl)
qed

lemma collectLane_steps:
  "(collector_step X)\<^sup>*\<^sup>* st (snd (collectLane X fetch auth names revoked agentId channelHex sub posterHex count wrote st))"
proof -
  let ?from = "lp_delivered (getLane agentId channelHex posterHex (lanePositions st))"
  let ?f = "fetchAll X fetch \<lparr>fq_since = ?from + 1, fq_max_bytes = MAX_BYTES_PER_FETCH, fq_auth = auth (?from + 1),
     fq_agents = [], fq_lane = Some posterHex\<rparr> agentId channelHex (admin_pubkey sub) (Some posterHex) revoked (relays sub) st"
  have "(collector_step X)\<^sup>*\<^sup>* st (fst ?f)" by (rule fetchAll_steps)
  moreover have "collector_step X (fst ?f) (snd (finishLane X names agentId channelHex posterHex ?from (snd ?f) count wrote (fst ?f)))"
    by (rule lane)
  ultimately show ?thesis unfolding collectLane_def by (simp add: Let_def split_beta)
qed

lemma posterLanesPass_steps:
  assumes "\<And>p count wrote st. (collector_step X)\<^sup>*\<^sup>* st (snd (collect p count wrote st))"
  shows "(collector_step X)\<^sup>*\<^sup>* st (snd (posterLanesPass collect ps count wrote st))"
proof (induction ps arbitrary: count wrote st)
  case (Cons p ps)
  obtain r st' where c: "collect p count wrote st = (r, st')" by fastforce
  have "(collector_step X)\<^sup>*\<^sup>* st st'" using assms [of st p count wrote] by (simp add: c)
  then show ?case
    using Cons.IH by (cases r) (auto simp: c intro: rtranclp_trans)
qed simp

lemma collectPosterLanes_steps: "(collector_step X)\<^sup>*\<^sup>* st (snd (collectPosterLanes X S agentId channelHex st))"
proof (cases "getSubscription agentId channelHex (subs st)")
  case (Some sub)
  let ?ps = "postersOf (sm_lanes S) (relays sub)"
  let ?lane = "collectLane X (sm_fetch S) (sm_auth S) (sm_names S) (if ?ps = [] then [] else sm_revocations S) agentId channelHex sub"
  obtain r st' where p: "posterLanesPass ?lane ?ps 0 [] st = (r, st')" by fastforce
  have "(collector_step X)\<^sup>*\<^sup>* st (snd (posterLanesPass ?lane ?ps 0 [] st))"
    by (rule posterLanesPass_steps) (rule collectLane_steps)
  then have steps: "(collector_step X)\<^sup>*\<^sup>* st st'" unfolding p by simp
  show ?thesis
  proof (cases "status sub \<noteq> SubActive")
    case True
    then show ?thesis using Some by (simp add: collectPosterLanes_def)
  next
    case False
    have rings: "collector_step X st' (st'\<lparr>notified := notified st' @ [n]\<rparr>)" for n by (rule notify)
    show ?thesis
      using Some False p steps rtranclp.rtrancl_into_rtrancl [OF steps rings] by (cases r) (auto simp: collectPosterLanes_def Let_def)
  qed
qed (simp add: collectPosterLanes_def)

lemma collectOnce_steps: "(collector_step X)\<^sup>*\<^sup>* st (snd (collectOnce X S agentId channelHex st))"
proof (cases "getSubscription agentId channelHex (subs st)")
  case (Some sub)
  obtain r st' where m: "collectMain X (sm_fetch S) (sm_auth S) (sm_agents S) agentId channelHex sub st = (r, st')" by fastforce
  have steps: "(collector_step X)\<^sup>*\<^sup>* st st'"
    using collectMain_steps [of X st "sm_fetch S" "sm_auth S" "sm_agents S" agentId channelHex sub] unfolding m by simp
  show ?thesis
    using Some m steps rtranclp_trans [OF steps collectPosterLanes_steps] by (cases r) (auto simp: collectOnce_def)
qed (simp add: collectOnce_def)

section \<open>The invariant\<close>

lemma toLower_append: "toLower (a @ b) = toLower a @ toLower b"
  by (simp add: toLower_def)

lemma toLower_hex [simp]: "toLower (bytesToHex b) = bytesToHex b"
  unfolding toLower_def
proof (rule map_idI)
  fix c assume "c \<in> set (bytesToHex b)"
  then have "lowerHex c" using bytesToHex_lower [of b] by (simp add: list_all_iff)
  then have "\<not> (65 \<le> (of_char c :: nat) \<and> (of_char c :: nat) \<le> 90)" by (auto simp: lowerHex_def Let_def)
  then show "(let n = of_char c :: nat in if 65 \<le> n \<and> n \<le> 90 then char_of (n + 32) else c) = c"
    by (simp only: Let_def if_not_P if_False)
qed

definition postOfKey :: "string \<Rightarrow> BroadcastArtifact \<Rightarrow> bool" where
  "postOfKey key p \<longleftrightarrow> key = bytesToHex (ba_channel_pubkey p) \<or>
     ba_ext p \<noteq> None \<and> key = laneKey (bytesToHex (ba_channel_pubkey p)) (bytesToHex (ba_agent_pubkey p))"

definition genuine :: "Primitives \<Rightarrow> InboxRow \<Rightarrow> BroadcastArtifact \<Rightarrow> bool" where
  "genuine X r p \<longleftrightarrow> decodeBroadcastArtifact X (in_cbor r) = Inr p \<and> verifyBroadcastArtifact X p = None \<and>
     ba_seq p = in_seq r \<and> in_hash r = postHashHex X p \<and> postOfKey (in_channel r) p"

definition inbox_ok :: "Primitives \<Rightarrow> Collector \<Rightarrow> bool" where
  "inbox_ok X st \<longleftrightarrow> (\<forall>r \<in> set (inbox st). \<exists>p. genuine X r p)"

definition reached :: "InboxRow list \<Rightarrow> ChannelSubscription \<Rightarrow> bool" where
  "reached rows s \<longleftrightarrow> delivered_through s = 0 \<or>
     (\<exists>r \<in> set rows. in_agent r = su_agent s \<and> in_channel r = su_channel s \<and> in_seq r = delivered_through s)"

definition delivered_ok :: "Collector \<Rightarrow> bool" where
  "delivered_ok st \<longleftrightarrow> (\<forall>s \<in> set (channel_subscriptions (subs st)). reached (inbox st) s)"

lemma verifyPostD:
  assumes "verifyPost X channelHex adminHex lane revoked cbor = Inr p"
  shows "decodeBroadcastArtifact X cbor = Inr p" "verifyBroadcastArtifact X p = None"
    "bytesToHex (ba_channel_pubkey p) = toLower channelHex"
    "lane = None \<Longrightarrow> bytesToHex (ba_agent_pubkey p) = toLower adminHex"
    "lane = Some posterHex \<Longrightarrow> ba_ext p \<noteq> None \<and> bytesToHex (ba_agent_pubkey p) = posterHex"
  using assms by (auto simp: verifyPost_def Let_def split: sum.splits option.splits if_splits)

lemma ingestEntry_rows:
  "set rows \<subseteq> set (ingestEntry X agentId channelHex adminHex lane relay revoked rows e)"
  by (auto simp: ingestEntry_def storePost_def Let_def split: sum.splits)

lemma ingestEntry_genuine:
  assumes "\<forall>r \<in> set rows. \<exists>p. genuine X r p"
  shows "\<forall>r \<in> set (ingestEntry X agentId channelHex adminHex lane relay revoked rows e). \<exists>p. genuine X r p"
proof (cases "verifyPost X channelHex adminHex lane revoked (re_cbor e)")
  case (Inr p)
  note v = verifyPostD [OF Inr]
  have enc: "encodeBroadcastArtifact X p = re_cbor e" by (rule decoded_post [OF v(1)])
  have slash: "toLower (CHR ''/'' # cs) = CHR ''/'' # toLower cs" for cs by (simp add: toLower_def)
  have "postOfKey (toLower (keyFor channelHex lane)) p"
    using v(3,5) by (cases lane) (auto simp: keyFor_def laneKey_def postOfKey_def toLower_append slash)
  with enc have "genuine X \<lparr>in_agent = agentId, in_channel = toLower (keyFor channelHex lane), in_seq = ba_seq p,
      in_hash = postHashHex X p, in_cbor = encodeBroadcastArtifact X p, in_receipt = re_receipt e, in_relay = relay,
      in_at = re_clock e\<rparr> p"
    using v(1,2) by (simp add: genuine_def)
  then show ?thesis using assms Inr by (auto simp: ingestEntry_def storePost_def Let_def)
qed (use assms in \<open>simp add: ingestEntry_def\<close>)

lemma ingest_inbox:
  "set (inbox st) \<subseteq> set (inbox (ingest X agentId channelHex adminHex lane relay revoked ans st)) \<and>
   (inbox_ok X st \<longrightarrow> inbox_ok X (ingest X agentId channelHex adminHex lane relay revoked ans st))"
proof -
  let ?f = "ingestEntry X agentId channelHex adminHex lane relay revoked"
  have "set rows \<subseteq> set (foldl ?f rows es) \<and>
      ((\<forall>r \<in> set rows. \<exists>p. genuine X r p) \<longrightarrow> (\<forall>r \<in> set (foldl ?f rows es). \<exists>p. genuine X r p))" for rows es
  proof (induction es arbitrary: rows)
    case (Cons e es)
    show ?case
      using Cons.IH [of "?f rows e"] ingestEntry_rows [of rows X agentId channelHex adminHex lane relay revoked e]
        ingestEntry_genuine [of rows X agentId channelHex adminHex lane relay revoked e]
      by auto
  qed simp
  then show ?thesis by (cases ans) (simp_all add: ingest_def inbox_ok_def)
qed

lemma updateRows_all:
  assumes "\<forall>s \<in> set (channel_subscriptions T). P s" and "\<And>s. s \<in> set (channel_subscriptions T) \<Longrightarrow> isRow a c s \<Longrightarrow> P (f s)"
  shows "\<forall>s \<in> set (channel_subscriptions (updateRows a c f T)). P s"
  using assms by (auto simp: updateRows_def)

lemma updateRows_reached:
  assumes "\<forall>s \<in> set (channel_subscriptions T). reached rows s"
    and "\<And>s. su_agent (f s) = su_agent s \<and> su_channel (f s) = su_channel s \<and> delivered_through (f s) = delivered_through s"
  shows "\<forall>s \<in> set (channel_subscriptions (updateRows a c f T)). reached rows s"
  by (rule updateRows_all) (use assms in \<open>auto simp: reached_def\<close>)

lemma other_fields:
  "inbox (setFirstHeld key lowest st) = inbox st" "subs (setFirstHeld key lowest st) = subs st"
  "inbox (snd (advance X agentId channelHex st)) = inbox st"
  "inbox (snd (finishLane X names agentId channelHex posterHex from lowest count wrote st)) = inbox st"
  "subs (snd (finishLane X names agentId channelHex posterHex from lowest count wrote st)) = subs st"
  "subs (ingest X agentId channelHex adminHex lane relay revoked ans st) = subs st"
  by (auto simp: setFirstHeld_def advance_def finishLane_def ingest_def Let_def split: option.splits prod.splits sum.splits
      FetchAnswer.splits)

lemma heldSeqs_row:
  "q \<in> set (heldSeqs agentId channelHex rows) \<longleftrightarrow>
   (\<exists>r \<in> set rows. in_agent r = agentId \<and> in_channel r = toLower channelHex \<and> in_seq r = q)"
  by (auto simp: heldSeqs_def inboxRows_def)

lemma contiguousRun_held:
  assumes "contiguousRun X agentId key d st = Inr (advanced, n)" and "d < advanced"
  shows "advanced \<in> set (heldSeqs agentId key (inbox st))"
  using contiguousRun_runs [OF assms(1)] assms(2) by (auto simp: runs_def split: if_splits)

lemma advance_delivered_ok:
  assumes "delivered_ok st"
  shows "delivered_ok (snd (advance X agentId channelHex st))"
proof (cases "getSubscription agentId channelHex (subs st)")
  case (Some sub)
  show ?thesis
  proof (cases "contiguousRun X agentId channelHex (delivered_through sub) st")
    case (Inl e)
    then show ?thesis using Some assms by (simp add: advance_def)
  next
    case (Inr qn)
    obtain q n where qn: "qn = (q, n)" by fastforce
    show ?thesis
    proof (cases "delivered_through sub < q")
      case True
      have row: "\<exists>r \<in> set (inbox st). in_agent r = agentId \<and> in_channel r = toLower channelHex \<and> in_seq r = q"
        using contiguousRun_held [OF Inr [unfolded qn] True] by (simp add: heldSeqs_row)
      have "\<forall>s \<in> set (channel_subscriptions (updateRows agentId channelHex (\<lambda>s. s\<lparr>delivered_through := q\<rparr>) (subs st))).
          reached (inbox st) s"
        by (rule updateRows_all) (use assms row in \<open>auto simp: delivered_ok_def isRow_def reached_def\<close>)
      then show ?thesis
        using Some Inr qn True by (simp add: advance_def setDeliveredThrough_def delivered_ok_def)
    qed (use Some Inr qn assms in \<open>simp add: advance_def\<close>)
  qed
qed (use assms in \<open>simp add: advance_def\<close>)

lemma advance_inbox_ok: "inbox_ok X st \<Longrightarrow> inbox_ok X (snd (advance X agentId channelHex st))"
  by (simp add: inbox_ok_def other_fields)

lemma step_ok:
  assumes "collector_step X st st'" and "inbox_ok X st" and "delivered_ok st"
  shows "inbox_ok X st' \<and> delivered_ok st'"
  using assms(1)
proof cases
  case (answer agentId channelHex adminHex lane relay revoked ans)
  then show ?thesis
    using ingest_inbox [of st X agentId channelHex adminHex lane relay revoked ans] assms(2,3)
    by (fastforce simp: delivered_ok_def other_fields reached_def)
next
  case (deliver agentId channelHex)
  then show ?thesis using assms(2,3) by (simp add: advance_delivered_ok advance_inbox_ok)
next
  case (subscribe agentId channelHex adminHex acc rs guide retention)
  have "\<forall>s \<in> set (channel_subscriptions (upsertSubscription agentId channelHex adminHex acc rs guide retention (subs st))).
      reached (inbox st) s"
  proof (cases "getSubscription agentId channelHex (subs st) = None")
    case True
    then show ?thesis using assms(3) by (simp add: upsertSubscription_def Let_def delivered_ok_def) (simp add: reached_def)
  next
    case False
    then show ?thesis
      using assms(3) by (simp add: upsertSubscription_def Let_def delivered_ok_def) (rule updateRows_reached, simp_all)
  qed
  then show ?thesis using subscribe assms(2) by (simp add: inbox_ok_def delivered_ok_def)
next
  case (status s agentId channelHex T)
  have "\<forall>s \<in> set (channel_subscriptions T). reached (inbox st) s"
    using assms(3) status(2)
      updateRows_reached [of "subs st" "inbox st" "\<lambda>t. t\<lparr>status := s\<rparr>" agentId channelHex]
    by (simp add: setStatus_def delivered_ok_def split: if_splits)
  then show ?thesis using status assms(2) by (simp add: inbox_ok_def delivered_ok_def)
next
  case (processed agentId channelHex q T)
  have "\<forall>s \<in> set (channel_subscriptions T). reached (inbox st) s"
    using assms(3) processed(2)
      updateRows_reached [of "subs st" "inbox st" "\<lambda>t. t\<lparr>processed_through := q\<rparr>" agentId channelHex]
    by (auto simp: Channel_Inbox.advanceProcessed_def delivered_ok_def split: option.splits if_splits)
  then show ?thesis using processed assms(2) by (simp add: inbox_ok_def delivered_ok_def)
qed (use assms(2,3) in \<open>simp_all add: inbox_ok_def delivered_ok_def other_fields\<close>)

lemma reachable_ok: "(collector_step X)\<^sup>*\<^sup>* emptyCollector st \<Longrightarrow> inbox_ok X st \<and> delivered_ok st"
  by (induction rule: rtranclp_induct) (auto simp: emptyCollector_def inbox_ok_def delivered_ok_def dest: step_ok)


section \<open>Reading\<close>

lemma inboxBetween_rows:
  "r \<in> set (inboxBetween agentId key a b rows) \<longleftrightarrow>
   r \<in> set rows \<and> in_agent r = agentId \<and> in_channel r = toLower key \<and> a \<le> in_seq r \<and> in_seq r \<le> b"
  by (auto simp: inboxBetween_def inboxRows_def)

lemma inbox_reads:
  assumes "inbox_ok X st"
  shows "\<exists>posts. inboxRange X agentId key a b (inbox st) = Inr posts \<and>
    (\<forall>p \<in> set posts. verifyBroadcastArtifact X p = None \<and> postOfKey (toLower key) p \<and> a \<le> ba_seq p \<and> ba_seq p \<le> b)"
proof -
  let ?rows = "inboxBetween agentId key a b (inbox st)"
  have "\<forall>r \<in> set ?rows. \<exists>p. genuine X r p" using assms by (simp add: inbox_ok_def inboxBetween_rows)
  then obtain g where g: "\<forall>r \<in> set ?rows. genuine X r (g r)" by metis
  have "inboxRange X agentId key a b (inbox st) = Inr (map g ?rows)"
    unfolding inboxRange_def by (rule rmap_pure) (use g in \<open>auto simp: inboxDecode_def genuine_def\<close>)
  moreover have "\<forall>p \<in> set (map g ?rows). verifyBroadcastArtifact X p = None \<and> postOfKey (toLower key) p \<and> a \<le> ba_seq p \<and> ba_seq p \<le> b"
    using g by (auto simp: genuine_def inboxBetween_rows)
  ultimately show ?thesis by blast
qed

text \<open>No advance throws in a state the collections can reach.\<close>

lemma forks_readable:
  assumes "inbox_ok X st"
  shows "\<exists>vs. forksFor X agentId key q (inbox st) = Inr vs"
  using inbox_reads [OF assms, of agentId key q q] by (auto simp: forksFor_def)

text \<open>C23: Nothing a relay serves gets past the collector unsigned: in every state the collections of a daemon
  can reach, whatever the relays answered and however the collections interleaved, reading a range
  of a channel or a lane succeeds and yields only posts whose signatures verify, that name this
  channel, and, in a lane, are by its poster under a pass; and the delivered position of each
  subscription is 0 or a position whose post is held.\<close>

theorem inbox_holds_only_signed_posts:
  assumes "(collector_step X)\<^sup>*\<^sup>* emptyCollector st"
  shows "(\<exists>posts. inboxRange X agentId key a b (inbox st) = Inr posts \<and>
      (\<forall>p \<in> set posts. verifyBroadcastArtifact X p = None \<and> a \<le> ba_seq p \<and> ba_seq p \<le> b \<and>
        (toLower key = bytesToHex (ba_channel_pubkey p) \<or>
         ba_ext p \<noteq> None \<and> toLower key = laneKey (bytesToHex (ba_channel_pubkey p)) (bytesToHex (ba_agent_pubkey p))))) \<and>
    (\<forall>s \<in> set (channel_subscriptions (subs st)). delivered_through s = 0 \<or>
      (\<exists>r \<in> set (inbox st). in_agent r = su_agent s \<and> in_channel r = su_channel s \<and> in_seq r = delivered_through s))"
proof -
  have ok: "inbox_ok X st" "delivered_ok st" using reachable_ok [OF assms] by simp_all
  then show ?thesis
    using inbox_reads [OF ok(1), of agentId key a b] by (auto simp: postOfKey_def delivered_ok_def reached_def)
qed

text \<open>The post of the sample channel, collected by a subscriber of it.\<close>

definition ownAnswer :: FetchAnswer where
  "ownAnswer = FetchOk [\<lparr>re_cbor = encodeBroadcastArtifact idealPrims ownPost, re_receipt = None, re_clock = 9\<rparr>] (Some 1)"

lemma own_verified:
  "verifyPost idealPrims ownKey (bytesToHex (ba_agent_pubkey ownPost)) None [] (encodeBroadcastArtifact idealPrims ownPost) = Inr ownPost"
proof -
  obtain v where d: "decodeBroadcastArtifact idealPrims (encodeBroadcastArtifact idealPrims ownPost) = Inr ownPost"
      "verifyBroadcastArtifact idealPrims ownPost = None"
    using ownPost_checked by (auto simp: checkedBytes_def Let_def split: sum.splits if_splits dest: decode_encode_post [OF ideal_ok])
  have "ownKey = bytesToHex (ba_channel_pubkey ownPost)"
    by (simp add: ownKey_def laneKeyOf_def ownPost_def)
  moreover have "toLower ownKey = ownKey" by (simp add: ownKey_def laneKeyOf_def ownPost_def)
  moreover have "validateBroadcastTitle idealPrims (JText (ba_title ownPost))"
    by (simp add: validateBroadcastTitle_def ownPost_def samplePost_def idealPrims_def samplePrims_def
        MAX_BROADCAST_TITLE_CHARS_def controlChar_def)
  ultimately show ?thesis using d by (simp add: verifyPost_def)
qed

lemma own_seq: "ba_seq ownPost = 1"
  by (simp add: ownPost_def samplePost_def)

theorem inbox_holds_only_signed_posts_witness:
  "\<exists>posts. inboxRange idealPrims ''me'' ownKey 1 9
      (inbox (ingest idealPrims ''me'' ownKey (bytesToHex (ba_agent_pubkey ownPost)) None ''r'' [] ownAnswer emptyCollector)) = Inr posts \<and>
    posts \<noteq> [] \<and> (\<forall>p \<in> set posts. verifyBroadcastArtifact idealPrims p = None)"
proof -
  let ?st = "ingest idealPrims ''me'' ownKey (bytesToHex (ba_agent_pubkey ownPost)) None ''r'' [] ownAnswer emptyCollector"
  have "(collector_step idealPrims)\<^sup>*\<^sup>* emptyCollector ?st" by (rule r_into_rtranclp, rule answer)
  from inbox_holds_only_signed_posts [OF this, of "''me''" ownKey 1 9]
  obtain posts where p: "inboxRange idealPrims ''me'' ownKey 1 9 (inbox ?st) = Inr posts"
      "\<forall>p \<in> set posts. verifyBroadcastArtifact idealPrims p = None"
    by blast
  have "length (inboxBetween ''me'' ownKey 1 9 (inbox ?st)) = 1"
    by (simp add: inboxBetween_def inboxRows_def ingest_def ownAnswer_def ingestEntry_def own_verified keyFor_def storePost_def
        Let_def emptyCollector_def own_seq)
  then have "length posts = 1" using p(1) rmap_length by (fastforce simp: inboxRange_def)
  then show ?thesis using p by auto
qed

end
