(* ===== verification/Channel_Delivery.thy ===== *)
theory Channel_Delivery
  imports Channel_Collector_Runs
begin

text \<open>
  From the publisher's log to the subscriber's inbox: what is served from the log is what the
  subscriber delivers and reads.
\<close>

section \<open>Storing what the log serves\<close>

lemma checked_title:
  "checkPostFields X channel agent seq published title body supersedes = None \<Longrightarrow>
   validateBroadcastTitle X title \<and> title = JText (case title of JText s \<Rightarrow> s | _ \<Rightarrow> [])"
  by (cases title) (auto simp: checkPostFields_def validateBroadcastTitle_def split: if_split_asm)

lemma decoded_title:
  assumes "decodeBroadcastArtifact X bytes = Inr a"
  shows "validateBroadcastTitle X (JText (ba_title a))"
proof -
  obtain channel agent seq published title body supersedes
    where "checkPostFields X channel agent seq published title body supersedes = None"
      "ba_title a = (case title of JText s \<Rightarrow> s | _ \<Rightarrow> [])"
    using assms unfolding decodeBroadcastArtifact_def Let_def
    by (auto split: option.split_asm jsval.split_asm list.split_asm if_split_asm)
  then show ?thesis using checked_title by metis
qed

definition servable :: "Primitives \<Rightarrow> string \<Rightarrow> string \<Rightarrow> BroadcastArtifact \<Rightarrow> bool" where
  "servable X key admin p \<longleftrightarrow> decodeBroadcastArtifact X (encodeBroadcastArtifact X p) = Inr p \<and>
     verifyBroadcastArtifact X p = None \<and> laneKeyOf p = key \<and> CHR ''/'' \<notin> set key \<and>
     bytesToHex (ba_agent_pubkey p) = toLower admin"

lemma servable_key: "servable X key admin p \<Longrightarrow> key = bytesToHex (ba_channel_pubkey p)"
  by (auto simp: servable_def laneKeyOf_def Let_def split: if_splits)

lemma servable_verified:
  assumes "servable X key admin p"
  shows "verifyPost X key admin None [] (encodeBroadcastArtifact X p) = Inr p"
proof -
  note k = servable_key [OF assms]
  have "toLower key = key" by (simp add: k)
  then show ?thesis
    using assms k decoded_title [of X "encodeBroadcastArtifact X p" p] by (auto simp: servable_def verifyPost_def)
qed

definition entryOf :: "Primitives \<Rightarrow> int \<Rightarrow> BroadcastArtifact \<Rightarrow> RelayEntry" where
  "entryOf X clock p = \<lparr>re_cbor = encodeBroadcastArtifact X p, re_receipt = None, re_clock = clock\<rparr>"

definition rowOf :: "Primitives \<Rightarrow> string \<Rightarrow> string \<Rightarrow> string \<Rightarrow> int \<Rightarrow> BroadcastArtifact \<Rightarrow> InboxRow" where
  "rowOf X agentId key relay clock p = \<lparr>in_agent = agentId, in_channel = key, in_seq = ba_seq p, in_hash = postHashHex X p,
     in_cbor = encodeBroadcastArtifact X p, in_receipt = None, in_relay = relay, in_at = clock\<rparr>"

lemma rowOf_simps [simp]:
  "in_agent (rowOf X agentId key relay clock p) = agentId" "in_channel (rowOf X agentId key relay clock p) = key"
  "in_seq (rowOf X agentId key relay clock p) = ba_seq p" "in_hash (rowOf X agentId key relay clock p) = postHashHex X p"
  by (simp_all add: rowOf_def)

lemma ingestEntry_servable:
  assumes "servable X key admin p"
  shows "ingestEntry X agentId key admin None relay [] rows (entryOf X clock p) =
    (if \<exists>r \<in> set rows. in_agent r = agentId \<and> in_channel r = key \<and> in_seq r = ba_seq p \<and> in_hash r = postHashHex X p
     then rows else rows @ [rowOf X agentId key relay clock p])"
proof -
  have "toLower key = key" by (simp add: servable_key [OF assms])
  then show ?thesis
    by (auto simp: ingestEntry_def entryOf_def servable_verified [OF assms] keyFor_def storePost_def Let_def list_ex_iff rowOf_def)
qed

lemma ingest_fresh:
  assumes "\<forall>p \<in> set posts. servable X key admin p" and "distinct (map ba_seq posts)"
    and "\<forall>r \<in> set rows. in_agent r = agentId \<longrightarrow> in_channel r = key \<longrightarrow> in_seq r \<notin> ba_seq ` set posts"
  shows "foldl (ingestEntry X agentId key admin None relay []) rows (map (entryOf X clock) posts) =
    rows @ map (rowOf X agentId key relay clock) posts"
  using assms
proof (induction posts arbitrary: rows)
  case (Cons p posts)
  have "ingestEntry X agentId key admin None relay [] rows (entryOf X clock p) = rows @ [rowOf X agentId key relay clock p]"
    using ingestEntry_servable [of X key admin p agentId relay rows clock] Cons.prems by auto
  then show ?case using Cons by auto
qed simp

lemma ingest_again:
  assumes "\<forall>p \<in> set posts. servable X key admin p \<and>
      (\<exists>r \<in> set rows. in_agent r = agentId \<and> in_channel r = key \<and> in_seq r = ba_seq p \<and> in_hash r = postHashHex X p)"
  shows "foldl (ingestEntry X agentId key admin None relay []) rows (map (entryOf X clock) posts) = rows"
  using assms by (induction posts) (simp_all add: ingestEntry_servable)

lemma fetchAll_same:
  assumes "\<forall>p \<in> set posts. servable X key admin p" and "distinct (map ba_seq posts)"
    and "\<forall>r \<in> set (inbox st). in_agent r = agentId \<longrightarrow> in_channel r = key \<longrightarrow> in_seq r \<notin> ba_seq ` set posts"
  shows "fetchAll X (\<lambda>_ _ _. FetchOk (map (entryOf X clock) posts) (Some f)) req agentId key admin None [] (relay # rs) st =
    (st\<lparr>inbox := inbox st @ map (rowOf X agentId key relay clock) posts\<rparr>, Some f)"
proof -
  let ?ans = "FetchOk (map (entryOf X clock) posts) (Some f)"
  let ?st = "st\<lparr>inbox := inbox st @ map (rowOf X agentId key relay clock) posts\<rparr>"
  have first: "ingest X agentId key admin None relay [] ?ans st = ?st"
    using ingest_fresh [OF assms(1,2,3)] by (simp add: ingest_def)
  have again: "ingest X agentId key admin None relay' [] ?ans ?st = ?st" for relay'
  proof -
    have "foldl (ingestEntry X agentId key admin None relay' []) (inbox ?st) (map (entryOf X clock) posts) = inbox ?st"
      by (rule ingest_again) (use assms(1) in \<open>fastforce simp: bex_Un\<close>)
    then show ?thesis by (simp add: ingest_def)
  qed
  have "foldl (\<lambda>(st, lowest) (i, relay). let answer = ?ans in (ingest X agentId key admin None relay [] answer st, lowerFirst lowest answer))
      (?st, Some f) xs = (?st, Some f)" for xs :: "(nat \<times> string) list"
    by (induction xs) (simp_all add: again lowerFirst_def Let_def split_beta)
  then show ?thesis by (simp add: fetchAll_def first lowerFirst_def Let_def)
qed

section \<open>Delivering it\<close>

lemma runs_to:
  assumes "runs held forked start n" and "start \<le> m" and "\<And>q. start \<le> q \<Longrightarrow> q \<in> set held \<and> q \<notin> set forked \<longleftrightarrow> q < m"
  shows "start + int n = m"
proof (rule antisym)
  show "m \<le> start + int n" using assms by (auto simp: runs_def)
  show "start + int n \<le> m"
  proof (rule ccontr)
    assume "\<not> ?thesis"
    then have "m \<in> {start..<start + int n}" using assms(2) by simp
    then show False using assms(1,3) by (fastforce simp: runs_def)
  qed
qed

lemma served_held:
  assumes "\<forall>r \<in> set rows. in_agent r = agentId \<longrightarrow> in_channel r = key \<longrightarrow> in_seq r \<le> d"
    and "map ba_seq posts = [max (d + 1) f..m - 1]" and "toLower key = key" and "d < q"
  shows "q \<in> set (heldSeqs agentId key (rows @ map (rowOf X agentId key relay clock) posts)) \<longleftrightarrow> f \<le> q \<and> q < m"
    and "q \<notin> set (forkedSeqs agentId key (rows @ map (rowOf X agentId key relay clock) posts))"
proof -
  let ?rows = "rows @ map (rowOf X agentId key relay clock) posts"
  have seqs: "ba_seq ` set posts = {max (d + 1) f..m - 1}" by (metis assms(2) list.set_map set_upto)
  have "distinct (map ba_seq posts)" by (simp add: assms(2))
  then have inj: "inj_on ba_seq (set posts)" by (simp add: distinct_map)
  show "q \<in> set (heldSeqs agentId key ?rows) \<longleftrightarrow> f \<le> q \<and> q < m"
  proof -
    have "q \<in> set (heldSeqs agentId key ?rows) \<longleftrightarrow> q \<in> ba_seq ` set posts"
      using assms(1,3,4) by (auto simp: heldSeqs_row image_iff bex_Un)
    then show ?thesis using assms(4) by (auto simp: seqs)
  qed
  have "set (filter (\<lambda>r. in_seq r = q) (inboxRows agentId key ?rows)) =
      rowOf X agentId key relay clock ` {p \<in> set posts. ba_seq p = q}"
    using assms(1,3,4) by (auto simp: inboxRows_def)
  moreover have fin: "finite {p \<in> set posts. ba_seq p = q}" by simp
  moreover have "card {p \<in> set posts. ba_seq p = q} \<le> 1"
    using inj unfolding One_nat_def card_le_Suc0_iff_eq [OF fin] inj_on_def by simp
  ultimately have "card (in_hash ` set (filter (\<lambda>r. in_seq r = q) (inboxRows agentId key ?rows))) \<le> 1"
    by (simp add: image_image card_image_le [OF fin] order_trans [OF card_image_le [OF fin]])
  then show "q \<notin> set (forkedSeqs agentId key ?rows)" by (simp add: forkedSeqs_def)
qed

lemma inboxBetween_served:
  assumes "\<forall>r \<in> set rows. in_agent r = agentId \<longrightarrow> in_channel r = key \<longrightarrow> in_seq r \<le> d"
    and "map ba_seq posts = [max (d + 1) f..m - 1]" and "toLower key = key"
  shows "inboxBetween agentId key (d + 1) (m - 1) (rows @ map (rowOf X agentId key relay clock) posts) =
    map (rowOf X agentId key relay clock) posts"
proof -
  have old: "filter (\<lambda>r. d + 1 \<le> in_seq r \<and> in_seq r \<le> m - 1) (inboxRows agentId key rows) = []"
    using assms(1,3) by (auto simp: inboxRows_def filter_empty_conv)
  have all: "\<forall>p \<in> set posts. d + 1 \<le> ba_seq p \<and> ba_seq p \<le> m - 1"
  proof
    fix p assume "p \<in> set posts"
    then have "ba_seq p \<in> set (map ba_seq posts)" by simp
    then show "d + 1 \<le> ba_seq p \<and> ba_seq p \<le> m - 1" unfolding assms(2) by auto
  qed
  have "sorted (map ba_seq posts)" by (simp add: assms(2))
  moreover have "distinct (map ba_seq posts)" by (simp add: assms(2))
  ultimately have "sorted_wrt (<) (map ba_seq posts)" by (simp add: strict_sorted_iff)
  then have "sorted (map (\<lambda>r. (in_seq r, in_hash r)) (map (rowOf X agentId key relay clock) posts))"
    by (auto simp: sorted_map sorted_wrt_map intro: sorted_wrt_mono_rel)
  then show ?thesis
    using old all assms(3) by (simp add: inboxBetween_def inboxRows_def sort_key_sorted filter_id_conv comp_def)
qed

lemma head_first:
  assumes "stateOf key st = Inr s" and "seqs key st = {f..<m}" and "f < m" and "Channel_Log.head key st = Inr h"
  shows "first_seq h = Some f"
proof -
  have "set (map lr_seq (filter (\<lambda>r. lr_channel r = key) (channel_log st))) = {f..<m}"
    unfolding assms(2) [symmetric] by (auto simp: seqs_def)
  moreover have "Min {f..<m} = f" using assms(3) by (intro Min_eqI) auto
  moreover have "map lr_seq (filter (\<lambda>r. lr_channel r = key) (channel_log st)) \<noteq> []"
    using calculation(1) assms(3) by (metis atLeastLessThan_empty_iff list.set(1) not_le)
  ultimately show ?thesis using assms(1,4) by (auto simp: Channel_Log.head_def Let_def)
qed


section \<open>From the log to the reader\<close>

lemma rmap_inverse: "\<forall>x \<in> set xs. f (g x) = Inr x \<Longrightarrow> rmap f (map g xs) = Inr xs"
  by (induction xs) simp_all

lemma run_served:
  assumes "\<forall>r \<in> set rows. in_agent r = agentId \<longrightarrow> in_channel r = key \<longrightarrow> in_seq r \<le> d"
    and "map ba_seq posts = [max (d + 1) f..m - 1]" and "toLower key = key" and "max (d + 1) f < m"
    and "inbox st = rows @ map (rowOf X agentId key relay clock) posts" and "firstHeld st key = Some f"
    and "\<exists>vs. readForks X agentId key (inbox st) = Inr vs"
  shows "contiguousRun X agentId key d st = Inr (m - 1, length posts)"
proof -
  let ?held = "heldSeqs agentId key (inbox st)" and ?forked = "forkedSeqs agentId key (inbox st)"
  let ?start = "startOf (Some f) ?held d"
  note held = served_held [OF assms(1-3), where X = X and relay = relay and clock = clock, folded assms(5)]
  have start: "?start = max (d + 1) f"
    using held(1) [of "d + 1"] assms(4) by (auto simp: startOf_def Let_def)
  obtain run where run: "contiguousRun X agentId key d st = Inr run" using assms(7) contiguousRun_readable by blast
  obtain n where n: "run = (if n = 0 then d else ?start + int n - 1, n)" "runs ?held ?forked ?start n"
    using contiguousRun_runs [OF run] unfolding assms(6) by blast
  have "?start + int n = m"
    by (rule runs_to [OF n(2)]) (use held assms(4) start in auto)
  moreover have "length posts = nat (m - max (d + 1) f)"
    using arg_cong [OF assms(2), of length] by simp
  ultimately show ?thesis using run n(1) start assms(4) by auto
qed

text \<open>Posts stored above every row held add no version to an old position, and one to each new.\<close>

lemma readForks_served:
  assumes "\<forall>r \<in> set rows. in_agent r = agentId \<longrightarrow> in_channel r = key \<longrightarrow> in_seq r \<le> d"
    and "map ba_seq posts = [max (d + 1) f..m - 1]" and "toLower key = key"
    and "\<forall>q \<in> set (forkedSeqs agentId key rows). \<exists>vs. forksFor X agentId key q rows = Inr vs"
  shows "\<exists>vs. readForks X agentId key (rows @ map (rowOf X agentId key relay clock) posts) = Inr vs"
proof -
  let ?rows = "rows @ map (rowOf X agentId key relay clock) posts"
  have seqs: "ba_seq ` set posts = {max (d + 1) f..m - 1}" by (metis assms(2) list.set_map set_upto)
  have same: "filter (\<lambda>r. P (in_seq r)) (inboxRows agentId key ?rows) = filter (\<lambda>r. P (in_seq r)) (inboxRows agentId key rows)"
    if P: "\<And>q. d < q \<Longrightarrow> \<not> P q" for P
  proof -
    have "d < ba_seq p" if "p \<in> set posts" for p
      using imageI [OF that, of ba_seq] unfolding seqs by simp
    then have "filter (\<lambda>r. P (in_seq r)) (inboxRows agentId key (map (rowOf X agentId key relay clock) posts)) = []"
      using P by (auto simp: inboxRows_def filter_empty_conv)
    then show ?thesis by (simp add: inboxRows_def)
  qed
  have "\<exists>vs. forksFor X agentId key q ?rows = Inr vs" if "q \<in> set (forkedSeqs agentId key ?rows)" for q
  proof -
    have "\<not> d < q" using served_held(2) [OF assms(1-3), of q X relay clock] that by blast
    then have low: "q \<le> d" by simp
    then have f: "filter (\<lambda>r. in_seq r = q) (inboxRows agentId key ?rows) = filter (\<lambda>r. in_seq r = q) (inboxRows agentId key rows)"
      "filter (\<lambda>r. q \<le> in_seq r \<and> in_seq r \<le> q) (inboxRows agentId key ?rows) = filter (\<lambda>r. q \<le> in_seq r \<and> in_seq r \<le> q) (inboxRows agentId key rows)"
      using same [of "\<lambda>p. p = q"] same [of "\<lambda>p. q \<le> p \<and> p \<le> q"] by simp_all
    have c: "1 < card (in_hash ` set (filter (\<lambda>r. in_seq r = q) (inboxRows agentId key rows)))"
      using that unfolding forkedSeqs_def f(1) [symmetric] by simp
    then have "filter (\<lambda>r. in_seq r = q) (inboxRows agentId key rows) \<noteq> []" by (cases "filter (\<lambda>r. in_seq r = q) (inboxRows agentId key rows)") auto
    then have "q \<in> set (heldSeqs agentId key rows)" by (auto simp: heldSeqs_def filter_empty_conv)
    then have "q \<in> set (forkedSeqs agentId key rows)" using c by (simp add: forkedSeqs_def)
    moreover have "forksFor X agentId key q ?rows = forksFor X agentId key q rows"
      by (simp only: forksFor_def inboxRange_def inboxBetween_def f(2))
    ultimately show ?thesis using assms(4) by simp
  qed
  then show ?thesis unfolding readForks_def by (metis rmap_error old.sum.exhaust sum.distinct(1))
qed

text \<open>C24: What is published is what is read. Take any state of the publisher's log, and a subscriber that
  holds nothing above its delivered position; let its relays, however many, serve the posts of the
  log after that position with the log's first position. One collection then moves the delivered
  position to the last post of the log, announces exactly those posts, and the subscriber reads over
  that range exactly the posts that the publisher's log reads. The posts are assumed to be of the
  admin the subscriber knows, and of the channel's own lane; CBOR reads arrays back; and the versions
  the inbox already holds of a forked position decode, as they do in every state the collections of a
  daemon can reach (\<open>forks_readable\<close>, \<open>reachable_ok\<close>).\<close>

theorem published_posts_reach_readers:
  assumes codec: "codec_ok X"
    and log: "stateOf key (foldl (log_step X) emptyLog es) = Inr s" "Channel_Log.head key (foldl (log_step X) emptyLog es) = Inr h"
      "readRange X key (delivered_through sub + 1) (next_seq s - 1) (foldl (log_step X) emptyLog es) = Inr posts" "posts \<noteq> []"
    and admin: "CHR ''/'' \<notin> set key" "\<forall>p \<in> set posts. bytesToHex (ba_agent_pubkey p) = toLower (admin_pubkey sub)"
    and sub: "getSubscription agentId key (subs st) = Some sub" "relays sub \<noteq> []"
    and new: "\<forall>r \<in> set (inbox st). in_agent r = agentId \<longrightarrow> in_channel r = key \<longrightarrow> in_seq r \<le> delivered_through sub"
    and readable: "\<forall>q \<in> set (forkedSeqs agentId key (inbox st)). \<exists>vs. forksFor X agentId key q (inbox st) = Inr vs"
    and st': "(r, st') = collectMain X (\<lambda>_ _ _. FetchOk (map (entryOf X clock) posts) (first_seq h)) auth agents agentId key sub st"
  shows "r = Inr () \<and> getSubscription agentId key (subs st') = Some (sub\<lparr>delivered_through := next_seq s - 1\<rparr>) \<and>
    notified st' = notified st @ [(agentId, key, length posts, next_seq s - 1, [])] \<and>
    inboxRange X agentId key (delivered_through sub + 1) (next_seq s - 1) (inbox st') =
      Inr posts"
proof -
  let ?log = "foldl (log_step X) emptyLog es" and ?d = "delivered_through sub" and ?m = "next_seq s"
  obtain f where f: "f \<ge> 1" "seqs key ?log = {f..<?m}" and read: "map ba_seq posts = [max (?d + 1) f..?m - 1]"
      "\<forall>p \<in> set posts. verifyBroadcastArtifact X p = None \<and> laneKeyOf p = key \<and>
        decodeBroadcastArtifact X (encodeBroadcastArtifact X p) = Inr p"
    using readRange_ok [OF run_ok [OF codec] log(1)] log(3) by (metis Inr_inject min.idem)
  have lt: "max (?d + 1) f < ?m" using read(1) log(4) by (cases posts) (auto dest: arg_cong [where f = length])
  then have first: "first_seq h = Some f" using head_first [OF log(1) f(2) _ log(2)] by simp
  have serv: "\<forall>p \<in> set posts. servable X key (admin_pubkey sub) p" using read(2) admin by (simp add: servable_def)
  have low: "toLower key = key"
  proof -
    obtain p where "p \<in> set posts" using log(4) by (cases posts) auto
    then have "key = bytesToHex (ba_channel_pubkey p)" using serv servable_key by blast
    then show ?thesis by simp
  qed
  have seqs: "ba_seq ` set posts = {max (?d + 1) f..?m - 1}" by (metis read(1) list.set_map set_upto)
  obtain relay rs where rs: "relays sub = relay # rs" using sub(2) by (cases "relays sub") auto
  have fresh: "\<forall>r \<in> set (inbox st). in_agent r = agentId \<longrightarrow> in_channel r = key \<longrightarrow> in_seq r \<notin> ba_seq ` set posts"
    using new by (auto simp: seqs)
  have dist: "distinct (map ba_seq posts)" by (simp add: read(1))
  let ?st1 = "(st\<lparr>inbox := inbox st @ map (rowOf X agentId key relay clock) posts\<rparr>)\<lparr>firstHeld := (firstHeld st)(key \<mapsto> f)\<rparr>"
  have run: "contiguousRun X agentId key ?d ?st1 = Inr (?m - 1, length posts)"
    by (rule run_served [OF new read(1) low lt, of _ X relay clock])
      (simp_all add: readForks_served [OF new read(1) low readable])
  have row: "isRow agentId key (sub\<lparr>delivered_through := ?m - 1\<rparr>) = isRow agentId key sub" by (simp add: isRow_def)
  have "(r, st') = advance X agentId key ?st1"
    unfolding st' collectMain_def rs first fetchAll_same [OF serv dist fresh] by (simp add: setFirstHeld_def)
  then have "r = Inr ()" "subs st' = updateRows agentId key (\<lambda>s. s\<lparr>delivered_through := ?m - 1\<rparr>) (subs st)"
      "notified st' = notified st @ [(agentId, key, length posts, ?m - 1, [])]"
      "inbox st' = inbox st @ map (rowOf X agentId key relay clock) posts"
    using run sub(1) lt by (simp_all add: advance_def setDeliveredThrough_def)
  moreover have "inboxRange X agentId key (?d + 1) (?m - 1) (inbox st @ map (rowOf X agentId key relay clock) posts) = Inr posts"
    unfolding inboxRange_def inboxBetween_served [OF new read(1) low]
    by (rule rmap_inverse) (use read(2) in \<open>simp add: inboxDecode_def rowOf_def\<close>)
  ultimately show ?thesis using getSubscription_update [OF sub(1), of "\<lambda>s. s\<lparr>delivered_through := ?m - 1\<rparr>"] row by simp
qed

text \<open>The sample channel's post reaches a subscriber with two relays.\<close>

definition ownSub :: ChannelSubscription where
  "ownSub = \<lparr>su_agent = ''me'', su_channel = ownKey, admin_pubkey = bytesToHex (ba_agent_pubkey ownPost), access = ''open'',
     relays = [''r'', ''s''], moniker = [], guidance = [], guidance_updated_at = 0, retention_seconds = 604800,
     delivered_through = 0, processed_through = 0, status = SubActive, notify = NotifyPush\<rparr>"

definition ownCollector :: Collector where
  "ownCollector = emptyCollector\<lparr>subs := \<lparr>channel_subscriptions = [ownSub], channel_subscription_keys = []\<rparr>\<rparr>"

theorem published_posts_reach_readers_witness:
  "inboxRange idealPrims ''me'' ownKey 1 1
     (inbox (snd (collectMain idealPrims (\<lambda>_ _ _. FetchOk [entryOf idealPrims 9 ownPost] (Some 1)) (\<lambda>_. None) [] ''me'' ownKey ownSub
       ownCollector))) = Inr [ownPost]"
proof -
  let ?log = "foldl (log_step idealPrims) emptyLog [Ensure ownKey, Append ownKey ownPost]"
  have key: "ownKey = bytesToHex (ba_channel_pubkey ownPost)" by (simp add: ownKey_def laneKeyOf_def ownPost_def)
  have low: "toLower ownKey = ownKey" by (simp add: key)
  have s: "stateOf ownKey ?log = Inr \<lparr>sr_channel = ownKey, next_seq = 2, pruned_through = 0\<rparr>"
    unfolding ownPost_log by (simp add: stateOf_def)
  have h: "Channel_Log.head ownKey ?log = Inr \<lparr>first_seq = Some 1, last_seq = Some 1, head_pruned_through = 0\<rparr>"
    unfolding ownPost_log by (simp add: Channel_Log.head_def stateOf_def ownRow_def)
  have "decodeRow idealPrims (lr_post_cbor ownRow) = Inr ownPost"
    using ownPost_checked by (auto simp: checkedBytes_def decodeRow_def ownRow_def Let_def split: sum.splits if_splits
        dest: decode_encode_post [OF ideal_ok])
  then have read: "readRange idealPrims ownKey 1 1 ?log = Inr [ownPost]"
    unfolding ownPost_log by (simp add: readRange_def stateOf_def ownRow_def)
  have slash: "CHR ''/'' \<notin> set ownKey"
  proof
    assume "CHR ''/'' \<in> set ownKey"
    then have "lowerHex (CHR ''/'')" using bytesToHex_lower unfolding key list_all_iff by blast
    then show False by (simp add: lowerHex_def)
  qed
  have sub: "getSubscription ''me'' ownKey (subs ownCollector) = Some ownSub"
    by (simp add: getSubscription_def ownCollector_def isRow_def ownSub_def low)
  have d: "delivered_through ownSub + 1 = 1" "relays ownSub \<noteq> []"
      "\<forall>p \<in> set [ownPost]. bytesToHex (ba_agent_pubkey p) = toLower (admin_pubkey ownSub)"
    by (simp_all add: ownSub_def)
  have new: "\<forall>r \<in> set (inbox ownCollector). in_agent r = ''me'' \<longrightarrow> in_channel r = ownKey \<longrightarrow> in_seq r \<le> delivered_through ownSub"
    by (simp add: ownCollector_def emptyCollector_def)
  have read': "readRange idealPrims ownKey (delivered_through ownSub + 1)
      (next_seq \<lparr>sr_channel = ownKey, next_seq = 2, pruned_through = 0\<rparr> - 1) ?log = Inr [ownPost]"
    unfolding d using read by simp
  have "[ownPost] \<noteq> []" by simp
  moreover have "\<forall>q \<in> set (forkedSeqs ''me'' ownKey (inbox ownCollector)).
      \<exists>vs. forksFor idealPrims ''me'' ownKey q (inbox ownCollector) = Inr vs"
    by (simp add: ownCollector_def emptyCollector_def forkedSeqs_def heldSeqs_def inboxRows_def)
  ultimately have "inboxRange idealPrims ''me'' ownKey (delivered_through ownSub + 1)
      (next_seq \<lparr>sr_channel = ownKey, next_seq = 2, pruned_through = 0\<rparr> - 1)
      (inbox (snd (collectMain idealPrims (\<lambda>_ _ _. FetchOk (map (entryOf idealPrims 9) [ownPost])
        (first_seq \<lparr>first_seq = Some 1, last_seq = Some 1, head_pruned_through = 0\<rparr>)) (\<lambda>_. None) [] ''me'' ownKey ownSub ownCollector))) = Inr [ownPost]"
    using published_posts_reach_readers [OF ideal_ok s h read' _ slash d(3) sub d(2) new _ prod.collapse, of 9 "\<lambda>_. None" "[]"] by blast
  then show ?thesis by (simp only: d(1) list.map StateRow.simps ChannelHead.simps simp_thms) simp
qed

end
