(* ===== verification/Amendment_Store.thy ===== *)
theory Amendment_Store
  imports Derive_Frontier "HOL-Library.Product_Lexorder"
begin

text \<open>
  \<open>core/daemon/src/document-amendment-store.ts\<close>: a holder's copy of a document's history. An entry
  whose parents are all held is recorded, another is held back until they are; two tables, each a
  list of rows in insertion order. A frame is read by the codec of \<open>Document_Amendment\<close>. An
  operation that throws after a write keeps the write, so it returns its tables beside the error.
\<close>

section \<open>Tables\<close>

record EntryRow =
  en_owner :: string
  en_doc :: string
  en_hash :: string
  en_author :: string
  en_seq :: int
  en_bytes :: bytes
  en_at :: int

record PendingRow =
  pn_owner :: string
  pn_doc :: string
  pn_hash :: string
  pn_author :: string
  pn_bytes :: bytes
  pn_at :: int

record EntryTables =
  document_entries :: "EntryRow list"
  document_entries_pending :: "PendingRow list"

record PromotedEntry =
  pe_hash :: string
  pe_envelope :: DocumentAmendmentEnvelope

record AmendmentAppendResult =
  recorded :: bool
  held :: bool
  ar_hash :: string
  promoted :: "PromotedEntry list"

record PendingEntry =
  pd_hash :: string
  missingParents :: "string list"
  recordedAtMs :: int

record AuthorWatermark =
  wm_seq :: int
  headHashes :: "string list"

definition MAX_PENDING_PER_AUTHOR :: nat where "MAX_PENDING_PER_AUTHOR = 64"

definition emptyTables :: EntryTables where
  "emptyTables = \<lparr>document_entries = [], document_entries_pending = []\<rparr>"

section \<open>Queries\<close>

definition readFrame :: "externals \<Rightarrow> bytes \<Rightarrow> DocumentAmendmentEnvelope js" where
  "readFrame X b = rbind (x_uncbor X b) (decodeDocumentAmendment X)"

definition entriesOf :: "string \<Rightarrow> string \<Rightarrow> EntryTables \<Rightarrow> EntryRow list" where
  "entriesOf owner doc T = filter (\<lambda>r. en_owner r = owner \<and> en_doc r = doc) (document_entries T)"

definition pendingOf :: "string \<Rightarrow> string \<Rightarrow> EntryTables \<Rightarrow> PendingRow list" where
  "pendingOf owner doc T = filter (\<lambda>r. pn_owner r = owner \<and> pn_doc r = doc) (document_entries_pending T)"

definition hasEntry :: "string \<Rightarrow> string \<Rightarrow> EntryTables \<Rightarrow> string \<Rightarrow> bool" where
  "hasEntry owner doc T h \<longleftrightarrow> h \<in> en_hash ` set (entriesOf owner doc T)"

definition hasPending :: "string \<Rightarrow> string \<Rightarrow> EntryTables \<Rightarrow> string \<Rightarrow> bool" where
  "hasPending owner doc T h \<longleftrightarrow> h \<in> pn_hash ` set (pendingOf owner doc T)"

definition chain :: "externals \<Rightarrow> string \<Rightarrow> string \<Rightarrow> EntryTables \<Rightarrow> DocumentAmendmentEnvelope list js" where
  "chain X owner doc T =
     rmap (readFrame X \<circ> en_bytes) (sort_key (\<lambda>r. (en_seq r, en_hash r)) (entriesOf owner doc T))"

definition pendingEntries :: "externals \<Rightarrow> string \<Rightarrow> string \<Rightarrow> EntryTables \<Rightarrow> PendingEntry list js" where
  "pendingEntries X owner doc T =
     rmap (\<lambda>r. rbind (readFrame X (pn_bytes r)) (\<lambda>env. Inr
         \<lparr>pd_hash = pn_hash r, missingParents = filter (\<lambda>p. \<not> hasEntry owner doc T p) (parents (body env)), recordedAtMs = pn_at r\<rparr>))
       (sort_key (\<lambda>r. (pn_at r, pn_hash r)) (pendingOf owner doc T))"

definition entriesByAuthorAfter :: "string \<Rightarrow> string \<Rightarrow> string \<Rightarrow> int \<Rightarrow> EntryTables \<Rightarrow> bytes list" where
  "entriesByAuthorAfter owner doc author afterSeq T =
     map en_bytes (sort_key (\<lambda>r. (en_seq r, en_hash r))
       (filter (\<lambda>r. en_author r = author \<and> afterSeq < en_seq r) (entriesOf owner doc T)))"

function countUp :: "int list \<Rightarrow> int \<Rightarrow> int" where
  "countUp seqs q = (if q + 1 \<in> set seqs then countUp seqs (q + 1) else q)"
  by pat_completeness auto
termination
proof (relation "measure (\<lambda>(seqs, q). card {s \<in> set seqs. q < s})")
  fix seqs and q :: int
  assume "q + 1 \<in> set seqs"
  then have "q + 1 \<in> {s \<in> set seqs. q < s} - {s \<in> set seqs. q + 1 < s}" by simp
  then have "{s \<in> set seqs. q + 1 < s} \<subset> {s \<in> set seqs. q < s}" by fastforce
  then show "((seqs, q + 1), seqs, q) \<in> measure (\<lambda>(seqs, q). card {s \<in> set seqs. q < s})"
    by (simp add: psubset_card_mono)
qed simp

declare countUp.simps [simp del]

definition watermarks :: "string \<Rightarrow> string \<Rightarrow> EntryTables \<Rightarrow> (string \<times> AuthorWatermark) list" where
  "watermarks owner doc T =
     (let rows = sort_key (\<lambda>r. (en_author r, en_seq r, en_hash r)) (entriesOf owner doc T) in
      concat (map (\<lambda>author.
        let mine = filter (\<lambda>r. en_author r = author) rows; q = countUp (map en_seq mine) 0 in
        if q = 0 then []
        else [(author, \<lparr>wm_seq = q, headHashes = map en_hash (filter (\<lambda>r. en_seq r = q) mine)\<rparr>)])
      (remdups (map en_author rows))))"

section \<open>Appending\<close>

definition insertEntry ::
  "string \<Rightarrow> string \<Rightarrow> string \<Rightarrow> DocumentAmendmentEnvelope \<Rightarrow> bytes \<Rightarrow> int \<Rightarrow> EntryTables \<Rightarrow> EntryTables js" where
  "insertEntry owner doc h env bytes now T =
     (if hasEntry owner doc T h then Inl (Error ''UNIQUE constraint failed'')
      else Inr (T\<lparr>document_entries := document_entries T @
        [\<lparr>en_owner = owner, en_doc = doc, en_hash = h, en_author = author_agent_id (body env), en_seq = author_seq (body env),
          en_bytes = bytes, en_at = now\<rparr>]\<rparr>))"

definition deletePending :: "string \<Rightarrow> string \<Rightarrow> string \<Rightarrow> EntryTables \<Rightarrow> EntryTables" where
  "deletePending owner doc h T =
     T\<lparr>document_entries_pending := filter (\<lambda>r. \<not> (pn_owner r = owner \<and> pn_doc r = doc \<and> pn_hash r = h)) (document_entries_pending T)\<rparr>"

text \<open>One pass over the rows that were pending when it began.\<close>

fun promotePass ::
  "externals \<Rightarrow> string \<Rightarrow> string \<Rightarrow> int \<Rightarrow> PendingRow list \<Rightarrow> EntryTables \<Rightarrow> PromotedEntry list js \<times> EntryTables" where
  "promotePass X owner doc now [] T = (Inr [], T)"
| "promotePass X owner doc now (row # rows) T =
     (case readFrame X (pn_bytes row) of
        Inl e \<Rightarrow> (Inl e, T)
      | Inr env \<Rightarrow>
          if \<not> list_all (hasEntry owner doc T) (parents (body env)) then promotePass X owner doc now rows T
          else (case insertEntry owner doc (pn_hash row) env (pn_bytes row) now T of
             Inl e \<Rightarrow> (Inl e, T)
           | Inr T1 \<Rightarrow>
               (case promotePass X owner doc now rows (deletePending owner doc (pn_hash row) T1) of
                  (r, T2) \<Rightarrow> (map_sum id (\<lambda>ps. \<lparr>pe_hash = pn_hash row, pe_envelope = env\<rparr> # ps) r, T2))))"

lemma promotePass_shrinks:
  assumes "promotePass X owner doc now rows T = (Inr ps, T')"
  shows "\<exists>Q. document_entries_pending T' = filter Q (document_entries_pending T) \<and>
    (ps \<noteq> [] \<longrightarrow> (\<exists>r \<in> set rows. \<forall>s. pn_owner s = owner \<longrightarrow> pn_doc s = doc \<longrightarrow> pn_hash s = pn_hash r \<longrightarrow> \<not> Q s))"
  using assms
proof (induction X owner doc now rows T arbitrary: ps T' rule: promotePass.induct)
  case (1 X owner doc now T)
  then show ?case by (intro exI [of _ "\<lambda>_. True"]) simp
next
  case (2 X owner doc now row rows T)
  obtain env where env: "readFrame X (pn_bytes row) = Inr env" using 2(3) by (auto split: sum.splits)
  show ?case
  proof (cases "list_all (hasEntry owner doc T) (parents (body env))")
    case False
    then have "promotePass X owner doc now rows T = (Inr ps, T')" using 2(3) env by simp
    from 2(1) [OF env False this] show ?thesis by (metis list.set_intros(2))
  next
    case True
    obtain T1 where T1: "insertEntry owner doc (pn_hash row) env (pn_bytes row) now T = Inr T1"
      using 2(3) env True by (auto split: sum.splits)
    obtain r T2 where p: "promotePass X owner doc now rows (deletePending owner doc (pn_hash row) T1) = (r, T2)" by fastforce
    obtain qs where qs: "r = Inr qs" "T' = T2" using 2(3) env True T1 p by (cases r) auto
    have same: "document_entries_pending T1 = document_entries_pending T"
      using T1 by (auto simp: insertEntry_def split: if_splits)
    obtain Q where Q: "document_entries_pending T2 = filter Q (document_entries_pending (deletePending owner doc (pn_hash row) T1))"
      using 2(2) [OF env _ T1] True p qs by blast
    show ?thesis
      by (rule exI [of _ "\<lambda>s. \<not> (pn_owner s = owner \<and> pn_doc s = doc \<and> pn_hash s = pn_hash row) \<and> Q s"])
        (use Q same qs in \<open>auto simp: deletePending_def\<close>)
  qed
qed

function promoteReady ::
  "externals \<Rightarrow> string \<Rightarrow> string \<Rightarrow> int \<Rightarrow> EntryTables \<Rightarrow> PromotedEntry list js \<times> EntryTables" where
  "promoteReady X owner doc now T =
     (case promotePass X owner doc now (pendingOf owner doc T) T of
        (Inl e, T1) \<Rightarrow> (Inl e, T1)
      | (Inr ps, T1) \<Rightarrow>
          if ps = [] then (Inr [], T1)
          else (case promoteReady X owner doc now T1 of (r, T2) \<Rightarrow> (map_sum id (\<lambda>qs. ps @ qs) r, T2)))"
  by pat_completeness auto
termination
proof (relation "measure (\<lambda>(X, owner, doc, now, T). length (document_entries_pending T))")
  fix X owner doc and now :: int and T r T1 ps
  assume a: "(r, T1) = promotePass X owner doc now (pendingOf owner doc T) T" "r = Inr ps" "ps \<noteq> []"
  have "promotePass X owner doc now (pendingOf owner doc T) T = (Inr ps, T1)" using a(1,2) by simp
  from promotePass_shrinks [OF this] obtain Q row where Q: "document_entries_pending T1 = filter Q (document_entries_pending T)"
      "row \<in> set (pendingOf owner doc T)" "\<not> Q row"
    using a(3) by (auto simp: pendingOf_def)
  then have "length (filter Q (document_entries_pending T)) < length (document_entries_pending T)"
    by (intro length_filter_less [of row]) (auto simp: pendingOf_def)
  then show "((X, owner, doc, now, T1), X, owner, doc, now, T) \<in> measure (\<lambda>(X, owner, doc, now, T). length (document_entries_pending T))"
    using Q(1) by simp
qed simp

declare promoteReady.simps [simp del]

definition append ::
  "externals \<Rightarrow> string \<Rightarrow> string \<Rightarrow> bytes \<Rightarrow> int \<Rightarrow> EntryTables \<Rightarrow> AmendmentAppendResult js \<times> EntryTables" where
  "append X owner doc bytes now T =
     (case readFrame X bytes of
        Inl e \<Rightarrow> (Inl e, T)
      | Inr env \<Rightarrow>
          if document_id (body env) \<noteq> doc then (Inl (Error ''document_amendment_wrong_document''), T)
          else let h = entryHash X env;
                   result = (\<lambda>r w ps. \<lparr>recorded = r, held = w, ar_hash = h, promoted = ps\<rparr>) in
            if hasEntry owner doc T h then (Inr (result False False []), T)
            else if hasPending owner doc T h then (Inr (result False True []), T)
            else if \<not> list_all (hasEntry owner doc T) (parents (body env)) then
              (if MAX_PENDING_PER_AUTHOR \<le> length (filter (\<lambda>r. pn_author r = author_agent_id (body env)) (pendingOf owner doc T))
               then (Inl (Error ''document_pending_cap''), T)
               else (Inr (result True True []),
                     T\<lparr>document_entries_pending := document_entries_pending T @
                       [\<lparr>pn_owner = owner, pn_doc = doc, pn_hash = h, pn_author = author_agent_id (body env), pn_bytes = bytes,
                         pn_at = now\<rparr>]\<rparr>))
            else (case insertEntry owner doc h env bytes now T of
                Inl e \<Rightarrow> (Inl e, T)
              | Inr T1 \<Rightarrow>
                  (case promoteReady X owner doc now T1 of (r, T2) \<Rightarrow> (map_sum id (result True False) r, T2))))"

end
