(* ===== verification/Amendment_Store_Claims.thy ===== *)
theory Amendment_Store_Claims
  imports Amendment_Store
begin

text \<open>
  What a holder's store keeps: the recorded entries are exactly those of the received ones whose whole
  ancestry was received, whatever order the frames arrived in.
\<close>

section \<open>The invariant\<close>

definition row_env :: "externals \<Rightarrow> string \<Rightarrow> EntryRow \<Rightarrow> DocumentAmendmentEnvelope \<Rightarrow> bool" where
  "row_env X doc r env \<longleftrightarrow> readFrame X (en_bytes r) = Inr env \<and> document_id (body env) = doc \<and>
     en_hash r = entryHash X env \<and> en_author r = author_agent_id (body env) \<and> en_seq r = author_seq (body env)"

definition pend_env :: "externals \<Rightarrow> string \<Rightarrow> PendingRow \<Rightarrow> DocumentAmendmentEnvelope \<Rightarrow> bool" where
  "pend_env X doc r env \<longleftrightarrow> readFrame X (pn_bytes r) = Inr env \<and> document_id (body env) = doc \<and>
     pn_hash r = entryHash X env \<and> pn_author r = author_agent_id (body env)"

text \<open>Every row comes after the rows of its parents.\<close>

fun causal :: "externals \<Rightarrow> string \<Rightarrow> string set \<Rightarrow> EntryRow list \<Rightarrow> bool" where
  "causal X doc H [] = True"
| "causal X doc H (r # rs) \<longleftrightarrow>
     (\<exists>env. row_env X doc r env \<and> set (parents (body env)) \<subseteq> H) \<and> en_hash r \<notin> H \<and> causal X doc (insert (en_hash r) H) rs"

lemma causal_snoc:
  "causal X doc H (rs @ [r]) \<longleftrightarrow> causal X doc H rs \<and>
     (\<exists>env. row_env X doc r env \<and> set (parents (body env)) \<subseteq> H \<union> en_hash ` set rs) \<and> en_hash r \<notin> H \<union> en_hash ` set rs"
  by (induction rs arbitrary: H) auto

lemma causal_row: "causal X doc H rs \<Longrightarrow> r \<in> set rs \<Longrightarrow> \<exists>env. row_env X doc r env"
  by (induction rs arbitrary: H) auto

lemma causal_distinct: "causal X doc H rs \<Longrightarrow> distinct (map en_hash rs) \<and> H \<inter> en_hash ` set rs = {}"
  by (induction rs arbitrary: H) auto

definition entryHashes :: "string \<Rightarrow> string \<Rightarrow> EntryTables \<Rightarrow> string set" where
  "entryHashes owner doc T = en_hash ` set (entriesOf owner doc T)"

definition store_ok :: "externals \<Rightarrow> string \<Rightarrow> string \<Rightarrow> EntryTables \<Rightarrow> bool" where
  "store_ok X owner doc T \<longleftrightarrow> causal X doc {} (entriesOf owner doc T) \<and>
     (\<forall>r \<in> set (pendingOf owner doc T). \<exists>env. pend_env X doc r env) \<and>
     distinct (map pn_hash (pendingOf owner doc T)) \<and>
     (\<forall>r \<in> set (pendingOf owner doc T). pn_hash r \<notin> entryHashes owner doc T)"

definition waits :: "externals \<Rightarrow> string \<Rightarrow> string \<Rightarrow> EntryTables \<Rightarrow> PendingRow \<Rightarrow> bool" where
  "waits X owner doc T r \<longleftrightarrow>
     (\<exists>env p. readFrame X (pn_bytes r) = Inr env \<and> p \<in> set (parents (body env)) \<and> p \<notin> entryHashes owner doc T)"

definition settled_store :: "externals \<Rightarrow> string \<Rightarrow> string \<Rightarrow> EntryTables \<Rightarrow> bool" where
  "settled_store X owner doc T \<longleftrightarrow> (\<forall>r \<in> set (pendingOf owner doc T). waits X owner doc T r)"

definition received :: "string \<Rightarrow> string \<Rightarrow> EntryTables \<Rightarrow> (string \<times> bytes) set" where
  "received owner doc T = (\<lambda>r. (en_hash r, en_bytes r)) ` set (entriesOf owner doc T) \<union>
     (\<lambda>r. (pn_hash r, pn_bytes r)) ` set (pendingOf owner doc T)"

definition backlog :: "string \<Rightarrow> string \<Rightarrow> string \<Rightarrow> EntryTables \<Rightarrow> nat" where
  "backlog owner doc author T = length (filter (\<lambda>r. pn_author r = author) (pendingOf owner doc T))"

lemma hasEntry_iff: "hasEntry owner doc T h \<longleftrightarrow> h \<in> entryHashes owner doc T"
  by (simp add: hasEntry_def entryHashes_def)

section \<open>The writes\<close>

definition withEntry :: "string \<Rightarrow> string \<Rightarrow> string \<Rightarrow> DocumentAmendmentEnvelope \<Rightarrow> bytes \<Rightarrow> int \<Rightarrow> EntryTables \<Rightarrow> EntryTables" where
  "withEntry owner doc h env bytes now T = T\<lparr>document_entries := document_entries T @
     [\<lparr>en_owner = owner, en_doc = doc, en_hash = h, en_author = author_agent_id (body env), en_seq = author_seq (body env),
       en_bytes = bytes, en_at = now\<rparr>]\<rparr>"

lemma insertEntry_new: "h \<notin> entryHashes owner doc T \<Longrightarrow> insertEntry owner doc h env bytes now T = Inr (withEntry owner doc h env bytes now T)"
  by (simp add: insertEntry_def withEntry_def hasEntry_iff)

lemma withEntry_rows [simp]:
  "entriesOf owner doc (withEntry owner doc h env bytes now T) = entriesOf owner doc T @
     [\<lparr>en_owner = owner, en_doc = doc, en_hash = h, en_author = author_agent_id (body env), en_seq = author_seq (body env),
       en_bytes = bytes, en_at = now\<rparr>]"
  "entryHashes owner doc (withEntry owner doc h env bytes now T) = insert h (entryHashes owner doc T)"
  "pendingOf owner' doc' (withEntry owner doc h env bytes now T) = pendingOf owner' doc' T"
  by (simp_all add: withEntry_def entriesOf_def pendingOf_def entryHashes_def)

lemma deletePending_rows [simp]:
  "entriesOf owner' doc' (deletePending owner doc h T) = entriesOf owner' doc' T"
  "entryHashes owner' doc' (deletePending owner doc h T) = entryHashes owner' doc' T"
  "pendingOf owner doc (deletePending owner doc h T) = filter (\<lambda>r. pn_hash r \<noteq> h) (pendingOf owner doc T)"
  by (auto simp: deletePending_def entriesOf_def pendingOf_def entryHashes_def intro!: filter_cong)

lemma other_rows [simp]:
  assumes "(owner', doc') \<noteq> (owner, doc)"
  shows "entriesOf owner' doc' (withEntry owner doc h env bytes now T) = entriesOf owner' doc' T"
    "pendingOf owner' doc' (deletePending owner doc h T) = pendingOf owner' doc' T"
  using assms by (auto simp: withEntry_def deletePending_def entriesOf_def pendingOf_def intro!: filter_cong)

lemma filter_swap: "filter P (filter Q xs) = filter Q (filter P xs)"
  by (induction xs) simp_all

text \<open>One ready row moves from the one table to the other.\<close>

lemma move_row:
  assumes "store_ok X owner doc T" and "r \<in> set (pendingOf owner doc T)" and "readFrame X (pn_bytes r) = Inr env"
    and "set (parents (body env)) \<subseteq> entryHashes owner doc T"
    and T'_def: "T' = deletePending owner doc (pn_hash r) (withEntry owner doc (pn_hash r) env (pn_bytes r) now T)"
  shows "store_ok X owner doc T'" "received owner doc T' = received owner doc T" "backlog owner doc a T' \<le> backlog owner doc a T"
proof -
  have env: "pend_env X doc r env" using assms(1-3) by (fastforce simp: store_ok_def pend_env_def)
  let ?row = "\<lparr>en_owner = owner, en_doc = doc, en_hash = pn_hash r, en_author = author_agent_id (body env),
     en_seq = author_seq (body env), en_bytes = pn_bytes r, en_at = now\<rparr>"
  have "row_env X doc ?row env" using env by (simp add: row_env_def pend_env_def)
  moreover have new: "pn_hash r \<notin> entryHashes owner doc T" using assms(1,2) by (simp add: store_ok_def)
  ultimately have "causal X doc {} (entriesOf owner doc T')"
    using assms(1,4) by (auto simp: T'_def causal_snoc store_ok_def entryHashes_def)
  then show "store_ok X owner doc T'"
    using assms(1) by (auto simp: T'_def store_ok_def distinct_map_filter)
  have "distinct (map pn_hash (pendingOf owner doc T))" using assms(1) by (simp add: store_ok_def)
  then have one: "s = r" if "s \<in> set (pendingOf owner doc T)" "pn_hash s = pn_hash r" for s
    using that assms(2) by (auto simp: distinct_map inj_on_def)
  show "received owner doc T' = received owner doc T"
    using one assms(2) by (auto simp: T'_def received_def)
  show "backlog owner doc a T' \<le> backlog owner doc a T"
    unfolding T'_def backlog_def deletePending_rows withEntry_rows filter_swap [of "\<lambda>r. pn_author r = a"]
    by (rule length_filter_le)
qed


lemma pass_ok:
  assumes "store_ok X owner doc T" and "set rows \<subseteq> set (pendingOf owner doc T)" and "distinct (map pn_hash rows)"
  shows "\<exists>ps T'. promotePass X owner doc now rows T = (Inr ps, T') \<and> store_ok X owner doc T' \<and>
    received owner doc T' = received owner doc T \<and> (\<forall>a. backlog owner doc a T' \<le> backlog owner doc a T) \<and>
    (ps = [] \<longrightarrow> T' = T \<and> (\<forall>r \<in> set rows. waits X owner doc T r)) \<and>
    (\<forall>owner' doc'. (owner', doc') \<noteq> (owner, doc) \<longrightarrow>
       entriesOf owner' doc' T' = entriesOf owner' doc' T \<and> pendingOf owner' doc' T' = pendingOf owner' doc' T)"
  using assms
proof (induction rows arbitrary: T)
  case (Cons row rows)
  obtain env where env: "readFrame X (pn_bytes row) = Inr env" using Cons.prems(1,2) by (fastforce simp: store_ok_def pend_env_def)
  show ?case
  proof (cases "list_all (hasEntry owner doc T) (parents (body env))")
    case False
    then have w: "waits X owner doc T row" using env by (auto simp: waits_def list_all_iff hasEntry_iff)
    have "promotePass X owner doc now (row # rows) T = promotePass X owner doc now rows T" using env False by simp
    then show ?thesis using Cons.IH [of T] Cons.prems w by auto
  next
    case True
    then have sub: "set (parents (body env)) \<subseteq> entryHashes owner doc T" by (auto simp: list_all_iff hasEntry_iff)
    let ?T1 = "withEntry owner doc (pn_hash row) env (pn_bytes row) now T"
    let ?T2 = "deletePending owner doc (pn_hash row) ?T1"
    have row: "row \<in> set (pendingOf owner doc T)" using Cons.prems(2) by simp
    note moved = move_row [OF Cons.prems(1) row env sub refl, where now = now]
    have ins: "insertEntry owner doc (pn_hash row) env (pn_bytes row) now T = Inr ?T1"
      using Cons.prems(1) row by (intro insertEntry_new) (simp add: store_ok_def)
    have "pn_hash x \<noteq> pn_hash row" if "x \<in> set rows" for x using Cons.prems(3) that by (auto simp: image_iff)
    then have "set rows \<subseteq> set (pendingOf owner doc ?T2)" using Cons.prems(2) by auto
    then obtain ps T' where IH: "promotePass X owner doc now rows ?T2 = (Inr ps, T')" "store_ok X owner doc T'"
        "received owner doc T' = received owner doc ?T2" "\<forall>a. backlog owner doc a T' \<le> backlog owner doc a ?T2"
        "\<forall>owner' doc'. (owner', doc') \<noteq> (owner, doc) \<longrightarrow>
           entriesOf owner' doc' T' = entriesOf owner' doc' ?T2 \<and> pendingOf owner' doc' T' = pendingOf owner' doc' ?T2"
      using Cons.IH [OF moved(1)] Cons.prems(3) by auto
    have "promotePass X owner doc now (row # rows) T = (Inr (\<lparr>pe_hash = pn_hash row, pe_envelope = env\<rparr> # ps), T')"
      using env True ins IH(1) by simp
    then show ?thesis using IH moved(2,3) by (fastforce intro: le_trans)
  qed
qed simp

lemma promoteReady_ok:
  assumes "store_ok X owner doc T"
  shows "\<exists>ps T'. promoteReady X owner doc now T = (Inr ps, T') \<and> store_ok X owner doc T' \<and> settled_store X owner doc T' \<and>
    received owner doc T' = received owner doc T \<and> (\<forall>a. backlog owner doc a T' \<le> backlog owner doc a T) \<and>
    (\<forall>owner' doc'. (owner', doc') \<noteq> (owner, doc) \<longrightarrow>
       entriesOf owner' doc' T' = entriesOf owner' doc' T \<and> pendingOf owner' doc' T' = pendingOf owner' doc' T)"
  using assms
proof (induction X owner doc now T rule: promoteReady.induct)
  case (1 X owner doc now T)
  have "distinct (map pn_hash (pendingOf owner doc T))" using 1(2) by (simp add: store_ok_def)
  from pass_ok [OF 1(2) order_refl this]
  obtain ps T1 where p: "promotePass X owner doc now (pendingOf owner doc T) T = (Inr ps, T1)" "store_ok X owner doc T1"
      "received owner doc T1 = received owner doc T" "\<forall>a. backlog owner doc a T1 \<le> backlog owner doc a T"
      "ps = [] \<longrightarrow> T1 = T \<and> (\<forall>r \<in> set (pendingOf owner doc T). waits X owner doc T r)"
      "\<forall>owner' doc'. (owner', doc') \<noteq> (owner, doc) \<longrightarrow>
         entriesOf owner' doc' T1 = entriesOf owner' doc' T \<and> pendingOf owner' doc' T1 = pendingOf owner' doc' T"
    by blast
  show ?case
  proof (cases "ps = []")
    case True
    then show ?thesis using p 1(2) by (simp add: promoteReady.simps [of X owner doc now T] settled_store_def)
  next
    case False
    from 1(1) [OF p(1) [symmetric] refl False p(2)]
    obtain qs T2 where q: "promoteReady X owner doc now T1 = (Inr qs, T2)" "store_ok X owner doc T2" "settled_store X owner doc T2"
        "received owner doc T2 = received owner doc T1" "\<forall>a. backlog owner doc a T2 \<le> backlog owner doc a T1"
        "\<forall>owner' doc'. (owner', doc') \<noteq> (owner, doc) \<longrightarrow>
           entriesOf owner' doc' T2 = entriesOf owner' doc' T1 \<and> pendingOf owner' doc' T2 = pendingOf owner' doc' T1"
      by blast
    have "promoteReady X owner doc now T = (Inr (ps @ qs), T2)"
      using p(1) q(1) False by (simp add: promoteReady.simps [of X owner doc now T])
    then show ?thesis using q p(3,4,6) by (fastforce intro: le_trans)
  qed
qed


section \<open>Appending\<close>

definition good :: "externals \<Rightarrow> string \<Rightarrow> string \<Rightarrow> EntryTables \<Rightarrow> bool" where
  "good X owner doc T \<longleftrightarrow> store_ok X owner doc T \<and> settled_store X owner doc T \<and>
     (\<forall>a. backlog owner doc a T \<le> MAX_PENDING_PER_AUTHOR)"

lemma withPending:
  assumes "good X owner doc T" and "pend_env X doc r env" and "pn_owner r = owner" and "pn_doc r = doc"
    and "pn_hash r \<notin> entryHashes owner doc T" and "\<not> hasPending owner doc T (pn_hash r)"
    and "p \<in> set (parents (body env))" and "p \<notin> entryHashes owner doc T"
    and "backlog owner doc (pn_author r) T < MAX_PENDING_PER_AUTHOR"
    and T': "T' = T\<lparr>document_entries_pending := document_entries_pending T @ [r]\<rparr>"
  shows "good X owner doc T'" "received owner doc T' = insert (pn_hash r, pn_bytes r) (received owner doc T)"
proof -
  have rows: "entriesOf owner doc T' = entriesOf owner doc T" "pendingOf owner doc T' = pendingOf owner doc T @ [r]"
    using assms(3,4) by (simp_all add: T' entriesOf_def pendingOf_def)
  then have hashes: "entryHashes owner doc T' = entryHashes owner doc T" by (simp add: entryHashes_def)
  have w: "waits X owner doc T' r" using assms(2,7,8) by (auto simp: waits_def hashes pend_env_def)
  have "waits X owner doc T' s = waits X owner doc T s" for s by (simp add: waits_def hashes)
  then have "settled_store X owner doc T'" using assms(1) w by (auto simp: good_def settled_store_def rows)
  moreover have "store_ok X owner doc T'"
    using assms(1,2,5,6) by (auto simp: good_def store_ok_def rows hashes hasPending_def)
  moreover have "backlog owner doc a T' \<le> MAX_PENDING_PER_AUTHOR" for a
    using assms(1,9) by (auto simp: good_def backlog_def rows)
  ultimately show "good X owner doc T'" by (simp add: good_def)
  show "received owner doc T' = insert (pn_hash r, pn_bytes r) (received owner doc T)" by (auto simp: received_def rows)
qed

lemma received_hashes: "fst ` received owner doc T = entryHashes owner doc T \<union> pn_hash ` set (pendingOf owner doc T)"
  by (auto simp: received_def entryHashes_def image_Un image_image)

lemma append_keeps_good:
  assumes "good X owner doc T" and "append X owner doc bytes now T = (r, T')"
  shows "good X owner doc T' \<and> (\<forall>e. r = Inl e \<longrightarrow> T' = T) \<and>
    (\<forall>res. r = Inr res \<longrightarrow> (\<exists>env. readFrame X bytes = Inr env \<and> document_id (body env) = doc \<and>
       received owner doc T' = (if entryHash X env \<in> fst ` received owner doc T then received owner doc T
         else insert (entryHash X env, bytes) (received owner doc T)))) \<and>
    (\<forall>owner' doc'. (owner', doc') \<noteq> (owner, doc) \<longrightarrow>
       entriesOf owner' doc' T' = entriesOf owner' doc' T \<and> pendingOf owner' doc' T' = pendingOf owner' doc' T)"
proof (cases "readFrame X bytes")
  case (Inr env)
  let ?h = "entryHash X env"
  show ?thesis
  proof (cases "document_id (body env) = doc \<and> ?h \<notin> fst ` received owner doc T")
    case False
    then show ?thesis
      using assms Inr by (auto simp: append_def Let_def received_hashes hasEntry_iff hasPending_def split: if_splits)
  next
    case True
    then have doc: "document_id (body env) = doc" and new: "?h \<notin> entryHashes owner doc T" "\<not> hasPending owner doc T ?h"
      by (auto simp: received_hashes hasPending_def)
    show ?thesis
    proof (cases "list_all (hasEntry owner doc T) (parents (body env))")
      case False
      then obtain p where p: "p \<in> set (parents (body env))" "p \<notin> entryHashes owner doc T" by (auto simp: list_all_iff hasEntry_iff)
      let ?r = "\<lparr>pn_owner = owner, pn_doc = doc, pn_hash = ?h, pn_author = author_agent_id (body env), pn_bytes = bytes, pn_at = now\<rparr>"
      show ?thesis
      proof (cases "backlog owner doc (author_agent_id (body env)) T < MAX_PENDING_PER_AUTHOR")
        case cap: True
        have pend: "pend_env X doc ?r env" using Inr doc by (simp add: pend_env_def)
        note w = withPending [OF assms(1) pend _ _ _ _ p _ refl]
        have "T' = T\<lparr>document_entries_pending := document_entries_pending T @ [?r]\<rparr>" "\<exists>res. r = Inr res"
          using assms(2) Inr doc new False cap by (auto simp: append_def Let_def hasEntry_iff backlog_def)
        then show ?thesis
          using w new cap True Inr by (auto simp: entriesOf_def pendingOf_def)
      next
        case full: False
        then have "T' = T" "\<exists>e. r = Inl e"
          using assms(2) Inr doc new False by (auto simp: append_def Let_def hasEntry_iff backlog_def)
        then show ?thesis using assms(1) by auto
      qed
    next
      case ready: True
      let ?T1 = "withEntry owner doc ?h env bytes now T"
      let ?row = "\<lparr>en_owner = owner, en_doc = doc, en_hash = ?h, en_author = author_agent_id (body env),
         en_seq = author_seq (body env), en_bytes = bytes, en_at = now\<rparr>"
      have "row_env X doc ?row env" using Inr doc by (simp add: row_env_def)
      moreover have "set (parents (body env)) \<subseteq> entryHashes owner doc T" using ready by (auto simp: list_all_iff hasEntry_iff)
      moreover have "\<forall>r \<in> set (pendingOf owner doc T). pn_hash r \<noteq> ?h" using new(2) by (auto simp: hasPending_def image_iff)
      ultimately have ok: "store_ok X owner doc ?T1"
        using assms(1) new(1) by (auto simp: good_def store_ok_def causal_snoc entryHashes_def)
      from promoteReady_ok [OF ok]
      obtain ps T2 where p: "promoteReady X owner doc now ?T1 = (Inr ps, T2)" "store_ok X owner doc T2" "settled_store X owner doc T2"
          "received owner doc T2 = received owner doc ?T1" "\<forall>a. backlog owner doc a T2 \<le> backlog owner doc a ?T1"
          "\<forall>owner' doc'. (owner', doc') \<noteq> (owner, doc) \<longrightarrow>
             entriesOf owner' doc' T2 = entriesOf owner' doc' ?T1 \<and> pendingOf owner' doc' T2 = pendingOf owner' doc' ?T1"
        by blast
      have "T' = T2" "\<exists>res. r = Inr res"
        using assms(2) Inr doc new ready p(1) by (auto simp: append_def Let_def hasEntry_iff insertEntry_new)
      moreover have "received owner doc ?T1 = insert (?h, bytes) (received owner doc T)" by (auto simp: received_def)
      moreover have "backlog owner doc a T2 \<le> MAX_PENDING_PER_AUTHOR" for a
        using p(5) assms(1) le_trans by (fastforce simp: good_def backlog_def)
      ultimately show ?thesis using p True Inr by (auto simp: good_def)
    qed
  qed
qed (use assms in \<open>auto simp: append_def\<close>)

lemma other_good:
  assumes "entriesOf owner doc T' = entriesOf owner doc T" and "pendingOf owner doc T' = pendingOf owner doc T"
  shows "good X owner doc T' = good X owner doc T" "received owner doc T' = received owner doc T"
  using assms by (simp_all add: good_def store_ok_def settled_store_def waits_def backlog_def entryHashes_def received_def)

text \<open>A frame that arrives: owner, document, bytes and the time.\<close>

type_synonym arrival = "string \<times> string \<times> bytes \<times> int"

definition store_step :: "externals \<Rightarrow> EntryTables \<Rightarrow> arrival \<Rightarrow> EntryTables" where
  "store_step X T e = (case e of (owner, doc, bytes, now) \<Rightarrow> snd (append X owner doc bytes now T))"

lemma step_good: "(\<forall>owner doc. good X owner doc T) \<Longrightarrow> (\<forall>owner doc. good X owner doc (store_step X T e))"
proof (intro allI)
  fix owner doc
  assume all: "\<forall>owner doc. good X owner doc T"
  obtain o' d' bytes now where e: "e = (o', d', bytes, now)" by (cases e) auto
  obtain r T' where a: "append X o' d' bytes now T = (r, T')" by fastforce
  show "good X owner doc (store_step X T e)"
    using append_keeps_good [OF _ a] all other_good(1) [of owner doc T' T X] by (cases "(owner, doc) = (o', d')") (auto simp: e a store_step_def)
qed

interpretation store: machine "store_step X" "\<lambda>T. \<forall>owner doc. good X owner doc T" for X
  by unfold_locales (rule step_good)

lemma empty_good: "good X owner doc emptyTables"
  by (simp add: good_def store_ok_def settled_store_def backlog_def emptyTables_def entriesOf_def pendingOf_def)

lemma run_good: "good X owner doc (foldl (store_step X) emptyTables es)"
  using store.run_inv [of X emptyTables es] empty_good by blast


section \<open>Recorded is grounded\<close>

definition envOf :: "externals \<Rightarrow> bytes \<Rightarrow> DocumentAmendmentEnvelope" where
  "envOf X b = projr (readFrame X b)"

lemma received_iff:
  "(h, b) \<in> received owner doc T \<longleftrightarrow> (\<exists>r \<in> set (entriesOf owner doc T). en_hash r = h \<and> en_bytes r = b) \<or>
     (\<exists>r \<in> set (pendingOf owner doc T). pn_hash r = h \<and> pn_bytes r = b)"
  by (auto simp: received_def)

lemma received_env:
  assumes "store_ok X owner doc T" and "(h, b) \<in> received owner doc T"
  shows "readFrame X b = Inr (envOf X b)" "entryHash X (envOf X b) = h" "document_id (body (envOf X b)) = doc"
proof -
  have "\<exists>env. readFrame X b = Inr env \<and> entryHash X env = h \<and> document_id (body env) = doc"
    using assms(2) unfolding received_iff
  proof (elim disjE bexE)
    fix r assume "r \<in> set (entriesOf owner doc T)" "en_hash r = h \<and> en_bytes r = b"
    then show ?thesis using causal_row [of X doc "{}" "entriesOf owner doc T" r] assms(1) by (auto simp: store_ok_def row_env_def)
  next
    fix r assume "r \<in> set (pendingOf owner doc T)" "pn_hash r = h \<and> pn_bytes r = b"
    then show ?thesis using assms(1) by (auto simp: store_ok_def pend_env_def)
  qed
  then show "readFrame X b = Inr (envOf X b)" "entryHash X (envOf X b) = h" "document_id (body (envOf X b)) = doc"
    by (auto simp: envOf_def)
qed

lemma received_one:
  assumes "store_ok X owner doc T" and "(h, b) \<in> received owner doc T" and "(h, c) \<in> received owner doc T"
  shows "b = c"
proof -
  have e: "inj_on en_hash (set (entriesOf owner doc T))"
    using assms(1) causal_distinct by (auto simp: store_ok_def distinct_map)
  have p: "inj_on pn_hash (set (pendingOf owner doc T))" using assms(1) by (auto simp: store_ok_def distinct_map)
  have d: "pn_hash r \<noteq> en_hash r'" if "r \<in> set (pendingOf owner doc T)" "r' \<in> set (entriesOf owner doc T)" for r r'
    using assms(1) that by (auto simp: store_ok_def entryHashes_def image_iff)
  show ?thesis using assms(2,3) inj_onD [OF e] inj_onD [OF p] d unfolding received_iff by metis
qed

lemma byHashOf_unique:
  assumes "inj_on (entryHash X) (set es)"
  shows "map_of (byHashOf X es) h = Some e \<longleftrightarrow> e \<in> set es \<and> entryHash X e = h"
proof
  assume "e \<in> set es \<and> entryHash X e = h"
  moreover from this have "h \<in> fst ` set (byHashOf X es)" by (simp add: image_iff) blast
  then obtain e' where "map_of (byHashOf X es) h = Some e'" unfolding keys_map_of by blast
  ultimately show "map_of (byHashOf X es) h = Some e" using byHashOf_hash assms by (fastforce simp: inj_on_def)
qed (use byHashOf_hash in blast)

lemma chain_rows:
  assumes "store_ok X owner doc T"
  shows "chain X owner doc T = Inr (map (envOf X \<circ> en_bytes) (sort_key (\<lambda>r. (en_seq r, en_hash r)) (entriesOf owner doc T)))"
  unfolding chain_def by (rule rmap_pure) (use received_env [OF assms] in \<open>auto simp: received_def\<close>)

lemma causal_grounded:
  assumes "causal X doc H rows" and "\<forall>h \<in> H. grounded m h"
    and "\<And>r env. r \<in> set rows \<Longrightarrow> row_env X doc r env \<Longrightarrow> map_of m (en_hash r) = Some env"
  shows "\<forall>r \<in> set rows. grounded m (en_hash r)"
  using assms
proof (induction rows arbitrary: H)
  case (Cons r rows)
  then obtain env where "row_env X doc r env" "set (parents (body env)) \<subseteq> H" by auto
  then have "grounded m (en_hash r)" using Cons.prems(2,3) by (intro grounded.intros [of m "en_hash r" env]) auto
  then show ?case using Cons by auto
qed simp

lemma recorded_grounded:
  assumes "good X owner doc T" and L: "set L = (envOf X \<circ> snd) ` received owner doc T"
  shows "h \<in> entryHashes owner doc T \<longleftrightarrow> grounded (byHashOf X L) h"
proof -
  have ok: "store_ok X owner doc T" using assms(1) by (simp add: good_def)
  have inj: "inj_on (entryHash X) (set L)"
    unfolding L inj_on_def using received_env [OF ok] received_one [OF ok] by fastforce
  have held: "map_of (byHashOf X L) k = Some e \<longleftrightarrow> (\<exists>b. (k, b) \<in> received owner doc T \<and> e = envOf X b)" for k e
    unfolding byHashOf_unique [OF inj] L using received_env(2) [OF ok] by force
  show ?thesis
  proof
    assume "h \<in> entryHashes owner doc T"
    moreover have "\<forall>r \<in> set (entriesOf owner doc T). grounded (byHashOf X L) (en_hash r)"
    proof (rule causal_grounded [where H = "{}" and X = X and doc = doc])
      fix r env assume r: "r \<in> set (entriesOf owner doc T)" "row_env X doc r env"
      then have "(en_hash r, en_bytes r) \<in> received owner doc T" "env = envOf X (en_bytes r)"
        by (auto simp: received_iff row_env_def envOf_def)
      then show "map_of (byHashOf X L) (en_hash r) = Some env" unfolding held by blast
    qed (use ok in \<open>auto simp: store_ok_def\<close>)
    ultimately show "grounded (byHashOf X L) h" by (auto simp: entryHashes_def)
  next
    assume "grounded (byHashOf X L) h"
    then show "h \<in> entryHashes owner doc T"
    proof induction
      case (grounded h env)
      obtain b where b: "(h, b) \<in> received owner doc T" "env = envOf X b" using grounded(1) held by blast
      show ?case
      proof (rule ccontr)
        assume no: "h \<notin> entryHashes owner doc T"
        then obtain r where r: "r \<in> set (pendingOf owner doc T)" "pn_hash r = h" "pn_bytes r = b"
          using b(1) by (auto simp: received_def entryHashes_def)
        then have "waits X owner doc T r" using assms(1) by (simp add: good_def settled_store_def)
        then show False using r(3) b(2) grounded(3) by (auto simp: waits_def envOf_def)
      qed
    qed
  qed
qed

end
