(* ===== verification/Amendment_Store_Order.thy ===== *)
theory Amendment_Store_Order
  imports Amendment_Store_Claims
begin

text \<open>The store as a set: it implements the grounded part of what was received, in any order.\<close>

section \<open>The recorded history\<close>

lemma received_rows:
  "received owner doc T = {(h, b). \<exists>r \<in> set (entriesOf owner doc T). en_hash r = h \<and> en_bytes r = b} \<union>
     {(h, b). \<exists>r \<in> set (pendingOf owner doc T). pn_hash r = h \<and> pn_bytes r = b}"
  by (auto simp: received_iff)

lemma chain_set:
  assumes "store_ok X owner doc T" and "chain X owner doc T = Inr es"
  shows "set es = envOf X ` en_bytes ` set (entriesOf owner doc T)" "entryHash X ` set es = entryHashes owner doc T"
proof -
  show set: "set es = envOf X ` en_bytes ` set (entriesOf owner doc T)"
    using assms(2) chain_rows [OF assms(1)] by (auto simp: image_image)
  have "entryHash X (envOf X (en_bytes r)) = en_hash r" if "r \<in> set (entriesOf owner doc T)" for r
    using received_env(2) [OF assms(1), of "en_hash r" "en_bytes r"] that by (auto simp: received_iff)
  then show "entryHash X ` set es = entryHashes owner doc T" by (simp add: set entryHashes_def image_image)
qed

lemma pending_read:
  assumes "store_ok X owner doc T"
  shows "rmap (readFrame X \<circ> pn_bytes) (pendingOf owner doc T) = Inr (map (envOf X \<circ> pn_bytes) (pendingOf owner doc T))"
proof (rule rmap_pure)
  fix r assume "r \<in> set (pendingOf owner doc T)"
  then show "(readFrame X \<circ> pn_bytes) r = Inr ((envOf X \<circ> pn_bytes) r)"
    using received_env(1) [OF assms, of "pn_hash r" "pn_bytes r"] by (auto simp: received_iff)
qed

text \<open>C20: A holder's store implements a set: whatever frames arrived, in whatever order, and whichever of
  them it refused, its tables can be read, all of this document; the recorded entries are exactly
  those of all it kept whose whole ancestry it kept (the least such set), so the derivation of the
  document's state holds none of them out; and no author has more than 64 entries waiting.\<close>

theorem recorded_is_the_grounded_part:
  "\<exists>es ps. chain X owner doc (foldl (store_step X) emptyTables arrivals) = Inr es \<and>
    rmap (readFrame X \<circ> pn_bytes) (pendingOf owner doc (foldl (store_step X) emptyTables arrivals)) = Inr ps \<and>
    document_id ` body ` set (es @ ps) \<subseteq> {doc} \<and>
    entryHash X ` set es = {h. grounded (byHashOf X (es @ ps)) h} \<and>
    excludedOf (byHashOf X es) = [] \<and>
    length (filter (\<lambda>r. pn_author r = author) (pendingOf owner doc (foldl (store_step X) emptyTables arrivals))) \<le> 64"
proof -
  let ?T = "foldl (store_step X) emptyTables arrivals"
  have good: "good X owner doc ?T" by (rule run_good)
  then have ok: "store_ok X owner doc ?T" by (simp add: good_def)
  let ?ps = "map (envOf X \<circ> pn_bytes) (pendingOf owner doc ?T)"
  obtain es where es: "chain X owner doc ?T = Inr es" using chain_rows [OF ok] by blast
  note set = chain_set [OF ok es]
  have L: "set (es @ ?ps) = (envOf X \<circ> snd) ` received owner doc ?T"
    by (auto simp: set received_def image_Un image_image)
  have "entryHash X ` set es = {h. grounded (byHashOf X (es @ ?ps)) h}"
    using recorded_grounded [OF good L] set(2) by blast
  moreover have "document_id ` body ` set (es @ ?ps) \<subseteq> {doc}"
    unfolding L using received_env(3) [OF ok] by fastforce
  moreover have "excludedOf (byHashOf X es) = []"
  proof -
    have inj: "inj_on (entryHash X) (set es)"
    proof (rule inj_onI)
      fix a b assume ab: "a \<in> set es" "b \<in> set es" "entryHash X a = entryHash X b"
      obtain r s :: EntryRow where r: "a = envOf X (en_bytes r)" "(en_hash r, en_bytes r) \<in> received owner doc ?T"
          and s: "b = envOf X (en_bytes s)" "(en_hash s, en_bytes s) \<in> received owner doc ?T"
      proof -
        obtain r s :: EntryRow where "a = envOf X (en_bytes r)" "r \<in> set (entriesOf owner doc ?T)"
            "b = envOf X (en_bytes s)" "s \<in> set (entriesOf owner doc ?T)"
          using ab(1,2) unfolding set by blast
        then show ?thesis by (intro that [of r s]) (auto simp: received_iff)
      qed
      have "en_hash r = en_hash s" using ab(3) received_env(2) [OF ok r(2)] received_env(2) [OF ok s(2)] r(1) s(1) by simp
      then show "a = b" using received_one [OF ok r(2)] s r(1) by simp
    qed
    have "\<forall>r \<in> set (entriesOf owner doc ?T). grounded (byHashOf X es) (en_hash r)"
    proof (rule causal_grounded [where H = "{}" and X = X and doc = doc])
      fix r env assume r: "r \<in> set (entriesOf owner doc ?T)" "row_env X doc r env"
      then have "env = envOf X (en_bytes r)" "entryHash X env = en_hash r" by (auto simp: row_env_def envOf_def)
      then show "map_of (byHashOf X es) (en_hash r) = Some env" using r(1) by (simp add: byHashOf_unique [OF inj] set)
    qed (use ok in \<open>auto simp: store_ok_def\<close>)
    then have "\<forall>h \<in> entryHash X ` set es. grounded (byHashOf X es) h" by (simp add: set(2) entryHashes_def)
    then have "set (excludedOf (byHashOf X es)) = {}" by (auto simp: set_excludedOf)
    then show ?thesis by simp
  qed
  moreover have "backlog owner doc author ?T \<le> 64" using good by (simp add: good_def MAX_PENDING_PER_AUTHOR_def)
  ultimately show ?thesis using es pending_read [OF ok] unfolding backlog_def by blast
qed

section \<open>Arrival order\<close>

fun all_accepted :: "externals \<Rightarrow> EntryTables \<Rightarrow> arrival list \<Rightarrow> bool" where
  "all_accepted X T [] = True"
| "all_accepted X T ((owner, doc, bytes, now) # as) \<longleftrightarrow>
     returns (fst (append X owner doc bytes now T)) \<and> all_accepted X (store_step X T (owner, doc, bytes, now)) as"

definition framesOf :: "string \<Rightarrow> string \<Rightarrow> arrival list \<Rightarrow> bytes set" where
  "framesOf owner doc as = {b. \<exists>now. (owner, doc, b, now) \<in> set as}"

definition frameHash :: "externals \<Rightarrow> bytes \<Rightarrow> string" where
  "frameHash X b = entryHash X (envOf X b)"

lemma received_run:
  assumes "all_accepted X T as" and "\<forall>owner doc. good X owner doc T"
    and "\<And>b c. b \<in> snd ` received owner doc T \<union> framesOf owner doc as \<Longrightarrow> c \<in> snd ` received owner doc T \<union> framesOf owner doc as \<Longrightarrow>
      frameHash X b = frameHash X c \<Longrightarrow> b = c"
  shows "received owner doc (foldl (store_step X) T as) =
    received owner doc T \<union> (\<lambda>b. (frameHash X b, b)) ` framesOf owner doc as"
  using assms
proof (induction as arbitrary: T)
  case (Cons a as)
  obtain o' d' bytes now where a: "a = (o', d', bytes, now)" by (cases a) auto
  obtain r T' where ap: "append X o' d' bytes now T = (r, T')" by fastforce
  obtain res where res: "r = Inr res" using Cons.prems(1) ap by (cases r) (auto simp: a)
  have step: "store_step X T a = T'" using ap by (simp add: store_step_def a)
  have good: "good X o' d' T" using Cons.prems(2) by blast
  note ok = append_keeps_good [OF good ap]
  have good': "\<forall>owner doc. good X owner doc T'" using step_good [OF Cons.prems(2), of a] step by simp
  have acc: "all_accepted X T' as" using Cons.prems(1) step by (simp add: a)
  have rec: "received owner doc T' = received owner doc T \<union> (\<lambda>b. (frameHash X b, b)) ` framesOf owner doc [a]"
  proof (cases "(owner, doc) = (o', d')")
    case False
    then have "framesOf owner doc [a] = {}" by (auto simp: framesOf_def a)
    then show ?thesis using ok False other_good(2) [of owner doc T' T] by simp
  next
    case True
    obtain env where env: "readFrame X bytes = Inr env"
        "received owner doc T' = (if entryHash X env \<in> fst ` received owner doc T then received owner doc T
         else insert (entryHash X env, bytes) (received owner doc T))"
      using ok res True by auto
    have f: "framesOf owner doc [a] = {bytes}" "frameHash X bytes = entryHash X env"
      using True env(1) by (auto simp: framesOf_def a frameHash_def envOf_def)
    have "bytes \<in> framesOf owner doc (a # as)" using True by (auto simp: framesOf_def a)
    moreover have ok: "store_ok X owner doc T" using Cons.prems(2) by (simp add: good_def)
    ultimately have "(entryHash X env, bytes) \<in> received owner doc T" if known: "entryHash X env \<in> fst ` received owner doc T"
    proof -
      obtain c where c: "(entryHash X env, c) \<in> received owner doc T" using known by auto
      then have "frameHash X c = frameHash X bytes" using received_env(2) [OF ok c] f(2) by (simp add: frameHash_def)
      moreover have "c \<in> snd ` received owner doc T" using c by force
      ultimately have "c = bytes" using Cons.prems(3) \<open>bytes \<in> framesOf owner doc (a # as)\<close> by blast
      then show ?thesis using c by simp
    qed
    then show ?thesis using env(2) f by auto
  qed
  have fr: "framesOf owner doc (a # as) = framesOf owner doc [a] \<union> framesOf owner doc as" by (auto simp: framesOf_def)
  have snd: "snd ` received owner doc T' = snd ` received owner doc T \<union> framesOf owner doc [a]"
    unfolding rec by (simp add: image_Un image_image)
  have "received owner doc (foldl (store_step X) T' as) = received owner doc T' \<union> (\<lambda>b. (frameHash X b, b)) ` framesOf owner doc as"
    by (rule Cons.IH [OF acc good']) (use Cons.prems(3) in \<open>auto simp: snd fr\<close>)
  then show ?case by (simp add: step rec fr image_Un Un_assoc)
qed (simp add: framesOf_def)

lemma sort_key_eq: "(\<And>x. x \<in> set xs \<Longrightarrow> f x = g x) \<Longrightarrow> sort_key f xs = sort_key g xs"
proof (induction xs)
  case (Cons x xs)
  have "insort_key f x ys = insort_key g x ys" if "set ys \<subseteq> set xs" for ys
    using that Cons.prems by (induction ys) auto
  then show ?case using Cons by simp
qed simp

lemma map_sort_key: "map f (sort_key (\<lambda>x. k (f x)) xs) = sort_key k (map f xs)"
proof -
  have "map f (insort_key (\<lambda>x. k (f x)) a ys) = insort_key k (f a) (map f ys)" for a ys by (induction ys) auto
  then show ?thesis by (induction xs) simp_all
qed

lemma chain_of_hashes:
  assumes "store_ok X owner doc T" and "\<And>h b. (h, b) \<in> received owner doc T \<Longrightarrow> b = at h"
  shows "chain X owner doc T =
    Inr (map (\<lambda>h. envOf X (at h)) (sort_key (\<lambda>h. (author_seq (body (envOf X (at h))), h)) (map en_hash (entriesOf owner doc T))))"
proof -
  have row: "en_bytes r = at (en_hash r) \<and> en_seq r = author_seq (body (envOf X (at (en_hash r))))" if "r \<in> set (entriesOf owner doc T)" for r
  proof -
    have "(en_hash r, en_bytes r) \<in> received owner doc T" using that by (auto simp: received_iff)
    from assms(2) [OF this] have "en_bytes r = at (en_hash r)" .
    moreover have "causal X doc {} (entriesOf owner doc T)" using assms(1) by (simp add: store_ok_def)
    from causal_row [OF this that] have "\<exists>env. row_env X doc r env" .
    ultimately show ?thesis by (auto simp: row_env_def envOf_def)
  qed
  let ?k = "\<lambda>h. (author_seq (body (envOf X (at h))), h)"
  have key: "sort_key (\<lambda>r. (en_seq r, en_hash r)) (entriesOf owner doc T) = sort_key (\<lambda>r. ?k (en_hash r)) (entriesOf owner doc T)"
    by (rule sort_key_eq) (use row in simp)
  have "map (envOf X \<circ> en_bytes) (sort_key (\<lambda>r. ?k (en_hash r)) (entriesOf owner doc T)) =
      map (\<lambda>h. envOf X (at h)) (map en_hash (sort_key (\<lambda>r. ?k (en_hash r)) (entriesOf owner doc T)))"
    using row by simp
  also have "map en_hash (sort_key (\<lambda>r. ?k (en_hash r)) (entriesOf owner doc T)) = sort_key ?k (map en_hash (entriesOf owner doc T))"
    by (rule map_sort_key)
  finally show ?thesis unfolding chain_rows [OF assms(1)] key by (simp add: comp_def)
qed

lemma pending_bytes:
  assumes "store_ok X owner doc T"
  shows "pn_bytes ` set (pendingOf owner doc T) = snd ` {x \<in> received owner doc T. fst x \<notin> entryHashes owner doc T}"
proof -
  have "\<forall>r \<in> set (pendingOf owner doc T). pn_hash r \<notin> entryHashes owner doc T" using assms by (simp add: store_ok_def)
  then have "{x \<in> received owner doc T. fst x \<notin> entryHashes owner doc T} = (\<lambda>r. (pn_hash r, pn_bytes r)) ` set (pendingOf owner doc T)"
    by (auto simp: received_def entryHashes_def)
  then show ?thesis by (simp add: image_image)
qed

text \<open>C21: The order of arrival does not matter: two stores that accepted the same frames of a document, in
  any order and with any repetitions, give the same history, entry for entry, so every derivation
  from it gives the same state, and hold back the same frames. The frames are assumed to be one per
  entry hash.\<close>

theorem arrival_order_does_not_matter:
  assumes "all_accepted X emptyTables as" and "all_accepted X emptyTables bs"
    and "framesOf owner doc as = framesOf owner doc bs" and "inj_on (frameHash X) (framesOf owner doc as)"
  shows "\<exists>es. chain X owner doc (foldl (store_step X) emptyTables as) = Inr es \<and>
    chain X owner doc (foldl (store_step X) emptyTables bs) = Inr es \<and>
    pn_bytes ` set (pendingOf owner doc (foldl (store_step X) emptyTables as)) =
      pn_bytes ` set (pendingOf owner doc (foldl (store_step X) emptyTables bs))"
proof -
  let ?A = "foldl (store_step X) emptyTables as" and ?B = "foldl (store_step X) emptyTables bs"
  let ?F = "framesOf owner doc as"
  have none: "received owner doc emptyTables = {}" by (simp add: received_def emptyTables_def entriesOf_def pendingOf_def)
  have empty: "\<forall>owner doc. good X owner doc emptyTables" using empty_good by blast
  have A: "received owner doc ?A = (\<lambda>b. (frameHash X b, b)) ` ?F"
    using received_run [OF assms(1) empty, of owner doc] assms(4) by (auto simp: none inj_on_def)
  have B: "received owner doc ?B = (\<lambda>b. (frameHash X b, b)) ` ?F"
    using received_run [OF assms(2) empty, of owner doc] assms(3,4) by (auto simp: none inj_on_def)
  let ?at = "the_inv_into ?F (frameHash X)"
  have at: "b = ?at h" if "(h, b) \<in> (\<lambda>b. (frameHash X b, b)) ` ?F" for h b
    using that the_inv_into_f_f [OF assms(4)] by auto
  have okA: "store_ok X owner doc ?A" and okB: "store_ok X owner doc ?B" using run_good by (auto simp: good_def)
  let ?L = "map (envOf X \<circ> en_bytes) (entriesOf owner doc ?A) @ map (envOf X \<circ> pn_bytes) (pendingOf owner doc ?A)"
  have L: "set ?L = (envOf X \<circ> snd) ` received owner doc ?A" by (auto simp: received_def image_Un image_image)
  have same: "entryHashes owner doc ?A = entryHashes owner doc ?B"
    using recorded_grounded [OF run_good L] recorded_grounded [OF run_good, of ?L X owner doc bs] L A B by auto
  let ?k = "\<lambda>h. (author_seq (body (envOf X (?at h))), h)"
  have "sort_key ?k (map en_hash (entriesOf owner doc ?A)) = sort_key ?k (map en_hash (entriesOf owner doc ?B))"
  proof (rule map_sorted_distinct_set_unique [where f = ?k])
    have "distinct (map en_hash (entriesOf owner doc ?A))" "distinct (map en_hash (entriesOf owner doc ?B))"
      using okA okB causal_distinct by (auto simp: store_ok_def)
    then show "distinct (map ?k (sort_key ?k (map en_hash (entriesOf owner doc ?A))))"
        "distinct (map ?k (sort_key ?k (map en_hash (entriesOf owner doc ?B))))"
      by (simp_all add: distinct_map inj_on_def)
    show "set (sort_key ?k (map en_hash (entriesOf owner doc ?A))) = set (sort_key ?k (map en_hash (entriesOf owner doc ?B)))"
      using same by (simp add: entryHashes_def)
  qed (simp_all add: inj_on_def)
  moreover have "chain X owner doc ?A = Inr (map (\<lambda>h. envOf X (?at h)) (sort_key ?k (map en_hash (entriesOf owner doc ?A))))"
    by (rule chain_of_hashes [OF okA]) (use at A in auto)
  moreover have "chain X owner doc ?B = Inr (map (\<lambda>h. envOf X (?at h)) (sort_key ?k (map en_hash (entriesOf owner doc ?B))))"
    by (rule chain_of_hashes [OF okB]) (use at B in auto)
  moreover have "pn_bytes ` set (pendingOf owner doc ?A) = pn_bytes ` set (pendingOf owner doc ?B)"
    by (simp add: pending_bytes [OF okA] pending_bytes [OF okB] same A B)
  ultimately show ?thesis by simp
qed

text \<open>An addition by alice and a consent of bob to it, the consent arriving first, then also twice.\<close>

definition firstBody :: DocumentAmendmentBody where
  "firstBody = body (sample_entry add_holder alice (Some bob) None)"

definition firstHash :: string where
  "firstHash = bytesToHex (replicate 31 0 @ [of_nat (length (kindText add_holder))])"

definition secondBody :: DocumentAmendmentBody where
  "secondBody = (body (sample_entry consent bob (Some bob) None))\<lparr>parents := [firstHash]\<rparr>"

definition sampleCollection :: MultisigCollection where
  "sampleCollection = collection (sample_entry add_holder alice (Some bob) None)"

definition frameValue :: "DocumentAmendmentBody \<Rightarrow> jsval" where
  "frameValue b = JObject [(''type'', JText ''document_amendment''), (''body'', bodyValue b), (''collection'', JBytes [])]"

definition late_X :: "jsval \<Rightarrow> externals" where
  "late_X v = \<lparr>x_sha = (\<lambda>d. replicate 31 0 @ d), x_cbor = sample_cbor,
     x_uncbor = (\<lambda>b. Inr (if b = [1] then frameValue firstBody else if b = [2] then frameValue secondBody else v)),
     x_verify = (\<lambda>_ _ _. True)\<rparr>"

lemma late_frames:
  "\<exists>v. readFrame (late_X v) [1] = Inr \<lparr>body = firstBody, collection = sampleCollection\<rparr> \<and>
    readFrame (late_X v) [2] = Inr \<lparr>body = secondBody, collection = sampleCollection\<rparr>"
proof -
  have m: "multisig_wf sampleCollection"
    using parties(5,7) by (simp add: sampleCollection_def multisig_wf_def sample_entry_def canonical_signers_def AMENDMENT_SUBJECT_KIND_def)
  then obtain v where v: "encodeMultisigCollection sampleCollection = Inr v" using multisig.encode_returns by blast
  then have none: "x_cbor (late_X v) v = []"
    by (auto simp: late_X_def encodeMultisigCollection_def rbind_Inr_conv split: if_splits)
  have "body_wf firstBody" "body_wf secondBody"
    by (simp_all add: body_wf_def firstBody_def secondBody_def sample_entry_def firstHash_def MAX_ENTRY_PARENTS_def)
  then have "decodeDocumentAmendment (late_X v) (frameValue firstBody) = Inr \<lparr>body = firstBody, collection = sampleCollection\<rparr>"
      "decodeDocumentAmendment (late_X v) (frameValue secondBody) = Inr \<lparr>body = secondBody, collection = sampleCollection\<rparr>"
    using decode_body_value [OF _ m v, of _ "late_X v"] none by (simp_all add: frameValue_def late_X_def)
  then show ?thesis by (intro exI [of _ v]) (simp add: readFrame_def late_X_def)
qed

lemma late_hashes:
  "entryHash (late_X v) \<lparr>body = firstBody, collection = c\<rparr> = firstHash"
  "entryHash (late_X v) \<lparr>body = secondBody, collection = c\<rparr> \<noteq> firstHash"
  by (simp_all add: entryHash_def documentAmendmentHash_def buildDocumentAmendmentTbs_def late_X_def amendmentPreimage_def
      firstBody_def secondBody_def firstHash_def sample_entry_def bytesToHex_inj)

lemma late_run:
  assumes f: "readFrame (late_X v) [1] = Inr \<lparr>body = firstBody, collection = sampleCollection\<rparr>"
    and g: "readFrame (late_X v) [2] = Inr \<lparr>body = secondBody, collection = sampleCollection\<rparr>"
  shows "all_accepted (late_X v) emptyTables [(''o'', ''d'', [2], 5), (''o'', ''d'', [1], 6)]"
    "all_accepted (late_X v) emptyTables [(''o'', ''d'', [1], 5), (''o'', ''d'', [2], 6), (''o'', ''d'', [2], 7)]"
proof -
  have b: "document_id firstBody = ''d''" "document_id secondBody = ''d''" "parents firstBody = []" "parents secondBody = [firstHash]"
    by (simp_all add: firstBody_def secondBody_def sample_entry_def)
  note defs = append_def Let_def store_step_def f g b late_hashes late_hashes(2) [symmetric] emptyTables_def hasEntry_def hasPending_def
    entriesOf_def pendingOf_def insertEntry_def deletePending_def promoteReady.simps MAX_PENDING_PER_AUTHOR_def
  show "all_accepted (late_X v) emptyTables [(''o'', ''d'', [2], 5), (''o'', ''d'', [1], 6)]"
    by (simp add: defs)
  show "all_accepted (late_X v) emptyTables [(''o'', ''d'', [1], 5), (''o'', ''d'', [2], 6), (''o'', ''d'', [2], 7)]"
    by (simp add: defs)
qed

theorem arrival_order_does_not_matter_witness:
  "\<exists>v es. chain (late_X v) ''o'' ''d'' (foldl (store_step (late_X v)) emptyTables [(''o'', ''d'', [2], 5), (''o'', ''d'', [1], 6)]) = Inr es \<and>
    chain (late_X v) ''o'' ''d''
      (foldl (store_step (late_X v)) emptyTables [(''o'', ''d'', [1], 5), (''o'', ''d'', [2], 6), (''o'', ''d'', [2], 7)]) = Inr es"
proof -
  obtain v where v: "readFrame (late_X v) [1] = Inr \<lparr>body = firstBody, collection = sampleCollection\<rparr>"
      "readFrame (late_X v) [2] = Inr \<lparr>body = secondBody, collection = sampleCollection\<rparr>"
    using late_frames by blast
  have F: "framesOf ''o'' ''d'' [(''o'', ''d'', [2], 5), (''o'', ''d'', [1], 6)] = {[1], [2]}"
      "framesOf ''o'' ''d'' [(''o'', ''d'', [1], 5), (''o'', ''d'', [2], 6), (''o'', ''d'', [2], 7)] = {[1], [2]}"
    by (auto simp: framesOf_def)
  have "inj_on (frameHash (late_X v)) {[1], [2]}"
    using late_hashes(2) [of v sampleCollection] by (auto simp: frameHash_def envOf_def v late_hashes(1))
  from arrival_order_does_not_matter [OF late_run [OF v], of "''o''" "''d''"] this show ?thesis
    unfolding F by blast
qed

end
