(* ===== verification/Document_Update.thy ===== *)
theory Document_Update
  imports Document_Amendment
begin

text \<open>
  \<open>core/protocol-types/src/document-envelope.ts\<close>: one signed change of a document's content. It names
  its sender's previous envelope, so each sender's envelopes form a chain, and the governance entries
  it was written under.
\<close>

section \<open>Data\<close>

definition DOCUMENT_UPDATE_DOMAIN :: string where "DOCUMENT_UPDATE_DOMAIN = ''CELLO-DOCUMENT-UPDATE-v3''"
definition DOCUMENT_UPDATE_ENCODING_V1 :: string where "DOCUMENT_UPDATE_ENCODING_V1 = ''yjs-v1''"

record DocumentUpdateEnvelope =
  du_document_id :: string
  doc_prev_hash :: "string option"
  sender_agent_id :: string
  sender_client_id :: nat
  update_encoding :: string
  state_vector :: bytes
  du_update :: bytes
  governance_parents :: "string list"
  du_signature :: bytes

section \<open>The signed bytes and the envelope's hash\<close>

definition updatePreimage :: "DocumentUpdateEnvelope \<Rightarrow> jsval" where
  "updatePreimage env = JArray
     [JText DOCUMENT_UPDATE_DOMAIN, JText (du_document_id env), nullable JText (doc_prev_hash env),
      JText (sender_agent_id env), JInt (int (sender_client_id env)), JText (update_encoding env),
      JBytes (state_vector env), JBytes (du_update env), JArray (map JText (governance_parents env))]"

definition buildDocumentUpdateTbs :: "externals \<Rightarrow> DocumentUpdateEnvelope \<Rightarrow> bool \<Rightarrow> bytes" where
  "buildDocumentUpdateTbs X env preHash =
     (let preimage = x_cbor X (updatePreimage env) in if \<not> preHash then preimage else x_sha X preimage)"

definition documentEnvelopeHash :: "externals \<Rightarrow> DocumentUpdateEnvelope \<Rightarrow> string" where
  "documentEnvelopeHash X env = bytesToHex (x_sha X (buildDocumentUpdateTbs X env False))"

section \<open>The wire form\<close>

definition encodeDocumentUpdateEnvelope :: "DocumentUpdateEnvelope \<Rightarrow> jsval" where
  "encodeDocumentUpdateEnvelope env = JObject
     [(''type'', JText ''document_update''), (''document_id'', JText (du_document_id env)),
      (''doc_prev_hash'', nullable JText (doc_prev_hash env)),
      (''sender_agent_id'', JText (sender_agent_id env)),
      (''sender_client_id'', JInt (int (sender_client_id env))),
      (''update_encoding'', JText (update_encoding env)), (''state_vector'', JBytes (state_vector env)),
      (''update'', JBytes (du_update env)),
      (''governance_parents'', JArray (map JText (governance_parents env))),
      (''signature'', JBytes (du_signature env))]"

definition de :: string where "de = ''document_envelope''"

definition envelopeError :: "string \<Rightarrow> 'a js" where
  "envelopeError code = Inl (Error (''document_envelope_'' @ code))"

fun textVal :: "jsval \<Rightarrow> string js" where
  "textVal (JText s) = Inr s"
| "textVal _ = fieldType de"

definition requireString :: "fields \<Rightarrow> string \<Rightarrow> string js" where
  "requireString m f = rbind (present de m f) textVal"

fun prevVal :: "jsval \<Rightarrow> string option js" where
  "prevVal JNull = Inr None"
| "prevVal (JText s) = (if HEX32 s then Inr (Some s) else envelopeError ''prev_hash'')"
| "prevVal _ = envelopeError ''prev_hash''"

fun clientVal :: "jsval \<Rightarrow> nat js" where
  "clientVal (JInt i) = (if i < 0 then envelopeError ''client_id'' else Inr (nat i))"
| "clientVal _ = envelopeError ''client_id''"

fun parentVal :: "jsval \<Rightarrow> string js" where
  "parentVal (JText s) = (if HEX32 s then Inr s else envelopeError ''governance_parents'')"
| "parentVal _ = envelopeError ''governance_parents''"

fun governanceParentsVal :: "jsval \<Rightarrow> string list js" where
  "governanceParentsVal (JArray rawParents) =
     (if length rawParents > 64 then envelopeError ''governance_parents_cap''
      else rbind (rmap parentVal rawParents) (\<lambda>ps.
        if \<not> strictlyAscending ps then envelopeError ''governance_parents_canonical'' else Inr ps))"
| "governanceParentsVal _ = envelopeError ''governance_parents''"

definition decodeDocumentUpdateEnvelope :: "jsval \<Rightarrow> DocumentUpdateEnvelope js" where
  "decodeDocumentUpdateEnvelope decoded =
     (case asObject decoded of
        None \<Rightarrow> envelopeError ''malformed''
      | Some m \<Rightarrow>
          rbind (requireString m ''type'') (\<lambda>t.
          if t \<noteq> ''document_update'' then envelopeError ''type''
          else rbind (requireString m ''document_id'') (\<lambda>doc.
          if \<not> HEX32 doc then envelopeError ''document_id''
          else rbind (rbind (present de m ''doc_prev_hash'') prevVal) (\<lambda>prev.
          rbind (requireString m ''sender_agent_id'') (\<lambda>sender.
          if sender = '''' then envelopeError ''sender''
          else rbind (rbind (present de m ''sender_client_id'') clientVal) (\<lambda>client.
          rbind (requireString m ''update_encoding'') (\<lambda>encoding.
          if encoding \<noteq> DOCUMENT_UPDATE_ENCODING_V1 then envelopeError ''encoding''
          else rbind (rbind (present de m ''governance_parents'') governanceParentsVal) (\<lambda>ps.
          rbind (bytesField de m ''state_vector'') (\<lambda>vector.
          rbind (bytesField de m ''update'') (\<lambda>upd.
          rbind (bytesField de m ''signature'') (\<lambda>sig.
          Inr \<lparr>du_document_id = doc, doc_prev_hash = prev, sender_agent_id = sender, sender_client_id = client,
               update_encoding = encoding, state_vector = vector, du_update = upd, governance_parents = ps,
               du_signature = sig\<rparr>)))))))))))"

section \<open>The sender's chain\<close>

text \<open>
  \<open>sender.head\<close> and \<open>sender.known\<close> are the receiver's; the answer is \<open>duplicate\<close>, a refusal is thrown.
\<close>

definition verifyDocumentChainLink ::
  "externals \<Rightarrow> DocumentUpdateEnvelope \<Rightarrow> string option \<Rightarrow> string list \<Rightarrow> bool js" where
  "verifyDocumentChainLink X env head_hash known =
     (if documentEnvelopeHash X env \<in> set known then Inr True
      else case doc_prev_hash env of
          None \<Rightarrow> if head_hash \<noteq> None then Inl (Error ''document_chain_forked'') else Inr False
        | Some prev \<Rightarrow>
            if prev \<notin> set known then Inl (Error ''document_chain_broken'')
            else if head_hash \<noteq> Some prev then Inl (Error ''document_chain_forked'')
            else Inr False)"

section \<open>The codec\<close>

definition update_wf :: "DocumentUpdateEnvelope \<Rightarrow> bool" where
  "update_wf env \<longleftrightarrow> HEX32 (du_document_id env) \<and> (\<forall>p. doc_prev_hash env = Some p \<longrightarrow> HEX32 p) \<and>
     sender_agent_id env \<noteq> '''' \<and> update_encoding env = DOCUMENT_UPDATE_ENCODING_V1 \<and>
     length (governance_parents env) \<le> 64 \<and> (\<forall>h \<in> set (governance_parents env). HEX32 h) \<and>
     strictlyAscending (governance_parents env)"

lemma textVal_Inr [simp]: "textVal v = Inr s \<longleftrightarrow> v = JText s"
  by (cases v) (auto simp: fieldType_def)

lemma prevVal_Inr: "prevVal v = Inr p \<longleftrightarrow> v = nullable JText p \<and> (\<forall>s. p = Some s \<longrightarrow> HEX32 s)"
  by (cases v; cases p) (auto simp: envelopeError_def)

lemma clientVal_Inr [simp]: "clientVal v = Inr n \<longleftrightarrow> v = JInt (int n)"
  by (cases v) (auto simp: envelopeError_def)

lemma parentVal_Inr [simp]: "parentVal v = Inr s \<longleftrightarrow> v = JText s \<and> HEX32 s"
  by (cases v) (auto simp: envelopeError_def)

lemma parents_read: "\<forall>h \<in> set ps. HEX32 h \<Longrightarrow> rmap parentVal (map JText ps) = Inr ps"
  by (rule rmap_decode) simp

lemma governanceParentsVal_Inr:
  "governanceParentsVal v = Inr ps \<longleftrightarrow>
     v = JArray (map JText ps) \<and> length ps \<le> 64 \<and> (\<forall>h \<in> set ps. HEX32 h) \<and> strictlyAscending ps"
proof -
  have "v = JArray (map JText ps) \<and> length ps \<le> 64 \<and> (\<forall>h \<in> set ps. HEX32 h) \<and> strictlyAscending ps"
    if read: "governanceParentsVal v = Inr ps"
  proof -
    obtain raw where raw: "v = JArray raw" using read by (cases v) (auto simp: envelopeError_def)
    then have r: "rmap parentVal raw = Inr ps" "length raw \<le> 64" "strictlyAscending ps"
      using read by (auto simp: envelopeError_def rbind_Inr_conv split: if_splits)
    have "raw = map JText ps \<and> (\<forall>h \<in> set ps. HEX32 h)"
      using r(1) by (induction raw arbitrary: ps) (auto simp: rbind_Inr_conv)
    then show ?thesis using raw r by auto
  qed
  then show ?thesis using parents_read [of ps] by auto
qed

interpretation update_frame: frame_codec "Inr \<circ> encodeDocumentUpdateEnvelope" decodeDocumentUpdateEnvelope update_wf
proof unfold_locales
  fix env assume wf: "update_wf env"
  have "prevVal (nullable JText (doc_prev_hash env)) = Inr (doc_prev_hash env)"
    using wf by (simp add: prevVal_Inr update_wf_def)
  moreover have "governanceParentsVal (JArray (map JText (governance_parents env))) = Inr (governance_parents env)"
    using wf unfolding governanceParentsVal_Inr update_wf_def by blast
  ultimately show "rbind ((Inr \<circ> encodeDocumentUpdateEnvelope) env) decodeDocumentUpdateEnvelope = Inr env"
    using wf by (simp add: encodeDocumentUpdateEnvelope_def decodeDocumentUpdateEnvelope_def update_wf_def present_def
        requireString_def bytesField_def del: governanceParentsVal.simps)
next
  fix v env assume "decodeDocumentUpdateEnvelope v = Inr env"
  then show "update_wf env"
    by (auto simp: decodeDocumentUpdateEnvelope_def update_wf_def rbind_Inr_conv envelopeError_def prevVal_Inr
        governanceParentsVal_Inr split: option.splits if_splits)
qed

end
