(* ===== verification/Document_Rejection_Frame.thy ===== *)
theory Document_Rejection_Frame
  imports Document_Amendment
begin

text \<open>
  \<open>core/protocol-types/src/document-rejection-envelope.ts\<close>: the signed statement that a holder refused
  an update, why, and in which round.
\<close>

definition DOCUMENT_REJECTION_DOMAIN :: string where "DOCUMENT_REJECTION_DOMAIN = ''CELLO-DOCUMENT-REJECTION-v1''"
definition DOCUMENT_REJECTION_VERSION :: int where "DOCUMENT_REJECTION_VERSION = 1"
definition MAX_REJECTION_DETAIL_LENGTH :: nat where "MAX_REJECTION_DETAIL_LENGTH = 500"

record DocumentRejectionEnvelope =
  rejection_version :: int
  dr_document_id :: string
  rejected_envelope_hash :: string
  rejecting_agent_id :: string
  dr_reason :: string
  dr_detail :: "string option"
  dr_round :: int
  rejected_at_ms :: int
  dr_signature :: bytes

definition rejectionError :: "string \<Rightarrow> 'a js" where
  "rejectionError code = Inl (Error (''document_rejection_'' @ code))"

definition assertDocumentRejectionConsistent :: "DocumentRejectionEnvelope \<Rightarrow> unit js" where
  "assertDocumentRejectionConsistent env =
     (if dr_reason env = '''' then rejectionError ''reason''
      else if dr_round env < 1 then rejectionError ''round''
      else case dr_detail env of
          None \<Rightarrow> Inr ()
        | Some d \<Rightarrow> if length d > MAX_REJECTION_DETAIL_LENGTH then rejectionError ''detail'' else Inr ())"

definition rejectionPreimage :: "DocumentRejectionEnvelope \<Rightarrow> jsval" where
  "rejectionPreimage env = JArray
     [JText DOCUMENT_REJECTION_DOMAIN, JInt (rejection_version env), JText (dr_document_id env),
      JText (rejected_envelope_hash env), JText (rejecting_agent_id env), JText (dr_reason env),
      nullable JText (dr_detail env), JInt (dr_round env),
      (if rejected_at_ms env > 0xffffffff then JBigInt (rejected_at_ms env) else JInt (rejected_at_ms env))]"

definition buildDocumentRejectionTbs :: "externals \<Rightarrow> DocumentRejectionEnvelope \<Rightarrow> bool \<Rightarrow> bytes js" where
  "buildDocumentRejectionTbs X env preHash =
     rbind (assertDocumentRejectionConsistent env) (\<lambda>_.
       let preimage = x_cbor X (rejectionPreimage env) in
       Inr (if \<not> preHash then preimage else x_sha X preimage))"

definition documentRejectionHash :: "externals \<Rightarrow> DocumentRejectionEnvelope \<Rightarrow> string js" where
  "documentRejectionHash X env =
     rbind (buildDocumentRejectionTbs X env False) (\<lambda>b. Inr (bytesToHex (x_sha X b)))"

definition encodeDocumentRejection :: "DocumentRejectionEnvelope \<Rightarrow> jsval js" where
  "encodeDocumentRejection env =
     rbind (assertDocumentRejectionConsistent env) (\<lambda>_. Inr (JObject
       [(''type'', JText ''document_rejection''), (''rejection_version'', JInt (rejection_version env)),
        (''document_id'', JText (dr_document_id env)),
        (''rejected_envelope_hash'', JText (rejected_envelope_hash env)),
        (''rejecting_agent_id'', JText (rejecting_agent_id env)), (''reason'', JText (dr_reason env)),
        (''detail'', nullable JText (dr_detail env)), (''round'', JInt (dr_round env)),
        (''rejected_at_ms'', JInt (rejected_at_ms env)), (''signature'', JBytes (dr_signature env))]))"

definition dj :: string where "dj = ''document_rejection''"

fun versionVal :: "jsval \<Rightarrow> int js" where
  "versionVal (JInt i) = (if i \<noteq> DOCUMENT_REJECTION_VERSION then rejectionError ''version'' else Inr i)"
| "versionVal _ = rejectionError ''version''"

fun hashVal :: "string \<Rightarrow> jsval \<Rightarrow> string js" where
  "hashVal f (JText s) = (if HEX32 s then Inr s else rejectionError f)"
| "hashVal f _ = rejectionError f"

fun agentVal :: "jsval \<Rightarrow> string js" where
  "agentVal (JText s) = (if s = '''' then rejectionError ''agent'' else Inr s)"
| "agentVal _ = rejectionError ''agent''"

fun reasonVal :: "jsval \<Rightarrow> string js" where
  "reasonVal (JText s) = Inr s"
| "reasonVal _ = rejectionError ''reason''"

text \<open>An empty detail is read as none.\<close>

fun detailVal :: "jsval \<Rightarrow> string option js" where
  "detailVal JNull = Inr None"
| "detailVal (JText s) = Inr (if s = '''' then None else Some s)"
| "detailVal _ = rejectionError ''detail''"

fun roundVal :: "jsval \<Rightarrow> int js" where
  "roundVal (JInt i) = (if i < 1 then rejectionError ''round'' else Inr i)"
| "roundVal _ = rejectionError ''round''"

fun timeVal :: "jsval \<Rightarrow> int js" where
  "timeVal (JInt i) = (if i \<le> 0 \<or> 2 ^ 53 - 1 < i then rejectionError ''time'' else Inr i)"
| "timeVal _ = rejectionError ''time''"

fun signatureVal :: "jsval \<Rightarrow> bytes js" where
  "signatureVal (JBytes b) = Inr b"
| "signatureVal _ = rejectionError ''signature''"

definition decodeDocumentRejection :: "jsval \<Rightarrow> DocumentRejectionEnvelope js" where
  "decodeDocumentRejection decoded =
     (case asObject decoded of
        None \<Rightarrow> rejectionError ''malformed''
      | Some m \<Rightarrow>
          rbind (present dj m ''type'') (\<lambda>t.
          if t \<noteq> JText ''document_rejection'' then rejectionError ''type''
          else rbind (rbind (present dj m ''rejection_version'') versionVal) (\<lambda>version.
          rbind (rbind (present dj m ''document_id'') (hashVal ''document_id'')) (\<lambda>doc.
          rbind (rbind (present dj m ''rejected_envelope_hash'') (hashVal ''rejected_envelope_hash'')) (\<lambda>rejected.
          rbind (rbind (present dj m ''rejecting_agent_id'') agentVal) (\<lambda>rejecting.
          rbind (rbind (present dj m ''reason'') reasonVal) (\<lambda>reason.
          rbind (rbind (present dj m ''detail'') detailVal) (\<lambda>detail.
          rbind (rbind (present dj m ''round'') roundVal) (\<lambda>round.
          rbind (rbind (present dj m ''rejected_at_ms'') timeVal) (\<lambda>rejectedAt.
          rbind (rbind (present dj m ''signature'') signatureVal) (\<lambda>sig.
          let env = \<lparr>rejection_version = version, dr_document_id = doc, rejected_envelope_hash = rejected,
                rejecting_agent_id = rejecting, dr_reason = reason, dr_detail = detail, dr_round = round,
                rejected_at_ms = rejectedAt, dr_signature = sig\<rparr> in
          rbind (assertDocumentRejectionConsistent env) (\<lambda>_. Inr env))))))))))))"

section \<open>The codec\<close>

definition consistent :: "DocumentRejectionEnvelope \<Rightarrow> bool" where
  "consistent env \<longleftrightarrow> dr_reason env \<noteq> '''' \<and> 1 \<le> dr_round env \<and>
     (\<forall>d. dr_detail env = Some d \<longrightarrow> length d \<le> MAX_REJECTION_DETAIL_LENGTH)"

definition rejection_wf :: "DocumentRejectionEnvelope \<Rightarrow> bool" where
  "rejection_wf env \<longleftrightarrow> consistent env \<and> rejection_version env = DOCUMENT_REJECTION_VERSION \<and>
     HEX32 (dr_document_id env) \<and> HEX32 (rejected_envelope_hash env) \<and> rejecting_agent_id env \<noteq> '''' \<and>
     dr_detail env \<noteq> Some '''' \<and> 0 < rejected_at_ms env \<and> rejected_at_ms env \<le> 2 ^ 53 - 1"

lemma assert_ok: "consistent env \<Longrightarrow> assertDocumentRejectionConsistent env = Inr ()"
  by (auto simp: assertDocumentRejectionConsistent_def consistent_def split: option.splits)

lemma assert_Inr [simp]: "assertDocumentRejectionConsistent env = Inr u \<longleftrightarrow> consistent env"
  by (auto simp: assertDocumentRejectionConsistent_def consistent_def rejectionError_def split: option.splits)

lemma versionVal_Inr [simp]: "versionVal v = Inr i \<longleftrightarrow> v = JInt i \<and> i = DOCUMENT_REJECTION_VERSION"
  by (cases v) (auto simp: rejectionError_def)

lemma hashVal_Inr [simp]: "hashVal f v = Inr s \<longleftrightarrow> v = JText s \<and> HEX32 s"
  by (cases v) (auto simp: rejectionError_def)

lemma agentVal_Inr [simp]: "agentVal v = Inr s \<longleftrightarrow> v = JText s \<and> s \<noteq> ''''"
  by (cases v) (auto simp: rejectionError_def)

lemma reasonVal_Inr [simp]: "reasonVal v = Inr s \<longleftrightarrow> v = JText s"
  by (cases v) (auto simp: rejectionError_def)

lemma detailVal_some: "detailVal v = Inr d \<Longrightarrow> d \<noteq> Some ''''"
  by (cases v) (auto simp: rejectionError_def split: if_splits)

lemma detailVal_back: "d \<noteq> Some '''' \<Longrightarrow> detailVal (nullable JText d) = Inr d"
  by (cases d) auto

lemma roundVal_Inr [simp]: "roundVal v = Inr i \<longleftrightarrow> v = JInt i \<and> 1 \<le> i"
  by (cases v) (auto simp: rejectionError_def)

lemma timeVal_Inr [simp]: "timeVal v = Inr i \<longleftrightarrow> v = JInt i \<and> 0 < i \<and> i \<le> 2 ^ 53 - 1"
  by (cases v) (auto simp: rejectionError_def)

lemma signatureVal_Inr [simp]: "signatureVal v = Inr b \<longleftrightarrow> v = JBytes b"
  by (cases v) (auto simp: rejectionError_def)

interpretation rejection_frame: frame_codec encodeDocumentRejection decodeDocumentRejection rejection_wf
proof unfold_locales
  fix env assume wf: "rejection_wf env"
  then have c: "consistent env" by (simp add: rejection_wf_def)
  have [simp]: "\<not> dr_round env < 1" using c by (simp add: consistent_def)
  have [simp]: "\<lparr>rejection_version = DOCUMENT_REJECTION_VERSION, dr_document_id = dr_document_id env,
      rejected_envelope_hash = rejected_envelope_hash env, rejecting_agent_id = rejecting_agent_id env,
      dr_reason = dr_reason env, dr_detail = dr_detail env, dr_round = dr_round env,
      rejected_at_ms = rejected_at_ms env, dr_signature = dr_signature env\<rparr> = env"
    using wf by (cases env) (simp add: rejection_wf_def)
  show "rbind (encodeDocumentRejection env) decodeDocumentRejection = Inr env"
    using wf by (simp add: encodeDocumentRejection_def decodeDocumentRejection_def rejection_wf_def present_def
        detailVal_back rejectionError_def Let_def assert_ok [OF c])
next
  fix v env assume "decodeDocumentRejection v = Inr env"
  then show "rejection_wf env"
    by (auto simp: decodeDocumentRejection_def rejection_wf_def rbind_Inr_conv rejectionError_def Let_def
        dest: detailVal_some split: option.splits if_splits)
qed

end
