(* ===== verification/Content_Log.thy ===== *)
theory Content_Log
  imports Document_Update Document_Rejection_Frame
begin

text \<open>
  \<open>core/daemon/src/document-store.ts\<close>: the tables a holder keeps of its shared documents. The log of
  envelopes only grows; what was refused is held beside it. A table is its rows in insertion order;
  columns holding JSON text hold the value; where SQL leaves the order of equal keys open, it is the
  insertion order. An insert that breaks a constraint throws. The production driver binds a byte string
  of length zero as NULL, so that one in a NOT NULL column throws and one in a nullable column is stored
  as NULL.
\<close>

section \<open>Tables\<close>

datatype DocumentStatus = d_active | d_closed | d_killed | d_stalled

datatype DocumentEnvelopeKind = kind_update | kind_withdrawal | kind_rejection

record DocumentRow =
  dw_document :: string
  dw_owner :: string
  dw_peer :: string
  dw_type :: string
  dw_properties :: fields
  dw_status :: DocumentStatus
  dw_created :: int

record DocumentEnvelopeRow =
  er_hash :: string
  er_document :: string
  er_sender :: string
  er_prev :: "string option"
  er_signature :: bytes
  er_vector :: bytes
  er_payload :: "bytes option"
  er_parents :: "string list"
  er_kind :: DocumentEnvelopeKind
  er_references :: "string option"
  er_created :: int
  er_client :: "nat option"
  er_index :: int

record QuarantineRow =
  qr_document :: string
  qr_rejection :: string
  qr_rejected :: string
  qr_sender :: string
  qr_prev :: "string option"
  qr_payload :: bytes
  qr_reason :: string
  qr_detail :: "string option"
  qr_rule :: "string option"
  qr_limit :: "(string \<times> int \<times> int) option"
  qr_wire :: "jsval option"
  qr_created :: int

record ReceivedRow =
  rr_document :: string
  rr_rejection :: string
  rr_rejected :: string
  rr_from :: string
  rr_reason :: string
  rr_detail :: "string option"
  rr_created :: int

record DocumentSnapshot =
  sn_binary :: bytes
  sn_vector :: bytes
  lastAppliedIndex :: int

record PartyView =
  pv_last_exchange :: int
  pv_gov_seqs :: "(string \<times> int) list"
  pv_content_counts :: "(string \<times> int) list"
  pv_refused :: "string list"

record DocumentTables =
  documents :: "DocumentRow list"
  document_envelopes :: "(string \<times> DocumentEnvelopeRow) list"
  document_quarantine :: "(string \<times> QuarantineRow) list"
  document_rejections_received :: "(string \<times> ReceivedRow) list"
  document_party_view :: "((string \<times> string \<times> string) \<times> PartyView) list"
  document_snapshots :: "((string \<times> string) \<times> DocumentSnapshot) list"

definition emptyDocumentTables :: DocumentTables where
  "emptyDocumentTables = \<lparr>documents = [], document_envelopes = [], document_quarantine = [],
     document_rejections_received = [], document_party_view = [], document_snapshots = []\<rparr>"

section \<open>Documents\<close>

definition getDocument :: "string \<Rightarrow> string \<Rightarrow> DocumentTables \<Rightarrow> DocumentRow option" where
  "getDocument owner doc T = find (\<lambda>r. dw_owner r = owner \<and> dw_document r = doc) (documents T)"

definition createDocument :: "DocumentRow \<Rightarrow> DocumentTables \<Rightarrow> DocumentTables" where
  "createDocument row T =
     (if getDocument (dw_owner row) (dw_document row) T \<noteq> None then T else T\<lparr>documents := documents T @ [row]\<rparr>)"

definition listDocuments :: "string \<Rightarrow> DocumentTables \<Rightarrow> DocumentRow list" where
  "listDocuments owner T = sort_key dw_created (filter (\<lambda>r. dw_owner r = owner) (documents T))"

definition setDocumentStatus :: "string \<Rightarrow> string \<Rightarrow> DocumentStatus \<Rightarrow> DocumentTables \<Rightarrow> DocumentTables" where
  "setDocumentStatus owner doc status T =
     T\<lparr>documents := map (\<lambda>r. if dw_owner r = owner \<and> dw_document r = doc then r\<lparr>dw_status := status\<rparr> else r) (documents T)\<rparr>"

section \<open>The log\<close>

definition getEnvelopeLog :: "string \<Rightarrow> string \<Rightarrow> DocumentTables \<Rightarrow> DocumentEnvelopeRow list" where
  "getEnvelopeLog owner doc T =
     sort_key er_index (map snd (filter (\<lambda>(o', r). o' = owner \<and> er_document r = doc) (document_envelopes T)))"

definition getEnvelopesSince :: "string \<Rightarrow> string \<Rightarrow> int \<Rightarrow> DocumentTables \<Rightarrow> DocumentEnvelopeRow list" where
  "getEnvelopesSince owner doc fromIndex T = filter (\<lambda>r. fromIndex \<le> er_index r) (getEnvelopeLog owner doc T)"

definition nextIndex :: "string \<Rightarrow> string \<Rightarrow> DocumentTables \<Rightarrow> int" where
  "nextIndex owner doc T =
     (case getEnvelopeLog owner doc T of [] \<Rightarrow> 0 | rows \<Rightarrow> Max (set (map er_index rows)) + 1)"

text \<open>\<open>appendEnvelope\<close>: the row's own index is not looked at. A row is written once per hash. NOT NULL
  and CHECK are looked at before the hash.\<close>

definition notNull :: "'a js" where "notNull = Inl (Error ''NOT NULL constraint failed'')"

definition storedRow :: "DocumentEnvelopeRow \<Rightarrow> DocumentEnvelopeRow" where
  "storedRow row = (if er_payload row = Some [] then row\<lparr>er_payload := None\<rparr> else row)"

definition appendEnvelope :: "string \<Rightarrow> DocumentEnvelopeRow \<Rightarrow> DocumentTables \<Rightarrow> bool js \<times> DocumentTables" where
  "appendEnvelope owner row T =
     (if er_signature row = [] \<or> er_vector row = [] then (notNull, T)
      else if \<not> (er_kind row = kind_update \<or> er_payload (storedRow row) = None) then (Inl (Error ''CHECK constraint failed''), T)
      else if \<exists>r \<in> set (getEnvelopeLog owner (er_document row) T). er_hash r = er_hash row then (Inr False, T)
      else if getDocument owner (er_document row) T = None then (Inl (Error ''document_envelope_unscoped''), T)
      else (Inr True, T\<lparr>document_envelopes := document_envelopes T @
              [(owner, (storedRow row)\<lparr>er_index := nextIndex owner (er_document row) T\<rparr>)]\<rparr>))"

section \<open>Quarantine\<close>

definition quarantineOf :: "string \<Rightarrow> string \<Rightarrow> DocumentTables \<Rightarrow> QuarantineRow list" where
  "quarantineOf owner doc T = map snd (filter (\<lambda>(o', r). o' = owner \<and> qr_document r = doc) (document_quarantine T))"

definition holdQuarantined :: "string \<Rightarrow> QuarantineRow \<Rightarrow> DocumentTables \<Rightarrow> bool js \<times> DocumentTables" where
  "holdQuarantined owner row T =
     (if qr_payload row = [] then (notNull, T)
      else if \<exists>r \<in> set (quarantineOf owner (qr_document row) T). qr_rejection r = qr_rejection row then (Inr False, T)
      else if getDocument owner (qr_document row) T = None then (Inl (Error ''FOREIGN KEY constraint failed''), T)
      else (Inr True, T\<lparr>document_quarantine := document_quarantine T @ [(owner, row)]\<rparr>))"

definition listQuarantined :: "string \<Rightarrow> string \<Rightarrow> DocumentTables \<Rightarrow> QuarantineRow list" where
  "listQuarantined owner doc T = sort_key qr_created (quarantineOf owner doc T)"

definition releaseQuarantined :: "string \<Rightarrow> string \<Rightarrow> string \<Rightarrow> DocumentTables \<Rightarrow> bool \<times> DocumentTables" where
  "releaseQuarantined owner doc rejected T =
     (\<exists>r \<in> set (quarantineOf owner doc T). qr_rejected r = rejected,
      T\<lparr>document_quarantine :=
        filter (\<lambda>(o', r). \<not> (o' = owner \<and> qr_document r = doc \<and> qr_rejected r = rejected)) (document_quarantine T)\<rparr>)"

section \<open>A sender's chain as the tables hold it\<close>

definition knownEnvelopeHashesBySender :: "string \<Rightarrow> string \<Rightarrow> string \<Rightarrow> DocumentTables \<Rightarrow> string list" where
  "knownEnvelopeHashesBySender owner doc sender T =
     map er_hash (filter (\<lambda>r. er_sender r = sender) (getEnvelopeLog owner doc T)) @
     map qr_rejected (filter (\<lambda>r. qr_sender r = sender) (quarantineOf owner doc T))"

definition senderClientIdsFor :: "string \<Rightarrow> string \<Rightarrow> string \<Rightarrow> DocumentTables \<Rightarrow> nat list" where
  "senderClientIdsFor owner doc sender T =
     add_all [] (List.map_filter er_client (filter (\<lambda>r. er_sender r = sender) (getEnvelopeLog owner doc T)))"

text \<open>The last of the rows, and the first of those with the greatest time.\<close>

definition lastOf :: "'a list \<Rightarrow> 'a option" where
  "lastOf xs = (if xs = [] then None else Some (last xs))"

definition newestOf :: "('a \<Rightarrow> int) \<Rightarrow> 'a list \<Rightarrow> 'a option" where
  "newestOf f xs = (case sort_key (\<lambda>x. - f x) xs of [] \<Rightarrow> None | x # _ \<Rightarrow> Some x)"

definition peerStateVector :: "string \<Rightarrow> string \<Rightarrow> string \<Rightarrow> DocumentTables \<Rightarrow> bytes option" where
  "peerStateVector owner doc peer T = map_option er_vector
     (lastOf (filter (\<lambda>r. er_sender r = peer \<and> er_kind r = kind_update) (getEnvelopeLog owner doc T)))"

definition lastPublishedStateVector :: "string \<Rightarrow> string \<Rightarrow> string \<Rightarrow> DocumentTables \<Rightarrow> bytes option" where
  "lastPublishedStateVector owner doc sender T = map_option er_vector
     (lastOf (filter (\<lambda>r. er_sender r = sender \<and> er_kind r = kind_update) (getEnvelopeLog owner doc T)))"

definition lastEnvelopeHashBySender :: "string \<Rightarrow> string \<Rightarrow> string \<Rightarrow> DocumentTables \<Rightarrow> string option" where
  "lastEnvelopeHashBySender owner doc sender T =
     (let admitted = lastOf (filter (\<lambda>r. er_sender r = sender) (getEnvelopeLog owner doc T));
          refused = newestOf qr_created (filter (\<lambda>r. qr_sender r = sender) (quarantineOf owner doc T)) in
      case refused of
        None \<Rightarrow> map_option er_hash admitted
      | Some q \<Rightarrow>
          if qr_rejected q = '''' then map_option er_hash admitted
          else (case admitted of
             None \<Rightarrow> Some (qr_rejected q)
           | Some a \<Rightarrow>
               if er_hash a = '''' then Some (qr_rejected q)
               else Some (if er_created a \<le> qr_created q then qr_rejected q else er_hash a)))"

definition envelopeCountsBySender :: "string \<Rightarrow> string \<Rightarrow> DocumentTables \<Rightarrow> (string \<times> nat) list" where
  "envelopeCountsBySender owner doc T =
     (let senders = map er_sender (getEnvelopeLog owner doc T) in
      map (\<lambda>s. (s, count_list senders s)) (add_all [] senders))"

definition countRejections :: "string \<Rightarrow> string \<Rightarrow> string \<Rightarrow> DocumentTables \<Rightarrow> nat" where
  "countRejections owner doc rejecting T =
     length (filter (\<lambda>r. er_kind r = kind_rejection \<and> er_sender r = rejecting) (getEnvelopeLog owner doc T))"

section \<open>Refusals by others\<close>

definition receivedOf :: "string \<Rightarrow> string \<Rightarrow> DocumentTables \<Rightarrow> ReceivedRow list" where
  "receivedOf owner doc T =
     map snd (filter (\<lambda>(o', r). o' = owner \<and> rr_document r = doc) (document_rejections_received T))"

definition recordRejectionReceived :: "string \<Rightarrow> ReceivedRow \<Rightarrow> DocumentTables \<Rightarrow> bool js \<times> DocumentTables" where
  "recordRejectionReceived owner row T =
     (if \<exists>r \<in> set (receivedOf owner (rr_document row) T). rr_rejection r = rr_rejection row then (Inr False, T)
      else if getDocument owner (rr_document row) T = None then (Inl (Error ''FOREIGN KEY constraint failed''), T)
      else (Inr True, T\<lparr>document_rejections_received := document_rejections_received T @ [(owner, row)]\<rparr>))"

definition countRejectionsReceived :: "string \<Rightarrow> string \<Rightarrow> DocumentTables \<Rightarrow> nat" where
  "countRejectionsReceived owner doc T = length (remdups (map rr_rejected (receivedOf owner doc T)))"

definition rejectionReceivedFor :: "string \<Rightarrow> string \<Rightarrow> string \<Rightarrow> DocumentTables \<Rightarrow> bool" where
  "rejectionReceivedFor owner doc h T \<longleftrightarrow> h \<in> rr_rejected ` set (receivedOf owner doc T)"

definition latestRejectionReceived ::
  "string \<Rightarrow> string \<Rightarrow> DocumentTables \<Rightarrow> (string \<times> string option \<times> string) option" where
  "latestRejectionReceived owner doc T = map_option (\<lambda>r. (rr_reason r, rr_detail r, rr_from r))
     (lastOf (sort_key rr_created (receivedOf owner doc T)))"

text \<open>\<open>json\<close> is \<open>JSON.parse\<close>, \<open>None\<close> when it throws; \<open>null.codepoints\<close> throws as well.\<close>

fun detailCodepoints :: "(string \<Rightarrow> jsval option) \<Rightarrow> string \<Rightarrow> string list" where
  "detailCodepoints json d =
     (case json d of
        Some (JObject m) \<Rightarrow>
          (case map_of m ''codepoints'' of
             Some (JArray vs) \<Rightarrow> List.map_filter (\<lambda>v. case v of JText c \<Rightarrow> Some c | _ \<Rightarrow> None) vs
           | _ \<Rightarrow> [])
      | _ \<Rightarrow> [])"

definition adoptedRefusedCodepoints ::
  "(string \<Rightarrow> jsval option) \<Rightarrow> string \<Rightarrow> string \<Rightarrow> DocumentTables \<Rightarrow> string list" where
  "adoptedRefusedCodepoints json owner doc T =
     foldl add_all [] (map (detailCodepoints json) (List.map_filter rr_detail (receivedOf owner doc T)))"

section \<open>What is known of another party\<close>

definition recordPartyView ::
  "string \<Rightarrow> string \<Rightarrow> string \<Rightarrow> (string \<times> int) list \<Rightarrow> (string \<times> int) list \<Rightarrow> string list \<Rightarrow> int \<Rightarrow>
   DocumentTables \<Rightarrow> DocumentTables" where
  "recordPartyView owner doc party govSeqs contentCounts refused now T =
     T\<lparr>document_party_view := AList.update (owner, doc, party)
        \<lparr>pv_last_exchange = now, pv_gov_seqs = govSeqs, pv_content_counts = contentCounts, pv_refused = refused\<rparr>
        (document_party_view T)\<rparr>"

definition partyView :: "string \<Rightarrow> string \<Rightarrow> string \<Rightarrow> DocumentTables \<Rightarrow> PartyView option" where
  "partyView owner doc party T = map_of (document_party_view T) (owner, doc, party)"

section \<open>Snapshots\<close>

definition getSnapshot :: "string \<Rightarrow> string \<Rightarrow> DocumentTables \<Rightarrow> DocumentSnapshot option" where
  "getSnapshot owner doc T = map_of (document_snapshots T) (owner, doc)"

definition putSnapshot :: "string \<Rightarrow> string \<Rightarrow> DocumentSnapshot \<Rightarrow> DocumentTables \<Rightarrow> DocumentTables js" where
  "putSnapshot owner doc snapshot T =
     (if sn_binary snapshot = [] \<or> sn_vector snapshot = [] then notNull
      else if getDocument owner doc T = None then Inl (Error ''FOREIGN KEY constraint failed'')
      else Inr (T\<lparr>document_snapshots := AList.update (owner, doc) snapshot (document_snapshots T)\<rparr>))"

definition deleteSnapshot :: "string \<Rightarrow> string \<Rightarrow> DocumentTables \<Rightarrow> DocumentTables" where
  "deleteSnapshot owner doc T = T\<lparr>document_snapshots := AList.delete (owner, doc) (document_snapshots T)\<rparr>"

end
