(* ===== verification/Content_Chain.thy ===== *)
theory Content_Chain
  imports Content_Log "HOL-Library.Multiset"
begin

text \<open>
  \<open>DocumentStore.verifyChainLinkage\<close> and \<open>rebuildSnapshot\<close> (\<open>core/daemon/src/document-store.ts\<close>): a document
  is opened only when every sender's envelopes, the refused ones included, form one chain.
\<close>

datatype ChainVerdict = chain_ok | chain_fault string

definition FORKED :: string where "FORKED = ''document_chain_forked''"
definition BROKEN :: string where "BROKEN = ''document_chain_broken''"

text \<open>A refused envelope stands in the chain as a row without content.\<close>

definition stubOf :: "QuarantineRow \<Rightarrow> DocumentEnvelopeRow" where
  "stubOf q = \<lparr>er_hash = qr_rejected q, er_document = qr_document q, er_sender = qr_sender q, er_prev = qr_prev q,
     er_signature = [], er_vector = [], er_payload = None, er_parents = [], er_kind = kind_rejection,
     er_references = None, er_created = qr_created q, er_client = None, er_index = 0\<rparr>"

text \<open>\<open>seenStub\<close>: the first row of each hash.\<close>

fun firstOfHash :: "string list \<Rightarrow> DocumentEnvelopeRow list \<Rightarrow> DocumentEnvelopeRow list" where
  "firstOfHash seen [] = []"
| "firstOfHash seen (r # rs) =
     (if er_hash r \<in> set seen then firstOfHash seen rs else r # firstOfHash (er_hash r # seen) rs)"

definition chainRows :: "string \<Rightarrow> string \<Rightarrow> DocumentTables \<Rightarrow> DocumentEnvelopeRow list" where
  "chainRows owner doc T = firstOfHash [] (map stubOf (listQuarantined owner doc T)) @ getEnvelopeLog owner doc T"

text \<open>The walk from a row to its only child, remembering the hashes reached.\<close>

function chainWalk :: "DocumentEnvelopeRow list \<Rightarrow> string list \<Rightarrow> DocumentEnvelopeRow \<Rightarrow> string list option" where
  "chainWalk envelopes reached cursor =
     (if er_hash cursor \<in> set reached then Some reached
      else case filter (\<lambda>e. er_prev e = Some (er_hash cursor)) envelopes of
          [] \<Rightarrow> Some (er_hash cursor # reached)
        | [child] \<Rightarrow> chainWalk envelopes (er_hash cursor # reached) child
        | _ \<Rightarrow> None)"
  by pat_completeness auto
termination
proof (relation "measure (\<lambda>(envelopes, reached, cursor). card (insert (er_hash cursor) (er_hash ` set envelopes) - set reached))", goal_cases)
  case (2 envelopes reached cursor child)
  then have "child \<in> set (filter (\<lambda>e. er_prev e = Some (er_hash cursor)) envelopes)" by simp
  then have "insert (er_hash child) (er_hash ` set envelopes) - set (er_hash cursor # reached)
      \<subseteq> insert (er_hash cursor) (er_hash ` set envelopes) - set reached - {er_hash cursor}" by auto
  then have "insert (er_hash child) (er_hash ` set envelopes) - set (er_hash cursor # reached)
      \<subset> insert (er_hash cursor) (er_hash ` set envelopes) - set reached" using 2 by blast
  then show ?case by (simp add: psubset_card_mono)
qed simp

declare chainWalk.simps [simp del]

definition senderVerdict :: "DocumentEnvelopeRow list \<Rightarrow> ChainVerdict" where
  "senderVerdict envelopes =
     (let genesis = filter (\<lambda>e. er_prev e = None) envelopes in
      if length genesis \<noteq> 1 then chain_fault FORKED
      else if \<exists>e \<in> set envelopes. \<exists>p. er_prev e = Some p \<and> p \<notin> er_hash ` set envelopes then chain_fault BROKEN
      else case chainWalk envelopes [] (hd genesis) of
          None \<Rightarrow> chain_fault FORKED
        | Some reached \<Rightarrow> if length reached \<noteq> length envelopes then chain_fault FORKED else chain_ok)"

fun firstFault :: "ChainVerdict list \<Rightarrow> ChainVerdict" where
  "firstFault [] = chain_ok"
| "firstFault (chain_ok # vs) = firstFault vs"
| "firstFault (v # vs) = v"

definition verifyChainLinkage :: "string \<Rightarrow> string \<Rightarrow> DocumentTables \<Rightarrow> ChainVerdict" where
  "verifyChainLinkage owner doc T =
     (let rows = chainRows owner doc T in
      firstFault (map (\<lambda>sender. senderVerdict (filter (\<lambda>e. er_sender e = sender) rows)) (add_all [] (map er_sender rows))))"

text \<open>\<open>replay\<close> is the engine's: the content and the state vector of the log's envelopes; it may throw.\<close>

definition rebuildSnapshot ::
  "string \<Rightarrow> string \<Rightarrow> (DocumentEnvelopeRow list \<Rightarrow> (bytes \<times> bytes) js) \<Rightarrow> DocumentTables \<Rightarrow> DocumentSnapshot js" where
  "rebuildSnapshot owner doc replay T =
     (case verifyChainLinkage owner doc T of
        chain_fault reason \<Rightarrow> Inl (Error reason)
      | chain_ok \<Rightarrow>
          let log = getEnvelopeLog owner doc T in
          rbind (replay log) (\<lambda>(binary, vector). Inr \<lparr>sn_binary = binary, sn_vector = vector,
            lastAppliedIndex = (case lastOf log of None \<Rightarrow> -1 | Some e \<Rightarrow> er_index e)\<rparr>))"

section \<open>What the check establishes\<close>

text \<open>\<open>linked p es\<close>: the rows in this order, each naming the one before it, the first naming \<open>p\<close>.\<close>

fun linked :: "string option \<Rightarrow> DocumentEnvelopeRow list \<Rightarrow> bool" where
  "linked p [] \<longleftrightarrow> True"
| "linked p (e # es) \<longleftrightarrow> er_prev e = p \<and> linked (Some (er_hash e)) es"

lemma linked_append: "linked p (xs @ y # ys) \<longleftrightarrow>
    linked p xs \<and> er_prev y = (if xs = [] then p else Some (er_hash (last xs))) \<and> linked (Some (er_hash y)) ys"
  by (induction xs arbitrary: p) auto

definition one_chain :: "DocumentEnvelopeRow list \<Rightarrow> bool" where
  "one_chain envelopes \<longleftrightarrow>
     (\<exists>es. mset es = mset envelopes \<and> es \<noteq> [] \<and> linked None es \<and> distinct (map er_hash es))"

lemma linked_prev: "linked p zs \<Longrightarrow> e \<in> set zs \<Longrightarrow> er_prev e = Some h \<Longrightarrow> p = Some h \<or> h \<in> er_hash ` set (butlast zs)"
  by (induction zs arbitrary: p) (auto split: if_splits)

lemma linked_prev_in: "linked p zs \<Longrightarrow> e \<in> set zs \<Longrightarrow> er_prev e = Some h \<Longrightarrow> p = Some h \<or> h \<in> er_hash ` set zs"
  by (induction zs arbitrary: p) auto

lemma linked_some: "linked (Some h) zs \<Longrightarrow> e \<in> set zs \<Longrightarrow> er_prev e \<noteq> None"
  by (induction zs arbitrary: h) auto

lemma linked_children:
  assumes "linked None (xs @ c # ys)" and "distinct (map er_hash (xs @ c # ys))"
  shows "filter (\<lambda>e. er_prev e = Some (er_hash c)) (xs @ c # ys) = take 1 ys"
proof -
  have links: "linked None (xs @ [c])" "linked (Some (er_hash c)) ys" using assms(1) by (auto simp: linked_append)
  have "er_prev e \<noteq> Some (er_hash c)" if "e \<in> set (xs @ [c])" for e
    using linked_prev [OF links(1) that, of "er_hash c"] assms(2) by auto
  then have "filter (\<lambda>e. er_prev e = Some (er_hash c)) (xs @ [c]) = []" by (auto simp: filter_empty_conv)
  moreover have "filter (\<lambda>e. er_prev e = Some (er_hash c)) ys = take 1 ys"
  proof (cases ys)
    case (Cons y zs)
    have "er_prev e \<noteq> Some (er_hash c)" if "e \<in> set zs" for e
    proof
      assume prev: "er_prev e = Some (er_hash c)"
      have "linked (Some (er_hash y)) zs" using links(2) by (simp add: Cons)
      from linked_prev_in [OF this that prev] show False using assms(2) by (auto simp: Cons)
    qed
    then show ?thesis using links(2) by (auto simp: Cons filter_empty_conv)
  qed simp
  moreover have "xs @ c # ys = (xs @ [c]) @ ys" by simp
  ultimately show ?thesis by (simp only: filter_append) simp
qed

lemma filter_mset_single:
  assumes "mset xs = mset ys" and "filter P xs = take 1 zs"
  shows "filter P ys = take 1 zs"
proof -
  have "mset (filter P ys) = mset (take 1 zs)" using assms by (metis mset_filter)
  then show ?thesis by (cases zs) (simp_all del: mset_filter)
qed

lemma walk_chain:
  assumes "mset (xs @ c # ys) = mset envelopes" and "linked None (xs @ c # ys)" and "distinct (map er_hash (xs @ c # ys))"
  shows "chainWalk envelopes (rev (map er_hash xs)) c = Some (rev (map er_hash (xs @ c # ys)))"
  using assms
proof (induction ys arbitrary: xs c)
  case Nil
  have "filter (\<lambda>e. er_prev e = Some (er_hash c)) envelopes = take 1 []"
    using filter_mset_single [OF Nil(1)] linked_children [OF Nil(2,3)] by blast
  then show ?case using Nil(3) by (subst chainWalk.simps) simp
next
  case (Cons y ys)
  have "filter (\<lambda>e. er_prev e = Some (er_hash c)) envelopes = take 1 (y # ys)"
    using filter_mset_single [OF Cons.prems(1)] linked_children [OF Cons.prems(2,3)] by blast
  then have "chainWalk envelopes (rev (map er_hash xs)) c = chainWalk envelopes (rev (map er_hash (xs @ [c]))) y"
    using Cons.prems(3) by (subst chainWalk.simps) simp
  also have "\<dots> = Some (rev (map er_hash ((xs @ [c]) @ y # ys)))"
    using Cons.prems by (intro Cons.IH) simp_all
  finally show ?case by simp
qed

lemma chain_walked:
  assumes "chainWalk envelopes (rev (map er_hash xs)) c = Some reached"
    and "linked None (xs @ [c])" and "distinct (map er_hash xs)" and "set (xs @ [c]) \<subseteq> set envelopes"
  shows "\<exists>es. reached = rev (map er_hash es) \<and> linked None es \<and> distinct (map er_hash es) \<and> set es \<subseteq> set envelopes"
  using assms
proof (induction envelopes "rev (map er_hash xs)" c arbitrary: xs rule: chainWalk.induct)
  case (1 envelopes c)
  show ?case
  proof (cases "er_hash c \<in> er_hash ` set xs")
    case True
    then have "reached = rev (map er_hash xs)" using 1(2) by (subst (asm) chainWalk.simps) (auto simp: image_iff)
    moreover have "linked None xs" using 1(3) by (simp add: linked_append)
    ultimately show ?thesis using 1(4,5) by auto
  next
    case new: False
    have rest: "er_hash c # rev (map er_hash xs) = rev (map er_hash (xs @ [c]))"
        "distinct (map er_hash (xs @ [c]))" using 1(4) new by simp_all
    show ?thesis
    proof (cases "filter (\<lambda>e. er_prev e = Some (er_hash c)) envelopes")
      case Nil
      then have "reached = rev (map er_hash (xs @ [c]))" using 1(2) new by (subst (asm) chainWalk.simps) (auto simp: image_iff)
      then show ?thesis using 1(3,5) rest(2) by blast
    next
      case (Cons d ds)
      show ?thesis
      proof (cases ds)
        case Nil
        have "d \<in> set (filter (\<lambda>e. er_prev e = Some (er_hash c)) envelopes)" using Cons by simp
        then have d: "d \<in> set envelopes" "er_prev d = Some (er_hash c)" by simp_all
        have "chainWalk envelopes (rev (map er_hash (xs @ [c]))) d = Some reached"
          using 1(2) new Cons Nil by (subst (asm) chainWalk.simps) (auto simp: image_iff)
        moreover have "linked None ((xs @ [c]) @ [d])" using 1(3) d(2) by (simp add: linked_append)
        moreover have "er_hash c \<notin> set (rev (map er_hash xs))" using new by auto
        ultimately show ?thesis using 1(1) [OF _ Cons Nil rest(1)] rest(2) 1(5) d(1) by simp
      next
        case Cons2: (Cons e es)
        then show ?thesis using 1(2) new Cons by (subst (asm) chainWalk.simps) (auto simp: image_iff)
      qed
    qed
  qed
qed

lemma senderVerdict_ok:
  assumes "envelopes \<noteq> []"
  shows "senderVerdict envelopes = chain_ok \<longleftrightarrow> one_chain envelopes"
proof
  assume "one_chain envelopes"
  then obtain e es where es: "mset (e # es) = mset envelopes" "linked None (e # es)" "distinct (map er_hash (e # es))"
    unfolding one_chain_def by (metis list.exhaust)
  have in_set: "set envelopes = set (e # es)" using es(1) by (metis mset_eq_setD)
  have "filter (\<lambda>e. er_prev e = None) (e # es) = take 1 [e]"
    using es(2) linked_some [of "er_hash e" es] by (auto simp: filter_empty_conv)
  from filter_mset_single [OF es(1) this] have g: "filter (\<lambda>e. er_prev e = None) envelopes = [e]" by simp
  have "\<not> (\<exists>x \<in> set envelopes. \<exists>p. er_prev x = Some p \<and> p \<notin> er_hash ` set envelopes)"
    using linked_prev_in [OF es(2)] by (auto simp: in_set)
  moreover have "chainWalk envelopes [] e = Some (rev (map er_hash (e # es)))"
    using walk_chain [of "[]" e es envelopes] es by simp
  moreover have "length envelopes = length (e # es)" using es(1) by (metis size_mset)
  ultimately show "senderVerdict envelopes = chain_ok" by (simp add: senderVerdict_def g)
next
  assume ok: "senderVerdict envelopes = chain_ok"
  then obtain e where g: "filter (\<lambda>e. er_prev e = None) envelopes = [e]"
    by (auto simp: senderVerdict_def Let_def length_Suc_conv split: if_splits)
  obtain reached where r: "chainWalk envelopes [] e = Some reached" "length reached = length envelopes"
    using ok by (auto simp: senderVerdict_def Let_def g split: if_splits option.splits)
  have "e \<in> set (filter (\<lambda>e. er_prev e = None) envelopes)" by (simp add: g)
  then have "e \<in> set envelopes" "er_prev e = None" by simp_all
  then obtain es where es: "reached = rev (map er_hash es)" "linked None es" "distinct (map er_hash es)" "set es \<subseteq> set envelopes"
    using chain_walked [of envelopes "[]" e reached] r(1) by auto
  have len: "length es = length envelopes" using r(2) es(1) by simp
  have d: "distinct es" using es(3) by (simp add: distinct_map)
  have "length envelopes = card (set es)" using d len by (simp add: distinct_card)
  also have "\<dots> \<le> card (set envelopes)" using es(4) by (simp add: card_mono)
  finally have c: "card (set envelopes) = length envelopes" using card_length [of envelopes] by simp
  then have "distinct envelopes" by (rule card_distinct)
  moreover have "set es = set envelopes" using es(4) c len d by (simp add: card_subset_eq distinct_card)
  ultimately have "mset es = mset envelopes" using d by (simp add: set_eq_iff_mset_eq_distinct)
  moreover have "es \<noteq> []" using len assms by auto
  ultimately show "one_chain envelopes" using es(2,3) unfolding one_chain_def by blast
qed

lemma firstFault_ok: "firstFault vs = chain_ok \<longleftrightarrow> (\<forall>v \<in> set vs. v = chain_ok)"
  by (induction vs rule: firstFault.induct) auto

lemma linkage_ok:
  "verifyChainLinkage owner doc T = chain_ok \<longleftrightarrow>
     (\<forall>sender. filter (\<lambda>e. er_sender e = sender) (chainRows owner doc T) = [] \<or>
        one_chain (filter (\<lambda>e. er_sender e = sender) (chainRows owner doc T)))"
proof -
  let ?of = "\<lambda>sender. filter (\<lambda>e. er_sender e = sender) (chainRows owner doc T)"
  have "verifyChainLinkage owner doc T = chain_ok \<longleftrightarrow>
      (\<forall>sender \<in> er_sender ` set (chainRows owner doc T). senderVerdict (?of sender) = chain_ok)"
    by (simp add: verifyChainLinkage_def Let_def firstFault_ok)
  also have "\<dots> \<longleftrightarrow> (\<forall>sender. ?of sender = [] \<or> one_chain (?of sender))"
    using senderVerdict_ok [of "?of sender" for sender] by (fastforce simp: filter_empty_conv)
  finally show ?thesis .
qed

text \<open>C10: The check that guards the opening of a document is exact: it passes precisely when each
  sender's envelopes, those refused here included, can be put in one line that starts without a
  predecessor, in which each envelope names the one before it and no hash occurs twice.\<close>

theorem linkage_check_is_exact:
  "verifyChainLinkage owner doc T = chain_ok \<longleftrightarrow>
     (\<forall>sender. \<exists>es. mset es = mset (filter (\<lambda>e. er_sender e = sender) (chainRows owner doc T)) \<and>
        linked None es \<and> distinct (map er_hash es))"
proof -
  have "(rows = [] \<or> one_chain rows) \<longleftrightarrow> (\<exists>es. mset es = mset rows \<and> linked None es \<and> distinct (map er_hash es))" for rows
  proof (cases "rows = []")
    case False
    then have "es \<noteq> []" if "mset es = mset rows" for es :: "DocumentEnvelopeRow list" using that by auto
    then show ?thesis using False unfolding one_chain_def by blast
  qed (auto intro: exI [of _ "[]"])
  then show ?thesis unfolding linkage_ok by simp
qed

end
