(* ===== verification/Content_Engine.thy ===== *)
theory Content_Engine
  imports Content_Chain
begin

text \<open>
  \<open>core/daemon/src/document-engine.ts\<close> and \<open>document-live-docs.ts\<close>: applying updates to a document's
  content, replaying the log, and the cache of open documents. The content itself is a \<open>Y.Doc\<close> of
  the package yjs: its operations are the fields of \<open>yjs\<close>, over an opaque type of documents.
\<close>

section \<open>The package's operations\<close>

text \<open>
  \<open>y_apply\<close> is \<open>Y.applyUpdate\<close> (it may throw, which leaves the document as it was), \<open>y_missing\<close> the
  size of \<open>pendingStructs.missing\<close> or \<open>None\<close> for null, \<open>y_pendingDs\<close> whether \<open>pendingDs\<close> is set.
\<close>

record 'd yjs =
  y_new :: 'd
  y_apply :: "'d \<Rightarrow> bytes \<Rightarrow> 'd js"
  y_missing :: "'d \<Rightarrow> nat option"
  y_pendingDs :: "'d \<Rightarrow> bool"
  y_state :: "'d \<Rightarrow> bytes"
  y_diff :: "'d \<Rightarrow> bytes \<Rightarrow> bytes"
  y_vector :: "'d \<Rightarrow> bytes"

section \<open>The engine\<close>

definition MAX_UPDATE_BYTES :: nat where "MAX_UPDATE_BYTES = 1024 * 1024"
definition MIN_UPDATE_BYTES :: nat where "MIN_UPDATE_BYTES = 2"

definition pending :: "'d yjs \<Rightarrow> 'd \<Rightarrow> bool" where
  "pending Y d \<longleftrightarrow> y_missing Y d \<noteq> None \<or> y_pendingDs Y d"

definition restore :: "'d yjs \<Rightarrow> bytes \<Rightarrow> 'd js" where
  "restore Y binary =
     (case y_apply Y (y_new Y) binary of
        Inl e \<Rightarrow> Inl (Error ''document_snapshot_malformed'')
      | Inr d \<Rightarrow> if y_missing Y d \<noteq> None then Inl (Error ''document_snapshot_incomplete'') else Inr d)"

text \<open>An update is tried on a copy first; the answer is the new content or the reason of the refusal.\<close>

definition applyUpdate :: "'d yjs \<Rightarrow> 'd \<Rightarrow> bytes \<Rightarrow> 'd js" where
  "applyUpdate Y d update =
     (if length update > MAX_UPDATE_BYTES then Inl (Error ''document_update_too_large'')
      else if length update < MIN_UPDATE_BYTES then Inl (Error ''document_update_too_small'')
      else case rbind (y_apply Y (y_new Y) (y_state Y d)) (\<lambda>shadow. y_apply Y shadow update) of
          Inl e \<Rightarrow> Inl (Error ''document_update_malformed'')
        | Inr shadow \<Rightarrow>
            if pending Y shadow then Inl (Error ''document_update_unresolved_dependencies'')
            else y_apply Y d update)"

definition applyDirect :: "'d yjs \<Rightarrow> 'd \<Rightarrow> bytes \<Rightarrow> 'd js" where
  "applyDirect Y d update =
     (if length update > MAX_UPDATE_BYTES then Inl (Error ''document_update_too_large'')
      else if length update < MIN_UPDATE_BYTES then Inl (Error ''document_update_too_small'')
      else case y_apply Y d update of
          Inl e \<Rightarrow> Inl (Error ''document_update_malformed'')
        | Inr d' \<Rightarrow> if pending Y d' then Inl (Error ''document_update_unresolved_dependencies'') else Inr d')"

definition replayStep :: "'d yjs \<Rightarrow> 'd \<Rightarrow> DocumentEnvelopeRow \<Rightarrow> 'd js" where
  "replayStep Y d e =
     (case er_payload e of
        None \<Rightarrow> if er_kind e = kind_update then Inl (Error ''document_envelope_purged'') else Inr d
      | Some update \<Rightarrow> applyDirect Y d update)"

definition replayDoc :: "'d yjs \<Rightarrow> DocumentEnvelopeRow list \<Rightarrow> 'd js" where
  "replayDoc Y envelopes = rfold (replayStep Y) (y_new Y) envelopes"

definition replay :: "'d yjs \<Rightarrow> DocumentEnvelopeRow list \<Rightarrow> (bytes \<times> bytes) js" where
  "replay Y envelopes = rbind (replayDoc Y envelopes) (\<lambda>d. Inr (y_state Y d, y_vector Y d))"

section \<open>Open documents\<close>

definition LIVE_DOC_CACHE_SIZE :: nat where "LIVE_DOC_CACHE_SIZE = 32"

text \<open>The key is the owner and the document; the oldest entry is first.\<close>

type_synonym 'd live_docs = "((string \<times> string) \<times> 'd) list"

definition evictIfNeeded :: "'d live_docs \<Rightarrow> 'd live_docs" where
  "evictIfNeeded L = drop (length L - LIVE_DOC_CACHE_SIZE) L"

text \<open>A map entry that is deleted and set again moves to the end.\<close>

definition openLive ::
  "'d yjs \<Rightarrow> (string \<Rightarrow> string \<Rightarrow> bytes option) \<Rightarrow> string \<Rightarrow> string \<Rightarrow> DocumentTables \<Rightarrow> 'd live_docs \<Rightarrow>
   'd js \<times> 'd live_docs" where
  "openLive Y startingContentFor owner doc T L =
     (case map_of L (owner, doc) of
        Some d \<Rightarrow> (Inr d, AList.delete (owner, doc) L @ [((owner, doc), d)])
      | None \<Rightarrow>
          (case rbind (rebuildSnapshot owner doc (replay Y) T) (\<lambda>snapshot. restore Y (sn_binary snapshot)) of
             Inl e \<Rightarrow> (Inl e, L)
           | Inr d \<Rightarrow>
               let d' = (case startingContentFor owner doc of
                   None \<Rightarrow> d
                 | Some starting \<Rightarrow> (case applyUpdate Y d starting of Inl _ \<Rightarrow> d | Inr d' \<Rightarrow> d'))
               in (Inr d', evictIfNeeded (L @ [((owner, doc), d')]))))"

definition releaseLive :: "string \<Rightarrow> string \<Rightarrow> 'd live_docs \<Rightarrow> 'd live_docs" where
  "releaseLive owner doc L = AList.delete (owner, doc) L"

text \<open>An open document changes in place: the cache, when it still holds it, holds the changed one.\<close>

definition changeLive :: "string \<Rightarrow> string \<Rightarrow> 'd \<Rightarrow> 'd live_docs \<Rightarrow> 'd live_docs" where
  "changeLive owner doc d L = (if map_of L (owner, doc) = None then L else AList.update (owner, doc) d L)"

end
