(* ===== verification/Content_Gate.thy ===== *)
theory Content_Gate
  imports Content_Engine
begin

text \<open>
  \<open>core/daemon/src/document-gate.ts\<close>: what a peer's update must satisfy before it may touch the accepted
  content. The update is tried on a copy; the further operations of yjs it asks for are the fields of
  \<open>yjs_reads\<close>. Characters beyond Latin-1 in a message are written as question marks.
\<close>

section \<open>The package's further operations\<close>

text \<open>
  \<open>struct_value\<close> is one struct of a decoded update: its \<open>content.str\<close>, what \<open>content.getContent()\<close>
  returns, or neither. \<open>Roots\<close> and the types nested in them are \<open>ytype\<close>: the types under \<open>_map\<close>, then
  those along \<open>_start\<close>.
\<close>

datatype struct_value = struct_str string | struct_values "jsval list" | struct_other

datatype ytype = ytype "ytype list"

record 'd yjs_reads =
  y_text :: "'d \<Rightarrow> string js"
  y_data :: "'d \<Rightarrow> fields js"
  y_clocks :: "'d \<Rightarrow> (nat \<times> nat) list"
  y_canonical :: "bytes \<Rightarrow> bytes js"
  y_structs :: "bytes \<Rightarrow> struct_value list js"
  y_deleted :: "bytes \<Rightarrow> nat list js"
  y_roots :: "'d \<Rightarrow> ytype list"
  js_text :: "jsval \<Rightarrow> string"

section \<open>Limits, context, verdict\<close>

record GateLimits =
  maxUpdateBytes :: nat
  maxDocumentBytes :: nat
  maxNestingDepth :: nat
  maxUpdatesPerMinute :: nat

definition DEFAULT_GATE_LIMITS :: GateLimits where
  "DEFAULT_GATE_LIMITS = \<lparr>maxUpdateBytes = 1024 * 1024, maxDocumentBytes = 8 * 1024 * 1024,
     maxNestingDepth = 64, maxUpdatesPerMinute = 120\<rparr>"

record ProjectedDiff =
  inserted :: string
  deletedChars :: nat
  changedKeys :: "string list"
  resultingBytes :: nat
  maxDepth :: nat

record GateContext =
  gc_document :: string
  gc_sender :: string
  senderClientIds :: "nat list"
  declaredDocumentId :: "string option"
  declaredEncoding :: "string option"
  appendOnly :: bool
  contentProfile :: "string option"

record GateQuarantine =
  gq_reason :: string
  gq_detail :: "string option"
  gq_limit :: "(string \<times> int \<times> int) option"
  gq_rule :: "string option"

datatype GateVerdict = admit ProjectedDiff | quarantine GateQuarantine

type_synonym GateRule = "ProjectedDiff \<Rightarrow> GateContext \<Rightarrow> (string \<times> string option) option js"

definition refuse :: "string \<Rightarrow> GateVerdict" where
  "refuse reason = quarantine \<lparr>gq_reason = reason, gq_detail = None, gq_limit = None, gq_rule = None\<rparr>"

definition refuseWith :: "string \<Rightarrow> string \<Rightarrow> GateVerdict" where
  "refuseWith reason detail = quarantine \<lparr>gq_reason = reason, gq_detail = Some detail, gq_limit = None, gq_rule = None\<rparr>"

definition refuseLimit :: "string \<Rightarrow> string \<Rightarrow> nat \<Rightarrow> nat \<Rightarrow> GateVerdict" where
  "refuseLimit reason name limit actual = quarantine
     \<lparr>gq_reason = reason, gq_detail = None, gq_limit = Some (name, int limit, int actual), gq_rule = None\<rparr>"

section \<open>Messages\<close>

definition digitChar :: "nat \<Rightarrow> char" where "digitChar n = char_of (48 + n)"

fun decimal :: "nat \<Rightarrow> string" where
  "decimal n = (if n < 10 then [digitChar n] else decimal (n div 10) @ [digitChar (n mod 10)])"

declare decimal.simps [simp del]

fun messageOf :: "js_error \<Rightarrow> string" where
  "messageOf (RangeError s) = s"
| "messageOf (TypeError s) = s"
| "messageOf (Error s) = s"

section \<open>What the update would do\<close>

definition partsOf :: "'d yjs_reads \<Rightarrow> struct_value \<Rightarrow> string list" where
  "partsOf R sv =
     (case sv of
        struct_str s \<Rightarrow> [s]
      | struct_values vs \<Rightarrow> List.map_filter (\<lambda>v. case v of
            JText s \<Rightarrow> Some s
          | JBytes _ \<Rightarrow> Some (js_text R v)
          | JArray _ \<Rightarrow> Some (js_text R v)
          | JObject _ \<Rightarrow> Some (js_text R v)
          | JMap _ \<Rightarrow> Some (js_text R v)
          | _ \<Rightarrow> None) vs
      | struct_other \<Rightarrow> [])"

definition insertedText :: "'d yjs_reads \<Rightarrow> bytes \<Rightarrow> string" where
  "insertedText R update =
     (case y_structs R update of Inl _ \<Rightarrow> '''' | Inr structs \<Rightarrow> join [CHR 0x0A] (concat (map (partsOf R) structs)))"

fun commonPrefix :: "string \<Rightarrow> string \<Rightarrow> nat" where
  "commonPrefix (a # as) (b # bs) = (if a = b then Suc (commonPrefix as bs) else 0)"
| "commonPrefix _ _ = 0"

definition deletedCount :: "string \<Rightarrow> string \<Rightarrow> nat" where
  "deletedCount before after =
     (let skip = commonPrefix before after;
          suffix = commonPrefix (rev (drop skip before)) (rev (drop skip after)) in
      length before - skip - suffix)"

text \<open>The stack of \<open>deepestRoot\<close>, its top first: pushed last, popped first.\<close>

fun deepestLoop :: "nat \<Rightarrow> nat \<Rightarrow> nat \<Rightarrow> (ytype \<times> nat) list \<Rightarrow> nat option" where
  "deepestLoop fuel bailAt deepest [] = Some deepest"
| "deepestLoop 0 bailAt deepest (x # stack) = None"
| "deepestLoop (Suc fuel) bailAt deepest ((ytype nested, depth) # stack) =
     (let d = max deepest depth in
      if bailAt < d then Some d
      else deepestLoop fuel bailAt d (rev (map (\<lambda>n. (n, depth + 1)) nested) @ stack))"

fun typeCount :: "ytype \<Rightarrow> nat" where
  "typeCount (ytype nested) = 1 + sum_list (map typeCount nested)"

definition deepestRoot :: "ytype list \<Rightarrow> nat \<Rightarrow> nat" where
  "deepestRoot roots bailAt =
     the (deepestLoop (sum_list (map typeCount roots)) bailAt 0 (rev (map (\<lambda>r. (r, 0)) roots)))"

definition countDeletions :: "'d yjs_reads \<Rightarrow> bytes \<Rightarrow> nat" where
  "countDeletions R update = (case y_deleted R update of Inl _ \<Rightarrow> 0 | Inr ranges \<Rightarrow> sum_list ranges)"

definition changedKeysOf :: "'d yjs_reads \<Rightarrow> fields \<Rightarrow> fields \<Rightarrow> string list" where
  "changedKeysOf R before after =
     filter (\<lambda>k. map_option (js_text R) (map_of before k) \<noteq> map_option (js_text R) (map_of after k))
       (add_all [] (map fst before @ map fst after))"

text \<open>Every client whose clock the update advanced and whom the sender has not signed for.\<close>

definition unboundClients :: "'d yjs_reads \<Rightarrow> 'd \<Rightarrow> 'd \<Rightarrow> nat list \<Rightarrow> nat list" where
  "unboundClients R accepted shadow bound =
     (let before = y_clocks R accepted in
      filter (\<lambda>c. c \<notin> set bound)
        (map fst (filter (\<lambda>(client, clock). (case map_of before client of None \<Rightarrow> 0 | Some n \<Rightarrow> n) < clock) (y_clocks R shadow))))"

definition checkAuthorship :: "'d yjs_reads \<Rightarrow> 'd \<Rightarrow> 'd \<Rightarrow> GateContext \<Rightarrow> GateVerdict option" where
  "checkAuthorship R accepted shadow ctx =
     (case unboundClients R accepted shadow (senderClientIds ctx) of
        [] \<Rightarrow> None
      | unbound \<Rightarrow> Some (refuseWith ''document_update_unbound_client''
          (''clientID(s) '' @ join '', '' (map decimal unbound) @ '' advanced but are not bound to sender '' @
           take 16 (gc_sender ctx) @ ''? ? either an update authored under another party's identity, or relayed '' @
           ''third-party operations, which V1 does not support (relayed third-party operations ? '' @
           ''pass-through, M14-P8 ? are not supported)'')))"

section \<open>The rate window\<close>

type_synonym recent = "(string \<times> int list) list"

definition windowOf :: "recent \<Rightarrow> string \<Rightarrow> int \<Rightarrow> int list" where
  "windowOf recent sender now =
     filter (\<lambda>t. now - t < 60000) (case map_of recent sender of None \<Rightarrow> [] | Some ts \<Rightarrow> ts)"

definition dropStale :: "int \<Rightarrow> recent \<Rightarrow> recent" where
  "dropStale now recent = filter (\<lambda>(sender, times). \<not> (times \<noteq> [] \<and> now - last times > 60000)) recent"

section \<open>The gate\<close>

fun firstRefusal :: "(string \<times> GateRule) list \<Rightarrow> ProjectedDiff \<Rightarrow> GateContext \<Rightarrow> GateVerdict js" where
  "firstRefusal [] diff ctx = Inr (admit diff)"
| "firstRefusal ((name, rule) # rules) diff ctx =
     rbind (rule diff ctx) (\<lambda>r. case r of
        None \<Rightarrow> firstRefusal rules diff ctx
      | Some (reason, detail) \<Rightarrow> Inr (quarantine
          \<lparr>gq_reason = reason, gq_detail = detail, gq_limit = None, gq_rule = Some name\<rparr>))"

text \<open>The checks on the trial, once the update is known to apply.\<close>

definition judgeTrial ::
  "'d yjs \<Rightarrow> 'd yjs_reads \<Rightarrow> GateLimits \<Rightarrow> (string \<times> GateRule) list \<Rightarrow> 'd \<Rightarrow> bytes \<Rightarrow> GateContext \<Rightarrow> string \<Rightarrow> fields \<Rightarrow> 'd \<Rightarrow>
   GateVerdict js" where
  "judgeTrial Y R L rules accepted update ctx beforeText beforeData shadow =
     (if y_missing Y shadow \<noteq> None \<or> y_pendingDs Y shadow then
        Inr (refuseWith ''document_update_unresolved_dependencies'' (case y_missing Y shadow of
           Some n \<Rightarrow> ''depends on '' @ decimal n @ '' client(s) whose earlier operations are absent''
         | None \<Rightarrow> ''carries a delete set referring to operations this document has never seen''))
      else case y_canonical R update of
        Inl e \<Rightarrow> Inr (refuseWith ''document_update_malformed'' (messageOf e))
      | Inr canonicalUpdate \<Rightarrow>
        if length canonicalUpdate < length update then
          Inr (refuseWith ''document_update_trailing_bytes''
            (decimal (length update - length canonicalUpdate) @ '' bytes past the decoder's cursor ? the encoding would '' @
             ''otherwise be malleable, and this update's hash becomes a 0x04 leaf''))
        else case checkAuthorship R accepted shadow ctx of
          Some v \<Rightarrow> Inr v
        | None \<Rightarrow>
          rbind (y_text R shadow) (\<lambda>afterText.
          rbind (y_data R shadow) (\<lambda>afterData.
          let diff = \<lparr>inserted = insertedText R update, deletedChars = deletedCount beforeText afterText,
                changedKeys = changedKeysOf R beforeData afterData, resultingBytes = length (y_state Y shadow),
                maxDepth = deepestRoot (y_roots R shadow) (maxNestingDepth L)\<rparr> in
          if resultingBytes diff > maxDocumentBytes L then
            Inr (refuseLimit ''document_too_large'' ''maxDocumentBytes'' (maxDocumentBytes L) (resultingBytes diff))
          else if maxDepth diff > maxNestingDepth L then
            Inr (refuseLimit ''document_nesting_too_deep'' ''maxNestingDepth'' (maxNestingDepth L) (maxDepth diff))
          else if appendOnly ctx \<and> countDeletions R update > 0 then
            Inr (refuseWith ''document_append_only_violation''
              (''the update deletes or rewrites '' @ decimal (countDeletions R update) @
               '' existing range(s); this document accepts appends only''))
          else firstRefusal rules diff ctx)))"

definition validateBody ::
  "'d yjs \<Rightarrow> 'd yjs_reads \<Rightarrow> GateLimits \<Rightarrow> (string \<times> GateRule) list \<Rightarrow> 'd \<Rightarrow> bytes \<Rightarrow> GateContext \<Rightarrow> int \<Rightarrow> recent \<Rightarrow>
   GateVerdict js \<times> recent" where
  "validateBody Y R L rules accepted update ctx now recent =
     (if length update > maxUpdateBytes L then
        (Inr (refuseLimit ''document_update_too_large'' ''maxUpdateBytes'' (maxUpdateBytes L) (length update)), recent)
      else if length update < 2 then
        (Inr (refuseWith ''document_update_too_small''
          (decimal (length update) @ '' bytes is below the 2-byte minimum for a Yjs update'')), recent)
      else if declaredEncoding ctx \<noteq> Some DOCUMENT_UPDATE_ENCODING_V1 then
        (Inr (refuseWith ''document_update_encoding_unsupported''
          (''envelope declares encoding '' @ js_text R (nullable JText (declaredEncoding ctx)) @
           ''; only yjs-v1 is accepted, and v2 bytes decode to an empty document without error'')), recent)
      else if declaredDocumentId ctx \<noteq> Some (gc_document ctx) then
        (Inr (refuseWith ''document_update_foreign_origin''
          (''envelope declares document '' @
           take 16 (case declaredDocumentId ctx of None \<Rightarrow> ''(none)'' | Some d \<Rightarrow> d) @ ''? but this is '' @
           take 16 (gc_document ctx) @ ''? ? updates carry no document identity, so '' @
           ''a well-formed update built on another document would otherwise merge silently'')), recent)
      else let window = windowOf recent (gc_sender ctx) now in
        if length window \<ge> maxUpdatesPerMinute L then
          (Inr (refuseLimit ''document_update_rate_exceeded'' ''maxUpdatesPerMinute'' (maxUpdatesPerMinute L) (length window + 1)),
           AList.update (gc_sender ctx) window recent)
        else
          (case y_apply Y (y_new Y) (y_state Y accepted) of
             Inl e \<Rightarrow> Inr (refuseWith ''document_accepted_state_unreadable'' (messageOf e))
           | Inr shadow \<Rightarrow>
               rbind (y_text R shadow) (\<lambda>beforeText.
               rbind (y_data R shadow) (\<lambda>beforeData.
               case y_apply Y shadow update of
                 Inl e \<Rightarrow> Inr (refuseWith ''document_update_malformed'' (messageOf e))
               | Inr shadow' \<Rightarrow> judgeTrial Y R L rules accepted update ctx beforeText beforeData shadow')),
           dropStale now (AList.update (gc_sender ctx) (window @ [now]) recent)))"

definition validate ::
  "'d yjs \<Rightarrow> 'd yjs_reads \<Rightarrow> GateLimits \<Rightarrow> (string \<times> GateRule) list \<Rightarrow> 'd \<Rightarrow> bytes \<Rightarrow> GateContext \<Rightarrow> int \<Rightarrow> recent \<Rightarrow>
   GateVerdict \<times> recent" where
  "validate Y R L rules accepted update ctx now recent =
     (case validateBody Y R L rules accepted update ctx now recent of
        (Inl e, recent') \<Rightarrow> (refuseWith ''document_gate_rule_failed'' (messageOf e), recent')
      | (Inr v, recent') \<Rightarrow> (v, recent'))"

end
