(* ===== verification/Content_Rejections.thy ===== *)
theory Content_Rejections
  imports Content_Engine
begin

text \<open>
  \<open>core/daemon/src/document-rejection.ts\<close>: refusing an update. The refusal is signed, written to the
  refusing agent's own chain, and the refused bytes are held; after three rounds the document stops
  accepting updates. \<open>sign\<close> is the agent's key; \<open>reject\<close> waits for it between the two halves given here.
\<close>

definition MAX_REJECTED_ROUNDS :: nat where "MAX_REJECTED_ROUNDS = 3"
definition REJECTION_STATE_VECTOR :: bytes where "REJECTION_STATE_VECTOR = [0]"

record RejectionInput =
  ri_rejected :: string
  ri_quarantined :: bytes
  ri_prev :: "string option"
  ri_reason :: string
  ri_detail :: "string option"
  ri_sender :: string
  ri_rule :: "string option"
  ri_limit :: "(string \<times> int \<times> int) option"
  ri_now :: int

record RejectionOutcome =
  ro_stalled :: bool
  ro_round :: nat
  ro_wire :: "jsval option"

definition isStalled :: "string \<Rightarrow> string \<Rightarrow> DocumentTables \<Rightarrow> bool" where
  "isStalled agent doc T \<longleftrightarrow> map_option dw_status (getDocument agent doc T) = Some d_stalled"

definition roundOf :: "string \<Rightarrow> string \<Rightarrow> DocumentTables \<Rightarrow> nat" where
  "roundOf agent doc T = countRejections agent doc agent T"

section \<open>Refusing\<close>

text \<open>Up to the signature: the answer for a refusal already made, or the statement to sign.\<close>

definition rejectBegin ::
  "string \<Rightarrow> string \<Rightarrow> RejectionInput \<Rightarrow> DocumentTables \<Rightarrow> RejectionOutcome + DocumentRejectionEnvelope" where
  "rejectBegin agent doc input T =
     (if \<exists>q \<in> set (listQuarantined agent doc T). qr_rejected q = ri_rejected input \<and> qr_reason q = ri_reason input
      then Inl \<lparr>ro_stalled = isStalled agent doc T, ro_round = roundOf agent doc T, ro_wire = None\<rparr>
      else Inr \<lparr>rejection_version = DOCUMENT_REJECTION_VERSION, dr_document_id = doc,
        rejected_envelope_hash = ri_rejected input, rejecting_agent_id = agent, dr_reason = ri_reason input,
        dr_detail = ri_detail input, dr_round = int (roundOf agent doc T + 1), rejected_at_ms = ri_now input,
        dr_signature = []\<rparr>)"

definition rejectionRow :: "string \<Rightarrow> string \<Rightarrow> DocumentRejectionEnvelope \<Rightarrow> string option \<Rightarrow> DocumentEnvelopeRow" where
  "rejectionRow doc h env prev = \<lparr>er_hash = h, er_document = doc, er_sender = rejecting_agent_id env, er_prev = prev,
     er_signature = dr_signature env, er_vector = REJECTION_STATE_VECTOR, er_payload = None, er_parents = [],
     er_kind = kind_rejection, er_references = Some (rejected_envelope_hash env), er_created = rejected_at_ms env,
     er_client = None, er_index = 0\<rparr>"

definition quarantineRow :: "string \<Rightarrow> string \<Rightarrow> RejectionInput \<Rightarrow> jsval \<Rightarrow> QuarantineRow" where
  "quarantineRow doc h input wire = \<lparr>qr_document = doc, qr_rejection = h, qr_rejected = ri_rejected input,
     qr_sender = ri_sender input, qr_prev = ri_prev input, qr_payload = ri_quarantined input,
     qr_reason = ri_reason input, qr_detail = ri_detail input, qr_rule = ri_rule input, qr_limit = ri_limit input,
     qr_wire = Some wire, qr_created = ri_now input\<rparr>"

text \<open>From the signature on.\<close>

definition rejectEnd ::
  "externals \<Rightarrow> string \<Rightarrow> string \<Rightarrow> RejectionInput \<Rightarrow> DocumentRejectionEnvelope \<Rightarrow> DocumentTables \<Rightarrow>
   RejectionOutcome js \<times> DocumentTables" where
  "rejectEnd X agent doc input env T =
     (case documentRejectionHash X env of
        Inl e \<Rightarrow> (Inl e, T)
      | Inr h \<Rightarrow>
        (case appendEnvelope agent (rejectionRow doc h env (lastEnvelopeHashBySender agent doc agent T)) T of
           (Inl e, T1) \<Rightarrow> (Inl e, T1)
         | (Inr False, T1) \<Rightarrow>
             (Inr \<lparr>ro_stalled = isStalled agent doc T1, ro_round = roundOf agent doc T1, ro_wire = None\<rparr>, T1)
         | (Inr True, T1) \<Rightarrow>
           (case encodeDocumentRejection env of
              Inl e \<Rightarrow> (Inl e, T1)
            | Inr wire \<Rightarrow>
              (case holdQuarantined agent (quarantineRow doc h input wire) T1 of
                 (Inl e, T2) \<Rightarrow> (Inl e, T2)
               | (Inr _, T2) \<Rightarrow>
                   let stalled = dr_round env \<ge> int MAX_REJECTED_ROUNDS;
                       T3 = (if stalled \<and> \<not> isStalled agent doc T2 then setDocumentStatus agent doc d_stalled T2 else T2) in
                   (Inr \<lparr>ro_stalled = stalled, ro_round = nat (dr_round env), ro_wire = Some wire\<rparr>, T3)))))"

definition reject ::
  "externals \<Rightarrow> (string \<Rightarrow> bytes \<Rightarrow> bytes js) \<Rightarrow> string \<Rightarrow> string \<Rightarrow> RejectionInput \<Rightarrow> DocumentTables \<Rightarrow>
   RejectionOutcome js \<times> DocumentTables" where
  "reject X sign agent doc input T =
     (case rejectBegin agent doc input T of
        Inl outcome \<Rightarrow> (Inr outcome, T)
      | Inr env \<Rightarrow>
          (case rbind (buildDocumentRejectionTbs X env True) (sign agent) of
             Inl e \<Rightarrow> (Inl e, T)
           | Inr sig \<Rightarrow> rejectEnd X agent doc input (env\<lparr>dr_signature := sig\<rparr>) T))"

section \<open>Being refused\<close>

record IncomingRejection =
  ir_rejection :: string
  ir_rejected :: string
  ir_reason :: string
  ir_detail :: "string option"
  ir_from :: string

definition recordIncomingRejection ::
  "string \<Rightarrow> string \<Rightarrow> IncomingRejection \<Rightarrow> int \<Rightarrow> DocumentTables \<Rightarrow> (bool \<times> nat) js \<times> DocumentTables" where
  "recordIncomingRejection agent doc input now T =
     (case recordRejectionReceived agent \<lparr>rr_document = doc, rr_rejection = ir_rejection input,
          rr_rejected = ir_rejected input, rr_from = ir_from input, rr_reason = ir_reason input,
          rr_detail = ir_detail input, rr_created = now\<rparr> T of
        (Inl e, T1) \<Rightarrow> (Inl e, T1)
      | (Inr written, T1) \<Rightarrow>
          let round = countRejectionsReceived agent doc T1 in
          if \<not> written then (Inr (isStalled agent doc T1, round), T1)
          else let stalled = round \<ge> MAX_REJECTED_ROUNDS in
            (Inr (stalled, round),
             if stalled \<and> \<not> isStalled agent doc T1 then setDocumentStatus agent doc d_stalled T1 else T1))"

definition clearQuarantine :: "string \<Rightarrow> string \<Rightarrow> string \<Rightarrow> DocumentTables \<Rightarrow> DocumentTables" where
  "clearQuarantine agent doc rejected T = snd (releaseQuarantined agent doc rejected T)"

text \<open>\<open>None\<close> when updates are accepted, otherwise the round and the last reason held.\<close>

definition acceptsUpdates :: "string \<Rightarrow> string \<Rightarrow> DocumentTables \<Rightarrow> (nat \<times> string option) option" where
  "acceptsUpdates agent doc T =
     (if isStalled agent doc T
      then Some (roundOf agent doc T, map_option qr_reason (lastOf (listQuarantined agent doc T)))
      else None)"

end
