(* ===== verification/Content_Inbound.thy ===== *)
theory Content_Inbound
  imports Content_Gate Content_Rejections
begin

text \<open>
  \<open>core/daemon/src/document-inbound.ts\<close>: what becomes of an update that arrives. \<open>receive\<close> reads,
  authenticates and authorises it, checks its place in the sender's chain, lets the gate and the
  screener judge it, and records it; and \<open>document-publish.ts\<close>: how an update of one's own is written.
\<close>

section \<open>What the pipeline is given\<close>

datatype standing = s_participant | s_invited | s_removed | s_stranger | s_unknown

text \<open>The world an update's frontier names: participants, invited and how it ended, or what is missing.\<close>

record frontier_world =
  fw_participants :: "string set"
  fw_invited :: "string set"
  fw_ended :: "string option"

record inbound_deps =
  standingOf :: "string \<Rightarrow> string \<Rightarrow> string \<Rightarrow> standing"
  currentHolders :: "string \<Rightarrow> string \<Rightarrow> string list option"
  deriveAtFrontier :: "string \<Rightarrow> string \<Rightarrow> string list \<Rightarrow> frontier_world option"
  in_sign :: "string \<Rightarrow> bytes \<Rightarrow> bytes js"
  screenProjected :: "(string \<Rightarrow> (bool \<times> string option) js) option"
  startingContentFor :: "string \<Rightarrow> string \<Rightarrow> bytes option"
  in_limits :: GateLimits
  in_rules :: "(string \<times> GateRule) list"

record 'd InboundState =
  is_tables :: DocumentTables
  is_live :: "'d live_docs"
  is_recent :: recent

definition SEMANTIC_RULE_ID :: string where "SEMANTIC_RULE_ID = ''document_content_semantic_screen''"

text \<open>
  \<open>InboundResult\<close>: admitted (with \<open>duplicate\<close>), refused content (with the reason and the signed refusal),
  or turned away (the reason, and whether a retry is pointless).
\<close>

datatype InboundResult =
    admitted string bool
  | not_admitted string string "jsval option"
  | turned_away string bool

section \<open>Before the content is looked at\<close>

definition propertyOf :: "DocumentRow \<Rightarrow> string \<Rightarrow> jsval" where
  "propertyOf row k = getProp (dw_properties row) k"

text \<open>Standing: \<open>None\<close> to go on.\<close>

definition refuseSender :: "inbound_deps \<Rightarrow> string \<Rightarrow> DocumentUpdateEnvelope \<Rightarrow> DocumentRow \<Rightarrow> InboundResult option" where
  "refuseSender D owner env doc =
     (let d = du_document_id env; sender = sender_agent_id env;
          removed = (standingOf D owner d sender = s_removed);
          judge = (\<lambda>isParty.
            if \<not> isParty then
              (if removed then Some (turned_away ''document_sender_removed'' True)
               else Some (turned_away ''document_sender_not_peer'' False))
            else if standingOf D owner d owner = s_removed then Some (turned_away ''document_recipient_removed'' True)
            else None) in
      case currentHolders D owner d of
        None \<Rightarrow>
          if removed then Some (turned_away ''document_sender_removed'' True)
          else (case judge (sender = dw_peer doc) of
              Some r \<Rightarrow> Some r
            | None \<Rightarrow>
                if dw_status doc = d_killed then Some (turned_away ''document_killed'' True)
                else if dw_status doc = d_closed then Some (turned_away ''document_closed'' True)
                else None)
      | Some _ \<Rightarrow>
          (case deriveAtFrontier D owner d (governance_parents env) of
             None \<Rightarrow> Some (turned_away ''document_governance_in_flight'' False)
           | Some world \<Rightarrow>
               if fw_ended world \<noteq> None then Some (turned_away ''document_authored_after_ending'' True)
               else judge (sender \<in> fw_participants world)))"

section \<open>Recording\<close>

definition updateRow :: "string \<Rightarrow> DocumentUpdateEnvelope \<Rightarrow> int \<Rightarrow> DocumentEnvelopeRow" where
  "updateRow h env now = \<lparr>er_hash = h, er_document = du_document_id env, er_sender = sender_agent_id env,
     er_prev = doc_prev_hash env, er_signature = du_signature env, er_vector = state_vector env,
     er_payload = Some (du_update env), er_parents = governance_parents env, er_kind = kind_update,
     er_references = None, er_created = now, er_client = Some (sender_client_id env), er_index = 0\<rparr>"

definition boundClientIds :: "string \<Rightarrow> DocumentUpdateEnvelope \<Rightarrow> DocumentTables \<Rightarrow> nat list" where
  "boundClientIds owner env T =
     add_all [] (sender_client_id env # senderClientIdsFor owner (du_document_id env) (sender_agent_id env) T)"

definition gateContext :: "string \<Rightarrow> DocumentUpdateEnvelope \<Rightarrow> DocumentRow \<Rightarrow> DocumentTables \<Rightarrow> GateContext" where
  "gateContext owner env doc T = \<lparr>gc_document = du_document_id env, gc_sender = sender_agent_id env,
     senderClientIds = boundClientIds owner env T, declaredDocumentId = Some (du_document_id env),
     declaredEncoding = Some (update_encoding env), appendOnly = (propertyOf doc ''append_only'' = JBool True),
     contentProfile = (case propertyOf doc ''content_profile'' of JText s \<Rightarrow> Some s | _ \<Rightarrow> None)\<rparr>"

text \<open>The refusal of the content, by the gate or the screener.\<close>

definition refuseContent ::
  "externals \<Rightarrow> inbound_deps \<Rightarrow> string \<Rightarrow> DocumentUpdateEnvelope \<Rightarrow> string \<Rightarrow> int \<Rightarrow> GateQuarantine \<Rightarrow>
   'd InboundState \<Rightarrow> InboundResult js \<times> 'd InboundState" where
  "refuseContent X D owner env h now q S =
     (case reject X (in_sign D) owner (du_document_id env)
          \<lparr>ri_rejected = h, ri_quarantined = du_update env, ri_prev = doc_prev_hash env, ri_reason = gq_reason q,
           ri_detail = gq_detail q, ri_sender = sender_agent_id env, ri_rule = gq_rule q, ri_limit = gq_limit q,
           ri_now = now\<rparr> (is_tables S) of
        (Inl e, T) \<Rightarrow> (Inl e, S\<lparr>is_tables := T\<rparr>)
      | (Inr outcome, T) \<Rightarrow> (Inr (not_admitted h (gq_reason q) (ro_wire outcome)), S\<lparr>is_tables := T\<rparr>))"

definition admitContent ::
  "'d yjs \<Rightarrow> string \<Rightarrow> DocumentUpdateEnvelope \<Rightarrow> string \<Rightarrow> int \<Rightarrow> 'd \<Rightarrow> 'd InboundState \<Rightarrow> InboundResult js \<times> 'd InboundState" where
  "admitContent Y owner env h now live S =
     (case appendEnvelope owner (updateRow h env now) (is_tables S) of
        (Inl e, T) \<Rightarrow> (Inl e, S\<lparr>is_tables := T\<rparr>)
      | (Inr _, T) \<Rightarrow>
          (case applyUpdate Y live (du_update env) of
             Inl e \<Rightarrow> (Inl e, S\<lparr>is_tables := T\<rparr>)
           | Inr live' \<Rightarrow>
               (Inr (admitted h False), S\<lparr>is_live := changeLive owner (du_document_id env) live' (is_live S),
                  is_tables := (case doc_prev_hash env of
                     None \<Rightarrow> T | Some prev \<Rightarrow> clearQuarantine owner (du_document_id env) prev T)\<rparr>)))"

definition judgeContent ::
  "externals \<Rightarrow> 'd yjs \<Rightarrow> 'd yjs_reads \<Rightarrow> inbound_deps \<Rightarrow> string \<Rightarrow> DocumentUpdateEnvelope \<Rightarrow> string \<Rightarrow> DocumentRow \<Rightarrow> int \<Rightarrow>
   'd InboundState \<Rightarrow> InboundResult js \<times> 'd InboundState" where
  "judgeContent X Y R D owner env h doc now S =
     (case openLive Y (startingContentFor D) owner (du_document_id env) (is_tables S) (is_live S) of
        (Inl e, L) \<Rightarrow> (Inl e, S\<lparr>is_live := L\<rparr>)
      | (Inr live, L) \<Rightarrow>
          (case validate Y R (in_limits D) (in_rules D) live (du_update env) (gateContext owner env doc (is_tables S)) now (is_recent S) of
             (quarantine q, recent) \<Rightarrow> refuseContent X D owner env h now q (S\<lparr>is_live := L, is_recent := recent\<rparr>)
           | (admit diff, recent) \<Rightarrow>
               let S1 = S\<lparr>is_live := L, is_recent := recent\<rparr> in
               (case (case screenProjected D of
                   None \<Rightarrow> Inr (False, None)
                 | Some screen \<Rightarrow> if inserted diff = '''' then Inr (False, None) else screen (inserted diff)) of
                  Inl e \<Rightarrow> (Inl e, S1)
                | Inr (True, reason) \<Rightarrow> refuseContent X D owner env h now
                    \<lparr>gq_reason = ''document_content_injection'', gq_detail = reason, gq_limit = None,
                     gq_rule = Some SEMANTIC_RULE_ID\<rparr> S1
                | Inr (False, _) \<Rightarrow> admitContent Y owner env h now live S1)))"

section \<open>An arriving update\<close>

definition receive ::
  "externals \<Rightarrow> 'd yjs \<Rightarrow> 'd yjs_reads \<Rightarrow> inbound_deps \<Rightarrow> string \<Rightarrow> bytes \<Rightarrow> int \<Rightarrow> 'd InboundState \<Rightarrow>
   InboundResult js \<times> 'd InboundState" where
  "receive X Y R D owner wire now S =
     (case rbind (x_uncbor X wire) decodeDocumentUpdateEnvelope of
        Inl e \<Rightarrow> (Inr (turned_away ''document_inbound_malformed'' False), S)
      | Inr env \<Rightarrow>
        let h = documentEnvelopeHash X env; d = du_document_id env; T = is_tables S; sender = sender_agent_id env in
        if \<not> x_verify X sender (buildDocumentUpdateTbs X env True) (du_signature env)
        then (Inr (turned_away ''document_signature_invalid'' False), S)
        else case getDocument owner d T of
          None \<Rightarrow> (Inr (turned_away ''document_unknown'' True), S)
        | Some doc \<Rightarrow>
          (case refuseSender D owner env doc of
             Some r \<Rightarrow> (Inr r, S)
           | None \<Rightarrow>
             if acceptsUpdates owner d T \<noteq> None then (Inr (turned_away ''document_stalled'' False), S)
             else case verifyDocumentChainLink X env (lastEnvelopeHashBySender owner d sender T)
                 (knownEnvelopeHashesBySender owner d sender T) of
               Inl e \<Rightarrow> (Inr (turned_away (messageOf e) (messageOf e = ''document_chain_forked'')), S)
             | Inr True \<Rightarrow> (Inr (admitted h True), S)
             | Inr False \<Rightarrow>
                 (case find (\<lambda>q. qr_rejected q = h) (listQuarantined owner d T) of
                    Some q \<Rightarrow> (Inr (not_admitted h (qr_reason q) None), S)
                  | None \<Rightarrow> judgeContent X Y R D owner env h doc now S)))"

section \<open>Publishing an update of one's own\<close>

datatype PublishResult = published string nat | unpublished string

record publish_deps =
  governanceFrontierFor :: "string \<Rightarrow> string \<Rightarrow> string list option"
  senderIdFor :: "string \<Rightarrow> string option"
  mayPublish :: "string \<Rightarrow> string \<Rightarrow> string option"
  holdersFor :: "string \<Rightarrow> string \<Rightarrow> string list option"
  pb_sign :: "string \<Rightarrow> bytes \<Rightarrow> bytes js"
  pb_client :: nat

text \<open>Up to the signature: a refusal, or the envelope to sign. \<open>content\<close> is the document being published.\<close>

definition publishBegin ::
  "'d yjs \<Rightarrow> publish_deps \<Rightarrow> string \<Rightarrow> string \<Rightarrow> 'd \<Rightarrow> DocumentTables \<Rightarrow> PublishResult + DocumentUpdateEnvelope" where
  "publishBegin Y P owner doc content T =
     (case getDocument owner doc T of
        None \<Rightarrow> Inl (unpublished ''document_unknown'')
      | Some row \<Rightarrow>
        (case mayPublish P owner doc of
           Some reason \<Rightarrow> Inl (unpublished reason)
         | None \<Rightarrow>
           (case senderIdFor P owner of
              None \<Rightarrow> Inl (unpublished ''document_publish_no_identity'')
            | Some sender \<Rightarrow>
              let update = (case peerStateVector owner doc (dw_peer row) T of
                    None \<Rightarrow> y_state Y content | Some v \<Rightarrow> y_diff Y content v) in
              if lastPublishedStateVector owner doc sender T = Some (y_vector Y content) \<or> update = []
              then Inl (unpublished ''document_nothing_to_publish'')
              else (case governanceFrontierFor P owner doc of
                 None \<Rightarrow> Inl (unpublished ''document_frontier_underivable'')
               | Some frontier \<Rightarrow>
                   if holdersFor P owner doc = None then Inl (unpublished ''document_chain_invalid'')
                   else Inr \<lparr>du_document_id = doc, doc_prev_hash = lastEnvelopeHashBySender owner doc sender T,
                     sender_agent_id = sender, sender_client_id = pb_client P,
                     update_encoding = DOCUMENT_UPDATE_ENCODING_V1, state_vector = y_vector Y content,
                     du_update = update, governance_parents = sort frontier, du_signature = []\<rparr>))))"

text \<open>From the signature on.\<close>

definition publishEnd ::
  "externals \<Rightarrow> string \<Rightarrow> DocumentUpdateEnvelope \<Rightarrow> int \<Rightarrow> DocumentTables \<Rightarrow> PublishResult js \<times> DocumentTables" where
  "publishEnd X owner env now T =
     (let h = documentEnvelopeHash X env in
      case appendEnvelope owner (updateRow h env now) T of
        (Inl e, T1) \<Rightarrow> (Inl e, T1)
      | (Inr False, T1) \<Rightarrow> (Inr (unpublished ''document_already_published''), T1)
      | (Inr True, T1) \<Rightarrow> (Inr (published h (length (du_update env))), T1))"

definition publish ::
  "externals \<Rightarrow> 'd yjs \<Rightarrow> publish_deps \<Rightarrow> string \<Rightarrow> string \<Rightarrow> 'd \<Rightarrow> int \<Rightarrow> DocumentTables \<Rightarrow> PublishResult js \<times> DocumentTables" where
  "publish X Y P owner doc content now T =
     (case publishBegin Y P owner doc content T of
        Inl r \<Rightarrow> (Inr r, T)
      | Inr env \<Rightarrow>
          (case pb_sign P owner (buildDocumentUpdateTbs X env True) of
             Inl e \<Rightarrow> (Inl e, T)
           | Inr sig \<Rightarrow> publishEnd X owner (env\<lparr>du_signature := sig\<rparr>) now T))"

end
