(* ===== verification/Content_Samples.thy ===== *)
theory Content_Samples
  imports Content_Inbound
begin

text \<open>
  A small instance for the witnesses: content is the list of the updates applied, a peer's updates are
  numbered and each follows the one before, the hash repeats the number.
\<close>

definition sample_doc :: string where "sample_doc = bytesToHex (replicate 32 0xdd)"

definition sample_hash :: "8 word \<Rightarrow> string" where "sample_hash n = bytesToHex (replicate 32 n)"

definition sample_update :: "string \<Rightarrow> 8 word \<Rightarrow> DocumentUpdateEnvelope" where
  "sample_update sender n = \<lparr>du_document_id = sample_doc, doc_prev_hash = (if n = 1 then None else Some (sample_hash (n - 1))),
     sender_agent_id = sender, sender_client_id = 7, update_encoding = DOCUMENT_UPDATE_ENCODING_V1, state_vector = [0],
     du_update = [n, n], governance_parents = [], du_signature = [1]\<rparr>"

fun update_cbor :: "jsval \<Rightarrow> bytes" where
  "update_cbor (JArray (a # b # c # d # e # f # g # JBytes u # r)) = u"
| "update_cbor _ = [9]"

definition peer_X :: externals where
  "peer_X = \<lparr>x_sha = (\<lambda>d. replicate 32 (hd d)), x_cbor = update_cbor,
     x_uncbor = (\<lambda>b. Inr (encodeDocumentUpdateEnvelope (sample_update ''peer'' (hd b)))), x_verify = (\<lambda>_ _ _. True)\<rparr>"

definition sample_Y :: "bytes list yjs" where
  "sample_Y = \<lparr>y_new = [], y_apply = (\<lambda>d u. Inr (d @ [u])), y_missing = (\<lambda>_. None), y_pendingDs = (\<lambda>_. False),
     y_state = concat, y_diff = (\<lambda>d v. concat d), y_vector = (\<lambda>_. [0])\<rparr>"

definition sample_R :: "bytes list yjs_reads" where
  "sample_R = \<lparr>y_text = (\<lambda>_. Inr ''''), y_data = (\<lambda>_. Inr []), y_clocks = (\<lambda>_. [(7, 1)]), y_canonical = Inr,
     y_structs = (\<lambda>_. Inr []), y_deleted = (\<lambda>_. Inr []), y_roots = (\<lambda>_. []), js_text = (\<lambda>_. '''')\<rparr>"

definition sample_D :: inbound_deps where
  "sample_D = \<lparr>standingOf = (\<lambda>_ _ _. s_participant), currentHolders = (\<lambda>_ _. None), deriveAtFrontier = (\<lambda>_ _ _. None),
     in_sign = (\<lambda>_ _. Inr [1]), screenProjected = None, startingContentFor = (\<lambda>_ _. None),
     in_limits = DEFAULT_GATE_LIMITS, in_rules = []\<rparr>"

definition sample_row :: DocumentRow where
  "sample_row = \<lparr>dw_document = sample_doc, dw_owner = ''owner'', dw_peer = ''peer'', dw_type = ''text'', dw_properties = [],
     dw_status = d_active, dw_created = 0\<rparr>"

definition sample_refusal :: QuarantineRow where
  "sample_refusal = \<lparr>qr_document = sample_doc, qr_rejection = ''r'', qr_rejected = sample_hash 1, qr_sender = ''peer'', qr_prev = None,
     qr_payload = [1, 1], qr_reason = ''document_too_large'', qr_detail = None, qr_rule = None, qr_limit = None,
     qr_wire = None, qr_created = 5\<rparr>"

definition sample_state :: "QuarantineRow list \<Rightarrow> bytes list InboundState" where
  "sample_state qs = \<lparr>is_tables = emptyDocumentTables\<lparr>documents := [sample_row],
       document_quarantine := map (Pair ''owner'') qs\<rparr>, is_live = [], is_recent = []\<rparr>"

lemma sample_hash_HEX32 [simp]: "HEX32 (sample_hash n)" "HEX32 sample_doc"
  by (simp_all add: sample_hash_def sample_doc_def)

lemma sample_hash_inj [simp]: "sample_hash m = sample_hash n \<longleftrightarrow> m = n"
  by (simp add: sample_hash_def bytesToHex_inj)

lemma sample_hash_nonempty [simp]: "sample_hash n \<noteq> ''''"
  using sample_hash_HEX32(1) [of n] by (auto simp: HEX32_def simp del: sample_hash_HEX32)

lemma sample_update_fields [simp]:
  "du_document_id (sample_update s n) = sample_doc" "sender_agent_id (sample_update s n) = s"
  "doc_prev_hash (sample_update s n) = (if n = 1 then None else Some (sample_hash (n - 1)))"
  "governance_parents (sample_update s n) = []" "du_update (sample_update s n) = [n, n]"
  "sender_client_id (sample_update s n) = 7" "update_encoding (sample_update s n) = DOCUMENT_UPDATE_ENCODING_V1"
  "du_signature (sample_update s n) = [1]" "state_vector (sample_update s n) = [0]"
  by (simp_all add: sample_update_def)

lemma sample_update_hash [simp]: "documentEnvelopeHash peer_X (sample_update s n) = sample_hash n"
  by (simp add: documentEnvelopeHash_def buildDocumentUpdateTbs_def peer_X_def updatePreimage_def sample_update_def sample_hash_def)

lemma sample_update_read [simp]:
  "rbind (x_uncbor peer_X b) decodeDocumentUpdateEnvelope = Inr (sample_update ''peer'' (hd b))"
proof -
  have "update_wf (sample_update ''peer'' (hd b))" by (simp add: update_wf_def)
  from update_frame.encode_returns [OF this] show ?thesis by (simp add: peer_X_def)
qed

lemma sample_verify [simp]: "x_verify peer_X a b c"
  by (simp add: peer_X_def)

lemma sample_document [simp]: "getDocument ''owner'' sample_doc (is_tables (sample_state qs)) = Some sample_row"
  by (simp add: getDocument_def sample_state_def sample_row_def)

lemma sample_log [simp]: "getEnvelopeLog ''owner'' sample_doc (is_tables (sample_state qs)) = []"
  by (simp add: getEnvelopeLog_def sample_state_def emptyDocumentTables_def)

lemma sample_quarantine [simp]:
  "\<forall>q \<in> set qs. qr_document q = sample_doc \<Longrightarrow> quarantineOf ''owner'' sample_doc (is_tables (sample_state qs)) = qs"
  by (induction qs) (simp_all add: quarantineOf_def sample_state_def)

lemma sample_sender [simp]: "refuseSender sample_D ''owner'' (sample_update ''peer'' n) sample_row = None"
  by (simp add: refuseSender_def sample_D_def Let_def sample_row_def)

lemma sample_open: "\<not> isStalled ''owner'' sample_doc (is_tables (sample_state qs))"
  by (simp add: isStalled_def) (simp add: sample_row_def)

end
