(* ===== verification/Content_Claims.thy ===== *)
theory Content_Claims
  imports Content_Samples
begin

text \<open>What the content log and the pipeline that fills it guarantee, and where they fail.\<close>

section \<open>The tables\<close>

lemma insort_snoc: "f y \<le> f x \<Longrightarrow> insort_key f y (zs @ [x]) = insort_key f y zs @ [x]"
  by (induction zs) auto

lemma sort_key_snoc: "(\<forall>y \<in> set xs. f y \<le> f x) \<Longrightarrow> sort_key f (xs @ [x]) = sort_key f xs @ [x]"
  by (induction xs) (simp_all add: insort_snoc)

lemma log_set: "set (getEnvelopeLog owner doc T) = {r. (owner, r) \<in> set (document_envelopes T) \<and> er_document r = doc}"
  by (force simp: getEnvelopeLog_def)

lemma nextIndex_above: "r \<in> set (getEnvelopeLog owner doc T) \<Longrightarrow> er_index r < nextIndex owner doc T"
  by (auto simp: nextIndex_def split: list.splits)

lemma notNull_simps [simp]: "notNull \<noteq> Inr x" "notNull = Inl e \<longleftrightarrow> e = Error ''NOT NULL constraint failed''"
  by (auto simp: notNull_def)

lemma storedRow_simps [simp]:
  "er_document (storedRow row) = er_document row" "er_hash (storedRow row) = er_hash row" "er_sender (storedRow row) = er_sender row"
  "er_prev (storedRow row) = er_prev row" "er_kind (storedRow row) = er_kind row" "er_references (storedRow row) = er_references row"
  "er_payload row \<noteq> Some [] \<Longrightarrow> storedRow row = row"
  by (simp_all add: storedRow_def)

lemma log_append:
  assumes "appendEnvelope owner row T = (Inr True, T')"
  shows "getEnvelopeLog owner (er_document row) T' =
      getEnvelopeLog owner (er_document row) T @ [(storedRow row)\<lparr>er_index := nextIndex owner (er_document row) T\<rparr>]"
    "(o', d') \<noteq> (owner, er_document row) \<Longrightarrow> getEnvelopeLog o' d' T' = getEnvelopeLog o' d' T"
    "document_quarantine T' = document_quarantine T" "documents T' = documents T"
proof -
  let ?r = "(storedRow row)\<lparr>er_index := nextIndex owner (er_document row) T\<rparr>"
  have T': "T' = T\<lparr>document_envelopes := document_envelopes T @ [(owner, ?r)]\<rparr>"
    using assms by (auto simp: appendEnvelope_def split: if_splits)
  let ?rows = "map snd (filter (\<lambda>(o', r). o' = owner \<and> er_document r = er_document row) (document_envelopes T))"
  have "\<forall>r \<in> set ?rows. er_index r \<le> er_index ?r"
    using nextIndex_above [of _ owner "er_document row" T] by (fastforce simp: getEnvelopeLog_def)
  then show "getEnvelopeLog owner (er_document row) T' = getEnvelopeLog owner (er_document row) T @ [?r]"
    by (simp add: getEnvelopeLog_def T' sort_key_snoc)
  show "(o', d') \<noteq> (owner, er_document row) \<Longrightarrow> getEnvelopeLog o' d' T' = getEnvelopeLog o' d' T"
    by (auto simp: getEnvelopeLog_def T')
  show "document_quarantine T' = document_quarantine T" "documents T' = documents T" by (simp_all add: T')
qed

lemma append_cases:
  obtains (written) T' where "appendEnvelope owner row T = (Inr True, T')"
  | (known) "appendEnvelope owner row T = (Inr False, T)" "er_hash row \<in> er_hash ` set (getEnvelopeLog owner (er_document row) T)"
  | (failed) e where "appendEnvelope owner row T = (Inl e, T)"
proof -
  obtain r T' where ap: "appendEnvelope owner row T = (r, T')" by fastforce
  show thesis
  proof (cases r)
    case (Inl e)
    have "T' = T" using ap Inl by (auto simp: appendEnvelope_def split: if_splits)
    then show thesis using ap Inl by (intro failed) simp
  next
    case (Inr b)
    show thesis
    proof (cases b)
      case True
      then show thesis using ap Inr by (intro written) simp
    next
      case False
      then have "T' = T" "\<exists>r \<in> set (getEnvelopeLog owner (er_document row) T). er_hash r = er_hash row"
        using ap Inr by (auto simp: appendEnvelope_def split: if_splits)
      then show thesis using ap Inr False by (intro known) (simp_all, metis image_eqI)
    qed
  qed
qed

lemma append_returns:
  assumes "er_kind row = kind_update \<or> er_payload row = None" and "getDocument owner (er_document row) T \<noteq> None"
    and "er_signature row \<noteq> []" and "er_vector row \<noteq> []" and "er_hash row \<notin> er_hash ` set (getEnvelopeLog owner (er_document row) T)"
  shows "\<exists>T'. appendEnvelope owner row T = (Inr True, T')"
  using assms by (auto simp: appendEnvelope_def storedRow_def image_iff dest: sym)

lemma clear_log [simp]:
  "getEnvelopeLog o' d' (clearQuarantine owner doc p T) = getEnvelopeLog o' d' T"
  "documents (clearQuarantine owner doc p T) = documents T"
  by (simp_all add: clearQuarantine_def releaseQuarantined_def getEnvelopeLog_def)

lemma clear_quarantine:
  "quarantineOf owner doc (clearQuarantine owner doc p T) = filter (\<lambda>q. qr_rejected q \<noteq> p) (quarantineOf owner doc T)"
proof -
  have "map snd (filter (\<lambda>(o', r). o' = owner \<and> qr_document r = doc)
      (filter (\<lambda>(o', r). \<not> (o' = owner \<and> qr_document r = doc \<and> qr_rejected r = p)) rows)) =
    filter (\<lambda>q. qr_rejected q \<noteq> p) (map snd (filter (\<lambda>(o', r). o' = owner \<and> qr_document r = doc) rows))"
    for rows :: "(string \<times> QuarantineRow) list"
    by (induction rows) auto
  then show ?thesis by (simp add: quarantineOf_def clearQuarantine_def releaseQuarantined_def)
qed

lemma getDocument_cong: "documents T' = documents T \<Longrightarrow> getDocument owner doc T' = getDocument owner doc T"
  by (simp add: getDocument_def)

lemma quarantineOf_cong: "document_quarantine T' = document_quarantine T \<Longrightarrow> quarantineOf owner doc T' = quarantineOf owner doc T"
  by (simp add: quarantineOf_def)

lemma set_listQuarantined [simp]: "set (listQuarantined owner doc T) = set (quarantineOf owner doc T)"
  by (simp add: listQuarantined_def)

section \<open>The rows of a chain\<close>

lemma firstOfHash_set: "er_hash ` set (firstOfHash seen rs) = er_hash ` set rs - set seen" and
  firstOfHash_sub: "set (firstOfHash seen rs) \<subseteq> set rs"
  by (induction seen rs rule: firstOfHash.induct) auto

lemma chainRows_hashes:
  "er_hash ` set (chainRows owner doc T) = qr_rejected ` set (quarantineOf owner doc T) \<union> er_hash ` set (getEnvelopeLog owner doc T)"
  by (simp add: chainRows_def image_Un firstOfHash_set image_image stubOf_def)

lemma chainRows_cases:
  assumes "r \<in> set (chainRows owner doc T)"
  shows "r \<in> stubOf ` set (quarantineOf owner doc T) \<or> r \<in> set (getEnvelopeLog owner doc T)"
  using assms firstOfHash_sub by (fastforce simp: chainRows_def)

lemma log_in_chain: "r \<in> set (getEnvelopeLog owner doc T) \<Longrightarrow> r \<in> set (chainRows owner doc T)"
  by (simp add: chainRows_def)

text \<open>The rows of one chain name each other.\<close>

lemma broken_if_prev_missing:
  assumes "r \<in> set (chainRows owner doc T)" and "er_prev r = Some p" and "p \<notin> er_hash ` set (chainRows owner doc T)"
  shows "verifyChainLinkage owner doc T \<noteq> chain_ok"
proof
  let ?rows = "filter (\<lambda>e. er_sender e = er_sender r) (chainRows owner doc T)"
  assume "verifyChainLinkage owner doc T = chain_ok"
  then have "?rows = [] \<or> one_chain ?rows" unfolding linkage_ok by blast
  moreover have "r \<in> set ?rows" using assms(1) by simp
  ultimately have "one_chain ?rows" by (auto simp: filter_empty_conv)
  then obtain es where es: "mset es = mset ?rows" "linked None es" by (auto simp: one_chain_def)
  then have "set es = set ?rows" by (metis mset_eq_setD)
  with linked_prev_in [OF es(2), of r p] \<open>r \<in> set ?rows\<close> assms(2) have "p \<in> er_hash ` set ?rows" by auto
  then show False using assms(3) by auto
qed

lemma unopenable:
  assumes "verifyChainLinkage owner doc T \<noteq> chain_ok"
  shows "\<exists>reason. rebuildSnapshot owner doc f T = Inl (Error reason)"
    "map_of L (owner, doc) = None \<Longrightarrow> \<exists>reason. openLive Y starting owner doc T L = (Inl (Error reason), L)"
  using assms by (cases "verifyChainLinkage owner doc T"; simp add: rebuildSnapshot_def openLive_def)+

section \<open>The pipeline\<close>

text \<open>An update is refused for its content, or judged, only after everything before has passed.\<close>

definition passed ::
  "externals \<Rightarrow> inbound_deps \<Rightarrow> string \<Rightarrow> bytes \<Rightarrow> 'd InboundState \<Rightarrow> DocumentUpdateEnvelope \<Rightarrow> DocumentRow \<Rightarrow> bool" where
  "passed X D owner wire S env doc \<longleftrightarrow>
     rbind (x_uncbor X wire) decodeDocumentUpdateEnvelope = Inr env \<and>
     x_verify X (sender_agent_id env) (buildDocumentUpdateTbs X env True) (du_signature env) \<and>
     getDocument owner (du_document_id env) (is_tables S) = Some doc \<and>
     refuseSender D owner env doc = None \<and> \<not> isStalled owner (du_document_id env) (is_tables S)"

lemma receive_passed:
  assumes "passed X D owner wire S env doc"
  shows "receive X Y R D owner wire now S =
    (case verifyDocumentChainLink X env (lastEnvelopeHashBySender owner (du_document_id env) (sender_agent_id env) (is_tables S))
        (knownEnvelopeHashesBySender owner (du_document_id env) (sender_agent_id env) (is_tables S)) of
       Inl e \<Rightarrow> (Inr (turned_away (messageOf e) (messageOf e = ''document_chain_forked'')), S)
     | Inr True \<Rightarrow> (Inr (admitted (documentEnvelopeHash X env) True), S)
     | Inr False \<Rightarrow>
         (case find (\<lambda>q. qr_rejected q = documentEnvelopeHash X env) (listQuarantined owner (du_document_id env) (is_tables S)) of
            Some q \<Rightarrow> (Inr (not_admitted (documentEnvelopeHash X env) (qr_reason q) None), S)
          | None \<Rightarrow> judgeContent X Y R D owner env (documentEnvelopeHash X env) doc now S))"
  using assms by (simp add: passed_def receive_def Let_def acceptsUpdates_def)

lemma refuseSender_turned: "refuseSender D owner env doc = Some r \<Longrightarrow> \<exists>reason terminal. r = turned_away reason terminal"
  by (auto simp: refuseSender_def Let_def split: if_splits option.splits)

lemma receive_cases:
  obtains (early) reason terminal where "receive X Y R D owner wire now S = (Inr (turned_away reason terminal), S)"
  | (duplicate) env doc where "passed X D owner wire S env doc"
      "receive X Y R D owner wire now S = (Inr (admitted (documentEnvelopeHash X env) True), S)"
  | (again) env doc q where "passed X D owner wire S env doc" "q \<in> set (quarantineOf owner (du_document_id env) (is_tables S))"
      "qr_rejected q = documentEnvelopeHash X env"
      "receive X Y R D owner wire now S = (Inr (not_admitted (documentEnvelopeHash X env) (qr_reason q) None), S)"
  | (judged) env doc where "passed X D owner wire S env doc"
      "verifyDocumentChainLink X env (lastEnvelopeHashBySender owner (du_document_id env) (sender_agent_id env) (is_tables S))
        (knownEnvelopeHashesBySender owner (du_document_id env) (sender_agent_id env) (is_tables S)) = Inr False"
      "documentEnvelopeHash X env \<notin> qr_rejected ` set (quarantineOf owner (du_document_id env) (is_tables S))"
      "receive X Y R D owner wire now S = judgeContent X Y R D owner env (documentEnvelopeHash X env) doc now S"
proof (cases "\<exists>env doc. passed X D owner wire S env doc")
  case True
  then obtain env doc where p: "passed X D owner wire S env doc" by blast
  note r = receive_passed [OF p, of Y R now]
  let ?link = "verifyDocumentChainLink X env (lastEnvelopeHashBySender owner (du_document_id env) (sender_agent_id env) (is_tables S))
        (knownEnvelopeHashesBySender owner (du_document_id env) (sender_agent_id env) (is_tables S))"
  let ?f = "find (\<lambda>q. qr_rejected q = documentEnvelopeHash X env) (listQuarantined owner (du_document_id env) (is_tables S))"
  show thesis
  proof (cases ?link)
    case (Inl e)
    then show thesis using r by (intro early) simp
  next
    case link: (Inr b)
    show thesis
    proof (cases b)
      case True
      then show thesis using p r link by (intro duplicate) simp_all
    next
      case False
      show thesis
      proof (cases ?f)
        case None
        then have "documentEnvelopeHash X env \<notin> qr_rejected ` set (quarantineOf owner (du_document_id env) (is_tables S))"
          by (auto simp: find_None_iff)
        then show thesis using p r link False None by (intro judged) simp_all
      next
        case (Some q)
        then have "q \<in> set (quarantineOf owner (du_document_id env) (is_tables S))" "qr_rejected q = documentEnvelopeHash X env"
          by (auto simp: find_Some_iff) (metis nth_mem set_listQuarantined)
        then show thesis using p r link False Some by (intro again) simp_all
      qed
    qed
  qed
next
  case False
  then have "\<exists>reason terminal. receive X Y R D owner wire now S = (Inr (turned_away reason terminal), S)"
    by (auto simp: passed_def receive_def Let_def acceptsUpdates_def split: sum.split option.split dest: refuseSender_turned)
  then show thesis using early by blast
qed


lemma judge_cases:
  obtains (failed) e S1 where "judgeContent X Y R D owner env h doc now S = (Inl e, S1)" "is_tables S1 = is_tables S"
  | (refused) q S1 where "judgeContent X Y R D owner env h doc now S = refuseContent X D owner env h now q S1"
      "is_tables S1 = is_tables S"
  | (content) live L diff recent where
      "openLive Y (startingContentFor D) owner (du_document_id env) (is_tables S) (is_live S) = (Inr live, L)"
      "validate Y R (in_limits D) (in_rules D) live (du_update env) (gateContext owner env doc (is_tables S)) now (is_recent S) =
        (admit diff, recent)"
      "judgeContent X Y R D owner env h doc now S = admitContent Y owner env h now live (S\<lparr>is_live := L, is_recent := recent\<rparr>)"
proof -
  obtain live L where o: "openLive Y (startingContentFor D) owner (du_document_id env) (is_tables S) (is_live S) = (live, L)" by fastforce
  show thesis
  proof (cases live)
    case (Inl e)
    then have "judgeContent X Y R D owner env h doc now S = (Inl e, S\<lparr>is_live := L\<rparr>)" by (simp add: judgeContent_def o)
    then show thesis by (rule failed) simp
  next
    case live: (Inr d)
    obtain v recent where v: "validate Y R (in_limits D) (in_rules D) d (du_update env) (gateContext owner env doc (is_tables S)) now
        (is_recent S) = (v, recent)" by fastforce
    let ?S1 = "S\<lparr>is_live := L, is_recent := recent\<rparr>"
    show thesis
    proof (cases v)
      case (quarantine q)
      then have "judgeContent X Y R D owner env h doc now S = refuseContent X D owner env h now q ?S1"
        by (simp add: judgeContent_def o live v)
      then show thesis by (rule refused) simp
    next
      case (admit diff)
      let ?screen = "case screenProjected D of None \<Rightarrow> Inr (False, None)
        | Some screen \<Rightarrow> if inserted diff = '''' then Inr (False, None) else screen (inserted diff)"
      consider e where "?screen = Inl e" | reason where "?screen = Inr (True, reason)" | reason where "?screen = Inr (False, reason)"
        by (cases ?screen; metis (full_types) old.prod.exhaust)
      then show thesis
      proof cases
        case (1 e)
        then have "judgeContent X Y R D owner env h doc now S = (Inl e, ?S1)" by (simp add: judgeContent_def o live v admit)
        then show thesis by (rule failed) simp
      next
        case (2 reason)
        then show thesis by (intro refused [of _ ?S1]) (simp_all add: judgeContent_def o live v admit)
      next
        case (3 reason)
        then show thesis using o v live admit by (intro content [of d L diff recent]) (simp_all add: judgeContent_def)
      qed
    qed
  qed
qed

lemma refuse_not_admitted: "fst (refuseContent X D owner env h now q S) \<noteq> Inr (admitted g b)"
  by (auto simp: refuseContent_def split: sum.splits prod.splits)

lemma link_new:
  assumes "verifyDocumentChainLink X env hd_hash known = Inr False"
  shows "documentEnvelopeHash X env \<notin> set known" "doc_prev_hash env = hd_hash"
    "doc_prev_hash env = Some p \<Longrightarrow> p \<in> set known"
  using assms by (auto simp: verifyDocumentChainLink_def split: if_splits option.splits)

lemma admit_result:
  assumes "admitContent Y owner env h now live S1 = (Inr r, S')"
  shows "r = admitted h False"
    "getEnvelopeLog owner (du_document_id env) (is_tables S') =
       (if h \<in> er_hash ` set (getEnvelopeLog owner (du_document_id env) (is_tables S1))
        then getEnvelopeLog owner (du_document_id env) (is_tables S1)
        else getEnvelopeLog owner (du_document_id env) (is_tables S1) @
          [updateRow h env now\<lparr>er_index := nextIndex owner (du_document_id env) (is_tables S1)\<rparr>])"
    "quarantineOf owner (du_document_id env) (is_tables S') =
       filter (\<lambda>q. doc_prev_hash env \<noteq> Some (qr_rejected q)) (quarantineOf owner (du_document_id env) (is_tables S1))"
    "documents (is_tables S') = documents (is_tables S1)"
proof -
  let ?row = "updateRow h env now" and ?d = "du_document_id env" and ?T = "is_tables S1"
  have row [simp]: "er_document ?row = ?d" "er_hash ?row = h" by (simp_all add: updateRow_def)
  obtain b T1 where ap: "appendEnvelope owner ?row ?T = (Inr b, T1)"
    using assms by (auto simp: admitContent_def split: sum.splits prod.splits)
  obtain live' where live: "applyUpdate Y live (du_update env) = Inr live'"
    using assms ap by (cases "applyUpdate Y live (du_update env)") (auto simp: admitContent_def)
  have S': "r = admitted h False" "is_tables S' = (case doc_prev_hash env of None \<Rightarrow> T1 | Some prev \<Rightarrow> clearQuarantine owner ?d prev T1)"
    using assms ap live by (auto simp: admitContent_def)
  show "r = admitted h False" by (rule S')
  have T1: "getEnvelopeLog owner ?d T1 = (if h \<in> er_hash ` set (getEnvelopeLog owner ?d ?T)
        then getEnvelopeLog owner ?d ?T
        else getEnvelopeLog owner ?d ?T @ [?row\<lparr>er_index := nextIndex owner ?d ?T\<rparr>])" (is ?log)
    "document_quarantine T1 = document_quarantine ?T" (is ?q) "documents T1 = documents ?T" (is ?docs)
  proof -
    have "?log \<and> ?q \<and> ?docs"
    proof (cases owner ?row ?T rule: append_cases)
      case (written T')
      then have "h \<notin> er_hash ` set (getEnvelopeLog owner (du_document_id env) ?T)"
        by (auto simp: appendEnvelope_def split: if_splits)
      moreover have "storedRow ?row = ?row" using live by (intro storedRow_simps) (auto simp: applyUpdate_def MIN_UPDATE_BYTES_def updateRow_def)
      ultimately show ?thesis using written ap log_append [OF written] by simp
    next
      case known
      then show ?thesis using ap by simp
    next
      case (failed e)
      then show ?thesis using ap by simp
    qed
    then show ?log ?q ?docs by blast+
  qed
  show "getEnvelopeLog owner ?d (is_tables S') = (if h \<in> er_hash ` set (getEnvelopeLog owner ?d ?T)
      then getEnvelopeLog owner ?d ?T else getEnvelopeLog owner ?d ?T @ [?row\<lparr>er_index := nextIndex owner ?d ?T\<rparr>])"
    using T1(1) by (simp add: S'(2) split: option.splits)
  have q: "quarantineOf owner ?d T1 = quarantineOf owner ?d ?T" using T1(2) by (rule quarantineOf_cong)
  show "quarantineOf owner ?d (is_tables S') = filter (\<lambda>q. doc_prev_hash env \<noteq> Some (qr_rejected q)) (quarantineOf owner ?d ?T)"
    by (cases "doc_prev_hash env") (auto simp: S'(2) clear_quarantine q intro: filter_cong)
  show "documents (is_tables S') = documents ?T" using T1(3) by (simp add: S'(2) split: option.splits)
qed

text \<open>An update that was newly admitted passed every stage.\<close>

lemma admitted_judged:
  assumes "receive X Y R D owner wire now S = (Inr (admitted h False), S')"
  obtains env doc live L diff recent where "passed X D owner wire S env doc" "h = documentEnvelopeHash X env"
    "verifyDocumentChainLink X env (lastEnvelopeHashBySender owner (du_document_id env) (sender_agent_id env) (is_tables S))
        (knownEnvelopeHashesBySender owner (du_document_id env) (sender_agent_id env) (is_tables S)) = Inr False"
    "documentEnvelopeHash X env \<notin> qr_rejected ` set (quarantineOf owner (du_document_id env) (is_tables S))"
    "openLive Y (startingContentFor D) owner (du_document_id env) (is_tables S) (is_live S) = (Inr live, L)"
    "validate Y R (in_limits D) (in_rules D) live (du_update env) (gateContext owner env doc (is_tables S)) now (is_recent S) =
        (admit diff, recent)"
    "admitContent Y owner env h now live (S\<lparr>is_live := L, is_recent := recent\<rparr>) = (Inr (admitted h False), S')"
proof (cases X Y R D owner wire now S rule: receive_cases)
  case (judged env doc)
  note j = judged
  show thesis
  proof (cases X Y R D owner env "documentEnvelopeHash X env" doc now S rule: judge_cases)
    case (failed e S1)
    then show thesis using assms j by simp
  next
    case (refused q S1)
    then have "fst (refuseContent X D owner env (documentEnvelopeHash X env) now q S1) = Inr (admitted h False)" using assms j by simp
    then show thesis using refuse_not_admitted by blast
  next
    case (content live L diff recent)
    have ac: "admitContent Y owner env (documentEnvelopeHash X env) now live (S\<lparr>is_live := L, is_recent := recent\<rparr>) =
        (Inr (admitted h False), S')" using content(3) assms j(4) by simp
    from admit_result(1) [OF this] have h: "h = documentEnvelopeHash X env" by simp
    show thesis by (rule that [OF j(1) h j(2,3) content(1,2) ac [folded h]])
  qed
qed (use assms in simp_all)

section \<open>What is admitted\<close>

lemma refuseSender_None:
  assumes "refuseSender D owner env doc = None"
  shows "standingOf D owner (du_document_id env) owner \<noteq> s_removed"
    "currentHolders D owner (du_document_id env) = None \<Longrightarrow> sender_agent_id env = dw_peer doc \<and> dw_status doc \<notin> {d_killed, d_closed}"
    "currentHolders D owner (du_document_id env) = Some hs \<Longrightarrow>
       \<exists>world. deriveAtFrontier D owner (du_document_id env) (governance_parents env) = Some world \<and> fw_ended world = None \<and>
         sender_agent_id env \<in> fw_participants world"
  using assms by (auto simp: refuseSender_def Let_def split: if_splits option.splits)

text \<open>C8: What an admitted update has been through. A holder that newly admits an update has checked the
  sender's signature over exactly these bytes; the sender is a participant of the document in the
  governance state the update itself names, and there the document has not ended (or, for a document
  without a derivable history, the sender is its one peer and it is still open); the owner is not
  removed and the document is not stalled; the update follows the last one of its sender; the gate
  passed it against the document as opened here. Exactly one row is added to the log, the update's,
  unless its hash is already there.\<close>

theorem admitted_content_is_authorised:
  assumes "receive X Y R D owner wire now S = (Inr (admitted h False), S')"
  shows "\<exists>env doc. rbind (x_uncbor X wire) decodeDocumentUpdateEnvelope = Inr env \<and> h = documentEnvelopeHash X env \<and>
    x_verify X (sender_agent_id env) (buildDocumentUpdateTbs X env True) (du_signature env) \<and>
    getDocument owner (du_document_id env) (is_tables S) = Some doc \<and> dw_status doc \<noteq> d_stalled \<and>
    (case currentHolders D owner (du_document_id env) of
       None \<Rightarrow> sender_agent_id env = dw_peer doc \<and> dw_status doc \<notin> {d_killed, d_closed}
     | Some _ \<Rightarrow> \<exists>world. deriveAtFrontier D owner (du_document_id env) (governance_parents env) = Some world \<and>
         fw_ended world = None \<and> sender_agent_id env \<in> fw_participants world) \<and>
    standingOf D owner (du_document_id env) owner \<noteq> s_removed \<and>
    doc_prev_hash env = lastEnvelopeHashBySender owner (du_document_id env) (sender_agent_id env) (is_tables S) \<and>
    (\<exists>live diff. fst (openLive Y (startingContentFor D) owner (du_document_id env) (is_tables S) (is_live S)) = Inr live \<and>
      fst (validate Y R (in_limits D) (in_rules D) live (du_update env) (gateContext owner env doc (is_tables S)) now (is_recent S)) =
        admit diff) \<and>
    getEnvelopeLog owner (du_document_id env) (is_tables S') =
      (if h \<in> er_hash ` set (getEnvelopeLog owner (du_document_id env) (is_tables S))
       then getEnvelopeLog owner (du_document_id env) (is_tables S)
       else getEnvelopeLog owner (du_document_id env) (is_tables S) @
         [updateRow h env now\<lparr>er_index := nextIndex owner (du_document_id env) (is_tables S)\<rparr>])"
proof (rule admitted_judged [OF assms])
  fix env doc live L diff recent
  assume p: "passed X D owner wire S env doc" and h: "h = documentEnvelopeHash X env"
    and link: "verifyDocumentChainLink X env (lastEnvelopeHashBySender owner (du_document_id env) (sender_agent_id env) (is_tables S))
        (knownEnvelopeHashesBySender owner (du_document_id env) (sender_agent_id env) (is_tables S)) = Inr False"
    and o: "openLive Y (startingContentFor D) owner (du_document_id env) (is_tables S) (is_live S) = (Inr live, L)"
    and v: "validate Y R (in_limits D) (in_rules D) live (du_update env) (gateContext owner env doc (is_tables S)) now (is_recent S) =
        (admit diff, recent)"
    and a: "admitContent Y owner env h now live (S\<lparr>is_live := L, is_recent := recent\<rparr>) = (Inr (admitted h False), S')"
  have s: "refuseSender D owner env doc = None" "dw_status doc \<noteq> d_stalled" using p by (auto simp: passed_def isStalled_def)
  have "case currentHolders D owner (du_document_id env) of
       None \<Rightarrow> sender_agent_id env = dw_peer doc \<and> dw_status doc \<notin> {d_killed, d_closed}
     | Some _ \<Rightarrow> \<exists>world. deriveAtFrontier D owner (du_document_id env) (governance_parents env) = Some world \<and>
         fw_ended world = None \<and> sender_agent_id env \<in> fw_participants world"
    using refuseSender_None(2,3) [OF s(1)] by (auto split: option.split)
  then show ?thesis
    using p h link_new(2) [OF link] refuseSender_None(1) [OF s(1)] s(2) o v admit_result(2) [OF a]
    by (intro exI [of _ env] exI [of _ doc]) (simp add: passed_def)
qed

section \<open>A supersession\<close>

text \<open>C39: Admitting the update that follows a refused one makes the document unopenable. When an update is
  refused here, its sender's next update names it as predecessor; admitting that update releases the
  refused one from quarantine, and from then on the check that guards every opening finds a
  predecessor that is nowhere: the snapshot is not rebuilt, and once the document has left the
  cache of open documents it is not opened again.\<close>

theorem supersession_makes_unopenable:
  assumes "receive X Y R D owner wire now S = (Inr (admitted h False), S')"
    and "rbind (x_uncbor X wire) decodeDocumentUpdateEnvelope = Inr env" and "doc_prev_hash env = Some p"
    and "p \<notin> er_hash ` set (getEnvelopeLog owner (du_document_id env) (is_tables S))" and "p \<noteq> h"
    and "h \<notin> er_hash ` set (getEnvelopeLog owner (du_document_id env) (is_tables S))"
    and "map_of L (owner, du_document_id env) = None"
  shows "(\<exists>q \<in> set (quarantineOf owner (du_document_id env) (is_tables S)). qr_rejected q = p) \<and>
    (\<exists>reason. rebuildSnapshot owner (du_document_id env) f (is_tables S') = Inl (Error reason)) \<and>
    (\<exists>reason. openLive Y (startingContentFor D) owner (du_document_id env) (is_tables S') L = (Inl (Error reason), L))"
proof -
  let ?d = "du_document_id env"
  have "(\<exists>q \<in> set (quarantineOf owner ?d (is_tables S)). qr_rejected q = p) \<and> verifyChainLinkage owner ?d (is_tables S') \<noteq> chain_ok"
  proof (rule admitted_judged [OF assms(1)])
    fix env' doc live L diff recent
    assume pass: "passed X D owner wire S env' doc"
      and link: "verifyDocumentChainLink X env' (lastEnvelopeHashBySender owner (du_document_id env') (sender_agent_id env') (is_tables S))
        (knownEnvelopeHashesBySender owner (du_document_id env') (sender_agent_id env') (is_tables S)) = Inr False"
      and a: "admitContent Y owner env' h now live (S\<lparr>is_live := L, is_recent := recent\<rparr>) = (Inr (admitted h False), S')"
    have [simp]: "env' = env" using pass assms(2) by (simp add: passed_def)
    let ?row = "updateRow h env now\<lparr>er_index := nextIndex owner ?d (is_tables S)\<rparr>"
    have log: "getEnvelopeLog owner ?d (is_tables S') = getEnvelopeLog owner ?d (is_tables S) @ [?row]"
      using admit_result(2) [OF a] assms(6) by simp
    have "p \<in> set (knownEnvelopeHashesBySender owner ?d (sender_agent_id env) (is_tables S))"
      using link_new(3) [OF link] assms(3) by simp
    then have held: "\<exists>q \<in> set (quarantineOf owner ?d (is_tables S)). qr_rejected q = p"
      using assms(4) by (auto simp: knownEnvelopeHashesBySender_def)
    have "p \<notin> er_hash ` set (chainRows owner ?d (is_tables S'))"
      using admit_result(3) [OF a] assms(3-5) by (auto simp: chainRows_hashes log updateRow_def)
    moreover have "?row \<in> set (chainRows owner ?d (is_tables S'))" by (rule log_in_chain) (simp add: log)
    ultimately have "verifyChainLinkage owner ?d (is_tables S') \<noteq> chain_ok"
      using broken_if_prev_missing [of ?row owner ?d "is_tables S'" p] assms(3) by (simp add: updateRow_def)
    with held show ?thesis by simp
  qed
  then show ?thesis using unopenable assms(7) by blast
qed

section \<open>A refused update that arrives again\<close>

text \<open>A refused update that arrives again is acknowledged as admitted. While it is quarantined its hash
  counts among its sender's known ones, so a redelivery is answered as a duplicate of something
  admitted, and nothing is changed; the recorded reason of the refusal is not given again.\<close>

theorem refused_update_is_acknowledged:
  assumes "passed X D owner wire S env doc" and "q \<in> set (quarantineOf owner (du_document_id env) (is_tables S))"
    and "qr_rejected q = documentEnvelopeHash X env" and "qr_sender q = sender_agent_id env"
  shows "receive X Y R D owner wire now S = (Inr (admitted (documentEnvelopeHash X env) True), S)"
proof -
  have "documentEnvelopeHash X env \<in> set (knownEnvelopeHashesBySender owner (du_document_id env) (sender_agent_id env) (is_tables S))"
    using assms(2-4) by (force simp: knownEnvelopeHashesBySender_def)
  then have "verifyDocumentChainLink X env (lastEnvelopeHashBySender owner (du_document_id env) (sender_agent_id env) (is_tables S))
      (knownEnvelopeHashesBySender owner (du_document_id env) (sender_agent_id env) (is_tables S)) = Inr True"
    by (simp add: verifyDocumentChainLink_def)
  then show ?thesis by (simp add: receive_passed [OF assms(1)])
qed

lemma sample_gate:
  assumes "is_recent S = []"
  shows "\<exists>diff recent. validate sample_Y sample_R (in_limits sample_D) (in_rules sample_D) [[]] [n, n]
      (gateContext ''owner'' (sample_update ''peer'' n) sample_row T) now (is_recent S) = (admit diff, recent) \<and> inserted diff = ''''"
proof -
  have "7 \<in> set (senderClientIds (gateContext ''owner'' (sample_update ''peer'' n) sample_row T))"
    by (simp add: gateContext_def boundClientIds_def)
  then have "checkAuthorship sample_R d e (gateContext ''owner'' (sample_update ''peer'' n) sample_row T) = None" for d e
    by (simp add: checkAuthorship_def unboundClients_def sample_R_def)
  then have "judgeTrial sample_Y sample_R DEFAULT_GATE_LIMITS [] [[]] [n, n] (gateContext ''owner'' (sample_update ''peer'' n) sample_row T) '''' [] [[], [n, n]] =
      Inr (admit \<lparr>inserted = '''', deletedChars = 0, changedKeys = [], resultingBytes = 2, maxDepth = 0\<rparr>)"
    by (simp add: judgeTrial_def Let_def gateContext_def propertyOf_def getProp_def)
      (simp add: sample_Y_def sample_R_def DEFAULT_GATE_LIMITS_def sample_row_def insertedText_def deletedCount_def
        changedKeysOf_def add_all_def deepestRoot_def countDeletions_def)
  then show ?thesis
    using assms by (simp add: validate_def validateBody_def) (simp add: sample_D_def DEFAULT_GATE_LIMITS_def gateContext_def windowOf_def
        sample_Y_def sample_R_def)
qed

lemma sample_admits:
  assumes "verifyDocumentChainLink peer_X (sample_update ''peer'' n) (lastEnvelopeHashBySender ''owner'' sample_doc ''peer'' (is_tables (sample_state qs)))
      (knownEnvelopeHashesBySender ''owner'' sample_doc ''peer'' (is_tables (sample_state qs))) = Inr False"
    and "find (\<lambda>q. qr_rejected q = sample_hash n) (listQuarantined ''owner'' sample_doc (is_tables (sample_state qs))) = None"
    and "verifyChainLinkage ''owner'' sample_doc (is_tables (sample_state qs)) = chain_ok"
  shows "\<exists>S'. receive peer_X sample_Y sample_R sample_D ''owner'' [n] 9 (sample_state qs) = (Inr (admitted (sample_hash n) False), S')"
proof -
  let ?S = "sample_state qs" and ?e = "sample_update ''peer'' n"
  have p: "passed peer_X sample_D ''owner'' [n] ?S ?e sample_row"
    using sample_open by (simp add: passed_def)
  have "rebuildSnapshot ''owner'' sample_doc (replay sample_Y) (is_tables ?S) = Inr \<lparr>sn_binary = [], sn_vector = [0], lastAppliedIndex = -1\<rparr>"
    using assms(3) by (simp add: rebuildSnapshot_def replay_def replayDoc_def lastOf_def) (simp add: sample_Y_def)
  moreover have "restore sample_Y [] = Inr [[]]" "startingContentFor sample_D ''owner'' sample_doc = None" "is_live ?S = []"
    by (simp_all add: restore_def sample_Y_def sample_D_def sample_state_def)
  ultimately have o: "openLive sample_Y (startingContentFor sample_D) ''owner'' sample_doc (is_tables ?S) (is_live ?S) =
      (Inr [[]], [((''owner'', sample_doc), [[]])])"
    by (simp add: openLive_def evictIfNeeded_def LIVE_DOC_CACHE_SIZE_def Let_def)
  obtain diff recent where v: "validate sample_Y sample_R (in_limits sample_D) (in_rules sample_D) [[]] [n, n]
      (gateContext ''owner'' ?e sample_row (is_tables ?S)) 9 (is_recent ?S) = (admit diff, recent)" "inserted diff = ''''"
    using sample_gate [where S = ?S and n = n and T = "is_tables ?S" and now = 9] by (auto simp: sample_state_def)
  obtain T' where ap: "appendEnvelope ''owner'' (updateRow (sample_hash n) ?e 9) (is_tables ?S) = (Inr True, T')"
    using append_returns [of "updateRow (sample_hash n) ?e 9" "''owner''" "is_tables ?S"] by (auto simp: updateRow_def)
  have "screenProjected sample_D = None" by (simp add: sample_D_def)
  then show ?thesis
    by (simp add: receive_passed [OF p] assms(1,2) judgeContent_def o v admitContent_def ap del: sample_update_fields(3))
      (simp add: applyUpdate_def sample_Y_def MAX_UPDATE_BYTES_def MIN_UPDATE_BYTES_def pending_def)
qed

text \<open>The first update arrives at an empty log, the second where the first was refused.\<close>

lemma sample_first:
  "\<exists>S'. receive peer_X sample_Y sample_R sample_D ''owner'' [1] 9 (sample_state []) = (Inr (admitted (sample_hash 1) False), S')"
proof (rule sample_admits)
  have q: "quarantineOf ''owner'' sample_doc (is_tables (sample_state [])) = []" by simp
  show "verifyDocumentChainLink peer_X (sample_update ''peer'' 1) (lastEnvelopeHashBySender ''owner'' sample_doc ''peer'' (is_tables (sample_state [])))
      (knownEnvelopeHashesBySender ''owner'' sample_doc ''peer'' (is_tables (sample_state []))) = Inr False"
    by (simp add: lastEnvelopeHashBySender_def knownEnvelopeHashesBySender_def newestOf_def lastOf_def verifyDocumentChainLink_def)
  show "find (\<lambda>q. qr_rejected q = sample_hash 1) (listQuarantined ''owner'' sample_doc (is_tables (sample_state []))) = None"
    by (simp add: listQuarantined_def)
  show "verifyChainLinkage ''owner'' sample_doc (is_tables (sample_state [])) = chain_ok"
    by (simp add: verifyChainLinkage_def Let_def chainRows_def listQuarantined_def add_all_def)
qed

lemma sample_supersession:
  "\<exists>S'. receive peer_X sample_Y sample_R sample_D ''owner'' [2] 9 (sample_state [sample_refusal]) =
    (Inr (admitted (sample_hash 2) False), S')"
proof (rule sample_admits)
  let ?S = "sample_state [sample_refusal]"
  have q: "quarantineOf ''owner'' sample_doc (is_tables ?S) = [sample_refusal]" by (simp add: sample_refusal_def)
  have "lastEnvelopeHashBySender ''owner'' sample_doc ''peer'' (is_tables ?S) = Some (sample_hash 1)"
    by (simp add: lastEnvelopeHashBySender_def q newestOf_def lastOf_def) (simp add: sample_refusal_def)
  moreover have "knownEnvelopeHashesBySender ''owner'' sample_doc ''peer'' (is_tables ?S) = [sample_hash 1]"
    by (simp add: knownEnvelopeHashesBySender_def q) (simp add: sample_refusal_def)
  ultimately show "verifyDocumentChainLink peer_X (sample_update ''peer'' 2) (lastEnvelopeHashBySender ''owner'' sample_doc ''peer'' (is_tables ?S))
      (knownEnvelopeHashesBySender ''owner'' sample_doc ''peer'' (is_tables ?S)) = Inr False"
    by (simp add: verifyDocumentChainLink_def)
  show "find (\<lambda>q. qr_rejected q = sample_hash 2) (listQuarantined ''owner'' sample_doc (is_tables ?S)) = None"
    by (simp add: listQuarantined_def q) (simp add: sample_refusal_def)
  show "verifyChainLinkage ''owner'' sample_doc (is_tables ?S) = chain_ok"
    by (simp add: verifyChainLinkage_def Let_def chainRows_def listQuarantined_def q add_all_def add_last_def)
      (simp add: sample_refusal_def stubOf_def senderVerdict_def Let_def chainWalk.simps)
qed

theorem supersession_makes_unopenable_witness:
  "\<exists>h S' reason. receive peer_X sample_Y sample_R sample_D ''owner'' [2] 9 (sample_state [sample_refusal]) = (Inr (admitted h False), S') \<and>
    openLive sample_Y (startingContentFor sample_D) ''owner'' sample_doc (is_tables S') [] = (Inl (Error reason), [])"
proof -
  obtain S' where r: "receive peer_X sample_Y sample_R sample_D ''owner'' [2] 9 (sample_state [sample_refusal]) =
      (Inr (admitted (sample_hash 2) False), S')" using sample_supersession by blast
  from supersession_makes_unopenable [OF r, of "sample_update ''peer'' 2" "sample_hash 1" "[]"] r show ?thesis by fastforce
qed

theorem admitted_content_is_authorised_witness:
  "\<exists>S'. receive peer_X sample_Y sample_R sample_D ''owner'' [2] 9 (sample_state [sample_refusal]) = (Inr (admitted (sample_hash 2) False), S') \<and>
    map er_hash (getEnvelopeLog ''owner'' sample_doc (is_tables S')) = [sample_hash 2]"
proof -
  obtain S' where r: "receive peer_X sample_Y sample_R sample_D ''owner'' [2] 9 (sample_state [sample_refusal]) =
      (Inr (admitted (sample_hash 2) False), S')" using sample_supersession by blast
  from admitted_content_is_authorised [OF r] r show ?thesis by (auto simp: updateRow_def)
qed

theorem refused_update_is_acknowledged_witness:
  "receive peer_X sample_Y sample_R sample_D ''owner'' [1] 9 (sample_state [sample_refusal]) =
    (Inr (admitted (sample_hash 1) True), sample_state [sample_refusal])"
proof -
  have "passed peer_X sample_D ''owner'' [1] (sample_state [sample_refusal]) (sample_update ''peer'' 1) sample_row"
    using sample_open by (simp add: passed_def)
  moreover have "sample_refusal \<in> set (quarantineOf ''owner'' sample_doc (is_tables (sample_state [sample_refusal])))"
    by (simp add: sample_refusal_def)
  ultimately show ?thesis
    using refused_update_is_acknowledged [of peer_X sample_D "''owner''" "[1]" "sample_state [sample_refusal]" "sample_update ''peer'' 1"
        sample_row sample_refusal sample_Y sample_R 9]
    by (simp add: sample_refusal_def)
qed

end
