(* ===== verification/Content_Chain_Claims.thy ===== *)
theory Content_Chain_Claims
  imports Content_Claims
begin

text \<open>The chain of a sender as the pipeline grows it, and what refusals and publishing do to it.\<close>

section \<open>Admission\<close>

lemma one_chain_extend:
  assumes "rows = [] \<or> one_chain rows" and "er_prev r = p" and "er_hash r \<notin> er_hash ` set rows"
    and "rows = [] \<longleftrightarrow> p = None" and "\<And>h. p = Some h \<Longrightarrow> h \<in> er_hash ` set rows"
    and last: "\<And>h e. p = Some h \<Longrightarrow> e \<in> set rows \<Longrightarrow> er_prev e \<noteq> Some h"
  shows "one_chain (rows @ [r])"
proof (cases "rows = []")
  case True
  then show ?thesis using assms(2,4) unfolding one_chain_def by (intro exI [of _ "[r]"]) simp
next
  case False
  then obtain h where h: "p = Some h" using assms(4) by blast
  obtain es where es: "mset es = mset rows" "es \<noteq> []" "linked None es" "distinct (map er_hash es)"
    using assms(1) False by (auto simp: one_chain_def)
  have in_es: "set es = set rows" using es(1) by (metis mset_eq_setD)
  obtain c where c: "c \<in> set es" "er_hash c = h" using assms(5) [OF h] in_es by auto
  obtain xs ys where split: "es = xs @ c # ys" using c(1) by (meson split_list)
  have "ys = []"
  proof (rule ccontr)
    assume "ys \<noteq> []"
    then obtain y zs where "ys = y # zs" by (cases ys) auto
    then have "er_prev y = Some h" "y \<in> set rows" using es(3) c(2) in_es by (auto simp: split linked_append)
    then show False using last [OF h] by blast
  qed
  then have "linked None (es @ [r])" using es(3) split c(2) assms(2) h by (simp add: linked_append)
  moreover have "distinct (map er_hash (es @ [r]))" using es(4) assms(3) in_es by simp
  ultimately show ?thesis using es(1) unfolding one_chain_def by (intro exI [of _ "es @ [r]"]) simp
qed

text \<open>C9: Otherwise an admission keeps a document openable. When the log of a document forms chains and the
  last envelope of the sender, as the holder reckons it, is indeed the end of the sender's chain, then
  after a new update has been admitted the log still forms chains, provided the update does not
  follow a refused one.\<close>

theorem admission_keeps_the_chain:
  assumes "receive X Y R D owner wire now S = (Inr (admitted h False), S')"
    and "rbind (x_uncbor X wire) decodeDocumentUpdateEnvelope = Inr env"
    and "verifyChainLinkage owner (du_document_id env) (is_tables S) = chain_ok"
    and "doc_prev_hash env \<notin> Some ` qr_rejected ` set (quarantineOf owner (du_document_id env) (is_tables S))"
    and "h \<notin> er_hash ` set (getEnvelopeLog owner (du_document_id env) (is_tables S))"
    and "lastEnvelopeHashBySender owner (du_document_id env) (sender_agent_id env) (is_tables S) = None \<Longrightarrow>
      sender_agent_id env \<notin> er_sender ` set (chainRows owner (du_document_id env) (is_tables S))"
    and "\<And>e p. e \<in> set (chainRows owner (du_document_id env) (is_tables S)) \<Longrightarrow> er_sender e = sender_agent_id env \<Longrightarrow>
      lastEnvelopeHashBySender owner (du_document_id env) (sender_agent_id env) (is_tables S) = Some p \<Longrightarrow> er_prev e \<noteq> Some p"
  shows "verifyChainLinkage owner (du_document_id env) (is_tables S') = chain_ok"
proof (rule admitted_judged [OF assms(1)])
  fix env' doc live L diff recent
  let ?d = "du_document_id env" and ?s = "sender_agent_id env"
  assume pass: "passed X D owner wire S env' doc" and h: "h = documentEnvelopeHash X env'"
    and link: "verifyDocumentChainLink X env' (lastEnvelopeHashBySender owner (du_document_id env') (sender_agent_id env') (is_tables S))
        (knownEnvelopeHashesBySender owner (du_document_id env') (sender_agent_id env') (is_tables S)) = Inr False"
    and a: "admitContent Y owner env' h now live (S\<lparr>is_live := L, is_recent := recent\<rparr>) = (Inr (admitted h False), S')"
  have [simp]: "env' = env" using pass assms(2) by (simp add: passed_def)
  let ?row = "updateRow h env now\<lparr>er_index := nextIndex owner ?d (is_tables S)\<rparr>"
  let ?of = "\<lambda>sender T. filter (\<lambda>e. er_sender e = sender) (chainRows owner ?d T)"
  have "quarantineOf owner ?d (is_tables S') = quarantineOf owner ?d (is_tables S)"
    using admit_result(3) [OF a] assms(4) by (auto intro!: filter_True)
  moreover have "getEnvelopeLog owner ?d (is_tables S') = getEnvelopeLog owner ?d (is_tables S) @ [?row]"
    using admit_result(2) [OF a] assms(5) by simp
  ultimately have rows: "chainRows owner ?d (is_tables S') = chainRows owner ?d (is_tables S) @ [?row]"
    by (simp add: chainRows_def listQuarantined_def)
  have row: "er_sender ?row = ?s" "er_prev ?row = doc_prev_hash env" "er_hash ?row = h" by (simp_all add: updateRow_def)
  have before: "?of sender (is_tables S) = [] \<or> one_chain (?of sender (is_tables S))" for sender
    using assms(3) unfolding linkage_ok by blast
  have known: "er_hash ` set (?of ?s (is_tables S)) \<subseteq> set (knownEnvelopeHashesBySender owner ?d ?s (is_tables S))"
  proof
    fix x assume "x \<in> er_hash ` set (?of ?s (is_tables S))"
    then obtain e where e: "e \<in> set (chainRows owner ?d (is_tables S))" "er_sender e = ?s" "x = er_hash e" by auto
    from chainRows_cases [OF e(1)] e(2,3) show "x \<in> set (knownEnvelopeHashesBySender owner ?d ?s (is_tables S))"
      by (auto simp: knownEnvelopeHashesBySender_def stubOf_def)
  qed
  have "one_chain (?of ?s (is_tables S) @ [?row])"
  proof (rule one_chain_extend [OF before row(2)])
    show "er_hash ?row \<notin> er_hash ` set (?of ?s (is_tables S))"
      using link_new(1) [OF link] known unfolding row(3) by (auto simp: h)
    have prev: "doc_prev_hash env = lastEnvelopeHashBySender owner ?d ?s (is_tables S)" using link_new(2) [OF link] by simp
    show "h' \<in> er_hash ` set (?of ?s (is_tables S))" if "doc_prev_hash env = Some h'" for h'
    proof -
      have "h' \<in> set (knownEnvelopeHashesBySender owner ?d ?s (is_tables S))" using link_new(3) [OF link, of h'] that by simp
      then have "h' \<in> er_hash ` {e \<in> set (getEnvelopeLog owner ?d (is_tables S)). er_sender e = ?s}"
        using assms(4) that by (auto simp: knownEnvelopeHashesBySender_def)
      then show ?thesis using log_in_chain by fastforce
    qed
    then have "doc_prev_hash env = None" if "?of ?s (is_tables S) = []" using that by (cases "doc_prev_hash env") fastforce+
    moreover have "?of ?s (is_tables S) = []" if "doc_prev_hash env = None"
    proof -
      have "?s \<notin> er_sender ` set (chainRows owner ?d (is_tables S))" using assms(6) prev that by simp
      then show ?thesis by (metis (mono_tags, lifting) filter_empty_conv image_eqI)
    qed
    ultimately show "?of ?s (is_tables S) = [] \<longleftrightarrow> doc_prev_hash env = None" by blast
    show "er_prev e \<noteq> Some h'" if "doc_prev_hash env = Some h'" "e \<in> set (?of ?s (is_tables S))" for h' e
      using assms(7) [of e h'] that prev by simp
  qed
  then show "verifyChainLinkage owner ?d (is_tables S') = chain_ok"
    unfolding linkage_ok rows using before row(1) by (auto simp: updateRow_def)
qed

theorem admission_keeps_the_chain_witness:
  "\<exists>S'. receive peer_X sample_Y sample_R sample_D ''owner'' [1] 9 (sample_state []) = (Inr (admitted (sample_hash 1) False), S') \<and>
    verifyChainLinkage ''owner'' sample_doc (is_tables S') = chain_ok"
proof -
  obtain S' where r: "receive peer_X sample_Y sample_R sample_D ''owner'' [1] 9 (sample_state []) = (Inr (admitted (sample_hash 1) False), S')"
    using sample_first by blast
  have none: "chainRows ''owner'' sample_doc (is_tables (sample_state [])) = []"
    by (simp add: chainRows_def listQuarantined_def)
  have "verifyChainLinkage ''owner'' sample_doc (is_tables (sample_state [])) = chain_ok"
    by (simp add: verifyChainLinkage_def none add_all_def)
  then have "verifyChainLinkage ''owner'' sample_doc (is_tables S') = chain_ok"
    using admission_keeps_the_chain [OF r, of "sample_update ''peer'' 1"] by (simp add: none)
  with r show ?thesis by blast
qed

section \<open>Refusals\<close>

lemma hold_log [simp]: "getEnvelopeLog o' d' (snd (holdQuarantined owner row T)) = getEnvelopeLog o' d' T"
  "documents (snd (holdQuarantined owner row T)) = documents T"
  by (simp_all add: holdQuarantined_def getEnvelopeLog_def)

lemma status_log [simp]: "getEnvelopeLog o' d' (setDocumentStatus owner doc s T) = getEnvelopeLog o' d' T"
  "document_quarantine (setDocumentStatus owner doc s T) = document_quarantine T"
  by (simp_all add: setDocumentStatus_def getEnvelopeLog_def)

lemma getDocument_status:
  "getDocument o' d' (setDocumentStatus owner doc s T) =
     map_option (\<lambda>r. if o' = owner \<and> d' = doc then r\<lparr>dw_status := s\<rparr> else r) (getDocument o' d' T)"
proof -
  let ?f = "\<lambda>r. if dw_owner r = owner \<and> dw_document r = doc then r\<lparr>dw_status := s\<rparr> else r"
  have "find (\<lambda>r. dw_owner r = o' \<and> dw_document r = d') (map ?f rows) =
      map_option (\<lambda>r. if o' = owner \<and> d' = doc then r\<lparr>dw_status := s\<rparr> else r) (find (\<lambda>r. dw_owner r = o' \<and> dw_document r = d') rows)"
    for rows :: "DocumentRow list"
    by (induction rows) auto
  then show ?thesis by (simp add: getDocument_def setDocumentStatus_def)
qed

text \<open>Every refusal either changes no table; or writes its statement, holds the update and counts the round; or, when
  the refused update is empty, writes its statement and throws.\<close>

lemma rejectEnd_cases:
  assumes "rejectEnd X agent doc input env T = (r, T')" and "rejecting_agent_id env = agent"
  obtains (nothing) "T' = T" "\<And>out. r = Inr out \<Longrightarrow> ro_wire out = None"
  | (written) h T1 wire where "documentRejectionHash X env = Inr h" "ri_quarantined input \<noteq> []"
      "appendEnvelope agent (rejectionRow doc h env (lastEnvelopeHashBySender agent doc agent T)) T = (Inr True, T1)"
      "T' = (let T2 = snd (holdQuarantined agent (quarantineRow doc h input wire) T1) in
         if dr_round env \<ge> int MAX_REJECTED_ROUNDS \<and> \<not> isStalled agent doc T2 then setDocumentStatus agent doc d_stalled T2 else T2)"
      "r = Inr \<lparr>ro_stalled = dr_round env \<ge> int MAX_REJECTED_ROUNDS, ro_round = nat (dr_round env), ro_wire = Some wire\<rparr>"
  | (lost) h where "documentRejectionHash X env = Inr h" "ri_quarantined input = []"
      "appendEnvelope agent (rejectionRow doc h env (lastEnvelopeHashBySender agent doc agent T)) T = (Inr True, T')" "r = notNull"
proof (cases "documentRejectionHash X env")
  case (Inl e)
  show thesis by (rule nothing) (use assms(1) Inl in \<open>auto simp: rejectEnd_def\<close>)
next
  case (Inr h)
  then have c: "consistent env" by (auto simp: documentRejectionHash_def buildDocumentRejectionTbs_def rbind_Inr_conv)
  then obtain wire where wire: "encodeDocumentRejection env = Inr wire" by (auto simp: encodeDocumentRejection_def assert_ok)
  let ?row = "rejectionRow doc h env (lastEnvelopeHashBySender agent doc agent T)"
  show thesis
  proof (cases agent ?row T rule: append_cases)
    case (written T1)
    show thesis
    proof (cases "ri_quarantined input = []")
      case True
      then have "holdQuarantined agent (quarantineRow doc h input wire) T1 = (notNull, T1)"
        by (simp add: holdQuarantined_def quarantineRow_def)
      then have "(r, T') = (notNull, T1)" using assms(1) by (simp add: rejectEnd_def Inr written wire notNull_def)
      then show thesis using Inr True written by (intro lost) simp_all
    next
      case some: False
      have "getDocument agent (er_document ?row) T \<noteq> None" using written by (auto simp: appendEnvelope_def split: if_splits)
      then have "getDocument agent doc T1 \<noteq> None" using getDocument_cong [OF log_append(4) [OF written]] by (simp add: rejectionRow_def)
      then have "fst (holdQuarantined agent (quarantineRow doc h input wire) T1) \<noteq> Inl e" for e
        using some by (auto simp: holdQuarantined_def quarantineRow_def)
      then obtain b T2 where hold: "holdQuarantined agent (quarantineRow doc h input wire) T1 = (Inr b, T2)"
        by (cases "holdQuarantined agent (quarantineRow doc h input wire) T1"; cases "fst (holdQuarantined agent (quarantineRow doc h input wire) T1)") auto
      show thesis
        by (rule that(2) [OF Inr some written, of wire]) (use assms(1) in \<open>simp_all add: rejectEnd_def Inr written wire hold Let_def\<close>)
    qed
  next
    case known
    show thesis by (rule nothing) (use assms(1) Inr known in \<open>auto simp: rejectEnd_def\<close>)
  next
    case (failed e)
    show thesis by (rule nothing) (use assms(1) Inr failed in \<open>auto simp: rejectEnd_def\<close>)
  qed
qed

text \<open>The row a refusal writes into the log.\<close>

definition statementOf ::
  "externals \<Rightarrow> string \<Rightarrow> string \<Rightarrow> RejectionInput \<Rightarrow> DocumentTables \<Rightarrow> DocumentEnvelopeRow \<Rightarrow> bool" where
  "statementOf X agent doc input T row \<longleftrightarrow> er_prev row = lastEnvelopeHashBySender agent doc agent T \<and>
     er_sender row = agent \<and> er_payload row = None \<and> er_kind row = kind_rejection \<and> er_document row = doc \<and>
     er_references row = Some (ri_rejected input) \<and> (\<exists>e. documentRejectionHash X e = Inr (er_hash row))"

lemma statement_stored [simp]: "statementOf X agent doc input T row \<Longrightarrow> storedRow row = row"
  by (rule storedRow_simps) (simp add: statementOf_def)

lemma reject_cases:
  assumes "reject X sign agent doc input T = (r, T')"
  obtains (nothing) "T' = T" "\<And>out. r = Inr out \<Longrightarrow> ro_wire out = None"
  | (written) row T1 wire where "statementOf X agent doc input T row" "ri_quarantined input \<noteq> []"
      "appendEnvelope agent row T = (Inr True, T1)"
      "T' = (let T2 = snd (holdQuarantined agent (quarantineRow doc (er_hash row) input wire) T1) in
         if roundOf agent doc T + 1 \<ge> MAX_REJECTED_ROUNDS \<and> \<not> isStalled agent doc T2 then setDocumentStatus agent doc d_stalled T2 else T2)"
      "\<exists>out. r = Inr out \<and> ro_wire out = Some wire"
  | (lost) row where "statementOf X agent doc input T row" "ri_quarantined input = []"
      "appendEnvelope agent row T = (Inr True, T')" "r = notNull"
proof (cases "rejectBegin agent doc input T")
  case (Inl out)
  then have out: "ro_wire out = None" by (auto simp: rejectBegin_def split: if_splits)
  show thesis by (rule nothing) (use assms Inl out in \<open>auto simp: reject_def\<close>)
next
  case (Inr env)
  then have env: "rejecting_agent_id env = agent" "dr_round env = int (roundOf agent doc T + 1)" "rejected_envelope_hash env = ri_rejected input"
    by (auto simp: rejectBegin_def split: if_splits)
  show thesis
  proof (cases "rbind (buildDocumentRejectionTbs X env True) (sign agent)")
    case (Inl e)
    show thesis by (rule nothing) (use assms Inr Inl in \<open>auto simp: reject_def\<close>)
  next
    case sig: (Inr sig)
    let ?row = "\<lambda>h. rejectionRow doc h (env\<lparr>dr_signature := sig\<rparr>) (lastEnvelopeHashBySender agent doc agent T)"
    have row: "statementOf X agent doc input T (?row h)" if "documentRejectionHash X (env\<lparr>dr_signature := sig\<rparr>) = Inr h" for h
      using that env by (auto simp: statementOf_def rejectionRow_def)
    have e: "rejectEnd X agent doc input (env\<lparr>dr_signature := sig\<rparr>) T = (r, T')" using assms Inr sig by (simp add: reject_def)
    show thesis
    proof (cases rule: rejectEnd_cases [OF e])
      case 1
      then show ?case using env by simp
    next
      case 2
      then show ?thesis by (rule nothing)
    next
      case (3 h T1 wire)
      have [simp]: "int MAX_REJECTED_ROUNDS \<le> 1 + int (roundOf agent doc T) \<longleftrightarrow> MAX_REJECTED_ROUNDS \<le> Suc (roundOf agent doc T)"
        by linarith
      show ?thesis
        by (rule written [OF row [OF 3(1)] 3(2,3), of wire]) (use 3(4,5) env in \<open>simp_all add: rejectionRow_def\<close>)
    next
      case (4 h)
      show ?thesis by (rule lost [OF row [OF 4(1)] 4(2,3,4)])
    qed
  qed
qed

lemma hold_new:
  assumes "qr_rejection row \<notin> qr_rejection ` set (quarantineOf owner (qr_document row) T)" and "getDocument owner (qr_document row) T \<noteq> None"
    and "qr_payload row \<noteq> []"
  shows "quarantineOf owner (qr_document row) (snd (holdQuarantined owner row T)) = quarantineOf owner (qr_document row) T @ [row]"
  using assms by (auto simp: holdQuarantined_def quarantineOf_def image_iff)

lemma replay_refusals:
  "\<forall>e \<in> set es. er_payload e = None \<and> er_kind e = kind_rejection \<Longrightarrow> replayDoc Y (log @ es) = replayDoc Y log"
proof -
  assume none: "\<forall>e \<in> set es. er_payload e = None \<and> er_kind e = kind_rejection"
  have "rfold (replayStep Y) d es = Inr d" for d
    using none by (induction es) (auto simp: replayStep_def)
  then show ?thesis unfolding replayDoc_def rfold_append by (cases "rfold (replayStep Y) (y_new Y) log") simp_all
qed

definition inputOf :: "DocumentUpdateEnvelope \<Rightarrow> string \<Rightarrow> int \<Rightarrow> GateQuarantine \<Rightarrow> RejectionInput" where
  "inputOf env h now q = \<lparr>ri_rejected = h, ri_quarantined = du_update env, ri_prev = doc_prev_hash env, ri_reason = gq_reason q,
     ri_detail = gq_detail q, ri_sender = sender_agent_id env, ri_rule = gq_rule q, ri_limit = gq_limit q, ri_now = now\<rparr>"

lemma refuse_reject:
  assumes "refuseContent X D owner env h now q S1 = (r, S')"
  obtains r' where "reject X (in_sign D) owner (du_document_id env) (inputOf env h now q) (is_tables S1) = (r', is_tables S')"
    "\<And>h' reason w. r = Inr (not_admitted h' reason w) \<Longrightarrow> h' = h \<and> (\<exists>out. r' = Inr out \<and> ro_wire out = w)"
proof -
  obtain r' T where rj: "reject X (in_sign D) owner (du_document_id env) (inputOf env h now q) (is_tables S1) = (r', T)" by fastforce
  show thesis
    by (rule that [of r']) (use assms rj in \<open>auto simp: refuseContent_def inputOf_def split: sum.splits\<close>)
qed

text \<open>What any arrival does to the tables.\<close>

lemma receive_tables:
  assumes "receive X Y R D owner wire now S = (r, S')"
  obtains (nothing) "is_tables S' = is_tables S" "\<And>h reason w. r \<noteq> Inr (not_admitted h reason (Some w))"
  | (refused) env doc q r' where "passed X D owner wire S env doc"
      "documentEnvelopeHash X env \<notin> qr_rejected ` set (quarantineOf owner (du_document_id env) (is_tables S))"
      "reject X (in_sign D) owner (du_document_id env) (inputOf env (documentEnvelopeHash X env) now q) (is_tables S) = (r', is_tables S')"
      "\<And>h' reason w. r = Inr (not_admitted h' reason w) \<Longrightarrow> h' = documentEnvelopeHash X env \<and> (\<exists>out. r' = Inr out \<and> ro_wire out = w)"
  | (content) env doc live S1 diff recent where "passed X D owner wire S env doc" "is_tables S1 = is_tables S"
      "admitContent Y owner env (documentEnvelopeHash X env) now live S1 = (r, S')"
      "validate Y R (in_limits D) (in_rules D) live (du_update env) (gateContext owner env doc (is_tables S)) now (is_recent S) =
        (admit diff, recent)"
proof (cases X Y R D owner wire now S rule: receive_cases)
  case (early reason terminal)
  show thesis by (rule nothing) (use assms early in auto)
next
  case (duplicate env doc)
  show thesis by (rule nothing) (use assms duplicate in auto)
next
  case (again env doc q)
  show thesis by (rule nothing) (use assms again in auto)
next
  case (judged env doc)
  note j = judged
  show thesis
  proof (cases X Y R D owner env "documentEnvelopeHash X env" doc now S rule: judge_cases)
    case (failed e S1)
    show thesis by (rule nothing) (use assms j failed in auto)
  next
    case ref: (refused q S1)
    then have "refuseContent X D owner env (documentEnvelopeHash X env) now q S1 = (r, S')" using assms j(4) by simp
    then show thesis
    proof (rule refuse_reject)
      fix r'
      assume "reject X (in_sign D) owner (du_document_id env) (inputOf env (documentEnvelopeHash X env) now q) (is_tables S1) = (r', is_tables S')"
        and "\<And>h' reason w. r = Inr (not_admitted h' reason w) \<Longrightarrow> h' = documentEnvelopeHash X env \<and> (\<exists>out. r' = Inr out \<and> ro_wire out = w)"
      then show thesis using ref(2) by (intro refused [OF j(1,3)]) simp_all
    qed
  next
    case con: (content live L diff recent)
    show thesis
      by (rule content [OF j(1), of "S\<lparr>is_live := L, is_recent := recent\<rparr>" live, OF _ _ con(2)]) (use assms j(4) con(3) in simp_all)
  qed
qed

text \<open>Every update held in quarantine has its statement in the log.\<close>

definition statements_logged :: "string \<Rightarrow> DocumentTables \<Rightarrow> bool" where
  "statements_logged owner T \<longleftrightarrow>
     (\<forall>d. qr_rejection ` set (quarantineOf owner d T) \<subseteq> er_hash ` set (getEnvelopeLog owner d T))"

lemma log_grows: "er_hash ` set (getEnvelopeLog owner d T) \<subseteq> er_hash ` set (getEnvelopeLog owner d (snd (appendEnvelope owner row T)))"
proof (cases owner row T rule: append_cases)
  case (written T')
  then show ?thesis using log_append(1) [OF written] log_append(2) [OF written, of owner d] by (cases "d = er_document row") auto
qed simp_all

lemma hold_adds: "set (quarantineOf owner d (snd (holdQuarantined owner row T))) \<subseteq>
    set (quarantineOf owner d T) \<union> (if d = qr_document row then {row} else {})"
  by (auto simp: holdQuarantined_def quarantineOf_def)

lemma reject_keeps_statements:
  assumes "reject X sign owner doc input T = (r, T')" and "statements_logged owner T"
  shows "statements_logged owner T'"
proof (cases rule: reject_cases [OF assms(1)])
  case 1
  then show ?thesis using assms(2) by simp
next
  case (2 row T1 wire)
  let ?q = "quarantineRow doc (er_hash row) input wire"
  have "qr_rejection ` set (quarantineOf owner d T') \<subseteq> er_hash ` set (getEnvelopeLog owner d T')" for d
  proof -
    have log: "getEnvelopeLog owner d T' = getEnvelopeLog owner d T1" using 2(4) by (simp add: Let_def)
    have "quarantineOf owner d T' = quarantineOf owner d (snd (holdQuarantined owner ?q T1))" using 2(4) by (simp add: Let_def quarantineOf_def)
    then have "set (quarantineOf owner d T') \<subseteq> set (quarantineOf owner d T) \<union> (if d = doc then {?q} else {})"
      using hold_adds [of owner d ?q T1] quarantineOf_cong [OF log_append(3) [OF 2(3)]] by (simp add: quarantineRow_def)
    moreover have "d = doc \<Longrightarrow> er_hash row \<in> er_hash ` set (getEnvelopeLog owner d T1)"
      using log_append(1) [OF 2(3)] 2(1) by (simp add: statementOf_def)
    moreover have "qr_rejection ` set (quarantineOf owner d T) \<subseteq> er_hash ` set (getEnvelopeLog owner d T1)"
      using assms(2) log_grows [of owner d T row] by (simp add: 2(3) statements_logged_def) blast
    moreover have "qr_rejection ?q = er_hash row" by (simp add: quarantineRow_def)
    ultimately have "qr_rejection ` (set (quarantineOf owner d T) \<union> (if d = doc then {?q} else {})) \<subseteq> er_hash ` set (getEnvelopeLog owner d T1)"
      by (simp add: image_Un)
    moreover have "qr_rejection ` set (quarantineOf owner d T') \<subseteq>
        qr_rejection ` (set (quarantineOf owner d T) \<union> (if d = doc then {?q} else {}))"
      by (rule image_mono) fact
    ultimately show ?thesis unfolding log by (rule order_trans [rotated])
  qed
  then show ?thesis by (simp add: statements_logged_def)
next
  case (3 row)
  then show ?thesis
    using assms(2) log_grows [of owner _ T row] quarantineOf_cong [OF log_append(3) [OF 3(3)]] by (force simp: statements_logged_def)
qed

lemma receive_keeps_statements:
  assumes "statements_logged owner (is_tables S)"
  shows "statements_logged owner (is_tables (snd (receive X Y R D owner wire now S)))"
proof -
  obtain r S' where rs: "receive X Y R D owner wire now S = (r, S')" by fastforce
  have "statements_logged owner (is_tables S')"
  proof (cases rule: receive_tables [OF rs])
    case 1
    then show ?thesis using assms by simp
  next
    case (2 env doc q r')
    then show ?thesis using reject_keeps_statements assms by blast
  next
    case (3 env doc live S1 diff recent)
    let ?T1 = "snd (appendEnvelope owner (updateRow (documentEnvelopeHash X env) env now) (is_tables S))"
    have log: "getEnvelopeLog owner d (is_tables S') = getEnvelopeLog owner d ?T1"
      "set (quarantineOf owner d (is_tables S')) \<subseteq> set (quarantineOf owner d ?T1)" for d
    proof -
      have c: "set (quarantineOf owner d (clearQuarantine owner e p T)) \<subseteq> set (quarantineOf owner d T)" for e p and T :: DocumentTables
        by (auto simp: quarantineOf_def clearQuarantine_def releaseQuarantined_def)
      have "is_tables S' = ?T1 \<or> (\<exists>p. is_tables S' = clearQuarantine owner (du_document_id env) p ?T1)"
        using 3(2,3) by (auto simp: admitContent_def split: sum.splits prod.splits option.splits)
      then show "getEnvelopeLog owner d (is_tables S') = getEnvelopeLog owner d ?T1"
        "set (quarantineOf owner d (is_tables S')) \<subseteq> set (quarantineOf owner d ?T1)" using c [of _ _ ?T1] by fastforce+
    qed
    have "document_quarantine ?T1 = document_quarantine (is_tables S)"
      by (cases owner "updateRow (documentEnvelopeHash X env) env now" "is_tables S" rule: append_cases) (simp_all add: log_append(3))
    then have "quarantineOf owner d ?T1 = quarantineOf owner d (is_tables S)" for d by (rule quarantineOf_cong)
    then show ?thesis
      using assms log log_grows [of owner _ "is_tables S" "updateRow (documentEnvelopeHash X env) env now"]
      unfolding statements_logged_def by (simp add: subset_iff image_iff) metis
  qed
  then show ?thesis by (simp add: rs)
qed

interpretation held_statements: machine "\<lambda>S (wire, now). snd (receive X Y R D owner wire now S)"
  "\<lambda>S. statements_logged owner (is_tables S)" for X Y R D owner
proof unfold_locales
  fix S :: "'a InboundState" and e :: "bytes \<times> int"
  assume ok: "statements_logged owner (is_tables S)"
  obtain wire now where "e = (wire, now)" by (cases e)
  then show "statements_logged owner (is_tables (case e of (wire, now) \<Rightarrow> snd (receive X Y R D owner wire now S)))"
    using receive_keeps_statements [OF ok] by simp
qed

text \<open>C11: A refusal is recorded without letting the content in. When an arriving update is refused with a signed
  statement, exactly one row is added to the log: the owner's refusal, without content, naming the
  refused hash; the refused bytes are held in quarantine with their place in the sender's chain; and
  replaying the log gives the same document as before. Assumed of the state before: every update held in
  quarantine for the document has its statement in the log, which any sequence of arriving updates
  maintains (\<open>receive_keeps_statements\<close>), the empty quarantine being the start.\<close>

theorem refused_content_is_held_back:
  assumes "receive X Y R D owner wire now S = (Inr (not_admitted h reason (Some w)), S')"
    and "rbind (x_uncbor X wire) decodeDocumentUpdateEnvelope = Inr env"
    and "qr_rejection ` set (quarantineOf owner (du_document_id env) (is_tables S)) \<subseteq>
      er_hash ` set (getEnvelopeLog owner (du_document_id env) (is_tables S))"
  shows "(\<exists>row q. getEnvelopeLog owner (du_document_id env) (is_tables S') = getEnvelopeLog owner (du_document_id env) (is_tables S) @ [row] \<and>
       er_kind row = kind_rejection \<and> er_sender row = owner \<and> er_payload row = None \<and> er_references row = Some h \<and>
       quarantineOf owner (du_document_id env) (is_tables S') = quarantineOf owner (du_document_id env) (is_tables S) @ [q] \<and>
       qr_rejection q = er_hash row \<and> qr_rejected q = h \<and> h = documentEnvelopeHash X env \<and> qr_payload q = du_update env \<and>
       qr_prev q = doc_prev_hash env \<and> qr_sender q = sender_agent_id env) \<and>
    replayDoc Y (getEnvelopeLog owner (du_document_id env) (is_tables S')) = replayDoc Y (getEnvelopeLog owner (du_document_id env) (is_tables S))"
proof -
  let ?d = "du_document_id env"
  have *: "\<exists>row q. getEnvelopeLog owner ?d (is_tables S') = getEnvelopeLog owner ?d (is_tables S) @ [row] \<and>
      er_kind row = kind_rejection \<and> er_sender row = owner \<and> er_payload row = None \<and> er_references row = Some h \<and>
      quarantineOf owner ?d (is_tables S') = quarantineOf owner ?d (is_tables S) @ [q] \<and>
      qr_rejection q = er_hash row \<and> qr_rejected q = h \<and> h = documentEnvelopeHash X env \<and> qr_payload q = du_update env \<and>
      qr_prev q = doc_prev_hash env \<and> qr_sender q = sender_agent_id env"
  proof (cases rule: receive_tables [OF assms(1)])
    case 1
    show ?thesis using 1(2) [of h reason w] by simp
  next
    case (2 env' doc q r')
    have [simp]: "env' = env" using 2(1) assms(2) by (simp add: passed_def)
    obtain out where out: "h = documentEnvelopeHash X env" "r' = Inr out" "ro_wire out = Some w" using 2(4) [of h reason "Some w"] by auto
    show ?thesis
    proof (cases rule: reject_cases [OF 2(3)])
      case 1
      then show ?thesis using out by simp
    next
      case (2 row T1 wire')
      note w = 2
      have row: "er_document row = ?d" "er_kind row = kind_rejection" "er_sender row = owner" "er_payload row = None" "er_references row = Some h"
        using w(1) out(1) by (simp_all add: statementOf_def inputOf_def)
      let ?row = "row\<lparr>er_index := nextIndex owner ?d (is_tables S)\<rparr>"
      let ?q = "quarantineRow ?d (er_hash row) (inputOf env (documentEnvelopeHash X env) now q) wire'"
      have log: "getEnvelopeLog owner ?d T1 = getEnvelopeLog owner ?d (is_tables S) @ [?row]" "quarantineOf owner ?d T1 = quarantineOf owner ?d (is_tables S)"
        using log_append(1) [OF w(3)] quarantineOf_cong [OF log_append(3) [OF w(3)]] row(1) w(1) by simp_all
      have "getDocument owner ?d (is_tables S) \<noteq> None" using row(1) w(3) by (auto simp: appendEnvelope_def split: if_splits)
      then have d: "getDocument owner ?d T1 \<noteq> None" using getDocument_cong [OF log_append(4) [OF w(3)]] by simp
      have "er_hash row \<notin> er_hash ` set (getEnvelopeLog owner ?d (is_tables S))"
        using row(1) w(3) by (auto simp: appendEnvelope_def split: if_splits)
      then have "quarantineOf owner ?d (snd (holdQuarantined owner ?q T1)) = quarantineOf owner ?d T1 @ [?q]"
        using hold_new [of ?q owner T1] assms(3) d log(2) w(2) by (auto simp: quarantineRow_def)
      then have "quarantineOf owner ?d (is_tables S') = quarantineOf owner ?d (is_tables S) @ [?q]"
        using w(4) log(2) by (simp add: Let_def quarantineOf_def)
      moreover have "getEnvelopeLog owner ?d (is_tables S') = getEnvelopeLog owner ?d (is_tables S) @ [?row]"
        using w(4) log(1) by (simp add: Let_def)
      ultimately show ?thesis using row out(1) by (intro exI [of _ ?row] exI [of _ ?q]) (simp add: quarantineRow_def inputOf_def)
    next
      case 3
      then show ?thesis using out by (simp add: notNull_def)
    qed
  next
    case (3 env' doc live S1)
    then show ?thesis using admit_result(1) [OF 3(3)] by simp
  qed
  then have "replayDoc Y (getEnvelopeLog owner ?d (is_tables S')) = replayDoc Y (getEnvelopeLog owner ?d (is_tables S))"
    using replay_refusals [where es = "[row]" for row] by fastforce
  with * show ?thesis by blast
qed

section \<open>Three rounds\<close>

definition rounds_ok :: "string \<Rightarrow> DocumentTables \<Rightarrow> bool" where
  "rounds_ok owner T \<longleftrightarrow> (\<forall>d. roundOf owner d T \<le> MAX_REJECTED_ROUNDS \<and> (roundOf owner d T = MAX_REJECTED_ROUNDS \<longrightarrow> isStalled owner d T))"

lemma roundOf_append:
  assumes "appendEnvelope owner row T = (Inr True, T1)"
  shows "roundOf owner d T1 = roundOf owner d T + (if d = er_document row \<and> er_kind row = kind_rejection \<and> er_sender row = owner then 1 else 0)"
  using log_append(1) [OF assms] log_append(2) [OF assms, of owner d]
  by (cases "d = er_document row") (simp_all add: roundOf_def countRejections_def)

lemma isStalled_cong: "documents T' = documents T \<Longrightarrow> isStalled owner d T' = isStalled owner d T"
  by (simp add: isStalled_def getDocument_def)

lemma isStalled_status: "isStalled owner d T \<Longrightarrow> isStalled owner d (setDocumentStatus owner doc d_stalled T)"
  "getDocument owner doc T \<noteq> None \<Longrightarrow> isStalled owner doc (setDocumentStatus owner doc d_stalled T)"
proof -
  show "isStalled owner d T \<Longrightarrow> isStalled owner d (setDocumentStatus owner doc d_stalled T)"
    by (cases "d = doc"; cases "getDocument owner d T") (simp_all add: isStalled_def getDocument_status)
  show "getDocument owner doc T \<noteq> None \<Longrightarrow> isStalled owner doc (setDocumentStatus owner doc d_stalled T)"
    by (cases "getDocument owner doc T") (simp_all add: isStalled_def getDocument_status)
qed

lemma reject_rounds:
  assumes "reject X sign owner doc input T = (r, T')" and "rounds_ok owner T" and "\<not> isStalled owner doc T" and "ri_quarantined input \<noteq> []"
  shows "rounds_ok owner T'"
proof (cases rule: reject_cases [OF assms(1)])
  case 1
  then show ?thesis using assms(2) by simp
next
  case (2 row T1 wire)
  let ?T2 = "snd (holdQuarantined owner (quarantineRow doc (er_hash row) input wire) T1)"
  have row: "er_document row = doc" "er_kind row = kind_rejection" "er_sender row = owner" using 2(1) by (simp_all add: statementOf_def)
  have below: "roundOf owner doc T < MAX_REJECTED_ROUNDS" using assms(2,3) by (auto simp: rounds_ok_def le_less)
  have rounds: "roundOf owner d T' = roundOf owner d T1" for d
    using 2(4) by (simp add: Let_def roundOf_def countRejections_def)
  have up: "roundOf owner d T1 = roundOf owner d T + (if d = doc then 1 else 0)" for d
    using roundOf_append [OF 2(3), of d] row by simp
  have docs: "documents ?T2 = documents T" using log_append(4) [OF 2(3)] by simp
  have exists: "getDocument owner doc ?T2 \<noteq> None"
    using row(1) 2(3) getDocument_cong [OF docs] by (auto simp: appendEnvelope_def split: if_splits)
  have keeps: "isStalled owner d T'" if "isStalled owner d T" for d
    using 2(4) that isStalled_cong [OF docs, of owner d] isStalled_status(1) by (simp add: Let_def)
  have "isStalled owner doc T'" if "roundOf owner doc T + 1 = MAX_REJECTED_ROUNDS"
    using 2(4) that isStalled_status(2) [OF exists] by (auto simp: Let_def)
  then show ?thesis
    unfolding rounds_ok_def using assms(2) below keeps by (auto simp: rounds up rounds_ok_def)
next
  case 3
  then show ?thesis using assms(4) by simp
qed

text \<open>Refusing an empty update counts a round each time, holds nothing and never stalls the document.\<close>

lemma empty_refusal:
  assumes "reject X sign owner doc input T = (r, T')" and "ri_quarantined input = []"
  shows "T' = T \<or> roundOf owner doc T' = roundOf owner doc T + 1 \<and> r = notNull \<and>
    (\<forall>d. isStalled owner d T' = isStalled owner d T \<and> quarantineOf owner d T' = quarantineOf owner d T)"
proof (cases rule: reject_cases [OF assms(1)])
  case (3 row)
  then have "roundOf owner doc T' = roundOf owner doc T + 1" using roundOf_append [OF 3(3), of doc] by (simp add: statementOf_def)
  moreover have "isStalled owner d T' = isStalled owner d T \<and> quarantineOf owner d T' = quarantineOf owner d T" for d
    using isStalled_cong [OF log_append(4) [OF 3(3)]] quarantineOf_cong [OF log_append(3) [OF 3(3)]] by simp
  ultimately show ?thesis using 3(4) by blast
qed (use assms(2) in simp_all)

text \<open>An arrival that, when it can be read, carries a change.\<close>

definition carriesContent :: "externals \<Rightarrow> bytes \<Rightarrow> bool" where
  "carriesContent X wire \<longleftrightarrow>
     (case rbind (x_uncbor X wire) decodeDocumentUpdateEnvelope of Inl _ \<Rightarrow> True | Inr env \<Rightarrow> du_update env \<noteq> [])"

lemma receive_rounds:
  assumes "rounds_ok owner (is_tables S)" and "carriesContent X wire"
  shows "rounds_ok owner (is_tables (snd (receive X Y R D owner wire now S)))"
proof -
  obtain r S' where rs: "receive X Y R D owner wire now S = (r, S')" by fastforce
  show ?thesis
  proof (cases rule: receive_tables [OF rs])
    case 1
    then show ?thesis using assms rs by simp
  next
    case (2 env doc q r')
    have "ri_quarantined (inputOf env (documentEnvelopeHash X env) now q) \<noteq> []"
      using 2(1) assms(2) by (simp add: passed_def carriesContent_def inputOf_def)
    from reject_rounds [OF 2(3) assms(1) _ this] 2(1) show ?thesis by (simp add: rs passed_def)
  next
    case (3 env doc live S1)
    have "rounds_ok owner (is_tables S')"
    proof (cases owner "updateRow (documentEnvelopeHash X env) env now" "is_tables S1" rule: append_cases)
      case (written T1)
      have "is_tables S' = T1 \<or> (\<exists>p. is_tables S' = clearQuarantine owner (du_document_id env) p T1)"
        using 3(3) written by (auto simp: admitContent_def split: sum.splits option.splits)
      then have "roundOf owner d (is_tables S') = roundOf owner d T1" "documents (is_tables S') = documents T1" for d
        by (auto simp: roundOf_def countRejections_def)
      moreover have "roundOf owner d T1 = roundOf owner d (is_tables S)" "documents T1 = documents (is_tables S)" for d
        using roundOf_append [OF written, of d] log_append(4) [OF written] 3(2) by (simp_all add: updateRow_def)
      ultimately have "roundOf owner d (is_tables S') = roundOf owner d (is_tables S)"
          "isStalled owner d (is_tables S') = isStalled owner d (is_tables S)" for d
        by (simp_all add: isStalled_def getDocument_def)
      then show ?thesis using assms by (simp add: rounds_ok_def)
    next
      case known
      have "is_tables S' = is_tables S \<or> (\<exists>p. is_tables S' = clearQuarantine owner (du_document_id env) p (is_tables S))"
        using 3(2,3) known(1) by (auto simp: admitContent_def split: sum.splits option.splits)
      then have "roundOf owner d (is_tables S') = roundOf owner d (is_tables S)" "documents (is_tables S') = documents (is_tables S)" for d
        by (auto simp: roundOf_def countRejections_def)
      then have "roundOf owner d (is_tables S') = roundOf owner d (is_tables S)"
          "isStalled owner d (is_tables S') = isStalled owner d (is_tables S)" for d
        by (simp_all add: isStalled_def getDocument_def)
      then show ?thesis using assms by (simp add: rounds_ok_def)
    next
      case (failed e)
      then have "is_tables S' = is_tables S" using 3(2,3) by (auto simp: admitContent_def)
      then show ?thesis using assms by simp
    qed
    then show ?thesis by (simp add: rs)
  qed
qed

interpretation arrivals: machine "\<lambda>S (wire, now). if carriesContent X wire then snd (receive X Y R D owner wire now S) else S"
  "\<lambda>S. rounds_ok owner (is_tables S)" for X Y R D owner
proof unfold_locales
  fix S :: "'a InboundState" and e :: "bytes \<times> int"
  assume ok: "rounds_ok owner (is_tables S)"
  obtain wire now where "e = (wire, now)" by (cases e)
  then show "rounds_ok owner (is_tables (case e of (wire, now) \<Rightarrow> if carriesContent X wire then snd (receive X Y R D owner wire now S) else S))"
    using ok receive_rounds [OF ok] by simp
qed

lemma arrivals_with_content:
  assumes "\<forall>(wire, now) \<in> set arrivals. carriesContent X wire"
  shows "foldl (\<lambda>S (wire, now). if carriesContent X wire then snd (receive X Y R D owner wire now S) else S) S arrivals =
    foldl (\<lambda>S (wire, now). snd (receive X Y R D owner wire now S)) S arrivals"
  using assms by (induction arrivals arbitrary: S) auto

text \<open>C12: A document is refused at most three times. Over any sequence of arriving updates, handled one
  after the other, none of which is empty, a holder that starts with no refusals writes at most three
  statements of refusal for a document, and once it has written the third the document is stalled. (For
  an update with a zero-length change the refusal's statement is written and then the hold throws on the
  production driver, so those are counted without bound: \<open>empty_refusal\<close>.)\<close>

theorem refusals_are_bounded:
  assumes "\<And>d. countRejections owner d owner (is_tables S) = 0"
    and "\<forall>(wire, now) \<in> set arrivals. carriesContent X wire"
  shows "countRejections owner d owner (is_tables (foldl (\<lambda>S (wire, now). snd (receive X Y R D owner wire now S)) S arrivals)) \<le> 3 \<and>
    (countRejections owner d owner (is_tables (foldl (\<lambda>S (wire, now). snd (receive X Y R D owner wire now S)) S arrivals)) = 3 \<longrightarrow>
      isStalled owner d (is_tables (foldl (\<lambda>S (wire, now). snd (receive X Y R D owner wire now S)) S arrivals)))"
proof -
  have "rounds_ok owner (is_tables S)" using assms(1) by (simp add: rounds_ok_def roundOf_def MAX_REJECTED_ROUNDS_def)
  from arrivals.run_inv [of owner S X Y R D arrivals, OF this]
  show ?thesis
    by (simp add: arrivals_with_content [OF assms(2)] rounds_ok_def roundOf_def MAX_REJECTED_ROUNDS_def)
qed

theorem refusals_are_bounded_witness:
  "countRejections ''owner'' sample_doc ''owner'' (is_tables
     (foldl (\<lambda>S (wire, now). snd (receive peer_X sample_Y sample_R sample_D ''owner'' wire now S)) (sample_state []) [([1], 9), ([2], 10)])) \<le> 3"
proof -
  have "countRejections ''owner'' d ''owner'' (is_tables (sample_state [])) = 0" for d
    by (simp add: countRejections_def getEnvelopeLog_def sample_state_def emptyDocumentTables_def)
  moreover have "\<forall>(wire, now) \<in> set [([1], 9), ([2], 10 :: int)]. carriesContent peer_X wire" by (simp add: carriesContent_def)
  ultimately show ?thesis
    using refusals_are_bounded [of "''owner''" "sample_state []" "[([1], 9), ([2], 10)]" peer_X sample_doc sample_Y sample_R sample_D] by blast
qed

lemma consistent_returns:
  assumes "consistent env"
  shows "\<exists>h. documentRejectionHash X env = Inr h" "\<exists>w. encodeDocumentRejection env = Inr w"
    "\<exists>b. buildDocumentRejectionTbs X env True = Inr b"
  by (simp_all add: documentRejectionHash_def buildDocumentRejectionTbs_def encodeDocumentRejection_def assert_ok [OF assms] Let_def)

lemma reject_first:
  assumes "quarantineOf agent doc T = []" and "getEnvelopeLog agent doc T = []" and "getDocument agent doc T \<noteq> None"
    and "ri_reason input \<noteq> ''''" and "ri_detail input = None" and "\<And>b. sign agent b = Inr sig"
    and "sig \<noteq> []" and "ri_quarantined input \<noteq> []"
  shows "\<exists>out w. fst (reject X sign agent doc input T) = Inr out \<and> ro_wire out = Some w"
proof -
  let ?env = "\<lparr>rejection_version = DOCUMENT_REJECTION_VERSION, dr_document_id = doc, rejected_envelope_hash = ri_rejected input,
      rejecting_agent_id = agent, dr_reason = ri_reason input, dr_detail = None, dr_round = int (roundOf agent doc T + 1),
      rejected_at_ms = ri_now input, dr_signature = []\<rparr>"
  have b: "rejectBegin agent doc input T = Inr ?env" using assms(1,5) by (simp add: rejectBegin_def listQuarantined_def)
  have c: "consistent (?env\<lparr>dr_signature := s\<rparr>)" "consistent ?env" for s using assms(4) by (simp_all add: consistent_def)
  obtain h where h: "documentRejectionHash X (?env\<lparr>dr_signature := sig\<rparr>) = Inr h"
    using consistent_returns(1) [OF c(1)] by blast
  obtain w where w: "encodeDocumentRejection (?env\<lparr>dr_signature := sig\<rparr>) = Inr w"
    using consistent_returns(2) [OF c(1)] by blast
  let ?row = "rejectionRow doc h (?env\<lparr>dr_signature := sig\<rparr>) (lastEnvelopeHashBySender agent doc agent T)"
  obtain T1 where T1: "appendEnvelope agent ?row T = (Inr True, T1)"
    using append_returns [of ?row agent T] assms(2,3,7) by (auto simp: rejectionRow_def REJECTION_STATE_VECTOR_def)
  have q: "quarantineOf agent doc T1 = []" "getDocument agent doc T1 \<noteq> None"
    using log_append(3,4) [OF T1] assms(1,3) by (simp_all add: quarantineOf_def getDocument_def)
  then obtain T2 where T2: "holdQuarantined agent (quarantineRow doc h input w) T1 = (Inr True, T2)"
    using assms(8) by (auto simp: holdQuarantined_def quarantineRow_def)
  have "rbind (buildDocumentRejectionTbs X ?env True) (sign agent) = Inr sig"
    using consistent_returns(3) [OF c(2), of X] assms(6) by auto
  moreover have "fst (rejectEnd X agent doc input (?env\<lparr>dr_signature := sig\<rparr>) T) = Inr \<lparr>ro_stalled = int (roundOf agent doc T + 1) \<ge> int MAX_REJECTED_ROUNDS,
      ro_round = nat (int (roundOf agent doc T + 1)), ro_wire = Some w\<rparr>"
    unfolding rejectEnd_def h using T1 T2 w by (simp add: Let_def)
  ultimately show ?thesis unfolding reject_def b by simp
qed

text \<open>A gate with a rule that refuses everything.\<close>

definition strict_D :: inbound_deps where
  "strict_D = sample_D\<lparr>in_rules := [(''r'', \<lambda>_ _. Inr (Some (''no'', None)))]\<rparr>"

lemma sample_refuses:
  "\<exists>S' w. receive peer_X sample_Y sample_R strict_D ''owner'' [1] 9 (sample_state []) = (Inr (not_admitted (sample_hash 1) ''no'' (Some w)), S')"
proof -
  let ?S = "sample_state []" and ?e = "sample_update ''peer'' 1" and ?G = "gateContext ''owner'' (sample_update ''peer'' 1) sample_row (is_tables (sample_state []))"
  have p: "passed peer_X strict_D ''owner'' [1] ?S ?e sample_row"
    using sample_open by (simp add: passed_def) (simp add: refuseSender_def strict_D_def sample_D_def Let_def sample_row_def)
  have none: "chainRows ''owner'' sample_doc (is_tables ?S) = []" by (simp add: chainRows_def listQuarantined_def)
  have link: "verifyDocumentChainLink peer_X ?e (lastEnvelopeHashBySender ''owner'' sample_doc ''peer'' (is_tables ?S))
      (knownEnvelopeHashesBySender ''owner'' sample_doc ''peer'' (is_tables ?S)) = Inr False"
    by (simp add: lastEnvelopeHashBySender_def knownEnvelopeHashesBySender_def newestOf_def lastOf_def verifyDocumentChainLink_def)
  have "rebuildSnapshot ''owner'' sample_doc (replay sample_Y) (is_tables ?S) = Inr \<lparr>sn_binary = [], sn_vector = [0], lastAppliedIndex = -1\<rparr>"
    by (simp add: rebuildSnapshot_def verifyChainLinkage_def none add_all_def replay_def replayDoc_def lastOf_def) (simp add: sample_Y_def)
  moreover have "restore sample_Y [] = Inr [[]]" "startingContentFor strict_D ''owner'' sample_doc = None" "is_live ?S = []"
    by (simp_all add: restore_def sample_Y_def strict_D_def sample_D_def sample_state_def)
  ultimately have o: "openLive sample_Y (startingContentFor strict_D) ''owner'' sample_doc (is_tables ?S) (is_live ?S) =
      (Inr [[]], [((''owner'', sample_doc), [[]])])"
    by (simp add: openLive_def evictIfNeeded_def LIVE_DOC_CACHE_SIZE_def Let_def)
  have "7 \<in> set (senderClientIds ?G)" by (simp add: gateContext_def boundClientIds_def)
  then have "checkAuthorship sample_R d e ?G = None" for d e
    by (simp add: checkAuthorship_def unboundClients_def sample_R_def)
  then have "judgeTrial sample_Y sample_R DEFAULT_GATE_LIMITS (in_rules strict_D) [[]] [1, 1] ?G '''' [] [[], [1, 1]] =
      Inr (quarantine \<lparr>gq_reason = ''no'', gq_detail = None, gq_limit = None, gq_rule = Some ''r''\<rparr>)"
    by (simp add: judgeTrial_def Let_def gateContext_def propertyOf_def getProp_def)
      (simp add: sample_Y_def sample_R_def DEFAULT_GATE_LIMITS_def sample_row_def insertedText_def deletedCount_def strict_D_def
        changedKeysOf_def add_all_def deepestRoot_def countDeletions_def)
  then obtain recent where v: "validate sample_Y sample_R (in_limits strict_D) (in_rules strict_D) [[]] [1, 1] ?G 9 (is_recent ?S) =
      (quarantine \<lparr>gq_reason = ''no'', gq_detail = None, gq_limit = None, gq_rule = Some ''r''\<rparr>, recent)"
    by (simp add: validate_def validateBody_def sample_state_def)
      (simp add: strict_D_def sample_D_def DEFAULT_GATE_LIMITS_def gateContext_def windowOf_def sample_Y_def sample_R_def)
  let ?in = "inputOf ?e (sample_hash 1) 9 \<lparr>gq_reason = ''no'', gq_detail = None, gq_limit = None, gq_rule = Some ''r''\<rparr>"
  obtain r' T where rj: "reject peer_X (in_sign strict_D) ''owner'' sample_doc ?in (is_tables ?S) = (r', T)" by fastforce
  have "\<exists>out w. r' = Inr out \<and> ro_wire out = Some w"
    using reject_first [of "''owner''" sample_doc "is_tables ?S" ?in "in_sign strict_D" "[1]" peer_X] rj
    by (simp add: inputOf_def) (simp add: strict_D_def sample_D_def)
  then obtain out w where out: "r' = Inr out" "ro_wire out = Some w" by blast
  have "receive peer_X sample_Y sample_R strict_D ''owner'' [1] 9 ?S = refuseContent peer_X strict_D ''owner'' ?e (sample_hash 1) 9
      \<lparr>gq_reason = ''no'', gq_detail = None, gq_limit = None, gq_rule = Some ''r''\<rparr>
      (?S\<lparr>is_live := [((''owner'', sample_doc), [[]])], is_recent := recent\<rparr>)"
    by (simp add: receive_passed [OF p] link listQuarantined_def judgeContent_def o v)
  then show ?thesis using rj out by (auto simp: refuseContent_def inputOf_def)
qed

theorem refused_content_is_held_back_witness:
  "\<exists>S' w. receive peer_X sample_Y sample_R strict_D ''owner'' [1] 9 (sample_state []) = (Inr (not_admitted (sample_hash 1) ''no'' (Some w)), S') \<and>
    map qr_payload (quarantineOf ''owner'' sample_doc (is_tables S')) = [[1, 1]]"
proof -
  obtain S' w where r: "receive peer_X sample_Y sample_R strict_D ''owner'' [1] 9 (sample_state []) =
      (Inr (not_admitted (sample_hash 1) ''no'' (Some w)), S')" using sample_refuses by blast
  from refused_content_is_held_back [OF r, of "sample_update ''peer'' 1"] r show ?thesis by auto
qed

end
