(* ===== verification/Content_Publish.thy ===== *)
theory Content_Publish
  imports Content_Chain_Claims
begin

text \<open>Publishing one's own updates, and how it meets the refusals one has written.\<close>

section \<open>The end of one's own chain\<close>

lemma newestOf_Nil [simp]: "newestOf f [] = None"
  by (simp add: newestOf_def)

lemma own_head:
  assumes "\<forall>q \<in> set (quarantineOf owner doc T). qr_sender q \<noteq> owner"
  shows "lastEnvelopeHashBySender owner doc owner T =
    map_option er_hash (lastOf (filter (\<lambda>r. er_sender r = owner) (getEnvelopeLog owner doc T)))"
proof -
  have "filter (\<lambda>q. qr_sender q = owner) (quarantineOf owner doc T) = []" using assms by (simp add: filter_empty_conv)
  then show ?thesis by (simp add: lastEnvelopeHashBySender_def Let_def)
qed

lemma publishBegin_env:
  assumes "publishBegin Y P owner doc content T = Inr env"
  shows "du_document_id env = doc" "senderIdFor P owner = Some (sender_agent_id env)"
    "doc_prev_hash env = lastEnvelopeHashBySender owner doc (sender_agent_id env) T" "getDocument owner doc T \<noteq> None"
  using assms by (auto simp: publishBegin_def Let_def split: option.splits if_splits)

lemma hash_unsigned [simp]: "documentEnvelopeHash X (env\<lparr>du_signature := sig\<rparr>) = documentEnvelopeHash X env"
  by (simp add: documentEnvelopeHash_def buildDocumentUpdateTbs_def updatePreimage_def)

lemma reject_written:
  assumes "reject X sign owner doc input T = (Inr out, T')" and "ro_wire out \<noteq> None"
  obtains row where "getEnvelopeLog owner doc T' = getEnvelopeLog owner doc T @ [row]" "er_sender row = owner"
    "er_kind row = kind_rejection" "er_prev row = lastEnvelopeHashBySender owner doc owner T"
    "er_hash row \<notin> er_hash ` set (getEnvelopeLog owner doc T)"
proof (cases rule: reject_cases [OF assms(1)])
  case 1
  then show ?thesis using assms(2) by simp
next
  case (2 row T1 wire)
  have row: "er_document row = doc" "er_sender row = owner" "er_kind row = kind_rejection" "er_prev row = lastEnvelopeHashBySender owner doc owner T"
    "storedRow row = row" using 2(1) by (simp_all add: statementOf_def)
  have "er_hash row \<notin> er_hash ` set (getEnvelopeLog owner doc T)" using row(1) 2(3) by (auto simp: appendEnvelope_def split: if_splits)
  then show ?thesis
    by (intro that [of "row\<lparr>er_index := nextIndex owner doc T\<rparr>"]) (use row 2(4) log_append(1) [OF 2(3)] in \<open>simp_all add: Let_def\<close>)
next
  case (3 row)
  then show ?thesis using assms(1) by (simp add: notNull_def)
qed

text \<open>What a refusal received changes: not the chain as the receiver knows it.\<close>

lemma incoming_known:
  "knownEnvelopeHashesBySender o' d' s (snd (recordIncomingRejection agent doc input now T)) = knownEnvelopeHashesBySender o' d' s T"
proof -
  have "document_envelopes (snd (recordRejectionReceived agent row T)) = document_envelopes T \<and>
      document_quarantine (snd (recordRejectionReceived agent row T)) = document_quarantine T" for row
    by (simp add: recordRejectionReceived_def)
  then have "document_envelopes (snd (recordIncomingRejection agent doc input now T)) = document_envelopes T \<and>
      document_quarantine (snd (recordIncomingRejection agent doc input now T)) = document_quarantine T"
    by (auto simp: recordIncomingRejection_def Let_def setDocumentStatus_def split: prod.splits sum.splits)
       (metis snd_conv)+
  then show ?thesis by (simp add: knownEnvelopeHashesBySender_def getEnvelopeLog_def quarantineOf_def)
qed

section \<open>After a refusal of one's own\<close>

text \<open>C40: A holder that has refused an update cannot publish to the other side any more. The refusal is a row of
  its own chain, so its next update names the refusal as predecessor; the other holder is told of the
  refusal but keeps it outside the sender's chain, and turns the update away as broken, however often
  it is sent.\<close>

theorem refuser_cannot_publish:
  assumes "reject X sign a doc input T = (Inr out, T')" and "ro_wire out \<noteq> None"
    and "\<forall>q \<in> set (quarantineOf a doc T'). qr_sender q \<noteq> a"
    and "publishBegin Y P a doc content T' = Inr env" and "sender_agent_id env = a"
    and "is_tables S = snd (recordIncomingRejection b doc told now TB)"
    and "set (er_hash (last (getEnvelopeLog a doc T')) # [documentEnvelopeHash X env]) \<inter> set (knownEnvelopeHashesBySender b doc a TB) = {}"
    and "passed X D b wire S (env\<lparr>du_signature := sig\<rparr>) row"
  shows "receive X Y R D b wire later S = (Inr (turned_away ''document_chain_broken'' False), S)"
proof -
  obtain r where r: "getEnvelopeLog a doc T' = getEnvelopeLog a doc T @ [r]" "er_sender r = a"
    using reject_written [OF assms(1,2)] by metis
  note env = publishBegin_env [OF assms(4), unfolded assms(5)]
  have prev: "doc_prev_hash env = Some (er_hash r)"
    using env(3) own_head [OF assms(3)] r by (simp add: lastOf_def)
  have known: "knownEnvelopeHashesBySender b doc a (is_tables S) = knownEnvelopeHashesBySender b doc a TB"
    unfolding assms(6) by (rule incoming_known)
  have "verifyDocumentChainLink X (env\<lparr>du_signature := sig\<rparr>) hd_hash (knownEnvelopeHashesBySender b doc a (is_tables S)) =
      Inl (Error ''document_chain_broken'')" for hd_hash
    using assms(7) prev r(1) unfolding known by (auto simp: verifyDocumentChainLink_def)
  then show ?thesis using receive_passed [OF assms(8), of Y R later] env(1) assms(5) by simp
qed

section \<open>Publishing while a refusal is being signed\<close>

lemma one_chain_prev_inj:
  assumes "one_chain rows" and "e \<in> set rows" and "f \<in> set rows" and "er_prev e = er_prev f"
  shows "e = f"
proof -
  obtain es where es: "mset es = mset rows" "linked None es" "distinct (map er_hash es)" using assms(1) by (auto simp: one_chain_def)
  have in_es: "e \<in> set es" "f \<in> set es" using assms(2,3) es(1) by (metis mset_eq_setD)+
  show ?thesis
  proof (cases "er_prev e")
    case None
    obtain x xs where x: "es = x # xs" using in_es(1) by (cases es) auto
    have "y = x" if "y \<in> set es" "er_prev y = None" for y
      using that es(2) linked_some [of "er_hash x" xs y] by (auto simp: x)
    then show ?thesis using in_es None assms(4) by metis
  next
    case (Some h)
    then obtain c where c: "c \<in> set es" "h = er_hash c" using linked_prev_in [OF es(2) in_es(1)] by auto
    obtain xs ys where split: "es = xs @ c # ys" using c(1) by (meson split_list)
    have "filter (\<lambda>e. er_prev e = Some (er_hash c)) es = take 1 ys"
      using linked_children es(2,3) unfolding split by blast
    moreover have "e \<in> set (filter (\<lambda>e. er_prev e = Some (er_hash c)) es)" "f \<in> set (filter (\<lambda>e. er_prev e = Some (er_hash c)) es)"
      using in_es Some c(2) assms(4) by simp_all
    ultimately show ?thesis by (cases ys) auto
  qed
qed

text \<open>Publishing is not protected against a refusal. The predecessor of an update of one's own is read before
  the signature is waited for. When a refusal of this holder's is recorded in between, both name the
  same predecessor: the holder's own chain is forked, and the document cannot be opened again.\<close>

theorem publish_races_refusal:
  assumes "publishBegin Y P owner doc content T = Inr env" and "sender_agent_id env = owner"
    and "reject X sign owner doc input T = (Inr out, T1)" and "ro_wire out \<noteq> None"
    and "publishEnd X owner (env\<lparr>du_signature := sig\<rparr>) now T1 = (Inr (published h n), T2)"
  shows "\<exists>reason. rebuildSnapshot owner doc f T2 = Inl (Error reason)"
proof -
  obtain r where r: "getEnvelopeLog owner doc T1 = getEnvelopeLog owner doc T @ [r]" "er_sender r = owner"
      "er_prev r = lastEnvelopeHashBySender owner doc owner T"
    using reject_written [OF assms(3,4)] by metis
  note env = publishBegin_env [OF assms(1), unfolded assms(2)]
  let ?row = "updateRow (documentEnvelopeHash X env) (env\<lparr>du_signature := sig\<rparr>) now"
  have ap: "appendEnvelope owner ?row T1 = (Inr True, T2)"
    using assms(5) by (cases "appendEnvelope owner ?row T1") (auto simp: publishEnd_def Let_def split: sum.splits bool.splits)
  let ?new = "(storedRow ?row)\<lparr>er_index := nextIndex owner doc T1\<rparr>"
  have log: "getEnvelopeLog owner doc T2 = getEnvelopeLog owner doc T @ [r, ?new]"
    using log_append(1) [OF ap] r(1) env(1) by (simp add: updateRow_def)
  have same: "er_prev ?new = er_prev r" "er_sender ?new = owner" using r(3) env(3) assms(2) by (simp_all add: updateRow_def)
  have "er_hash ?new \<notin> er_hash ` set (getEnvelopeLog owner doc T1)"
    using ap env(1) by (auto simp: appendEnvelope_def updateRow_def split: if_splits)
  then have "?new \<noteq> r" using r(1) by auto
  have in_rows: "r \<in> set (chainRows owner doc T2)" "?new \<in> set (chainRows owner doc T2)" by (auto simp: chainRows_def log)
  have "verifyChainLinkage owner doc T2 \<noteq> chain_ok"
  proof
    assume "verifyChainLinkage owner doc T2 = chain_ok"
    then have "one_chain (filter (\<lambda>e. er_sender e = owner) (chainRows owner doc T2))"
      unfolding linkage_ok using in_rows(1) r(2) by (auto simp: filter_empty_conv)
    from one_chain_prev_inj [OF this, of ?new r] show False using in_rows r(2) same \<open>?new \<noteq> r\<close> by simp
  qed
  then show ?thesis by (rule unopenable)
qed

section \<open>An instance of both\<close>

definition peer_tables :: DocumentTables where
  "peer_tables = emptyDocumentTables\<lparr>documents := [sample_row\<lparr>dw_owner := ''peer'', dw_peer := ''owner''\<rparr>]\<rparr>"

definition peer_refusal :: RejectionInput where
  "peer_refusal = \<lparr>ri_rejected = sample_hash 1, ri_quarantined = [1], ri_prev = None, ri_reason = ''no'', ri_detail = None,
     ri_sender = ''owner'', ri_rule = None, ri_limit = None, ri_now = 3\<rparr>"

definition peer_P :: publish_deps where
  "peer_P = \<lparr>governanceFrontierFor = (\<lambda>_ _. Some []), senderIdFor = Some, mayPublish = (\<lambda>_ _. None),
     holdersFor = (\<lambda>_ _. Some []), pb_sign = (\<lambda>_ _. Inr [1]), pb_client = 7\<rparr>"

lemma peer_tables_simps [simp]:
  "getEnvelopeLog ''peer'' sample_doc peer_tables = []" "quarantineOf ''peer'' sample_doc peer_tables = []"
  "getDocument ''peer'' sample_doc peer_tables = Some (sample_row\<lparr>dw_owner := ''peer'', dw_peer := ''owner''\<rparr>)"
  by (simp_all add: peer_tables_def emptyDocumentTables_def getEnvelopeLog_def quarantineOf_def getDocument_def sample_row_def)

lemma peer_refuses:
  obtains out T' row q where "reject peer_X (\<lambda>_ _. Inr [1]) ''peer'' sample_doc peer_refusal peer_tables = (Inr out, T')" "ro_wire out \<noteq> None"
    "getEnvelopeLog ''peer'' sample_doc T' = [row]" "er_sender row = ''peer''" "er_kind row = kind_rejection" "er_hash row = sample_hash 9"
    "quarantineOf ''peer'' sample_doc T' = [q]" "qr_sender q = ''owner''"
    "getDocument ''peer'' sample_doc T' = Some (sample_row\<lparr>dw_owner := ''peer'', dw_peer := ''owner''\<rparr>)"
proof -
  have "\<exists>out w. fst (reject peer_X (\<lambda>_ _. Inr [1]) ''peer'' sample_doc peer_refusal peer_tables) = Inr out \<and> ro_wire out = Some w"
    by (rule reject_first [where sig = "[1]"]) (simp_all add: peer_refusal_def)
  then obtain out w T' where rj: "reject peer_X (\<lambda>_ _. Inr [1]) ''peer'' sample_doc peer_refusal peer_tables = (Inr out, T')" "ro_wire out = Some w"
    by (metis prod.collapse)
  have h: "documentRejectionHash peer_X e = Inr g \<Longrightarrow> g = sample_hash 9" for e g
    by (auto simp: documentRejectionHash_def buildDocumentRejectionTbs_def peer_X_def rejectionPreimage_def sample_hash_def rbind_Inr_conv Let_def)
  show thesis
  proof (cases rule: reject_cases [OF rj(1)])
    case 1
    then show thesis using rj(2) by simp
  next
    case (2 row T1 wire)
    have row: "er_document row = sample_doc" "er_sender row = ''peer''" "er_kind row = kind_rejection" "storedRow row = row"
      using 2(1) by (simp_all add: statementOf_def)
    let ?q = "quarantineRow sample_doc (er_hash row) peer_refusal wire"
    have r: "roundOf ''peer'' sample_doc peer_tables = 0" by (simp add: roundOf_def countRejections_def)
    have T': "T' = snd (holdQuarantined ''peer'' ?q T1)" using 2(4) r by (simp add: Let_def MAX_REJECTED_ROUNDS_def)
    have d: "documents T1 = documents peer_tables" using log_append(4) [OF 2(3)] .
    then have doc: "getDocument ''peer'' sample_doc T1 = Some (sample_row\<lparr>dw_owner := ''peer'', dw_peer := ''owner''\<rparr>)"
      using getDocument_cong [OF d] by simp
    have "quarantineOf ''peer'' sample_doc T1 = []" using quarantineOf_cong [OF log_append(3) [OF 2(3)]] by simp
    then have q: "quarantineOf ''peer'' sample_doc T' = [?q]"
      using hold_new [of ?q "''peer''" T1] doc T' by (simp add: quarantineRow_def peer_refusal_def)
    have l: "getEnvelopeLog ''peer'' sample_doc T' = [row\<lparr>er_index := nextIndex ''peer'' sample_doc peer_tables\<rparr>]"
      using log_append(1) [OF 2(3)] row(1,4) T' by simp
    have g: "getDocument ''peer'' sample_doc T' = Some (sample_row\<lparr>dw_owner := ''peer'', dw_peer := ''owner''\<rparr>)"
      using doc T' getDocument_cong [of T' T1] by simp
    have hash: "er_hash row = sample_hash 9" using 2(1) h by (auto simp: statementOf_def)
    show thesis
      by (rule that [OF rj(1) _ l _ _ _ q _ g]) (use rj(2) row hash in \<open>simp_all add: quarantineRow_def peer_refusal_def\<close>)
  next
    case (3 row)
    then show thesis using rj(1) by (simp add: notNull_def)
  qed
qed

lemma peer_publishes:
  assumes "getDocument ''peer'' sample_doc T = Some (sample_row\<lparr>dw_owner := ''peer'', dw_peer := ''owner''\<rparr>)"
    and "\<forall>r \<in> set (getEnvelopeLog ''peer'' sample_doc T). er_kind r = kind_rejection"
  shows "publishBegin sample_Y peer_P ''peer'' sample_doc [[n, n]] T =
    Inr ((sample_update ''peer'' n)\<lparr>doc_prev_hash := lastEnvelopeHashBySender ''peer'' sample_doc ''peer'' T, du_signature := []\<rparr>)"
proof -
  have "filter (\<lambda>r. er_sender r = p \<and> er_kind r = kind_update) (getEnvelopeLog ''peer'' sample_doc T) = []" for p
    using assms(2) by (auto simp: filter_empty_conv)
  then show ?thesis
    by (simp add: publishBegin_def assms(1) peer_P_def peerStateVector_def lastPublishedStateVector_def lastOf_def Let_def
        sample_Y_def sample_row_def sample_update_def)
qed

theorem publish_races_refusal_witness:
  "\<exists>T1 T2 out reason. reject peer_X (\<lambda>_ _. Inr [1]) ''peer'' sample_doc peer_refusal peer_tables = (Inr out, T1) \<and>
    publishEnd peer_X ''peer'' (sample_update ''peer'' 1) 4 T1 = (Inr (published (sample_hash 1) 2), T2) \<and>
    rebuildSnapshot ''peer'' sample_doc (replay sample_Y) T2 = Inl (Error reason)"
proof (rule peer_refuses)
  fix out T' row q
  assume rj: "reject peer_X (\<lambda>_ _. Inr [1]) ''peer'' sample_doc peer_refusal peer_tables = (Inr out, T')" "ro_wire out \<noteq> None"
    and log: "getEnvelopeLog ''peer'' sample_doc T' = [row]" "er_hash row = sample_hash 9"
    and d: "getDocument ''peer'' sample_doc T' = Some (sample_row\<lparr>dw_owner := ''peer'', dw_peer := ''owner''\<rparr>)"
  have "lastEnvelopeHashBySender ''peer'' sample_doc ''peer'' peer_tables = None"
    by (simp add: lastEnvelopeHashBySender_def lastOf_def)
  then have p: "publishBegin sample_Y peer_P ''peer'' sample_doc [[1, 1]] peer_tables = Inr ((sample_update ''peer'' 1)\<lparr>du_signature := []\<rparr>)"
    using peer_publishes [of peer_tables 1] by (simp add: sample_update_def)
  obtain T2 where "appendEnvelope ''peer'' (updateRow (sample_hash 1) (sample_update ''peer'' 1) 4) T' = (Inr True, T2)"
    using append_returns [of "updateRow (sample_hash 1) (sample_update ''peer'' 1) 4" "''peer''" T'] d log by (auto simp: updateRow_def)
  moreover have s: "(sample_update ''peer'' 1)\<lparr>du_signature := []\<rparr>\<lparr>du_signature := [1]\<rparr> = sample_update ''peer'' 1" by (simp add: sample_update_def)
  ultimately have e: "publishEnd peer_X ''peer'' ((sample_update ''peer'' 1)\<lparr>du_signature := []\<rparr>\<lparr>du_signature := [1]\<rparr>) 4 T' = (Inr (published (sample_hash 1) 2), T2)"
    unfolding s by (simp add: publishEnd_def)
  from publish_races_refusal [OF p _ rj e] rj(1) e show ?thesis unfolding s by fastforce
qed

theorem refuser_cannot_publish_witness:
  "\<exists>T' S out. reject peer_X (\<lambda>_ _. Inr [1]) ''peer'' sample_doc peer_refusal peer_tables = (Inr out, T') \<and>
    publishBegin sample_Y peer_P ''peer'' sample_doc [[10, 10]] T' = Inr ((sample_update ''peer'' 10)\<lparr>du_signature := []\<rparr>) \<and>
    receive peer_X sample_Y sample_R sample_D ''owner'' [10] 9 S = (Inr (turned_away ''document_chain_broken'' False), S)"
proof (rule peer_refuses)
  fix out T' row q
  assume rj: "reject peer_X (\<lambda>_ _. Inr [1]) ''peer'' sample_doc peer_refusal peer_tables = (Inr out, T')" "ro_wire out \<noteq> None"
    and log: "getEnvelopeLog ''peer'' sample_doc T' = [row]" "er_sender row = ''peer''" "er_kind row = kind_rejection" "er_hash row = sample_hash 9"
    and q: "quarantineOf ''peer'' sample_doc T' = [q]" "qr_sender q = ''owner''"
    and d: "getDocument ''peer'' sample_doc T' = Some (sample_row\<lparr>dw_owner := ''peer'', dw_peer := ''owner''\<rparr>)"
  have own: "\<forall>q \<in> set (quarantineOf ''peer'' sample_doc T'). qr_sender q \<noteq> ''peer''" using q by simp
  have "lastEnvelopeHashBySender ''peer'' sample_doc ''peer'' T' = Some (sample_hash 9)"
    using own_head [OF own] log by (simp add: lastOf_def)
  then have p: "publishBegin sample_Y peer_P ''peer'' sample_doc [[10, 10]] T' = Inr ((sample_update ''peer'' 10)\<lparr>du_signature := []\<rparr>)"
    using peer_publishes [OF d, of 10] log by (simp add: sample_update_def)
  let ?told = "\<lparr>ir_rejection = sample_hash 9, ir_rejected = sample_hash 1, ir_reason = ''no'', ir_detail = None, ir_from = ''peer''\<rparr>"
  let ?T = "snd (recordIncomingRejection ''owner'' sample_doc ?told 5 (is_tables (sample_state [])))"
  let ?S = "(sample_state [])\<lparr>is_tables := ?T\<rparr>"
  have docs: "documents ?T = documents (is_tables (sample_state []))"
    by (simp add: recordIncomingRejection_def recordRejectionReceived_def receivedOf_def sample_state_def emptyDocumentTables_def
        getDocument_def sample_row_def countRejectionsReceived_def MAX_REJECTED_ROUNDS_def)
  have "passed peer_X sample_D ''owner'' [10] ?S ((sample_update ''peer'' 10)\<lparr>du_signature := []\<rparr>\<lparr>du_signature := [1]\<rparr>) sample_row"
    using getDocument_cong [OF docs] isStalled_cong [OF docs] sample_open
    by (simp add: passed_def) (simp add: sample_update_def refuseSender_def Let_def sample_D_def sample_row_def)
  moreover have "knownEnvelopeHashesBySender ''owner'' sample_doc ''peer'' (is_tables (sample_state [])) = []"
    by (simp add: knownEnvelopeHashesBySender_def)
  ultimately have "receive peer_X sample_Y sample_R sample_D ''owner'' [10] 9 ?S = (Inr (turned_away ''document_chain_broken'' False), ?S)"
    by (intro refuser_cannot_publish [OF rj own p, where TB = "is_tables (sample_state [])" and told = ?told and now = 5])
      (simp_all add: sample_update_def)
  with rj(1) p show ?thesis by blast
qed

end
