(* ===== verification/Content_Gate_Claims.thy ===== *)
theory Content_Gate_Claims
  imports Content_Samples
begin

text \<open>
  What the gate of \<open>document-gate.ts\<close> lets through: the checks an admitted update has passed, the exactness of
  the nesting walk that stops early, and the rate at which one sender's updates are admitted.
\<close>

section \<open>The nesting walk\<close>

definition greatest :: "nat list \<Rightarrow> nat" where
  "greatest xs = Max (insert 0 (set xs))"

text \<open>How deep types nest below a type, by recursion.\<close>

fun nesting :: "ytype \<Rightarrow> nat" where
  "nesting (ytype ns) = greatest (map (\<lambda>n. Suc (nesting n)) ns)"

lemma greatest_simps [simp]:
  "greatest [] = 0" "greatest (x # xs) = max x (greatest xs)" "greatest (xs @ ys) = max (greatest xs) (greatest ys)"
  "greatest (rev xs) = greatest xs"
proof -
  show cons: "greatest (x # xs) = max x (greatest xs)" for x xs
    unfolding greatest_def by (simp add: insert_commute [of 0 x])
  show "greatest (xs @ ys) = max (greatest xs) (greatest ys)"
    by (induction xs) (simp_all add: cons max.assoc, simp add: greatest_def)
qed (simp_all add: greatest_def)

lemma greatest_offset: "max d (greatest (map (\<lambda>n. Suc d + f n) ns)) = d + greatest (map (\<lambda>n. Suc (f n)) ns)"
  by (induction ns) (simp_all add: max.left_commute)

definition deepest :: "(ytype \<times> nat) list \<Rightarrow> nat" where
  "deepest stack = greatest (map (\<lambda>(n, depth). depth + nesting n) stack)"

lemma deepest_pushed: "max d (deepest (map (\<lambda>n. (n, d + 1)) ns)) = d + nesting (ytype ns)"
  using greatest_offset [of d nesting ns] by (simp add: deepest_def o_def)

lemma deepestLoop_exact:
  assumes "sum_list (map (typeCount \<circ> fst) stack) \<le> fuel" and "d \<le> bail"
  shows "\<exists>r. deepestLoop fuel bail d stack = Some r \<and> (r \<le> bail \<longleftrightarrow> max d (deepest stack) \<le> bail) \<and>
    (r \<le> bail \<longrightarrow> r = max d (deepest stack))"
  using assms
proof (induction fuel bail d stack rule: deepestLoop.induct)
  case (1 fuel bail d)
  then show ?case by (simp add: deepest_def)
next
  case (2 bail d x stack)
  obtain ns depth where "x = (ytype ns, depth)" by (cases x; cases "fst x") simp
  then show ?case using 2 by simp
next
  case (3 fuel bail d ns depth stack)
  let ?d = "max d depth" and ?pushed = "rev (map (\<lambda>n. (n, depth + 1)) ns)"
  have all: "max d (deepest ((ytype ns, depth) # stack)) = max ?d (deepest (?pushed @ stack))"
    using deepest_pushed [of depth ns] by (simp add: deepest_def rev_map [symmetric] max.assoc max.left_commute del: nesting.simps)
  have over: "\<not> max d (deepest ((ytype ns, depth) # stack)) \<le> bail" if "bail < ?d"
    using that unfolding all by (metis max.bounded_iff not_le)
  show ?case
  proof (cases "bail < ?d")
    case True
    then have "deepestLoop (Suc fuel) bail d ((ytype ns, depth) # stack) = Some ?d" by (simp add: Let_def)
    then show ?thesis using over [OF True] True by (metis not_le)
  next
    case False
    have fuel: "sum_list (map (typeCount \<circ> fst) (?pushed @ stack)) \<le> fuel"
      using 3(2) by (simp add: rev_map [symmetric] sum_list_rev o_def)
    have le: "d \<le> bail" "depth \<le> bail" using False by auto
    from 3(1) [OF refl False fuel] show ?thesis unfolding all by (simp add: Let_def le False)
  qed
qed

lemma walk_exact:
  "deepestLoop (sum_list (map typeCount roots)) limit 0 (rev (map (\<lambda>r. (r, 0)) roots)) = Some (deepestRoot roots limit) \<and>
   (limit < deepestRoot roots limit \<longleftrightarrow> limit < greatest (map nesting roots)) \<and>
   min (deepestRoot roots limit) (Suc limit) = min (greatest (map nesting roots)) (Suc limit)"
proof -
  have m: "deepest (rev (map (\<lambda>r. (r, 0)) roots)) = greatest (map nesting roots)"
    by (simp add: deepest_def rev_map [symmetric] o_def)
  have "sum_list (map (typeCount \<circ> fst) (rev (map (\<lambda>r. (r, 0)) roots))) \<le> sum_list (map typeCount roots)"
    by (simp add: rev_map [symmetric] sum_list_rev o_def)
  from deepestLoop_exact [OF this, of 0 limit] show ?thesis
    unfolding m deepestRoot_def by auto
qed

text \<open>C15: The bounded walk over a document's nested types, which stops as soon as it is past the limit it
  enforces, says \<open>too deep\<close> exactly when the recursive measure is above the limit, and otherwise
  returns that measure; and it does so within as many steps as there are types.\<close>

theorem nesting_walk_is_exact:
  "deepestLoop (sum_list (map typeCount roots)) limit 0 (rev (map (\<lambda>r. (r, 0)) roots)) = Some (deepestRoot roots limit) \<and>
   (limit < deepestRoot roots limit \<longleftrightarrow> limit < greatest (map nesting roots)) \<and>
   min (deepestRoot roots limit) (Suc limit) = min (greatest (map nesting roots)) (Suc limit)"
  by (rule walk_exact)

section \<open>What an admitted update has passed\<close>

lemma firstRefusal_admit: "firstRefusal rules diff ctx = Inr (admit d) \<longleftrightarrow> d = diff \<and> (\<forall>(name, rule) \<in> set rules. rule diff ctx = Inr None)"
proof (induction rules)
  case (Cons r rules)
  then show ?case by (cases r; cases "snd r diff ctx") (auto split: option.splits)
qed auto

lemma never_admit [simp]: "refuseWith r d \<noteq> admit diff" "refuseLimit r n l a \<noteq> admit diff" "admit diff \<noteq> refuseWith r d" "admit diff \<noteq> refuseLimit r n l a"
  by (simp_all add: refuseWith_def refuseLimit_def)

lemma judgeTrial_admit:
  assumes "judgeTrial Y R L rules accepted update ctx beforeText beforeData shadow = Inr (admit diff)"
  shows "\<not> pending Y shadow" and "\<exists>c. y_canonical R update = Inr c \<and> length update \<le> length c"
    and "unboundClients R accepted shadow (senderClientIds ctx) = []"
    and "length (y_state Y shadow) \<le> maxDocumentBytes L" and "resultingBytes diff = length (y_state Y shadow)"
    and "deepestRoot (y_roots R shadow) (maxNestingDepth L) \<le> maxNestingDepth L"
    and "appendOnly ctx \<Longrightarrow> countDeletions R update = 0"
    and "inserted diff = insertedText R update" and "\<forall>(name, rule) \<in> set rules. rule diff ctx = Inr None"
  using assms
  by (auto simp: judgeTrial_def pending_def checkAuthorship_def rbind_Inr_conv firstRefusal_admit Let_def
      split: if_splits sum.splits list.splits)

lemma validate_admit:
  assumes "validate Y R L rules accepted update ctx now recent = (admit diff, recent')"
  obtains shadow before t b where "2 \<le> length update" "length update \<le> maxUpdateBytes L"
    "declaredEncoding ctx = Some DOCUMENT_UPDATE_ENCODING_V1" "declaredDocumentId ctx = Some (gc_document ctx)"
    "length (windowOf recent (gc_sender ctx) now) < maxUpdatesPerMinute L"
    "recent' = dropStale now (AList.update (gc_sender ctx) (windowOf recent (gc_sender ctx) now @ [now]) recent)"
    "y_apply Y (y_new Y) (y_state Y accepted) = Inr before" "y_apply Y before update = Inr shadow"
    "judgeTrial Y R L rules accepted update ctx t b shadow = Inr (admit diff)"
  using assms
  by (auto simp: validate_def validateBody_def Let_def rbind_Inr_conv not_less not_le split: sum.split_asm if_splits prod.splits) (metis obj_sumE)

text \<open>C13: Nothing gets past the gate unexamined. An admitted update is of admissible length, declares the accepted
  encoding and this document, and its sender is below the rate; tried on a copy of the accepted content
  it leaves nothing unresolved, moves no client's clock except those bound to the sender, stays within
  the size of a document and the depth of nesting, deletes nothing where only appending is allowed, and
  every registered rule has passed it.\<close>

theorem gate_admits_only_examined:
  assumes "validate Y R L rules accepted update ctx now recent = (admit diff, recent')"
  shows "2 \<le> length update \<and> length update \<le> maxUpdateBytes L \<and>
    declaredEncoding ctx = Some DOCUMENT_UPDATE_ENCODING_V1 \<and> declaredDocumentId ctx = Some (gc_document ctx) \<and>
    length (windowOf recent (gc_sender ctx) now) < maxUpdatesPerMinute L \<and>
    (\<exists>before shadow. y_apply Y (y_new Y) (y_state Y accepted) = Inr before \<and> y_apply Y before update = Inr shadow \<and>
      \<not> pending Y shadow \<and>
      (\<forall>(client, clock) \<in> set (y_clocks R shadow). client \<notin> set (senderClientIds ctx) \<longrightarrow>
        clock \<le> (case map_of (y_clocks R accepted) client of None \<Rightarrow> 0 | Some n \<Rightarrow> n)) \<and>
      length (y_state Y shadow) \<le> maxDocumentBytes L \<and> greatest (map nesting (y_roots R shadow)) \<le> maxNestingDepth L) \<and>
    (appendOnly ctx \<longrightarrow> countDeletions R update = 0) \<and>
    inserted diff = insertedText R update \<and> (\<forall>(name, rule) \<in> set rules. rule diff ctx = Inr None)"
proof (rule validate_admit [OF assms])
  fix shadow before t b
  assume v: "2 \<le> length update" "length update \<le> maxUpdateBytes L" "declaredEncoding ctx = Some DOCUMENT_UPDATE_ENCODING_V1"
      "declaredDocumentId ctx = Some (gc_document ctx)" "length (windowOf recent (gc_sender ctx) now) < maxUpdatesPerMinute L"
      "y_apply Y (y_new Y) (y_state Y accepted) = Inr before" "y_apply Y before update = Inr shadow"
    and j: "judgeTrial Y R L rules accepted update ctx t b shadow = Inr (admit diff)"
  note trial = judgeTrial_admit [OF j]
  have "greatest (map nesting (y_roots R shadow)) \<le> maxNestingDepth L"
    using walk_exact [of "y_roots R shadow" "maxNestingDepth L"] trial(6) by (simp add: not_less [symmetric])
  moreover have "\<forall>(client, clock) \<in> set (y_clocks R shadow). client \<notin> set (senderClientIds ctx) \<longrightarrow>
      clock \<le> (case map_of (y_clocks R accepted) client of None \<Rightarrow> 0 | Some n \<Rightarrow> n)"
    using trial(3) by (force simp: unboundClients_def Let_def filter_empty_conv not_less)
  ultimately show ?thesis using v trial(1,4,7-9) by blast
qed

theorem gate_admits_only_examined_witness:
  "\<exists>diff recent. validate sample_Y sample_R DEFAULT_GATE_LIMITS [] [] [1, 1]
     (gateContext ''owner'' (sample_update ''peer'' 1) sample_row (is_tables (sample_state []))) 9 [] = (admit diff, recent) \<and>
     inserted diff = insertedText sample_R [1, 1]"
proof -
  let ?ctx = "gateContext ''owner'' (sample_update ''peer'' 1) sample_row (is_tables (sample_state []))"
  have "\<exists>diff recent. validate sample_Y sample_R DEFAULT_GATE_LIMITS [] [] [1, 1] ?ctx 9 [] = (admit diff, recent)"
    by (simp add: validate_def validateBody_def DEFAULT_GATE_LIMITS_def gateContext_def sample_update_def windowOf_def sample_Y_def
        sample_R_def judgeTrial_def checkAuthorship_def unboundClients_def boundClientIds_def insertedText_def Let_def
        deepestRoot_def countDeletions_def changedKeysOf_def deletedCount_def)
  then obtain diff recent where v: "validate sample_Y sample_R DEFAULT_GATE_LIMITS [] [] [1, 1] ?ctx 9 [] = (admit diff, recent)" by blast
  from gate_admits_only_examined [OF v] v show ?thesis by blast
qed

section \<open>The rate of one sender\<close>

text \<open>The updates admitted in a run of the gate, one after the other, with their senders and times.\<close>

fun admissions ::
  "'d yjs \<Rightarrow> 'd yjs_reads \<Rightarrow> GateLimits \<Rightarrow> (string \<times> GateRule) list \<Rightarrow> ('d \<times> bytes \<times> GateContext \<times> int) list \<Rightarrow> recent \<Rightarrow>
   (string \<times> int) list" where
  "admissions Y R L rules [] recent = []"
| "admissions Y R L rules ((accepted, update, ctx, now) # calls) recent =
     (case validate Y R L rules accepted update ctx now recent of
        (admit diff, recent') \<Rightarrow> (gc_sender ctx, now) # admissions Y R L rules calls recent'
      | (quarantine q, recent') \<Rightarrow> admissions Y R L rules calls recent')"

definition inMinute :: "string \<Rightarrow> int \<Rightarrow> (string \<times> int) list \<Rightarrow> (string \<times> int) list" where
  "inMinute sender t log = filter (\<lambda>(s, x). s = sender \<and> x \<le> t \<and> t - x < 60000) log"

definition window_inv :: "nat \<Rightarrow> int \<Rightarrow> recent \<Rightarrow> (string \<times> int) list \<Rightarrow> bool" where
  "window_inv cap clock recent log \<longleftrightarrow> distinct (map fst recent) \<and>
     (\<forall>s ts. map_of recent s = Some ts \<longrightarrow> sorted ts \<and> (\<forall>x \<in> set ts. x \<le> clock)) \<and> (\<forall>(s, x) \<in> set log. x \<le> clock) \<and>
     (\<forall>s t. clock \<le> t \<longrightarrow> length (inMinute s t log) \<le> length (windowOf recent s t)) \<and>
     (\<forall>s t. length (inMinute s t log) \<le> cap)"

lemma windowOf_update: "windowOf (AList.update s ts recent) s' t = (if s' = s then filter (\<lambda>x. t - x < 60000) ts else windowOf recent s' t)"
  by (simp add: windowOf_def update_conv')

lemma windowOf_again: "now \<le> t \<Longrightarrow> filter (\<lambda>x. t - x < 60000) (windowOf recent s now) = windowOf recent s t"
  by (auto simp: windowOf_def intro: filter_cong)

lemma map_of_filter_key_value:
  assumes "distinct (map fst recent)"
  shows "map_of (filter keep recent) s = Option.bind (map_of recent s) (\<lambda>ts. if keep (s, ts) then Some ts else None)"
  using assms by (induction recent) (auto split: bind_splits simp: map_of_eq_None_iff image_iff)

lemma sorted_upto_last: "sorted xs \<Longrightarrow> x \<in> set xs \<Longrightarrow> x \<le> last xs"
  by (induction xs) (auto split: if_splits)

lemma dropStale_facts:
  assumes "distinct (map fst recent)" and "\<forall>s ts. map_of recent s = Some ts \<longrightarrow> sorted ts"
  shows "distinct (map fst (dropStale now recent))" and "map_of (dropStale now recent) s = Some ts \<Longrightarrow> map_of recent s = Some ts"
    and "now \<le> t \<Longrightarrow> windowOf (dropStale now recent) s t = windowOf recent s t"
proof -
  show "distinct (map fst (dropStale now recent))" using assms(1) by (simp add: dropStale_def distinct_map_filter)
  show "map_of (dropStale now recent) s = Some ts \<Longrightarrow> map_of recent s = Some ts"
    by (auto simp: dropStale_def map_of_filter_key_value [OF assms(1)] split: bind_splits if_splits)
  have "filter (\<lambda>x. t - x < 60000) ts = []" if "now \<le> t" "sorted ts" "60000 < now - last ts" for ts
    using that sorted_upto_last [OF that(2)] by (fastforce simp: filter_empty_conv)
  then show "windowOf (dropStale now recent) s t = windowOf recent s t" if "now \<le> t"
    using that assms(2) by (force simp: windowOf_def dropStale_def map_of_filter_key_value [OF assms(1)] split: option.splits bind_splits)
qed

lemma validate_recent:
  assumes "validate Y R L rules accepted update ctx now recent = (v, recent')"
  obtains (same) "recent' = recent" "\<And>d. v \<noteq> admit d"
  | (over) "recent' = AList.update (gc_sender ctx) (windowOf recent (gc_sender ctx) now) recent" "\<And>d. v \<noteq> admit d"
  | (counted) "recent' = dropStale now (AList.update (gc_sender ctx) (windowOf recent (gc_sender ctx) now @ [now]) recent)"
      "length (windowOf recent (gc_sender ctx) now) < maxUpdatesPerMinute L"
proof -
  obtain b where b: "validateBody Y R L rules accepted update ctx now recent = (b, recent')"
      "v = (case b of Inl e \<Rightarrow> refuseWith ''document_gate_rule_failed'' (messageOf e) | Inr v \<Rightarrow> v)"
    using assms by (auto simp: validate_def split: prod.splits sum.splits)
  let ?w = "windowOf recent (gc_sender ctx) now"
  consider "recent' = recent" "\<And>d. v \<noteq> admit d" | "recent' = AList.update (gc_sender ctx) ?w recent" "\<And>d. v \<noteq> admit d"
    | "recent' = dropStale now (AList.update (gc_sender ctx) (?w @ [now]) recent)" "length ?w < maxUpdatesPerMinute L"
    using b by (auto simp: validateBody_def Let_def not_le split: if_splits)
  then show thesis
  proof cases
    case 1
    then show thesis by (rule same)
  next
    case 2
    then show thesis by (rule over)
  next
    case 3
    then show thesis by (rule counted)
  qed
qed

lemma inMinute_append: "inMinute s t (log @ log') = inMinute s t log @ inMinute s t log'"
  by (simp add: inMinute_def)

lemma window_inv_later:
  assumes "window_inv cap clock recent log" and "clock \<le> now"
  shows "window_inv cap now recent log"
  using assms unfolding window_inv_def by (fastforce intro: order_trans)

lemma window_inv_update:
  assumes inv: "window_inv cap now recent log" and extra: "extra \<in> {[], [now]}"
    and log': "log' = log \<or> log' = log @ [(s, now)] \<and> extra = [now] \<and> length (windowOf recent s now) < cap"
  shows "window_inv cap now (AList.update s (windowOf recent s now @ extra) recent) log'"
proof -
  let ?r = "AList.update s (windowOf recent s now @ extra) recent"
  note inv = inv [unfolded window_inv_def]
  have w: "sorted (windowOf recent s now)" "\<forall>x \<in> set (windowOf recent s now). x \<le> now"
    using inv by (auto simp: windowOf_def split: option.splits intro: sorted_wrt_filter)
  then have "sorted (windowOf recent s now @ extra) \<and> (\<forall>x \<in> set (windowOf recent s now @ extra). x \<le> now)"
    using extra by (auto simp: sorted_append)
  then have times: "map_of ?r s' = Some ts \<Longrightarrow> sorted ts \<and> (\<forall>x \<in> set ts. x \<le> now)" for s' ts
    using inv by (auto simp: update_conv' split: if_splits)
  have grows: "windowOf ?r s' t = windowOf recent s' t @ (if s' = s then filter (\<lambda>x. t - x < 60000) extra else [])" if "now \<le> t" for s' t
    using windowOf_again [OF that] by (simp add: windowOf_update)
  have fits: "length (inMinute s' t log') \<le> length (windowOf ?r s' t)" if "now \<le> t" for s' t
    using inv that log' by (auto simp: grows [OF that] inMinute_append inMinute_def intro: trans_le_add1)
  have shrinks: "length (windowOf recent s t) \<le> length (windowOf recent s now)" if "now \<le> t" for t
    unfolding windowOf_again [OF that, symmetric] by simp
  have cap: "length (inMinute s' t log') \<le> cap" for s' t
  proof (cases "log' \<noteq> log \<and> s' = s \<and> now \<le> t \<and> t - now < 60000")
    case True
    then have "length (inMinute s' t log') = Suc (length (inMinute s t log))" "length (windowOf recent s now) < cap"
      using log' by (auto simp: inMinute_append inMinute_def)
    moreover have "length (inMinute s t log) \<le> length (windowOf recent s t)" using inv True by blast
    ultimately show ?thesis using shrinks [of t] True by linarith
  next
    case False
    then have "inMinute s' t log' = inMinute s' t log" using log' by (auto simp: inMinute_append inMinute_def)
    then show ?thesis using inv by simp
  qed
  have "\<forall>(s, x) \<in> set log'. x \<le> now" using inv log' by auto
  then show ?thesis unfolding window_inv_def using times fits cap inv by (simp add: distinct_update)
qed

lemma window_inv_drop:
  assumes "window_inv cap now recent log"
  shows "window_inv cap now (dropStale now recent) log"
proof -
  note inv = assms [unfolded window_inv_def]
  then have "distinct (map fst recent)" "\<forall>s ts. map_of recent s = Some ts \<longrightarrow> sorted ts" by blast+
  note facts = dropStale_facts [OF this]
  have "\<forall>s ts. map_of (dropStale now recent) s = Some ts \<longrightarrow> sorted ts \<and> (\<forall>x \<in> set ts. x \<le> now)"
    using inv facts(2) by metis
  then show ?thesis unfolding window_inv_def using inv facts(1,3) by (simp del: map_of_eq_Some_iff)
qed

lemma admissions_capped:
  assumes "window_inv (maxUpdatesPerMinute L) clock recent log" and "sorted (clock # map (\<lambda>(_, _, _, now). now) calls)"
  shows "length (inMinute s t (log @ admissions Y R L rules calls recent)) \<le> maxUpdatesPerMinute L"
  using assms
proof (induction calls arbitrary: clock recent log)
  case Nil
  then show ?case by (simp add: window_inv_def)
next
  case (Cons c calls)
  obtain accepted update ctx now where c: "c = (accepted, update, ctx, now)" by (cases c)
  obtain v recent' where v: "validate Y R L rules accepted update ctx now recent = (v, recent')" by fastforce
  have inv: "window_inv (maxUpdatesPerMinute L) now recent log" using Cons.prems c by (auto intro: window_inv_later)
  have rest: "sorted (now # map (\<lambda>(_, _, _, now). now) calls)" using Cons.prems(2) c by simp
  let ?log = "case v of admit _ \<Rightarrow> log @ [(gc_sender ctx, now)] | quarantine _ \<Rightarrow> log"
  have "window_inv (maxUpdatesPerMinute L) now recent' ?log"
  proof (cases rule: validate_recent [OF v])
    case 1
    then show ?thesis using inv by (cases v) auto
  next
    case 2
    then show ?thesis using window_inv_update [OF inv, of "[]" log] by (cases v) auto
  next
    case 3
    then show ?thesis using window_inv_drop [OF window_inv_update [OF inv, of "[now]"]] by (cases v) auto
  qed
  from Cons.IH [OF this rest] show ?case by (cases v) (simp_all add: c v)
qed

text \<open>C14: No sender gets more than its rate past the gate. However many updates arrive, from whatever senders and
  on whatever documents, as long as the clock does not run backwards, the updates of one sender that are
  admitted within any sixty seconds are at most \<open>maxUpdatesPerMinute\<close>; forgetting idle senders does not
  let any more through.\<close>

theorem admissions_are_rate_limited:
  assumes "sorted (map (\<lambda>(_, _, _, now). now) calls)"
  shows "length (filter (\<lambda>(s, x). s = sender \<and> x \<le> t \<and> t - x < 60000) (admissions Y R L rules calls [])) \<le> maxUpdatesPerMinute L"
proof (cases calls)
  case (Cons c rest)
  obtain a u ctx now where c: "c = (a, u, ctx, now)" by (cases c)
  have "window_inv (maxUpdatesPerMinute L) now [] []" by (simp add: window_inv_def inMinute_def)
  from admissions_capped [OF this, of calls sender t Y R rules] assms show ?thesis
    by (simp add: Cons c inMinute_def)
qed simp

definition sample_call :: "int \<Rightarrow> bytes list \<times> bytes \<times> GateContext \<times> int" where
  "sample_call now = ([], [1, 1], gateContext ''owner'' (sample_update ''peer'' 1) sample_row (is_tables (sample_state [])), now)"

theorem admissions_are_rate_limited_witness:
  "length (filter (\<lambda>(s, x). s = ''peer'' \<and> x \<le> 9 \<and> 9 - x < 60000)
     (admissions sample_Y sample_R (DEFAULT_GATE_LIMITS\<lparr>maxUpdatesPerMinute := 1\<rparr>) [] [sample_call 8, sample_call 9] [])) \<le> 1"
  using admissions_are_rate_limited [of "[sample_call 8, sample_call 9]" "''peer''" 9 sample_Y sample_R
      "DEFAULT_GATE_LIMITS\<lparr>maxUpdatesPerMinute := 1\<rparr>" "[]"]
  by (simp add: sample_call_def)

end
