(* ===== verification/Content_Typed.thy ===== *)
theory Content_Typed
  imports Content_Chain_Claims Content_Gate_Claims
begin

text \<open>
  What a holder's log contains, whatever arrives: the types of the rows \<open>receive\<close> of \<open>document-inbound.ts\<close>
  writes into the table of \<open>document-store.ts\<close>.
\<close>

definition typed_row :: "GateLimits \<Rightarrow> DocumentEnvelopeRow \<Rightarrow> bool" where
  "typed_row L row \<longleftrightarrow>
     (case er_kind row of
        kind_update \<Rightarrow> HEX32 (er_document row) \<and> (\<forall>p. er_prev row = Some p \<longrightarrow> HEX32 p) \<and> er_sender row \<noteq> '''' \<and>
          (\<exists>u. er_payload row = Some u \<and> 2 \<le> length u \<and> length u \<le> maxUpdateBytes L) \<and> er_client row \<noteq> None \<and>
          length (er_parents row) \<le> 64 \<and> (\<forall>h \<in> set (er_parents row). HEX32 h) \<and> strictlyAscending (er_parents row)
      | _ \<Rightarrow> er_payload row = None)"

definition typed_log :: "GateLimits \<Rightarrow> string \<Rightarrow> DocumentTables \<Rightarrow> bool" where
  "typed_log L owner T \<longleftrightarrow> (\<forall>d. \<forall>row \<in> set (getEnvelopeLog owner d T). typed_row L row)"

lemma typed_index [simp]: "typed_row L (row\<lparr>er_index := i\<rparr>) = typed_row L row"
  by (cases "er_kind row") (simp_all add: typed_row_def)

lemma typed_stored [simp]: "typed_row L row \<Longrightarrow> storedRow row = row"
  by (rule storedRow_simps) (auto simp: typed_row_def split: DocumentEnvelopeKind.splits)

lemma typed_append:
  assumes "typed_log L owner T" and "typed_row L row"
  shows "typed_log L owner (snd (appendEnvelope owner row T))"
proof (cases owner row T rule: append_cases)
  case (written T1)
  have "typed_row L r" if "r \<in> set (getEnvelopeLog owner d T1)" for d r
    using that log_append(1) [OF written] log_append(2) [OF written, of owner d] assms
    by (cases "d = er_document row") (auto simp: typed_log_def)
  then show ?thesis by (simp add: written typed_log_def)
qed (use assms in auto)

lemma typed_same: "(\<And>d. getEnvelopeLog owner d T' = getEnvelopeLog owner d T) \<Longrightarrow> typed_log L owner T' = typed_log L owner T"
  by (simp add: typed_log_def)

lemma typed_reject:
  assumes "reject X sign owner doc input T = (r, T')" and "typed_log L owner T"
  shows "typed_log L owner T'"
proof (cases rule: reject_cases [OF assms(1)])
  case 1
  then show ?thesis using assms(2) by simp
next
  case (2 row T1 wire)
  have "typed_log L owner T1" using typed_append [OF assms(2), of row] 2(1,3) by (simp add: typed_row_def statementOf_def)
  moreover have "getEnvelopeLog owner d T' = getEnvelopeLog owner d T1" for d using 2(4) by (simp add: Let_def)
  ultimately show ?thesis using typed_same [of owner T' T1] by simp
next
  case (3 row)
  then show ?thesis using typed_append [OF assms(2), of row] by (simp add: typed_row_def statementOf_def)
qed

lemma typed_update:
  assumes "update_wf env" and "2 \<le> length (du_update env)" and "length (du_update env) \<le> maxUpdateBytes L"
  shows "typed_row L (updateRow h env now)"
  using assms by (simp add: typed_row_def updateRow_def update_wf_def)

lemma typed_receive:
  assumes "typed_log (in_limits D) owner (is_tables S)"
  shows "typed_log (in_limits D) owner (is_tables (snd (receive X Y R D owner wire now S)))"
proof -
  obtain r S' where rs: "receive X Y R D owner wire now S = (r, S')" by fastforce
  have "typed_log (in_limits D) owner (is_tables S')"
  proof (cases rule: receive_tables [OF rs])
    case 1
    then show ?thesis using assms by simp
  next
    case (2 env doc q r')
    then show ?thesis using typed_reject assms by blast
  next
    case (3 env doc live S1 diff recent)
    let ?row = "updateRow (documentEnvelopeHash X env) env now"
    have "update_wf env" using 3(1) update_frame.decode_wf by (auto simp: passed_def rbind_Inr_conv)
    moreover have "2 \<le> length (du_update env) \<and> length (du_update env) \<le> maxUpdateBytes (in_limits D)"
      by (rule validate_admit [OF 3(4)]) simp
    ultimately have "typed_log (in_limits D) owner (snd (appendEnvelope owner ?row (is_tables S)))"
      using typed_append [OF assms] typed_update by blast
    moreover have "getEnvelopeLog owner d (is_tables S') = getEnvelopeLog owner d (snd (appendEnvelope owner ?row (is_tables S)))" for d
      using 3(2,3) by (auto simp: admitContent_def split: sum.splits prod.splits option.splits)
    ultimately show ?thesis using typed_same by metis
  qed
  then show ?thesis by (simp add: rs)
qed

interpretation typed_arrivals: machine "\<lambda>S (wire, now). snd (receive X Y R D owner wire now S)"
  "\<lambda>S. typed_log (in_limits D) owner (is_tables S)" for X Y R D owner
proof unfold_locales
  fix S :: "'a InboundState" and e :: "bytes \<times> int"
  assume ok: "typed_log (in_limits D) owner (is_tables S)"
  obtain wire now where "e = (wire, now)" by (cases e)
  then show "typed_log (in_limits D) owner (is_tables (case e of (wire, now) \<Rightarrow> snd (receive X Y R D owner wire now S)))"
    using typed_receive [OF ok] by simp
qed

text \<open>C16: Whatever arrives, the log stays well typed. Starting from a log of such rows and handling any bytes in
  any order, every row of kind update has a document id and predecessors in 32-byte hex, a sender, a
  client, a payload between two bytes and the limit, and at most 64 governance parents in strictly
  ascending order; every row of another kind has no payload, so that no replay applies it.\<close>

theorem log_stays_well_typed:
  assumes "\<And>d row. row \<in> set (getEnvelopeLog owner d (is_tables S)) \<Longrightarrow> typed_row (in_limits D) row"
    and "row \<in> set (getEnvelopeLog owner d (is_tables (foldl (\<lambda>S (wire, now). snd (receive X Y R D owner wire now S)) S arrivals)))"
  shows "typed_row (in_limits D) row"
proof -
  have "typed_log (in_limits D) owner (is_tables S)" using assms(1) by (simp add: typed_log_def)
  from typed_arrivals.run_inv [of D owner S X Y R arrivals, OF this] assms(2) show ?thesis by (auto simp: typed_log_def)
qed

theorem log_stays_well_typed_witness:
  "\<exists>row. row \<in> set (getEnvelopeLog ''owner'' sample_doc (is_tables
      (foldl (\<lambda>S (wire, now). snd (receive peer_X sample_Y sample_R sample_D ''owner'' wire now S)) (sample_state [sample_refusal]) [([2], 9)]))) \<and>
    typed_row DEFAULT_GATE_LIMITS row \<and> er_kind row = kind_update"
proof -
  obtain S' where r: "receive peer_X sample_Y sample_R sample_D ''owner'' [2] 9 (sample_state [sample_refusal]) =
      (Inr (admitted (sample_hash 2) False), S')" using sample_supersession by blast
  obtain row where row: "row \<in> set (getEnvelopeLog ''owner'' sample_doc (is_tables S'))" "er_kind row = kind_update"
  proof (rule admitted_judged [OF r])
    fix env doc live L diff recent
    assume p: "passed peer_X sample_D ''owner'' [2] (sample_state [sample_refusal]) env doc"
      and a: "admitContent sample_Y ''owner'' env (sample_hash 2) 9 live ((sample_state [sample_refusal])\<lparr>is_live := L, is_recent := recent\<rparr>) =
        (Inr (admitted (sample_hash 2) False), S')"
    have "env = sample_update ''peer'' 2" using p by (simp add: passed_def)
    then show thesis using admit_result(2) [OF a] by (intro that [of "updateRow (sample_hash 2) env 9\<lparr>er_index :=
        nextIndex ''owner'' sample_doc (is_tables (sample_state [sample_refusal]))\<rparr>"]) (simp_all add: updateRow_def)
  qed
  have "typed_row (in_limits sample_D) row"
    by (rule log_stays_well_typed [where S = "sample_state [sample_refusal]" and owner = "''owner''" and arrivals = "[([2], 9)]"
        and X = peer_X and Y = sample_Y and R = sample_R and d = sample_doc])
      (use row r in \<open>auto simp: getEnvelopeLog_def sample_state_def emptyDocumentTables_def\<close>)
  then show ?thesis using row r by (auto simp: sample_D_def)
qed

end
