(* ===== verification/Document_Proposal.thy ===== *)
theory Document_Proposal
  imports Document_Amendment
begin

text \<open>
  \<open>core/protocol-types/src/document-proposal.ts\<close>: the proposal that starts a document. Its hash is the
  document's id, its properties are agreed by accepting it, and every holder derives the document's
  state from it.
\<close>

section \<open>Data\<close>

definition DOCUMENT_PROPOSAL_DOMAIN :: string where "DOCUMENT_PROPOSAL_DOMAIN = ''CELLO-DOCUMENT-PROPOSAL-v1''"
definition PROPOSAL_FEATURE_VERSION :: int where "PROPOSAL_FEATURE_VERSION = 2"
definition ASSURANCE_TIER_V1 :: string where "ASSURANCE_TIER_V1 = ''authenticated''"
definition SUPPORTED_TOPOLOGIES :: "string list" where "SUPPORTED_TOPOLOGIES = [''mesh'', ''hub-and-spoke'']"

record DocumentProperties =
  assurance_tier :: string
  schema_enforcement :: bool
  topology :: string
  append_only :: bool
  content_profile :: "string option"
  admin_set :: "string list option"

record DocumentProposalEnvelope =
  feature_version :: int
  proposer_agent_id :: string
  peer_agent_id :: string
  document_type :: string
  dp_properties :: DocumentProperties
  starting_content :: "bytes option"
  dp_nonce :: bytes
  proposed_at_ms :: int
  dp_signature :: bytes

section \<open>The identity of a document\<close>

definition proposalError :: "string \<Rightarrow> 'a js" where
  "proposalError code = Inl (Error (''document_proposal_'' @ code))"

definition canonicalAdminSet :: "string list \<Rightarrow> string list js" where
  "canonicalAdminSet admins =
     (let s = sort admins in
      if list_all HEX32 s \<and> distinct_adj s then Inr s else proposalError ''admin_set'')"

definition proposalPreimage :: "DocumentProposalEnvelope \<Rightarrow> jsval js" where
  "proposalPreimage env =
     (let p = dp_properties env in
      rbind (case admin_set p of None \<Rightarrow> Inr JNull
        | Some admins \<Rightarrow> rbind (canonicalAdminSet admins) (\<lambda>s. Inr (JText (join '','' s)))) (\<lambda>admins.
      Inr (JArray
        [JText DOCUMENT_PROPOSAL_DOMAIN, JInt (feature_version env), JText (proposer_agent_id env),
         JText (peer_agent_id env), JText (document_type env), JText (assurance_tier p), JBool (schema_enforcement p),
         JText (topology p), JBool (append_only p), nullable JText (content_profile p), admins,
         nullable JBytes (starting_content env), JBytes (dp_nonce env),
         (if proposed_at_ms env > 0xffffffff then JBigInt (proposed_at_ms env) else JInt (proposed_at_ms env))])))"

definition buildDocumentProposalTbs :: "externals \<Rightarrow> DocumentProposalEnvelope \<Rightarrow> bool \<Rightarrow> bytes js" where
  "buildDocumentProposalTbs X env preHash =
     rbind (proposalPreimage env) (\<lambda>v.
       let preimage = x_cbor X v in Inr (if \<not> preHash then preimage else x_sha X preimage))"

definition documentIdFromProposal :: "externals \<Rightarrow> DocumentProposalEnvelope \<Rightarrow> string js" where
  "documentIdFromProposal X env =
     rbind (buildDocumentProposalTbs X env False) (\<lambda>b. Inr (bytesToHex (x_sha X b)))"

section \<open>What this version can agree to\<close>

text \<open>The reason's code; \<open>None\<close> is \<open>null\<close>. A profile that is not a string is no value of the record.\<close>

definition seamViolation :: "DocumentProperties \<Rightarrow> string option" where
  "seamViolation p =
     (if assurance_tier p \<noteq> ASSURANCE_TIER_V1 then Some ''document_seam_assurance_tier''
      else if schema_enforcement p then Some ''document_seam_schema_enforcement''
      else case (case admin_set p of
          None \<Rightarrow> None
        | Some admins \<Rightarrow>
            if admins = [] then Some ''document_proposal_admin_set''
            else case canonicalAdminSet admins of Inl _ \<Rightarrow> Some ''document_proposal_admin_set'' | Inr _ \<Rightarrow> None) of
        Some reason \<Rightarrow> Some reason
      | None \<Rightarrow> if topology p \<notin> set SUPPORTED_TOPOLOGIES then Some ''document_seam_topology'' else None)"

definition documentFeatureIncompatibility :: "int option \<Rightarrow> string option" where
  "documentFeatureIncompatibility peer =
     (case peer of
        None \<Rightarrow> Some ''no shared documents''
      | Some v \<Rightarrow>
          if v > PROPOSAL_FEATURE_VERSION then Some ''upgrade this client''
          else if v < PROPOSAL_FEATURE_VERSION then Some ''ask them to upgrade''
          else None)"

section \<open>The wire form\<close>

definition encodeDocumentProposal :: "DocumentProposalEnvelope \<Rightarrow> jsval js" where
  "encodeDocumentProposal env =
     (let p = dp_properties env in
      rbind (case admin_set p of None \<Rightarrow> Inr []
        | Some admins \<Rightarrow> rbind (canonicalAdminSet admins) (\<lambda>s. Inr [(''admin_set'', JArray (map JText s))])) (\<lambda>admins.
      Inr (JObject
        [(''type'', JText ''document_proposal''), (''feature_version'', JInt (feature_version env)),
         (''proposer_agent_id'', JText (proposer_agent_id env)), (''peer_agent_id'', JText (peer_agent_id env)),
         (''document_type'', JText (document_type env)),
         (''properties'', JObject
           ([(''assurance_tier'', JText (assurance_tier p)), (''schema_enforcement'', JBool (schema_enforcement p)),
             (''topology'', JText (topology p)), (''append_only'', JBool (append_only p))] @
            (case content_profile p of None \<Rightarrow> [] | Some s \<Rightarrow> [(''content_profile'', JText s)]) @ admins)),
         (''starting_content'', nullable JBytes (starting_content env)), (''nonce'', JBytes (dp_nonce env)),
         (''proposed_at_ms'', JInt (proposed_at_ms env)), (''signature'', JBytes (dp_signature env))])))"

definition dpp :: string where "dpp = ''document_proposal''"

fun featureVal :: "jsval \<Rightarrow> int js" where
  "featureVal (JInt i) = (if i < 1 then proposalError ''feature_version'' else Inr i)"
| "featureVal _ = proposalError ''feature_version''"

fun boolVal :: "jsval \<Rightarrow> bool js" where
  "boolVal (JBool b) = Inr b"
| "boolVal _ = fieldType dpp"

fun adminsVal :: "jsval \<Rightarrow> string list option js" where
  "adminsVal JUndefined = Inr None"
| "adminsVal (JArray vs) = (if vs = [] then fieldType dpp else
     rbind (rmap (\<lambda>v. case v of JText s \<Rightarrow> Inr s | _ \<Rightarrow> fieldType dpp) vs) (\<lambda>ss. Inr (Some ss)))"
| "adminsVal _ = fieldType dpp"

fun profileVal :: "jsval \<Rightarrow> string option js" where
  "profileVal JUndefined = Inr None"
| "profileVal (JText s) = (if s = '''' then fieldType dpp else Inr (Some s))"
| "profileVal _ = fieldType dpp"

fun contentVal :: "jsval \<Rightarrow> bytes option js" where
  "contentVal JNull = Inr None"
| "contentVal (JBytes b) = Inr (Some b)"
| "contentVal _ = fieldType dpp"

fun proposedVal :: "jsval \<Rightarrow> int js" where
  "proposedVal (JInt i) = Inr i"
| "proposedVal _ = fieldType dpp"

fun canonicalAdmins :: "string list option \<Rightarrow> string list option js" where
  "canonicalAdmins None = Inr None"
| "canonicalAdmins (Some ss) = rbind (canonicalAdminSet ss) (\<lambda>s. Inr (Some s))"

definition decodeDocumentProposal :: "jsval \<Rightarrow> DocumentProposalEnvelope js" where
  "decodeDocumentProposal decoded =
     (case asObject decoded of None \<Rightarrow> proposalError ''malformed'' | Some m \<Rightarrow>
      rbind (str dpp m ''type'') (\<lambda>type.
      if type \<noteq> ''document_proposal'' then proposalError ''type'' else
      rbind (rbind (present dpp m ''feature_version'') featureVal) (\<lambda>version.
      rbind (present dpp m ''properties'') (\<lambda>raw.
      case asObject raw of None \<Rightarrow> proposalError ''properties'' | Some p \<Rightarrow>
      rbind (rbind (present dpp p ''schema_enforcement'') boolVal) (\<lambda>schema.
      rbind (rbind (present dpp p ''append_only'') boolVal) (\<lambda>appends.
      rbind (adminsVal (getProp p ''admin_set'')) (\<lambda>admins.
      rbind (profileVal (getProp p ''content_profile'')) (\<lambda>profile.
      rbind (rbind (present dpp m ''starting_content'') contentVal) (\<lambda>starting.
      rbind (rbind (present dpp m ''proposed_at_ms'') proposedVal) (\<lambda>proposed.
      rbind (str dpp m ''proposer_agent_id'') (\<lambda>proposer.
      rbind (str dpp m ''peer_agent_id'') (\<lambda>peer.
      rbind (str dpp m ''document_type'') (\<lambda>doctype.
      rbind (str dpp p ''assurance_tier'') (\<lambda>tier.
      rbind (str dpp p ''topology'') (\<lambda>topo.
      rbind (canonicalAdmins admins) (\<lambda>canonical.
      rbind (bytesField dpp m ''nonce'') (\<lambda>nonce.
      rbind (bytesField dpp m ''signature'') (\<lambda>sig.
      Inr \<lparr>feature_version = version, proposer_agent_id = proposer, peer_agent_id = peer, document_type = doctype,
        dp_properties = \<lparr>assurance_tier = tier, schema_enforcement = schema, topology = topo, append_only = appends,
          content_profile = profile, admin_set = canonical\<rparr>,
        starting_content = starting, dp_nonce = nonce, proposed_at_ms = proposed, dp_signature = sig\<rparr>))))))))))))))))))"

definition arrangementGenesisFromProposal :: "externals \<Rightarrow> DocumentProposalEnvelope \<Rightarrow> ArrangementGenesis js" where
  "arrangementGenesisFromProposal X env =
     (let p = dp_properties env in
      rbind (documentIdFromProposal X env) (\<lambda>doc.
      Inr \<lparr>documentId = doc, proposerAgentId = proposer_agent_id env, peerAgentId = peer_agent_id env,
        adminSet = (case admin_set p of None \<Rightarrow> [proposer_agent_id env, peer_agent_id env] | Some s \<Rightarrow> s),
        g_properties =
          [(''assurance_tier'', JText (assurance_tier p)), (''schema_enforcement'', JBool (schema_enforcement p)),
           (''topology'', JText (topology p)), (''append_only'', JBool (append_only p))] @
          (case content_profile p of None \<Rightarrow> [] | Some s \<Rightarrow> [(''content_profile'', JText s)])\<rparr>))"

section \<open>The codec\<close>

definition canonical_admins :: "string list \<Rightarrow> bool" where
  "canonical_admins s \<longleftrightarrow> sorted s \<and> distinct s \<and> (\<forall>a \<in> set s. HEX32 a)"

definition proposal_wf :: "DocumentProposalEnvelope \<Rightarrow> bool" where
  "proposal_wf env \<longleftrightarrow>
     (let p = dp_properties env in
      1 \<le> feature_version env \<and> proposer_agent_id env \<noteq> '''' \<and> peer_agent_id env \<noteq> '''' \<and> document_type env \<noteq> '''' \<and>
      assurance_tier p \<noteq> '''' \<and> topology p \<noteq> '''' \<and> content_profile p \<noteq> Some '''' \<and>
      (\<forall>s. admin_set p = Some s \<longrightarrow> s \<noteq> [] \<and> canonical_admins s))"

lemma canonicalAdminSet_Inr: "canonicalAdminSet admins = Inr s \<longleftrightarrow> s = sort admins \<and> distinct admins \<and> (\<forall>a \<in> set admins. HEX32 a)"
  by (auto simp: canonicalAdminSet_def proposalError_def Let_def distinct_adj_sorted list_all_iff)

lemma canonicalAdminSet_canonical [simp]: "canonical_admins s \<Longrightarrow> canonicalAdminSet s = Inr s"
  by (simp add: canonicalAdminSet_Inr canonical_admins_def sorted_sort_id)

lemma featureVal_Inr [simp]: "featureVal v = Inr i \<longleftrightarrow> v = JInt i \<and> 1 \<le> i"
  by (cases v) (auto simp: proposalError_def)

lemma boolVal_Inr [simp]: "boolVal v = Inr b \<longleftrightarrow> v = JBool b"
  by (cases v) (auto simp: fieldType_def)

lemma profileVal_nonempty: "profileVal v = Inr p \<Longrightarrow> p \<noteq> Some ''''"
  by (cases v) (auto simp: fieldType_def split: if_splits)

lemma contentVal_back [simp]: "contentVal (nullable JBytes c) = Inr c"
  by (cases c) auto

lemma proposedVal_Inr [simp]: "proposedVal v = Inr i \<longleftrightarrow> v = JInt i"
  by (cases v) (auto simp: fieldType_def)

lemma adminsVal_back [simp]: "s \<noteq> [] \<Longrightarrow> adminsVal (JArray (map JText s)) = Inr (Some s)"
  by (simp add: rmap_decode)

lemma adminsVal_nonempty: "adminsVal v = Inr p \<Longrightarrow> p \<noteq> Some []"
  by (cases v) (auto simp: fieldType_def rbind_Inr_conv split: if_splits, metis length_0_conv rmap_length)

lemma canonicalAdmins_wf: "canonicalAdmins admins = Inr (Some s) \<Longrightarrow> admins \<noteq> Some [] \<Longrightarrow> s \<noteq> [] \<and> canonical_admins s"
  by (cases admins) (auto simp: rbind_Inr_conv canonicalAdminSet_Inr canonical_admins_def dest: arg_cong [where f = length])

lemma admins_read: "adminsVal v = Inr a \<Longrightarrow> canonicalAdmins a = Inr (Some s) \<Longrightarrow> s \<noteq> [] \<and> canonical_admins s"
  using canonicalAdmins_wf adminsVal_nonempty by blast

lemma str_back [simp]: "map_of m f = Some (JText s) \<Longrightarrow> s \<noteq> '''' \<Longrightarrow> str p m f = Inr s"
  by (simp add: str_def present_def)

interpretation proposal_frame: frame_codec encodeDocumentProposal decodeDocumentProposal proposal_wf
proof unfold_locales
  fix env assume wf: "proposal_wf env"
  let ?p = "dp_properties env"
  have profile: "profileVal (getProp (case content_profile ?p of None \<Rightarrow> [] | Some s \<Rightarrow> [(''content_profile'', JText s)]) ''content_profile'') = Inr (content_profile ?p)"
    using wf by (auto simp: getProp_def proposal_wf_def Let_def split: option.split)
  show "rbind (encodeDocumentProposal env) decodeDocumentProposal = Inr env"
    using wf by (cases "admin_set ?p"; cases "content_profile ?p")
      (simp_all add: encodeDocumentProposal_def decodeDocumentProposal_def proposal_wf_def Let_def present_def bytesField_def getProp_def
        del: adminsVal.simps(2))
next
  fix v env assume "decodeDocumentProposal v = Inr env"
  then show "proposal_wf env"
    by (clarsimp simp: decodeDocumentProposal_def proposal_wf_def Let_def rbind_Inr_conv proposalError_def
        split: option.split_asm if_split_asm) (blast dest: str_nonempty profileVal_nonempty admins_read)
qed

end
