(* ===== verification/Document_Handshake.thy ===== *)
theory Document_Handshake
  imports Document_Proposal
begin

text \<open>
  \<open>core/daemon/src/document-handshake.ts\<close>: the proposals a holder made, received or joined by, one row per
  owner and document, and the decision on each: the owner's and, for its own proposals, the peer's.
\<close>

section \<open>Rows\<close>

datatype DocumentConsentState = cs_pending | cs_accepted | cs_refused

record ProposalRow =
  ho_owner :: string
  ho_document :: string
  ho_proposer :: string
  ho_peer :: string
  ho_envelope :: bytes
  ho_state :: DocumentConsentState
  ho_reason :: "string option"
  ho_created :: int
  ho_decided :: "int option"
  ho_peer_accepted :: "bool option"
  ho_peer_reason :: "string option"
  ho_peer_decided :: "int option"
  ho_sent :: "int option"

text \<open>A row and its envelope decoded; the fields of the record are those of the row.\<close>

type_synonym DocumentProposalRecord = "ProposalRow \<times> DocumentProposalEnvelope"

datatype AcceptOutcome = accept_ok string DocumentProposalEnvelope | accept_declined string

datatype DecisionOutcome = decision_ok | decision_declined string

definition readProposal :: "externals \<Rightarrow> bytes \<Rightarrow> DocumentProposalEnvelope js" where
  "readProposal X b = rbind (x_uncbor X b) decodeDocumentProposal"

definition isRow :: "string \<Rightarrow> string \<Rightarrow> ProposalRow \<Rightarrow> bool" where
  "isRow owner doc r \<longleftrightarrow> ho_owner r = owner \<and> ho_document r = doc"

definition proposalRow :: "string \<Rightarrow> string \<Rightarrow> ProposalRow list \<Rightarrow> ProposalRow option" where
  "proposalRow owner doc T = find (isRow owner doc) T"

definition readRow :: "externals \<Rightarrow> ProposalRow \<Rightarrow> DocumentProposalRecord js" where
  "readRow X r = rbind (readProposal X (ho_envelope r)) (\<lambda>env. Inr (r, env))"

definition getRecord :: "externals \<Rightarrow> string \<Rightarrow> string \<Rightarrow> ProposalRow list \<Rightarrow> DocumentProposalRecord option js" where
  "getRecord X owner doc T =
     (case proposalRow owner doc T of None \<Rightarrow> Inr None | Some r \<Rightarrow> rbind (readRow X r) (\<lambda>p. Inr (Some p)))"

definition pendingProposals :: "externals \<Rightarrow> string \<Rightarrow> ProposalRow list \<Rightarrow> DocumentProposalRecord list js" where
  "pendingProposals X owner T =
     rmap (readRow X) (sort_key ho_created (filter (\<lambda>r. ho_owner r = owner \<and> ho_state r = cs_pending) T))"

section \<open>Writes\<close>

text \<open>\<open>ON CONFLICT DO NOTHING\<close>.\<close>

definition insertProposal :: "ProposalRow \<Rightarrow> ProposalRow list \<Rightarrow> ProposalRow list" where
  "insertProposal r T = (if proposalRow (ho_owner r) (ho_document r) T \<noteq> None then T else T @ [r])"

text \<open>\<open>UPDATE ... WHERE\<close> and whether it changed a row.\<close>

definition updateProposal ::
  "string \<Rightarrow> string \<Rightarrow> (ProposalRow \<Rightarrow> bool) \<Rightarrow> (ProposalRow \<Rightarrow> ProposalRow) \<Rightarrow> ProposalRow list \<Rightarrow> bool \<times> ProposalRow list" where
  "updateProposal owner doc P f T =
     (list_ex (\<lambda>r. isRow owner doc r \<and> P r) T, map (\<lambda>r. if isRow owner doc r \<and> P r then f r else r) T)"

definition newRow ::
  "string \<Rightarrow> string \<Rightarrow> DocumentProposalEnvelope \<Rightarrow> bytes \<Rightarrow> DocumentConsentState \<Rightarrow> string option \<Rightarrow> int \<Rightarrow> int option \<Rightarrow> ProposalRow" where
  "newRow owner doc env bytes st reason now decided = \<lparr>ho_owner = owner, ho_document = doc, ho_proposer = proposer_agent_id env,
     ho_peer = peer_agent_id env, ho_envelope = bytes, ho_state = st, ho_reason = reason, ho_created = now, ho_decided = decided,
     ho_peer_accepted = None, ho_peer_reason = None, ho_peer_decided = None, ho_sent = None\<rparr>"

section \<open>Operations\<close>

definition recordProposal ::
  "externals \<Rightarrow> string \<Rightarrow> bytes \<Rightarrow> int \<Rightarrow> ProposalRow list \<Rightarrow>
   (string \<times> DocumentConsentState \<times> string option) js \<times> ProposalRow list" where
  "recordProposal X owner wire now T =
     (case rbind (readProposal X wire) (\<lambda>env. rbind (documentIdFromProposal X env) (\<lambda>doc.
        rbind (buildDocumentProposalTbs X env True) (\<lambda>tbs.
        if \<not> x_verify X (proposer_agent_id env) tbs (dp_signature env) then proposalError ''signature_invalid''
        else if peer_agent_id env \<noteq> owner then proposalError ''wrong_peer''
        else rbind (encodeDocumentProposal env) (\<lambda>w. Inr (env, doc, x_cbor X w))))) of
        Inl e \<Rightarrow> (Inl e, T)
      | Inr (env, doc, bytes) \<Rightarrow>
          let reason = (case documentFeatureIncompatibility (Some (feature_version env)) of
                Some r \<Rightarrow> Some r | None \<Rightarrow> seamViolation (dp_properties env));
              T1 = insertProposal (newRow owner doc env bytes (if reason \<noteq> None then cs_refused else cs_pending) reason now
                (if reason \<noteq> None then Some now else None)) T in
          (rbind (getRecord X owner doc T1) (\<lambda>stored. Inr (case stored of
             None \<Rightarrow> (doc, if reason \<noteq> None then cs_refused else cs_pending, reason)
           | Some (r, _) \<Rightarrow> (doc, ho_state r, case ho_reason r of None \<Rightarrow> reason | Some s \<Rightarrow> Some s))), T1))"

definition recordJoined :: "externals \<Rightarrow> string \<Rightarrow> bytes \<Rightarrow> int \<Rightarrow> ProposalRow list \<Rightarrow> string js \<times> ProposalRow list" where
  "recordJoined X owner received now T =
     (case rbind (readProposal X received) (\<lambda>env. rbind (documentIdFromProposal X env) (\<lambda>doc. Inr (env, doc))) of
        Inl e \<Rightarrow> (Inl e, T)
      | Inr (env, doc) \<Rightarrow> (Inr doc, insertProposal (newRow owner doc env received cs_accepted None now (Some now)) T))"

definition recordOutgoing ::
  "externals \<Rightarrow> string \<Rightarrow> DocumentProposalEnvelope \<Rightarrow> int \<Rightarrow> ProposalRow list \<Rightarrow> string js \<times> ProposalRow list" where
  "recordOutgoing X owner env now T =
     (case rbind (documentIdFromProposal X env) (\<lambda>doc. rbind (encodeDocumentProposal env) (\<lambda>w. Inr (doc, x_cbor X w))) of
        Inl e \<Rightarrow> (Inl e, T)
      | Inr (doc, bytes) \<Rightarrow> (Inr doc, insertProposal (newRow owner doc env bytes cs_accepted None now (Some now)) T))"

definition peerDecision :: "string \<Rightarrow> string \<Rightarrow> ProposalRow list \<Rightarrow> bool option" where
  "peerDecision owner doc T = Option.bind (proposalRow owner doc T) ho_peer_accepted"

definition peerAnswer :: "string \<Rightarrow> string \<Rightarrow> ProposalRow list \<Rightarrow> bool option \<times> string option" where
  "peerAnswer owner doc T =
     (case peerDecision owner doc T of None \<Rightarrow> (None, None)
      | Some b \<Rightarrow> (Some b, Option.bind (proposalRow owner doc T) ho_peer_reason))"

definition recordPeerDecision ::
  "externals \<Rightarrow> string \<Rightarrow> string \<Rightarrow> string \<Rightarrow> bool \<Rightarrow> string option \<Rightarrow> int \<Rightarrow> ProposalRow list \<Rightarrow> DecisionOutcome js \<times> ProposalRow list" where
  "recordPeerDecision X owner doc acker yes reason decidedAt T =
     (case getRecord X owner doc T of
        Inl e \<Rightarrow> (Inl e, T)
      | Inr None \<Rightarrow> (Inr (decision_declined ''document_proposal_unknown''), T)
      | Inr (Some (r, _)) \<Rightarrow>
          if acker \<noteq> ho_peer r then (Inr (decision_declined ''document_proposal_ack_not_peer''), T)
          else if ho_proposer r \<noteq> owner then (Inr (decision_declined ''document_proposal_not_ours''), T)
          else (case peerDecision owner doc T of
             Some already \<Rightarrow>
               (Inr (if already = yes then decision_ok else decision_declined ''document_proposal_ack_contradicts''), T)
           | None \<Rightarrow> (Inr decision_ok, snd (updateProposal owner doc (\<lambda>_. True)
               (\<lambda>r. r\<lparr>ho_peer_accepted := Some yes, ho_peer_reason := reason, ho_peer_decided := Some decidedAt\<rparr>) T))))"

definition refusePending :: "string \<Rightarrow> string \<Rightarrow> string \<Rightarrow> int \<Rightarrow> ProposalRow list \<Rightarrow> bool \<times> ProposalRow list" where
  "refusePending owner doc reason now T = updateProposal owner doc (\<lambda>r. ho_state r = cs_pending)
     (\<lambda>r. r\<lparr>ho_state := cs_refused, ho_reason := Some reason, ho_decided := Some now\<rparr>) T"

definition acceptProposal ::
  "externals \<Rightarrow> string \<Rightarrow> string \<Rightarrow> int \<Rightarrow> ProposalRow list \<Rightarrow> AcceptOutcome js \<times> ProposalRow list" where
  "acceptProposal X owner doc now T =
     (case getRecord X owner doc T of
        Inl e \<Rightarrow> (Inl e, T)
      | Inr None \<Rightarrow> (Inr (accept_declined ''document_proposal_unknown''), T)
      | Inr (Some (r, env)) \<Rightarrow>
          (case seamViolation (dp_properties env) of
             Some violation \<Rightarrow> (Inr (accept_declined ''document_seam_violation''),
               if ho_state r = cs_pending then snd (refusePending owner doc violation now T) else T)
           | None \<Rightarrow>
               (case updateProposal owner doc (\<lambda>r. ho_state r = cs_pending)
                   (\<lambda>r. r\<lparr>ho_state := cs_accepted, ho_decided := Some now\<rparr>) T of
                  (False, T1) \<Rightarrow> (rbind (getRecord X owner doc T1) (\<lambda>_. Inr (accept_declined ''document_proposal_not_pending'')), T1)
                | (True, T1) \<Rightarrow> (Inr (accept_ok doc env), T1))))"

text \<open>\<open>reason.trim().length === 0\<close>; the white space of JavaScript within Latin-1.\<close>

definition blank :: "string \<Rightarrow> bool" where
  "blank s \<longleftrightarrow> list_all (\<lambda>c. of_char c \<in> {9, 10, 11, 12, 13, 32, 160 :: nat}) s"

definition refuseProposal ::
  "externals \<Rightarrow> string \<Rightarrow> string \<Rightarrow> string \<Rightarrow> int \<Rightarrow> ProposalRow list \<Rightarrow> DecisionOutcome js \<times> ProposalRow list" where
  "refuseProposal X owner doc reason now T =
     (if blank reason then (Inl (Error ''document_refusal_reason_required''), T)
      else case refusePending owner doc reason now T of
          (True, T1) \<Rightarrow> (Inr decision_ok, T1)
        | (False, T1) \<Rightarrow> (rbind (getRecord X owner doc T1) (\<lambda>stored. Inr (decision_declined
            (if stored = None then ''document_proposal_unknown'' else ''document_proposal_not_pending''))), T1))"

definition markProposalSent :: "string \<Rightarrow> string \<Rightarrow> int \<Rightarrow> ProposalRow list \<Rightarrow> ProposalRow list" where
  "markProposalSent owner doc now T = snd (updateProposal owner doc (\<lambda>r. ho_sent r = None) (\<lambda>r. r\<lparr>ho_sent := Some now\<rparr>) T)"

definition proposalSent :: "string \<Rightarrow> string \<Rightarrow> ProposalRow list \<Rightarrow> bool" where
  "proposalSent owner doc T \<longleftrightarrow> list_ex (\<lambda>r. isRow owner doc r \<and> ho_sent r \<noteq> None) T"

section \<open>Runs\<close>

datatype handshake_op =
    h_propose string bytes int
  | h_join string bytes int
  | h_outgoing string DocumentProposalEnvelope int
  | h_peer string string string bool "string option" int
  | h_accept string string int
  | h_refuse string string string int
  | h_sent string string int

fun handshake_step :: "externals \<Rightarrow> ProposalRow list \<Rightarrow> handshake_op \<Rightarrow> ProposalRow list" where
  "handshake_step X T (h_propose owner wire now) = snd (recordProposal X owner wire now T)"
| "handshake_step X T (h_join owner received now) = snd (recordJoined X owner received now T)"
| "handshake_step X T (h_outgoing owner env now) = snd (recordOutgoing X owner env now T)"
| "handshake_step X T (h_peer owner doc acker yes reason at) = snd (recordPeerDecision X owner doc acker yes reason at T)"
| "handshake_step X T (h_accept owner doc now) = snd (acceptProposal X owner doc now T)"
| "handshake_step X T (h_refuse owner doc reason now) = snd (refuseProposal X owner doc reason now T)"
| "handshake_step X T (h_sent owner doc now) = markProposalSent owner doc now T"

end
