(* ===== verification/Handshake_Claims.thy ===== *)
theory Handshake_Claims
  imports Document_Handshake Ideal_Codec
begin

text \<open>
  What the proposals table of \<open>document-handshake.ts\<close> guarantees over any run of its operations: decisions
  are final, every stored proposal is the document's genesis, and nobody takes part without consent.
\<close>

section \<open>The two writes\<close>

lemma proposalRow_isRow: "proposalRow owner doc T = Some r \<Longrightarrow> isRow owner doc r \<and> r \<in> set T"
  by (auto simp: proposalRow_def find_Some_iff)

lemma proposalRow_insert:
  "proposalRow owner doc (insertProposal r T) =
     (case proposalRow owner doc T of Some r' \<Rightarrow> Some r' | None \<Rightarrow> if isRow owner doc r then Some r else None)"
proof -
  have "find P (xs @ [x]) = (case find P xs of Some y \<Rightarrow> Some y | None \<Rightarrow> if P x then Some x else None)" for P :: "ProposalRow \<Rightarrow> bool" and xs x
    by (induction xs) auto
  moreover have "isRow owner doc r \<Longrightarrow> proposalRow (ho_owner r) (ho_document r) T = proposalRow owner doc T"
    by (auto simp: isRow_def)
  ultimately show ?thesis by (auto simp: insertProposal_def proposalRow_def split: option.splits)
qed

lemma set_insertProposal: "r \<in> set (insertProposal r0 T) \<Longrightarrow> r \<in> set T \<or> r = r0"
  by (auto simp: insertProposal_def split: if_splits)

lemma proposalRow_update:
  assumes "\<And>r. isRow o' d' r \<Longrightarrow> isRow o' d' (f r)"
  shows "proposalRow owner doc (snd (updateProposal o' d' P f T)) =
    map_option (\<lambda>r. if isRow o' d' r \<and> P r then f r else r) (proposalRow owner doc T)"
proof -
  have same: "isRow owner doc (if isRow o' d' r \<and> P r then f r else r) = isRow owner doc r" for r
    using assms [of r] by (auto simp: isRow_def)
  show ?thesis
    by (induction T) (auto simp: updateProposal_def proposalRow_def same)
qed

lemma recordProposal_cases:
  obtains (refused) "snd (recordProposal X owner wire now T) = T"
  | (filed) env doc tbs w reason where "readProposal X wire = Inr env" "documentIdFromProposal X env = Inr doc"
      "buildDocumentProposalTbs X env True = Inr tbs" "x_verify X (proposer_agent_id env) tbs (dp_signature env)"
      "peer_agent_id env = owner" "encodeDocumentProposal env = Inr w"
      "snd (recordProposal X owner wire now T) = insertProposal (newRow owner doc env (x_cbor X w)
        (if reason \<noteq> None then cs_refused else cs_pending) reason now (if reason \<noteq> None then Some now else None)) T"
proof (cases "rbind (readProposal X wire) (\<lambda>env. rbind (documentIdFromProposal X env) (\<lambda>doc.
    rbind (buildDocumentProposalTbs X env True) (\<lambda>tbs.
    if \<not> x_verify X (proposer_agent_id env) tbs (dp_signature env) then proposalError ''signature_invalid''
    else if peer_agent_id env \<noteq> owner then proposalError ''wrong_peer''
    else rbind (encodeDocumentProposal env) (\<lambda>w. Inr (env, doc, x_cbor X w)))))")
  case (Inl e)
  show thesis by (rule refused) (simp add: recordProposal_def Inl)
next
  case (Inr p)
  obtain env doc bytes where p: "p = (env, doc, bytes)" by (cases p) auto
  obtain tbs w where f: "readProposal X wire = Inr env" "documentIdFromProposal X env = Inr doc" "buildDocumentProposalTbs X env True = Inr tbs"
      "x_verify X (proposer_agent_id env) tbs (dp_signature env)" "peer_agent_id env = owner" "encodeDocumentProposal env = Inr w" "bytes = x_cbor X w"
    using Inr by (auto simp: p rbind_Inr_conv proposalError_def split: if_splits)
  show thesis by (rule filed [OF f(1-6)]) (simp add: recordProposal_def Inr p f(7) Let_def)
qed

section \<open>Decisions are final\<close>

definition evolves :: "ProposalRow \<Rightarrow> ProposalRow \<Rightarrow> bool" where
  "evolves r r' \<longleftrightarrow>
     ho_owner r' = ho_owner r \<and> ho_document r' = ho_document r \<and> ho_proposer r' = ho_proposer r \<and> ho_peer r' = ho_peer r \<and>
     ho_envelope r' = ho_envelope r \<and> ho_created r' = ho_created r \<and>
     (ho_state r \<noteq> cs_pending \<longrightarrow> ho_state r' = ho_state r \<and> ho_reason r' = ho_reason r \<and> ho_decided r' = ho_decided r) \<and>
     (ho_peer_accepted r \<noteq> None \<longrightarrow> ho_peer_accepted r' = ho_peer_accepted r \<and> ho_peer_reason r' = ho_peer_reason r \<and>
       ho_peer_decided r' = ho_peer_decided r) \<and>
     (ho_sent r \<noteq> None \<longrightarrow> ho_sent r' = ho_sent r)"

lemma evolves_refl [simp]: "evolves r r"
  by (simp add: evolves_def)

lemma evolves_trans: "evolves r s \<Longrightarrow> evolves s t \<Longrightarrow> evolves r t"
  by (auto simp: evolves_def)

definition kept_row :: "string \<Rightarrow> string \<Rightarrow> ProposalRow \<Rightarrow> ProposalRow list \<Rightarrow> bool" where
  "kept_row owner doc r T \<longleftrightarrow> (\<exists>r'. proposalRow owner doc T = Some r' \<and> evolves r r')"

lemma kept_insert: "kept_row owner doc r T \<Longrightarrow> kept_row owner doc r (insertProposal r0 T)"
  by (auto simp: kept_row_def proposalRow_insert)

lemma kept_update:
  assumes "kept_row owner doc r T" and "\<And>s. proposalRow o' d' T = Some s \<Longrightarrow> P s \<Longrightarrow> evolves s (f s)"
    and "\<And>s. isRow o' d' s \<Longrightarrow> isRow o' d' (f s)"
  shows "kept_row owner doc r (snd (updateProposal o' d' P f T))"
proof -
  obtain s where s: "proposalRow owner doc T = Some s" "evolves r s" using assms(1) by (auto simp: kept_row_def)
  have "evolves s (if isRow o' d' s \<and> P s then f s else s)"
  proof (cases "isRow o' d' s \<and> P s")
    case True
    then have "proposalRow o' d' T = Some s" using s(1) proposalRow_isRow [OF s(1)] by (auto simp: isRow_def)
    then show ?thesis using assms(2) [of s] True by simp
  next
    case False
    then show ?thesis by (simp only: if_False evolves_refl)
  qed
  then have "evolves r (if isRow o' d' s \<and> P s then f s else s)" using s(2) evolves_trans by blast
  then show ?thesis using s(1) by (simp add: kept_row_def proposalRow_update [OF assms(3)] split del: if_split)
qed

lemmas update_defs = refusePending_def markProposalSent_def isRow_def evolves_def

lemma getRecord_row: "getRecord X owner doc T = Inr (Some (r, env)) \<Longrightarrow> proposalRow owner doc T = Some r"
  by (auto simp: getRecord_def readRow_def rbind_Inr_conv split: option.splits)

lemma kept_refuse: "kept_row owner doc r T \<Longrightarrow> kept_row owner doc r (snd (refusePending o' d' reason now T))"
  unfolding refusePending_def by (rule kept_update) (simp_all add: isRow_def evolves_def)

lemma kept_step:
  assumes "kept_row owner doc r T"
  shows "kept_row owner doc r (handshake_step X T e)"
proof (cases e)
  case (h_propose o' wire now)
  then show ?thesis using assms by (cases rule: recordProposal_cases [of X o' wire now T]) (auto intro: kept_insert)
next
  case (h_join o' b now)
  then show ?thesis using assms by (auto simp: recordJoined_def intro: kept_insert split: sum.split prod.split)
next
  case (h_outgoing o' env now)
  then show ?thesis using assms by (auto simp: recordOutgoing_def intro: kept_insert split: sum.split prod.split)
next
  case (h_peer o' d' acker yes reason at)
  have up: "kept_row owner doc r (snd (updateProposal o' d' (\<lambda>_. True)
      (\<lambda>r. r\<lparr>ho_peer_accepted := Some yes, ho_peer_reason := reason, ho_peer_decided := Some at\<rparr>) T))"
    if "peerDecision o' d' T = None" "proposalRow o' d' T = Some s" for s
    using assms by (rule kept_update) (use that in \<open>simp_all add: isRow_def evolves_def peerDecision_def\<close>)
  then show ?thesis using assms h_peer
    by (auto simp: recordPeerDecision_def dest!: getRecord_row split: sum.split option.split prod.split)
next
  case (h_accept o' d' now)
  have "kept_row owner doc r (snd (updateProposal o' d' (\<lambda>r. ho_state r = cs_pending)
      (\<lambda>r. r\<lparr>ho_state := cs_accepted, ho_decided := Some now\<rparr>) T))"
    using assms by (rule kept_update) (simp_all add: isRow_def evolves_def)
  then show ?thesis using assms kept_refuse [OF assms] h_accept
    by (auto simp: acceptProposal_def split: sum.split option.split prod.split bool.split)
next
  case (h_refuse o' d' reason now)
  then show ?thesis using assms kept_refuse [OF assms, of o' d' reason now]
    by (auto simp: refuseProposal_def split: prod.split bool.split)
next
  case (h_sent o' d' now)
  have "kept_row owner doc r (markProposalSent o' d' now T)"
    unfolding markProposalSent_def using assms by (rule kept_update) (simp_all add: isRow_def evolves_def)
  then show ?thesis by (simp add: h_sent)
qed

interpretation decided: machine "handshake_step X" "kept_row owner doc r" for X owner doc r
  by unfold_locales (rule kept_step)

text \<open>C19: A decision on a proposal is made once. Whatever happens afterwards, to this or to other proposals, a
  stored proposal stays stored with the same bytes; once accepted or refused it stays so, with its
  reason and time; the peer's answer, once recorded, is never replaced, nor is the time it was sent.\<close>

theorem decisions_are_made_once:
  assumes "proposalRow owner doc T = Some r"
  shows "\<exists>r'. proposalRow owner doc (foldl (handshake_step X) T ops) = Some r' \<and> ho_envelope r' = ho_envelope r \<and>
    (ho_state r \<noteq> cs_pending \<longrightarrow> ho_state r' = ho_state r \<and> ho_reason r' = ho_reason r \<and> ho_decided r' = ho_decided r) \<and>
    (ho_peer_accepted r \<noteq> None \<longrightarrow> ho_peer_accepted r' = ho_peer_accepted r \<and> ho_peer_reason r' = ho_peer_reason r) \<and>
    (ho_sent r \<noteq> None \<longrightarrow> ho_sent r' = ho_sent r)"
proof -
  have "kept_row owner doc r T" using assms by (simp add: kept_row_def)
  from decided.run_inv [OF this, of X ops] show ?thesis by (auto simp: kept_row_def evolves_def)
qed

section \<open>Rows hold the genesis they are filed under\<close>

definition pinned_row :: "externals \<Rightarrow> ProposalRow \<Rightarrow> bool" where
  "pinned_row X r \<longleftrightarrow>
     (\<exists>env. readProposal X (ho_envelope r) = Inr env \<and> documentIdFromProposal X env = Inr (ho_document r) \<and>
       ho_proposer r = proposer_agent_id env \<and> ho_peer r = peer_agent_id env) \<and>
     (ho_state r = cs_refused \<longleftrightarrow> ho_reason r \<noteq> None) \<and> (ho_state r = cs_pending \<longleftrightarrow> ho_decided r = None)"

definition pinned :: "externals \<Rightarrow> ProposalRow list \<Rightarrow> bool" where
  "pinned X T \<longleftrightarrow> (\<forall>r \<in> set T. pinned_row X r) \<and> distinct (map (\<lambda>r. (ho_owner r, ho_document r)) T)"

lemma proposalRow_None: "proposalRow owner doc T = None \<longleftrightarrow> (owner, doc) \<notin> (\<lambda>r. (ho_owner r, ho_document r)) ` set T"
  by (auto simp: proposalRow_def find_None_iff isRow_def)

lemma pinned_insert: "pinned X T \<Longrightarrow> pinned_row X r \<Longrightarrow> pinned X (insertProposal r T)"
  by (auto simp: pinned_def insertProposal_def proposalRow_None)

lemma pinned_update:
  assumes "pinned X T" and "\<And>r. r \<in> set T \<Longrightarrow> P r \<Longrightarrow> pinned_row X r \<Longrightarrow> pinned_row X (f r)"
    and "\<And>r. ho_owner (f r) = ho_owner r \<and> ho_document (f r) = ho_document r"
  shows "pinned X (snd (updateProposal owner doc P f T))"
proof -
  have "map (\<lambda>r. (ho_owner r, ho_document r)) (snd (updateProposal owner doc P f T)) = map (\<lambda>r. (ho_owner r, ho_document r)) T"
    using assms(3) by (simp add: updateProposal_def)
  then have "distinct (map (\<lambda>r. (ho_owner r, ho_document r)) (snd (updateProposal owner doc P f T)))"
    using assms(1) by (simp add: pinned_def del: map_map)
  moreover have "\<forall>r \<in> set (snd (updateProposal owner doc P f T)). pinned_row X r"
    using assms(1,2) by (auto simp: pinned_def updateProposal_def)
  ultimately show ?thesis by (simp add: pinned_def)
qed

lemma pinned_new:
  assumes "readProposal X b = Inr env" and "documentIdFromProposal X env = Inr doc"
    and "st = cs_refused \<longleftrightarrow> reason \<noteq> None" and "st = cs_pending \<longleftrightarrow> decided = None"
  shows "pinned_row X (newRow owner doc env b st reason now decided)"
  using assms by (simp add: pinned_row_def newRow_def)

definition well_formed_op :: "handshake_op \<Rightarrow> bool" where
  "well_formed_op e \<longleftrightarrow> (\<forall>owner env now. e = h_outgoing owner env now \<longrightarrow> proposal_wf env)"

lemma written_back:
  assumes "\<And>v. x_uncbor X (x_cbor X v) = Inr v" and "proposal_wf env" and "encodeDocumentProposal env = Inr w"
  shows "readProposal X (x_cbor X w) = Inr env"
  using proposal_frame.decode_encode [OF assms(2)] assms(1,3) by (simp add: readProposal_def)

lemma pinned_refuse: "pinned X T \<Longrightarrow> pinned X (snd (refusePending owner doc reason now T))"
  unfolding refusePending_def by (rule pinned_update) (auto simp: pinned_row_def)

lemma pinned_step:
  assumes ok: "pinned X T" and cbor: "\<And>v. x_uncbor X (x_cbor X v) = Inr v" and wf: "well_formed_op e"
  shows "pinned X (handshake_step X T e)"
proof (cases e)
  case (h_propose owner wire now)
  show ?thesis
  proof (cases rule: recordProposal_cases [of X owner wire now T])
    case refused
    then show ?thesis using ok by (simp add: h_propose)
  next
    case (filed env doc tbs w reason)
    have "proposal_wf env" using filed(1) proposal_frame.decode_wf by (auto simp: readProposal_def rbind_Inr_conv)
    then have "readProposal X (x_cbor X w) = Inr env" using written_back [OF cbor] filed(6) by blast
    then have "pinned X (insertProposal (newRow owner doc env (x_cbor X w) (if reason \<noteq> None then cs_refused else cs_pending) reason now
        (if reason \<noteq> None then Some now else None)) T)"
      by (intro pinned_insert [OF ok pinned_new]) (use filed(2) in auto)
    then show ?thesis unfolding h_propose handshake_step.simps filed(7) .
  qed
next
  case (h_join owner b now)
  then show ?thesis using ok by (auto simp: recordJoined_def rbind_Inr_conv intro!: pinned_insert pinned_new split: sum.split prod.split)
next
  case (h_outgoing owner env now)
  then have "proposal_wf env" using wf by (simp add: well_formed_op_def)
  then show ?thesis using ok h_outgoing written_back [OF cbor]
    by (auto simp: recordOutgoing_def rbind_Inr_conv intro!: pinned_insert pinned_new split: sum.split prod.split)
next
  case (h_peer owner doc acker yes reason at)
  have "pinned X (snd (updateProposal owner doc (\<lambda>_. True)
      (\<lambda>r. r\<lparr>ho_peer_accepted := Some yes, ho_peer_reason := reason, ho_peer_decided := Some at\<rparr>) T))"
    using ok by (rule pinned_update) (auto simp: pinned_row_def)
  then show ?thesis using ok h_peer by (auto simp: recordPeerDecision_def split: sum.split option.split prod.split)
next
  case (h_accept owner doc now)
  have "pinned X (snd (updateProposal owner doc (\<lambda>r. ho_state r = cs_pending)
      (\<lambda>r. r\<lparr>ho_state := cs_accepted, ho_decided := Some now\<rparr>) T))"
    using ok by (rule pinned_update) (auto simp: pinned_row_def)
  then show ?thesis using ok pinned_refuse [OF ok] h_accept
    by (auto simp: acceptProposal_def split: sum.split option.split prod.split bool.split)
next
  case (h_refuse owner doc reason now)
  then show ?thesis using ok pinned_refuse [OF ok, of owner doc reason now]
    by (auto simp: refuseProposal_def split: prod.split bool.split)
next
  case (h_sent owner doc now)
  have "pinned X (markProposalSent owner doc now T)"
    unfolding markProposalSent_def using ok by (rule pinned_update) (auto simp: pinned_row_def)
  then show ?thesis by (simp add: h_sent)
qed

text \<open>C18: Every stored proposal is the genesis it is filed under. With CBOR reading back what it wrote, after any
  run of operations in which the agents' own proposals are well formed, every row's bytes decode to a
  proposal that hashes to the row's document id and names the row's parties; a row is refused exactly
  when it has a reason and undecided exactly when it is pending; no owner has two rows for a document;
  so looking a proposal up never fails.\<close>

theorem stored_proposals_are_genuine:
  assumes "\<And>v. x_uncbor X (x_cbor X v) = Inr v" and "\<And>owner env now. h_outgoing owner env now \<in> set ops \<Longrightarrow> proposal_wf env"
  shows "(\<forall>r \<in> set (foldl (handshake_step X) [] ops).
      (\<exists>env. readProposal X (ho_envelope r) = Inr env \<and> documentIdFromProposal X env = Inr (ho_document r) \<and>
        ho_proposer r = proposer_agent_id env \<and> ho_peer r = peer_agent_id env) \<and>
      (ho_state r = cs_refused \<longleftrightarrow> ho_reason r \<noteq> None) \<and> (ho_state r = cs_pending \<longleftrightarrow> ho_decided r = None)) \<and>
    distinct (map (\<lambda>r. (ho_owner r, ho_document r)) (foldl (handshake_step X) [] ops)) \<and>
    (\<exists>p. getRecord X owner doc (foldl (handshake_step X) [] ops) = Inr p)"
proof -
  let ?T = "foldl (handshake_step X) [] ops"
  have "\<forall>e \<in> set ops. well_formed_op e" using assms(2) by (auto simp: well_formed_op_def)
  then have run: "pinned X (foldl (handshake_step X) T ops)" if "pinned X T" for T
    using that by (induction ops arbitrary: T) (auto intro: pinned_step [OF _ assms(1)])
  have p: "pinned X ?T" by (rule run) (simp add: pinned_def)
  moreover have "\<exists>p. getRecord X owner doc ?T = Inr p"
    using p by (auto simp: getRecord_def readRow_def pinned_def pinned_row_def dest!: proposalRow_isRow split: option.split)
  ultimately show ?thesis unfolding pinned_def pinned_row_def by blast
qed

section \<open>Nobody takes part without consent\<close>

definition admitted_by :: "externals \<Rightarrow> handshake_op set \<Rightarrow> ProposalRow \<Rightarrow> bool" where
  "admitted_by X ops r \<longleftrightarrow>
     (\<exists>env now. h_outgoing (ho_owner r) env now \<in> ops \<and> documentIdFromProposal X env = Inr (ho_document r)) \<or>
     (\<exists>b env now. h_join (ho_owner r) b now \<in> ops \<and> readProposal X b = Inr env \<and> documentIdFromProposal X env = Inr (ho_document r)) \<or>
     (\<exists>wire env tbs now. h_propose (ho_owner r) wire now \<in> ops \<and> readProposal X wire = Inr env \<and>
        documentIdFromProposal X env = Inr (ho_document r) \<and> peer_agent_id env = ho_owner r \<and>
        buildDocumentProposalTbs X env True = Inr tbs \<and> x_verify X (proposer_agent_id env) tbs (dp_signature env) \<and>
        (ho_state r = cs_accepted \<longrightarrow> (\<exists>now. h_accept (ho_owner r) (ho_document r) now \<in> ops)))"

definition consented :: "externals \<Rightarrow> handshake_op set \<Rightarrow> ProposalRow list \<Rightarrow> bool" where
  "consented X ops T \<longleftrightarrow> (\<forall>r \<in> set T. admitted_by X ops r)"

lemma admitted_mono: "admitted_by X ops r \<Longrightarrow> ops \<subseteq> ops' \<Longrightarrow> admitted_by X ops' r"
  unfolding admitted_by_def by blast

lemma admitted_join: "h_join owner b at \<in> ops \<Longrightarrow> readProposal X b = Inr env \<Longrightarrow> documentIdFromProposal X env = Inr doc \<Longrightarrow>
    admitted_by X ops (newRow owner doc env b st reason now decided)"
  unfolding admitted_by_def newRow_def by auto

lemma admitted_outgoing: "h_outgoing owner env at \<in> ops \<Longrightarrow> documentIdFromProposal X env = Inr doc \<Longrightarrow>
    admitted_by X ops (newRow owner doc env b st reason now decided)"
  unfolding admitted_by_def newRow_def by auto

lemma admitted_change:
  assumes "admitted_by X ops r" and "ho_owner r' = ho_owner r" and "ho_document r' = ho_document r"
    and "ho_state r' = cs_accepted \<Longrightarrow> ho_state r = cs_accepted \<or> (\<exists>now. h_accept (ho_owner r) (ho_document r) now \<in> ops)"
  shows "admitted_by X ops r'"
  using assms(1,4) unfolding admitted_by_def assms(2,3) by (elim disjE) blast+

lemma consented_insert: "consented X ops T \<Longrightarrow> admitted_by X ops r \<Longrightarrow> consented X ops (insertProposal r T)"
  by (auto simp: consented_def dest: set_insertProposal)

lemma consented_update:
  assumes "consented X ops T" and "\<And>r. admitted_by X ops r \<Longrightarrow> isRow owner doc r \<Longrightarrow> admitted_by X ops (f r)"
  shows "consented X ops (snd (updateProposal owner doc P f T))"
  using assms by (auto simp: consented_def updateProposal_def)

lemma consented_refuse: "consented X ops T \<Longrightarrow> consented X ops (snd (refusePending owner doc reason now T))"
  unfolding refusePending_def by (rule consented_update) (auto intro: admitted_change)

lemma consented_step:
  assumes old: "consented X ops T"
  shows "consented X (insert e ops) (handshake_step X T e)"
proof -
  have ok: "consented X (insert e ops) T" using old by (auto simp: consented_def intro: admitted_mono)
  show ?thesis
  proof (cases e)
    case (h_propose owner wire now)
    show ?thesis
    proof (cases rule: recordProposal_cases [of X owner wire now T])
      case refused
      then show ?thesis using ok by (simp add: h_propose)
    next
      case (filed env doc tbs w reason)
      have "admitted_by X (insert e ops) (newRow owner doc env (x_cbor X w) (if reason \<noteq> None then cs_refused else cs_pending) reason now
          (if reason \<noteq> None then Some now else None))"
        unfolding admitted_by_def newRow_def using filed(1-5) h_propose by (cases reason) (simp_all, blast+)
      then show ?thesis unfolding h_propose handshake_step.simps filed(7) using consented_insert ok h_propose by blast
    qed
  next
    case (h_join owner b now)
    then show ?thesis using ok
      by (auto simp: recordJoined_def rbind_Inr_conv intro!: consented_insert admitted_join split: sum.split prod.split)
  next
    case (h_outgoing owner env now)
    then show ?thesis using ok
      by (auto simp: recordOutgoing_def rbind_Inr_conv intro!: consented_insert admitted_outgoing split: sum.split prod.split)
  next
    case (h_peer owner doc acker yes reason at)
    have "consented X (insert e ops) (snd (updateProposal owner doc (\<lambda>_. True)
        (\<lambda>r. r\<lparr>ho_peer_accepted := Some yes, ho_peer_reason := reason, ho_peer_decided := Some at\<rparr>) T))"
      using ok by (rule consented_update) (auto intro: admitted_change)
    then show ?thesis using ok h_peer by (auto simp: recordPeerDecision_def split: sum.split option.split prod.split)
  next
    case (h_accept owner doc now)
    have "consented X (insert e ops) (snd (updateProposal owner doc (\<lambda>r. ho_state r = cs_pending)
        (\<lambda>r. r\<lparr>ho_state := cs_accepted, ho_decided := Some now\<rparr>) T))"
      using ok by (rule consented_update) (auto simp: isRow_def h_accept intro: admitted_change)
    then show ?thesis using ok consented_refuse [OF ok] h_accept
      by (auto simp: acceptProposal_def split: sum.split option.split prod.split bool.split)
  next
    case (h_refuse owner doc reason now)
    then show ?thesis using ok consented_refuse [OF ok, of owner doc reason now]
      by (auto simp: refuseProposal_def split: prod.split bool.split)
  next
    case (h_sent owner doc now)
    have "consented X (insert e ops) (markProposalSent owner doc now T)"
      unfolding markProposalSent_def using ok by (rule consented_update) (auto intro: admitted_change)
    then show ?thesis by (simp add: h_sent)
  qed
qed

text \<open>C17: Nobody takes part in a document without having agreed. In any run, a document that an agent holds as
  accepted is one it proposed itself, one whose genesis it joined by, or one proposed to it by name
  under the proposer's valid signature and then accepted by it.\<close>

theorem accepted_means_agreed:
  assumes "r \<in> set (foldl (handshake_step X) [] ops)" and "ho_state r = cs_accepted"
  shows "(\<exists>env now. h_outgoing (ho_owner r) env now \<in> set ops \<and> documentIdFromProposal X env = Inr (ho_document r)) \<or>
    (\<exists>b env now. h_join (ho_owner r) b now \<in> set ops \<and> readProposal X b = Inr env \<and> documentIdFromProposal X env = Inr (ho_document r)) \<or>
    (\<exists>wire env tbs now later. h_propose (ho_owner r) wire now \<in> set ops \<and> readProposal X wire = Inr env \<and>
       documentIdFromProposal X env = Inr (ho_document r) \<and> peer_agent_id env = ho_owner r \<and>
       buildDocumentProposalTbs X env True = Inr tbs \<and> x_verify X (proposer_agent_id env) tbs (dp_signature env) \<and>
       h_accept (ho_owner r) (ho_document r) later \<in> set ops)"
proof -
  have "consented X (set ops) (foldl (handshake_step X) [] ops)"
  proof (induction ops rule: rev_induct)
    case (snoc e ops)
    from consented_step [OF snoc, of e] show ?case by simp
  qed (simp add: consented_def)
  then have "admitted_by X (set ops) r" using assms(1) by (simp add: consented_def)
  then show ?thesis using assms(2) unfolding admitted_by_def by blast
qed

section \<open>An instance\<close>

definition sample_proposal :: DocumentProposalEnvelope where
  "sample_proposal = \<lparr>feature_version = 2, proposer_agent_id = ''alice'', peer_agent_id = ''bob'', document_type = ''text'',
     dp_properties = \<lparr>assurance_tier = ''authenticated'', schema_enforcement = False, topology = ''mesh'', append_only = False,
       content_profile = None, admin_set = None\<rparr>,
     starting_content = None, dp_nonce = [7], proposed_at_ms = 1, dp_signature = []\<rparr>"

definition ideal_X :: externals where
  "ideal_X = \<lparr>x_sha = (\<lambda>_. replicate 32 0), x_cbor = idealEncode,
     x_uncbor = (\<lambda>b. case idealDecode b of None \<Rightarrow> Inl (Error '''') | Some v \<Rightarrow> Inr v), x_verify = (\<lambda>_ _ _. True)\<rparr>"

lemma ideal_X_reads_back: "x_uncbor ideal_X (x_cbor ideal_X v) = Inr v"
  by (simp add: ideal_X_def)

lemma sample_proposal_wf: "proposal_wf sample_proposal"
  by (simp add: proposal_wf_def sample_proposal_def)

definition sample_wire :: bytes where
  "sample_wire = (case encodeDocumentProposal sample_proposal of Inr w \<Rightarrow> idealEncode w | Inl _ \<Rightarrow> [])"

lemma sample_wire_read: "readProposal ideal_X sample_wire = Inr sample_proposal"
proof -
  obtain w where w: "encodeDocumentProposal sample_proposal = Inr w"
    using proposal_frame.encode_returns [OF sample_proposal_wf] by blast
  then show ?thesis using written_back [OF ideal_X_reads_back sample_proposal_wf w] by (simp add: sample_wire_def ideal_X_def)
qed

definition sample_id :: string where "sample_id = bytesToHex (replicate 32 0)"

lemma sample_id_hash [simp]: "documentIdFromProposal ideal_X sample_proposal = Inr sample_id"
  by (simp add: documentIdFromProposal_def buildDocumentProposalTbs_def proposalPreimage_def sample_proposal_def ideal_X_def sample_id_def)

lemma sample_proposed:
  "proposalRow ''bob'' sample_id (handshake_step ideal_X [] (h_propose ''bob'' sample_wire 1)) =
     Some (newRow ''bob'' sample_id sample_proposal sample_wire cs_pending None 1 None)"
proof -
  obtain w where w: "encodeDocumentProposal sample_proposal = Inr w"
    using proposal_frame.encode_returns [OF sample_proposal_wf] by blast
  have b: "sample_wire = idealEncode w" by (simp add: sample_wire_def w)
  obtain tbs where "buildDocumentProposalTbs ideal_X sample_proposal True = Inr tbs"
    by (simp add: buildDocumentProposalTbs_def proposalPreimage_def sample_proposal_def)
  then show ?thesis
    using sample_wire_read w
    by (simp add: recordProposal_def b) (simp add: sample_proposal_def ideal_X_def insertProposal_def proposalRow_def isRow_def newRow_def
        documentFeatureIncompatibility_def seamViolation_def PROPOSAL_FEATURE_VERSION_def ASSURANCE_TIER_V1_def SUPPORTED_TOPOLOGIES_def Let_def)
qed

lemma sample_accepted:
  "\<exists>r. proposalRow ''bob'' sample_id (foldl (handshake_step ideal_X) [] [h_propose ''bob'' sample_wire 1, h_accept ''bob'' sample_id 2]) = Some r \<and>
    ho_state r = cs_accepted \<and> ho_owner r = ''bob'' \<and> ho_document r = sample_id"
proof -
  let ?r = "newRow ''bob'' sample_id sample_proposal sample_wire cs_pending None 1 None"
  let ?T = "handshake_step ideal_X [] (h_propose ''bob'' sample_wire 1)"
  have get: "getRecord ideal_X ''bob'' sample_id ?T = Inr (Some (?r, sample_proposal))"
    using sample_proposed sample_wire_read by (simp add: getRecord_def readRow_def newRow_def)
  have seam: "seamViolation (dp_properties sample_proposal) = None"
    by (simp add: seamViolation_def sample_proposal_def ASSURANCE_TIER_V1_def SUPPORTED_TOPOLOGIES_def)
  let ?U = "updateProposal ''bob'' sample_id (\<lambda>r. ho_state r = cs_pending) (\<lambda>r. r\<lparr>ho_state := cs_accepted, ho_decided := Some 2\<rparr>) ?T"
  have "proposalRow ''bob'' sample_id (snd ?U) = map_option (\<lambda>r. if isRow ''bob'' sample_id r \<and> ho_state r = cs_pending
      then r\<lparr>ho_state := cs_accepted, ho_decided := Some 2\<rparr> else r) (proposalRow ''bob'' sample_id ?T)"
    by (rule proposalRow_update) (simp add: isRow_def)
  then have "proposalRow ''bob'' sample_id (snd ?U) = Some (?r\<lparr>ho_state := cs_accepted, ho_decided := Some 2\<rparr>)"
    unfolding sample_proposed by (simp add: isRow_def newRow_def)
  moreover have "snd (acceptProposal ideal_X ''bob'' sample_id 2 ?T) = snd ?U"
    by (simp add: acceptProposal_def get seam split: prod.split bool.split del: handshake_step.simps)
  ultimately show ?thesis by (simp add: newRow_def)
qed

theorem decisions_are_made_once_witness:
  "\<exists>r r'. proposalRow ''bob'' sample_id (foldl (handshake_step ideal_X) [] [h_propose ''bob'' sample_wire 1, h_accept ''bob'' sample_id 2]) = Some r \<and>
    proposalRow ''bob'' sample_id (foldl (handshake_step ideal_X)
      (foldl (handshake_step ideal_X) [] [h_propose ''bob'' sample_wire 1, h_accept ''bob'' sample_id 2])
      [h_refuse ''bob'' sample_id ''no'' 3]) = Some r' \<and> ho_state r' = cs_accepted"
proof -
  obtain r where r: "proposalRow ''bob'' sample_id (foldl (handshake_step ideal_X) [] [h_propose ''bob'' sample_wire 1, h_accept ''bob'' sample_id 2]) = Some r"
      "ho_state r = cs_accepted" using sample_accepted by blast
  from decisions_are_made_once [OF r(1), of ideal_X "[h_refuse ''bob'' sample_id ''no'' 3]"] r show ?thesis by auto
qed

theorem stored_proposals_are_genuine_witness:
  "\<exists>p. getRecord ideal_X ''bob'' sample_id (foldl (handshake_step ideal_X) [] [h_outgoing ''alice'' sample_proposal 1, h_propose ''bob'' sample_wire 1]) = Inr p"
proof -
  let ?ops = "[h_outgoing ''alice'' sample_proposal 1, h_propose ''bob'' sample_wire 1]"
  have wf: "\<And>owner env now. h_outgoing owner env now \<in> set ?ops \<Longrightarrow> proposal_wf env" using sample_proposal_wf by auto
  show ?thesis
    using stored_proposals_are_genuine [of ideal_X ?ops "''bob''" sample_id] ideal_X_reads_back wf by blast
qed

theorem accepted_means_agreed_witness:
  "\<exists>r. r \<in> set (foldl (handshake_step ideal_X) [] [h_propose ''bob'' sample_wire 1, h_accept ''bob'' sample_id 2]) \<and> ho_state r = cs_accepted \<and>
    (\<exists>later. h_accept (ho_owner r) (ho_document r) later \<in> set [h_propose ''bob'' sample_wire 1, h_accept ''bob'' sample_id 2])"
proof -
  obtain r where "proposalRow ''bob'' sample_id (foldl (handshake_step ideal_X) [] [h_propose ''bob'' sample_wire 1, h_accept ''bob'' sample_id 2]) = Some r"
      "ho_state r = cs_accepted" using sample_accepted by blast
  then have r: "r \<in> set (foldl (handshake_step ideal_X) [] [h_propose ''bob'' sample_wire 1, h_accept ''bob'' sample_id 2])" "ho_state r = cs_accepted"
    using proposalRow_isRow by blast+
  from accepted_means_agreed [OF r] r show ?thesis by auto
qed

end
