(* ===== verification/Spec2Isabelle.thy ===== *)
theory Spec2Isabelle
  imports Merkle Session_Tree Inclusion_Handlers Document_Governance Derive_Claims Derive_Frontier
    Retry_Queue_Claims Holder_Registry_Claims Nonce_Dedup_Claims Line_LCS Injection_Windows Outbound_Claims
    Seal_Claims Seal_Root_Claims Seal_Frontier Channel_Log_Receipts Channel_Delivery Amendment_Store_Order Content_Publish Content_Typed
    Handshake_Claims
begin

text \<open>
  \<^bold>\<open>CELLO client: the core of the daemon, the protocol types, the gateway and the crypto package.\<close>

  The client is a daemon per user. Agents on it hold sessions with peers, share documents with
  them and publish on channels. A session ends in a \<^emph>\<open>seal\<close>: both sides and a directory agree on
  the Merkle root of the session's messages. A document has a \<^emph>\<open>genesis\<close> (a proposal the peer
  accepts), a governance history (a graph of signed amendments) and content (signed updates of a
  Yjs document). What the code decides from bytes it does not trust is modelled here; what moves
  bytes is not. Paths are relative to \<open>src/core\<close>.

  \<^bold>\<open>Conventions.\<close> Byte strings are \<open>8 word list\<close>, JavaScript numbers that hold integers are \<open>int\<close>
  or \<open>nat\<close> (an operator that works on 32 bits is \<open>js_shr1\<close> and its like in \<open>Prelude\<close>), a \<open>Map\<close> or
  \<open>Set\<close> that is iterated is a list in insertion order. A function that throws returns
  \<open>js_error + 'a\<close>. A store on SQLite is a record of tables, each a list of rows in insertion
  order; a call that throws after a write answers its new state beside the error, and an empty byte
  string is bound as NULL, as the production driver does, so that a NOT NULL column refuses it and
  the insert throws. A function that
  awaits is cut at its awaits, and what happens in between is a step of its own wherever a property
  depends on it. Log lines and the wording of guidance texts are left out.
  Code outside \<open>src\<close> is an argument: SHA-256, HMAC and Ed25519 (functions), cbor-x (an encoder
  and a partial decoder; a property that needs it assumes that it reads back what it wrote), Yjs
  (the record \<open>yjs\<close>), compiled regular expressions, tokenizer and classifier (what they answer).
  Each such assumption is met by an instance in the witness of the property (\<open>Ideal_Codec\<close>,
  \<open>Content_Samples\<close>).

  \<^bold>\<open>Foundations.\<close> \<open>Prelude\<close> holds the shared vocabulary and three contracts: \<open>machine\<close> (a step
  function that keeps an invariant, so every run keeps it), \<open>monotone_machine\<close> and \<open>simulation\<close>
  (a concrete step function refines an abstract one). \<open>Wire\<close> has the values off the wire and the
  contracts \<open>frame_writer\<close> and \<open>frame_codec\<close> of a frame's encoder and decoder; every frame below
  interprets one of them. \<open>Hex\<close> is \<open>crypto/src/hex.ts\<close>.

  \<^bold>\<open>Sessions and seals.\<close> \<open>Hashing\<close> and \<open>Merkle\<close> model \<open>crypto/src/hashing.ts\<close> and \<open>merkle.ts\<close>:
  the tree built by levels is the recursive tree of RFC 6962, every leaf has a proof that is
  accepted, and an accepted proof that is wrong yields a hash collision. \<open>Session_Tree\<close> is the
  daemon's incremental tree, \<open>Inclusion_Proof\<close> and \<open>Inclusion_Handlers\<close> issue and verify the proof
  of one message. \<open>Structure_Frames\<close> are the signed leaves; \<open>Seal_Checks\<close> and \<open>Seal_Frontier\<close>
  are the checks a daemon makes before it co-signs a root (and the loop of \<open>seal-coordinator.ts\<close> that
  applies the frontier corrections), with \<open>Seal_Claims\<close> (accepted evidence
  holds each sender's leaves as signed) and \<open>Seal_Root_Claims\<close> (an honest certificate is never
  accused). \<open>Retry_Queue\<close> (content waiting to be sent or acknowledged, mirrored in a table, with
  drains suspended in an await and an explicit store of the shared arrays; a restart restores what
  the enqueues whose statements succeeded put there), \<open>Nonce_Dedup\<close>
  (duplicate suppression, refining a window of recent nonces) and \<open>Holder_Registry\<close> (who may act
  as an agent) are the daemon's session state.

  \<^bold>\<open>Documents: governance.\<close> \<open>Document_Proposal\<close> is the genesis, \<open>Document_Handshake\<close> the table of
  proposals and the decisions on them; \<open>Handshake_Claims\<close>: decisions are final, a stored proposal
  is the genesis of its document, nobody takes part without consent. \<open>Document_Multisig\<close> and
  \<open>Document_Amendment\<close> are the signed entries, \<open>Document_Governance\<close> says whose signatures an entry
  takes, and \<open>Document_Derive\<close> folds the entries of a history into the document's state.
  \<open>Derive_Graph\<close> and \<open>Derive_Fold\<close> are the library on graph and fold; \<open>Derive_Properties\<close>,
  \<open>Derive_Claims\<close> and \<open>Derive_Frontier\<close> show that the state is a function of the set of entries,
  that power is rooted in the genesis, that the last admin stays, that a removal dominates what is
  concurrent with it, and that a named frontier fixes its state. \<open>Amendment_Store\<close> is a holder's
  copy of a history: what is recorded is the part of what was received whose ancestry was received
  (a refinement), whatever the order of arrival.

  \<^bold>\<open>Documents: content.\<close> \<open>Document_Update\<close> and \<open>Document_Rejection_Frame\<close> are the frames,
  \<open>Content_Log\<close> the tables, \<open>Content_Chain\<close> the check that each sender's envelopes form one chain,
  \<open>Content_Engine\<close> the replay, \<open>Content_Gate\<close> the trial of an update, \<open>Content_Rejections\<close> the
  refusals, \<open>Content_Inbound\<close> their composition into what becomes of arriving bytes, and publishing.
  \<open>Content_Claims\<close>, \<open>Content_Chain_Claims\<close>, \<open>Content_Gate_Claims\<close> and \<open>Content_Typed\<close> show over
  any arrivals: only authorised and examined content is admitted, the chain and the types of the
  rows are kept, refusals of non-empty updates and admissions are bounded, a refused update is never
  replayed.
  \<open>Content_Claims\<close> and \<open>Content_Publish\<close> also prove sequences in which the pipeline fails.

  \<^bold>\<open>Channels.\<close> \<open>Channel_Formats\<close> are the signed objects; \<open>Channel_Log\<close> is the publisher's log (read
  without gaps; a receipted post is final); \<open>Channel_Inbox\<close> and \<open>Channel_Collector\<close> are the
  subscriber (a collection throws on a stored row of a forked position that does not decode), with
  all collections interleaved at their awaits in \<open>Channel_Collector_Runs\<close>.
  \<open>Channel_Delivery\<close> composes publisher and subscriber: what is published reaches the reader.

  \<^bold>\<open>Gateway.\<close> \<open>Rate_Limit\<close>, \<open>Injection_Windows\<close>, \<open>Outbound_Scan\<close> and \<open>Outbound_Screen\<close> model the
  outbound screening; \<open>Line_LCS\<close> is the line diff shown for documents.

  \<^bold>\<open>Bounds and fuel.\<close> The two recursions over parents of \<open>Document_Derive\<close> carry as fuel the
  number of entries: \<open>Derive_Graph\<close> proves that this is the depth of inclusion at most, and
  \<open>derive_never_throws\<close> that the derivation never reports exhaustion. The walk \<open>deepestLoop\<close> of
  \<open>Content_Gate\<close> carries the number of nested types, which \<open>nesting_walk_is_exact\<close> shows is enough.
  The other loops are structural or have a termination proof. Constants (holder cap, hash rounds,
  rate windows, quarantine rounds) are the code's.

  \<^bold>\<open>Not modelled.\<close> Process start-up, IPC, the database driver and migrations, libp2p transport, the
  command line and adapters: I/O and glue. The session node manager, relay client and the sealing
  ceremony: orchestration of network calls, timers and persistence around the modelled parts. FROST
  and the key and sealing primitives: thin drivers of third-party arithmetic. Inbound screening:
  pattern tables and a third-party classifier (its windows are modelled). The remaining wire frames
  have the shape of the modelled ones.
\<close>

end
